(* ===== verification/Prelude.thy ===== *)
theory Prelude
  imports "HOL-Library.Word"
begin

unbundle bit_operations_syntax

text \<open>
  Shared vocabulary of the development: the widths of the C integer types, the ways a run of
  the kernel can stop short (a failed assertion, a NULL dereference, an index outside a global
  array, a loop that never ends), the sequencing of operations that may stop short, and the
  generic facts on machine words that the components use.
\<close>

section \<open>Machine integers\<close>

type_synonym u8 = "8 word"
type_synonym u16 = "16 word"
type_synonym u32 = "32 word"
type_synonym u64 = "64 word"

section \<open>Runs that stop short\<close>

text \<open>
  The kernel is built with \<open>ENABLE_KERNEL_ASSERTS\<close> on (kernel/CMakeLists.txt), so a failing
  \<open>KERNEL_ASSERT\<close> prints its message and spins for ever: the run has no result. A NULL
  dereference and an index outside a global array are undefined in C, as are a signed overflow and a shift by the width of the type or
  more (\<open>Undefined_arith\<close>), and an access to a page that is not mapped is a page fault. A \<open>while\<close> loop that
  never reaches its exit has no result either. All of these are values of \<open>fault\<close>; an
  operation returns \<open>Inl\<close> of a fault or \<open>Inr\<close> of its result and the new state.
\<close>

datatype fault =
    Assert_failed string
  | Null_deref
  | Out_of_bounds
  | Page_fault
  | Undefined_arith
  | Diverges

type_synonym 'a res = "fault + 'a"

definition rbind :: "'a res \<Rightarrow> ('a \<Rightarrow> 'b res) \<Rightarrow> 'b res" where
  "rbind m f = (case m of Inl e \<Rightarrow> Inl e | Inr x \<Rightarrow> f x)"

lemma rbind_simps [simp]:
  "rbind (Inl e) f = Inl e"
  "rbind (Inr x) f = f x"
  by (simp_all add: rbind_def)

lemma rbind_cong [fundef_cong]:
  "m = m' \<Longrightarrow> (\<And>x. m' = Inr x \<Longrightarrow> f x = f' x) \<Longrightarrow> rbind m f = rbind m' f'"
  by (auto simp: rbind_def split: sum.splits)

lemma rbind_Inr_iff: "rbind m f = Inr r \<longleftrightarrow> (\<exists>x. m = Inr x \<and> f x = Inr r)"
  by (auto simp: rbind_def split: sum.splits)

lemma rbind_assoc: "rbind (rbind m f) g = rbind m (\<lambda>x. rbind (f x) g)"
  by (auto simp: rbind_def split: sum.splits)

text \<open>\<open>KERNEL_ASSERT(condition, message)\<close>\<close>

definition kernel_assert :: "bool \<Rightarrow> string \<Rightarrow> unit res" where
  "kernel_assert c msg = (if c then Inr () else Inl (Assert_failed msg))"

lemma kernel_assert_simps [simp]:
  "c \<Longrightarrow> kernel_assert c msg = Inr ()"
  "\<not> c \<Longrightarrow> kernel_assert c msg = Inl (Assert_failed msg)"
  by (simp_all add: kernel_assert_def)

text \<open>
  A \<open>while\<close> loop whose body follows pointers is a recursion with a step budget. The budget
  exceeds the number of values of a pointer, so a loop over a NULL-terminated list of
  distinct nodes never uses it up and \<open>Diverges\<close> means a loop without end.
\<close>

definition loop_fuel :: nat where
  "loop_fuel = 2 ^ 64"

lemma loop_fuel_pos [simp]: "0 < loop_fuel"
  by (simp add: loop_fuel_def)

lemma distinct_u64_length: "distinct (xs :: u64 list) \<Longrightarrow> length xs \<le> loop_fuel"
proof -
  assume "distinct xs"
  then have "length xs = card (set xs)"
    by (simp add: distinct_card)
  also have "\<dots> \<le> card (UNIV :: u64 set)"
    by (intro card_mono) auto
  also have "\<dots> = 2 ^ 64"
    by (simp add: card_word)
  finally show ?thesis
    by (simp add: loop_fuel_def)
qed

section \<open>Words\<close>

lemma unat_u64_lt: "unat (x :: u64) < 2 ^ 64"
  using unsigned_less [of x, where ?'a = nat] by simp

lemma unat_add_u64:
  "unat a + unat b < 2 ^ 64 \<Longrightarrow> unat ((a :: u64) + b) = unat a + unat b"
  by (subst unat_add_lem [symmetric]) simp

lemma unat_sub_u64: "b \<le> a \<Longrightarrow> unat ((a :: u64) - b) = unat a - unat b"
  by (rule unat_sub)

lemma unat_mult_u64:
  "unat a * unat b < 2 ^ 64 \<Longrightarrow> unat ((a :: u64) * b) = unat a * unat b"
  by (subst unat_mult_lem [symmetric]) simp

lemma unat_2_power_u64: "n < 64 \<Longrightarrow> unat (2 ^ n :: u64) = 2 ^ n"
proof -
  assume "n < 64"
  then have "(2 :: nat) ^ n < 2 ^ 64"
    by (rule power_strict_increasing) simp
  moreover have "(2 ^ n :: u64) = of_nat (2 ^ n)"
    by simp
  ultimately show ?thesis
    by (simp only: unat_of_nat) simp
qed

lemma unat_take_bit_u64: "unat (take_bit n (x :: u64)) = unat x mod 2 ^ n"
  by (simp only: unsigned_take_bit_eq take_bit_nat_def)

lemma unat_and_mask_u64: "unat ((x :: u64) AND mask n) = unat x mod 2 ^ n"
  by (simp only: unat_take_bit_u64 flip: take_bit_eq_mask)

lemma unat_drop_bit_u64: "unat (drop_bit n (x :: u64)) = unat x div 2 ^ n"
  by (simp only: unat_drop_bit_eq drop_bit_nat_def)

lemma unat_of_nat_u64 [simp]: "i < 2 ^ 64 \<Longrightarrow> unat (of_nat i :: u64) = i"
  by (simp add: unat_of_nat)

lemma of_nat_u64_eq_iff: "i < 2 ^ 64 \<Longrightarrow> j < 2 ^ 64 \<Longrightarrow> (of_nat i :: u64) = of_nat j \<longleftrightarrow> i = j"
  by (metis unat_of_nat_u64)

lemma of_nat_less_u64: "i < unat w \<Longrightarrow> (of_nat i :: u64) < w"
  using unat_u64_lt [of w] by (simp only: word_less_nat_alt unat_of_nat_u64 order_less_trans)

lemma unat_minus_u64: "x \<noteq> 0 \<Longrightarrow> unat (- x :: u64) = 2 ^ 64 - unat x"
proof -
  assume "x \<noteq> 0"
  then have pos: "0 < unat x"
    by (simp add: unat_gt_0)
  have "(of_nat (2 ^ 64 - unat x) :: u64) = of_nat (2 ^ 64) - of_nat (unat x)"
    using unat_u64_lt [of x] by (intro of_nat_diff) simp
  also have "\<dots> = - x"
    by simp
  finally have "unat (- x) = unat (of_nat (2 ^ 64 - unat x) :: u64)"
    by simp
  also have "\<dots> = 2 ^ 64 - unat x"
    using pos by (intro unat_of_nat_u64) simp
  finally show ?thesis .
qed

lemma unat_of_small_sint:
  fixes x :: u64
  assumes "0 \<le> sint x"
  shows "unat x = nat (sint x)"
proof -
  have lt: "sint x < 2 ^ 64"
    using sint_lt [of x] by simp
  have "uint x = uint (word_of_int (sint x) :: u64)"
    by simp
  also have "\<dots> = sint x"
    using assms lt by (simp only: uint_word_of_int) simp
  finally show ?thesis
    by (simp only: unat_eq_nat_uint)
qed

text \<open>The first match in two lists one after the other.\<close>

lemma find_append: "find P (xs @ ys) = (case find P xs of None \<Rightarrow> find P ys | Some x \<Rightarrow> Some x)"
  by (induction xs) auto

end
