(* ===== verification/Byte_Memory.thy ===== *)
theory Byte_Memory
  imports Prelude
begin

text \<open>
  Memory as the processor addresses it, one byte at a time, with the little-endian loads and
  stores of wider integers. The theories of code that reads and writes raw structures (the
  string functions of libc, ACPI tables, ELF images, the saved contexts of processes) use it.
\<close>

type_synonym mem = "u64 \<Rightarrow> u8"

primrec load_le :: "nat \<Rightarrow> mem \<Rightarrow> u64 \<Rightarrow> 'a::len word" where
  "load_le 0 m a = 0"
| "load_le (Suc n) m a = ucast (m a) OR push_bit 8 (load_le n m (a + 1))"

primrec store_le :: "nat \<Rightarrow> u64 \<Rightarrow> 'a::len word \<Rightarrow> mem \<Rightarrow> mem" where
  "store_le 0 a v m = m"
| "store_le (Suc n) a v m = store_le n (a + 1) (drop_bit 8 v) (m(a := ucast v))"

definition load16 :: "mem \<Rightarrow> u64 \<Rightarrow> u16" where
  "load16 = load_le 2"

definition load32 :: "mem \<Rightarrow> u64 \<Rightarrow> u32" where
  "load32 = load_le 4"

definition load64 :: "mem \<Rightarrow> u64 \<Rightarrow> u64" where
  "load64 = load_le 8"

definition store32 :: "u64 \<Rightarrow> u32 \<Rightarrow> mem \<Rightarrow> mem" where
  "store32 = store_le 4"

definition store64 :: "u64 \<Rightarrow> u64 \<Rightarrow> mem \<Rightarrow> mem" where
  "store64 = store_le 8"

text \<open>The \<open>n\<close> bytes at an address.\<close>

definition bytes :: "mem \<Rightarrow> u64 \<Rightarrow> nat \<Rightarrow> u8 list" where
  "bytes m a n = map (\<lambda>i. m (a + of_nat i)) [0..<n]"

definition span :: "u64 \<Rightarrow> nat \<Rightarrow> u64 set" where
  "span a n = (\<lambda>i. a + of_nat i) ` {..<n}"

section \<open>Addresses\<close>

lemma length_bytes [simp]: "length (bytes m a n) = n"
  by (simp add: bytes_def)

lemma nth_bytes [simp]: "i < n \<Longrightarrow> bytes m a n ! i = m (a + of_nat i)"
  by (simp add: bytes_def)

lemma bytes_eq_iff: "bytes m a n = bytes m' b n \<longleftrightarrow> (\<forall>i < n. m (a + of_nat i) = m' (b + of_nat i))"
  by (auto simp: list_eq_iff_nth_eq)

lemma bytes_Suc: "bytes m a (Suc n) = m a # bytes m (a + 1) n"
  by (simp add: list_eq_iff_nth_eq nth_Cons add.assoc split: nat.splits)

lemma span_Suc: "span a (Suc n) = insert a (span (a + 1) n)"
  by (simp add: span_def lessThan_Suc_eq_insert_0 image_image add.assoc)

lemma span_0 [simp]: "span a 0 = {}"
  by (simp add: span_def)

lemma in_span_iff:
  "n \<le> 2 ^ 64 \<Longrightarrow> x \<in> span a n \<longleftrightarrow> unat (x - a) < n"
proof -
  assume n: "n \<le> 2 ^ 64"
  have "x = a + of_nat (unat (x - a))"
    by simp
  then have "x \<in> span a n" if "unat (x - a) < n"
    unfolding span_def using that by blast
  moreover have "unat (x - a) < n" if "x \<in> span a n"
    using that n by (auto simp: span_def)
  ultimately show ?thesis
    by blast
qed

lemma span_disjoint:
  assumes "n \<le> unat (b - a)" "k \<le> unat (a - b)" "n \<le> 2 ^ 64" "k \<le> 2 ^ 64"
  shows "span a n \<inter> span b k = {}"
proof (rule ccontr)
  assume "span a n \<inter> span b k \<noteq> {}"
  then obtain i j where ij: "i < n" "j < k" "a + of_nat i = b + of_nat j"
    by (auto simp: span_def)
  then have i: "of_nat i = (b - a) + of_nat j"
    by (simp add: algebra_simps)
  have neg: "unat (a - b) = (if a = b then 0 else 2 ^ 64 - unat (b - a))"
    using unat_minus_u64 [of "b - a"] by simp
  show False
  proof (cases "a = b")
    case True
    then show False using assms ij by simp
  next
    case False
    then have "unat (b - a) + k \<le> 2 ^ 64"
      using neg assms(2) unat_u64_lt [of "b - a"] by simp
    then have "unat ((b - a) + of_nat j) = unat (b - a) + j"
      using ij(2) assms(4) by (subst unat_add_u64) simp_all
    moreover have "unat (of_nat i :: u64) = i"
      using ij(1) assms(3) by simp
    ultimately show False
      using i ij(1) assms(1) by simp
  qed
qed

section \<open>Loads and stores\<close>

lemma store_le_other: "x \<notin> span a n \<Longrightarrow> store_le n a v m x = m x"
  by (induction n arbitrary: a v m) (auto simp: span_Suc)

lemma load_le_cong: "(\<And>x. x \<in> span a n \<Longrightarrow> m x = m' x) \<Longrightarrow> load_le n m a = load_le n m' a"
  by (induction n arbitrary: a) (auto simp: span_Suc)

lemma load_store_le_other:
  "span a n \<inter> span b k = {} \<Longrightarrow> load_le k (store_le n a v m) b = load_le k m b"
  by (rule load_le_cong) (auto intro: store_le_other)

lemma load_store_le:
  "n < 2 ^ 64 \<Longrightarrow> load_le n (store_le n a v m) a = take_bit (8 * n) (v :: 'a::len word)"
proof (induction n arbitrary: a v m)
  case (Suc n)
  have "a \<notin> span (a + 1) n"
  proof
    assume "a \<in> span (a + 1) n"
    then have "unat (a - (a + 1)) < n"
      using Suc.prems by (simp only: in_span_iff)
    then show False
      using Suc.prems by (simp add: unsigned_minus_1_eq_mask mask_eq_exp_minus_1)
  qed
  then have "store_le n (a + 1) (drop_bit 8 v) (m(a := ucast v)) a = ucast v"
    by (simp add: store_le_other)
  then have "load_le (Suc n) (store_le (Suc n) a v m) a =
      ucast (ucast v :: u8) OR push_bit 8 (take_bit (8 * n) (drop_bit 8 v))"
    using Suc by simp
  also have "\<dots> = take_bit (8 * Suc n) v"
    by (rule bit_word_eqI) (auto simp: bit_simps)
  finally show ?case .
qed simp

lemma load64_store64: "load64 (store64 a v m) a = v"
  by (simp add: load64_def store64_def load_store_le take_bit_word_eq_self)

lemma load64_store64_other: "8 \<le> unat (b - a) \<Longrightarrow> 8 \<le> unat (a - b) \<Longrightarrow> load64 (store64 a v m) b = load64 m b"
  unfolding load64_def store64_def by (intro load_store_le_other span_disjoint) simp_all

lemma load64_store64_offset:
  "8 \<le> unat (j - i) \<Longrightarrow> 8 \<le> unat (i - j) \<Longrightarrow> load64 (store64 (a + i) v m) (a + j) = load64 m (a + j)"
  "8 \<le> unat (- i) \<Longrightarrow> 8 \<le> unat i \<Longrightarrow> load64 (store64 (a + i) v m) a = load64 m a"
  "8 \<le> unat (- i) \<Longrightarrow> 8 \<le> unat i \<Longrightarrow> load64 (store64 a v m) (a + i) = load64 m (a + i)"
  by (simp_all add: load64_store64_other)

end
