(* ===== verification/Libc_String.thy ===== *)
theory Libc_String
  imports Byte_Memory
begin

text \<open>
  libc/src/string: the string functions the kernel is linked with. A \<open>char\<close> is signed on
  x86-64, so a byte that is compared or subtracted is its \<open>sint\<close>. The pointer arguments are
  byte addresses; copying is bytewise in the order of the C loops, which is what matters when
  source and destination overlap.
\<close>

section \<open>The functions\<close>

definition memcpy :: "u64 \<Rightarrow> u64 \<Rightarrow> u64 \<Rightarrow> mem \<Rightarrow> mem" where
  "memcpy dest src n = fold (\<lambda>i m. m(dest + of_nat i := m (src + of_nat i))) [0..<unat n]"

definition memmove :: "u64 \<Rightarrow> u64 \<Rightarrow> u64 \<Rightarrow> mem \<Rightarrow> mem" where
  "memmove dest src n =
     (if dest < src then fold (\<lambda>i m. m(dest + of_nat i := m (src + of_nat i))) [0..<unat n]
      else fold (\<lambda>i m. m(dest + (n - of_nat i) := m (src + (n - of_nat i)))) [1..<unat n + 1])"

definition memset :: "u64 \<Rightarrow> 32 word \<Rightarrow> u64 \<Rightarrow> mem \<Rightarrow> mem" where
  "memset str c n = fold (\<lambda>i m. m(str + of_nat i := ucast c)) [0..<unat n]"

fun memcmp_loop :: "mem \<Rightarrow> u64 \<Rightarrow> u64 \<Rightarrow> nat \<Rightarrow> int" where
  "memcmp_loop m c1 c2 0 = 0"
| "memcmp_loop m c1 c2 (Suc n) =
     (if m c1 \<noteq> m c2 then sint (m c1) - sint (m c2) else memcmp_loop m (c1 + 1) (c2 + 1) n)"

definition memcmp :: "mem \<Rightarrow> u64 \<Rightarrow> u64 \<Rightarrow> u64 \<Rightarrow> int" where
  "memcmp m str1 str2 n = memcmp_loop m str1 str2 (unat n)"

fun strcmp_loop :: "nat \<Rightarrow> mem \<Rightarrow> u64 \<Rightarrow> u64 \<Rightarrow> int res" where
  "strcmp_loop 0 m str1 str2 = Inl Diverges"
| "strcmp_loop (Suc k) m str1 str2 =
     (if m str1 \<noteq> 0 \<and> m str1 = m str2 then strcmp_loop k m (str1 + 1) (str2 + 1)
      else Inr (sint (m str1) - sint (m str2)))"

definition strcmp :: "mem \<Rightarrow> u64 \<Rightarrow> u64 \<Rightarrow> int res" where
  "strcmp m str1 str2 = strcmp_loop (Suc loop_fuel) m str1 str2"

section \<open>Copying\<close>

lemma copy_other: "a \<notin> d ` set is \<Longrightarrow> fold (\<lambda>i m. m(d i := m (sr i))) is m a = m a"
  by (induction "is" arbitrary: m) auto

lemma copy_at:
  "distinct (map d is) \<Longrightarrow> sorted_wrt (\<lambda>j k. sr k \<noteq> d j) is \<Longrightarrow> i \<in> set is \<Longrightarrow>
     fold (\<lambda>i m. m(d i := m (sr i))) is m (d i) = m (sr i)"
proof (induction "is" arbitrary: m)
  case (Cons j js)
  show ?case
  proof (cases "i = j")
    case True
    then have "d i \<notin> d ` set js"
      using Cons.prems(1) by simp
    from copy_other [OF this, of sr "m(d j := m (sr j))"] show ?thesis
      by (simp only: True fold_simps fun_upd_same)
  next
    case False
    with Cons.prems have "fold (\<lambda>i m. m(d i := m (sr i))) js (m(d j := m (sr j))) (d i) = (m(d j := m (sr j))) (sr i)"
      by (intro Cons.IH) auto
    moreover have "sr i \<noteq> d j"
      using Cons.prems False by auto
    moreover from this have "(m(d j := m (sr j))) (sr i) = m (sr i)"
      by simp
    ultimately show ?thesis
      by (simp only: fold_simps)
  qed
qed simp

lemma distinct_offsets: "n \<le> 2 ^ 64 \<Longrightarrow> distinct (map (\<lambda>i. a + of_nat i :: u64) [0..<n])"
  by (auto simp: distinct_map inj_on_def of_nat_u64_eq_iff)

lemma span_map: "span a n = set (map (\<lambda>i. a + of_nat i) [0..<n])"
  by (auto simp: span_def)

text \<open>The upward copy, when no byte of the source is overwritten before it is read.\<close>

lemma copy_up:
  fixes m :: mem
  assumes "n \<le> 2 ^ 64" "\<forall>k < n. \<forall>j < k. src + of_nat k \<noteq> dest + (of_nat j :: u64)"
  defines "m' \<equiv> fold (\<lambda>i m. m(dest + of_nat i := m (src + of_nat i))) [0..<n] m"
  shows "bytes m' dest n = bytes m src n \<and> (\<forall>a. a \<notin> span dest n \<longrightarrow> m' a = m a)"
proof -
  have "sorted_wrt (\<lambda>j k. src + of_nat k \<noteq> dest + of_nat j) [0..<n]"
    using assms(2) by (auto simp: sorted_wrt_iff_nth_less)
  then have "m' (dest + of_nat i) = m (src + of_nat i)" if "i < n" for i
    unfolding m'_def using that by (intro copy_at distinct_offsets [OF assms(1)]) auto
  moreover have "m' a = m a" if "a \<notin> span dest n" for a
    unfolding m'_def using that by (intro copy_other) (auto simp: span_map)
  ultimately show ?thesis
    by (simp add: bytes_eq_iff)
qed

lemma offset_below:
  fixes a b :: u64
  assumes "a < b" "unat b + n \<le> 2 ^ 64" "j \<le> k" "k < n"
  shows "b + of_nat k \<noteq> a + of_nat j"
proof -
  have lt: "unat a < unat b"
    using assms(1) by (simp add: word_less_nat_alt)
  have "unat (b + of_nat k) = unat b + k" "unat (a + of_nat j) = unat a + j"
    using assms lt by (simp_all add: unat_add_u64)
  then show ?thesis
    using lt assms(3) by (metis add_less_le_mono nat_neq_iff)
qed

lemma copy_down:
  fixes m :: mem
  assumes "unat dest + unat n \<le> 2 ^ 64" "src \<le> dest"
  defines "m' \<equiv> fold (\<lambda>i m. m(dest + (n - of_nat i) := m (src + (n - of_nat i)))) [1..<unat n + 1] m"
  shows "bytes m' dest (unat n) = bytes m src (unat n) \<and> (\<forall>a. a \<notin> span dest (unat n) \<longrightarrow> m' a = m a)"
proof -
  have off: "n - of_nat i = of_nat (unat n - i)" if "i \<le> unat n" for i
    using that by (simp add: of_nat_diff)
  have n: "unat n < 2 ^ 64"
    by (rule unat_u64_lt)
  have dist: "distinct (map (\<lambda>i. dest + (n - of_nat i)) [1..<unat n + 1])"
  proof (unfold distinct_map, intro conjI inj_onI)
    fix i j assume ij: "i \<in> set [1..<unat n + 1]" "j \<in> set [1..<unat n + 1]"
      "dest + (n - of_nat i) = dest + (n - of_nat j)"
    then have "(of_nat i :: u64) = of_nat j" "i < 2 ^ 64" "j < 2 ^ 64"
      using n by (simp_all del: upt_Suc)
    then show "i = j"
      by (simp only: of_nat_u64_eq_iff)
  qed simp
  have sorted: "sorted_wrt (\<lambda>j k. src + (n - of_nat k) \<noteq> dest + (n - of_nat j)) [1..<unat n + 1]"
  proof (unfold sorted_wrt_iff_nth_less, intro allI impI)
    fix j k assume jk: "j < k" "k < length [1..<unat n + 1]"
    have le: "unat src \<le> unat dest"
      using assms(2) by (simp add: word_le_nat_alt)
    have kn: "k < unat n"
      using jk(2) by (simp del: upt_Suc)
    have "unat (src + of_nat (unat n - Suc k)) = unat src + (unat n - Suc k)"
      "unat (dest + of_nat (unat n - Suc j)) = unat dest + (unat n - Suc j)"
      using jk(1) kn assms(1) le n by (simp_all add: unat_add_u64 del: of_nat_diff)
    moreover have "unat src + (unat n - Suc k) < unat dest + (unat n - Suc j)"
      using jk(1) kn le by auto
    ultimately have "src + of_nat (unat n - Suc k) \<noteq> dest + of_nat (unat n - Suc j)"
      by (metis nat_less_le)
    then show "src + (n - of_nat ([1..<unat n + 1] ! k)) \<noteq> dest + (n - of_nat ([1..<unat n + 1] ! j))"
      using jk by (simp add: nth_upt off del: upt_Suc)
  qed
  have "m' (dest + of_nat i) = m (src + of_nat i)" if "i < unat n" for i
  proof -
    have "m' (dest + (n - of_nat (unat n - i))) = m (src + (n - of_nat (unat n - i)))"
      unfolding m'_def using that by (intro copy_at dist sorted) auto
    moreover have "n - of_nat (unat n - i) = of_nat i"
      using off [of "unat n - i"] that by simp
    ultimately show ?thesis
      by (simp only:)
  qed
  moreover have "m' a = m a" if "a \<notin> span dest (unat n)" for a
  proof -
    have "a \<notin> (\<lambda>i. dest + (n - of_nat i)) ` set [1..<unat n + 1]"
    proof
      assume "a \<in> (\<lambda>i. dest + (n - of_nat i)) ` set [1..<unat n + 1]"
      then obtain i where i: "a = dest + (n - of_nat i)" "1 \<le> i" "i \<le> unat n"
        by auto
      have "a = dest + of_nat (unat n - i)"
        by (simp only: i(1) off [OF i(3)])
      moreover have "unat n - i < unat n"
        using i by simp
      ultimately show False
        using that unfolding span_def by blast
    qed
    then show ?thesis
      unfolding m'_def by (rule copy_other)
  qed
  ultimately show ?thesis
    by (simp add: bytes_eq_iff)
qed


section \<open>The properties\<close>

lemma memmove_ok:
  assumes "unat dest + unat n \<le> 2 ^ 64" and "unat src + unat n \<le> 2 ^ 64"
  shows "bytes (memmove dest src n m) dest (unat n) = bytes m src (unat n) \<and>
    (\<forall>a. a \<notin> span dest (unat n) \<longrightarrow> memmove dest src n m a = m a)"
proof (cases "dest < src")
  case True
  have "\<forall>k < unat n. \<forall>j < k. src + of_nat k \<noteq> dest + (of_nat j :: u64)"
    using offset_below [OF True assms(2)] by simp
  with True copy_up [of "unat n" src dest m] unat_u64_lt [of n] show ?thesis
    by (simp add: memmove_def)
next
  case False
  then have "src \<le> dest"
    by simp
  moreover have "memmove dest src n = fold (\<lambda>i m. m(dest + (n - of_nat i) := m (src + (n - of_nat i)))) [1..<unat n + 1]"
    unfolding memmove_def using False by (simp only: if_False)
  ultimately show ?thesis
    using copy_down [OF assms(1), of src m] by (simp del: upt_Suc)
qed

text \<open>
  C21. \<open>memmove\<close> leaves the old bytes of the source at the destination, for overlapping areas
  too, and no other byte changes.
\<close>

theorem memmove_moves:
  assumes "unat dest + unat n \<le> 2 ^ 64" and "unat src + unat n \<le> 2 ^ 64"
  shows "bytes (memmove dest src n m) dest (unat n) = bytes m src (unat n) \<and>
    (\<forall>a. a \<notin> span dest (unat n) \<longrightarrow> memmove dest src n m a = m a)"
  by (rule memmove_ok [OF assms])

text \<open>
  C22. \<open>memcpy\<close> does what \<open>memmove\<close> does whenever the destination does not lie above the start
  of the source inside it; then the upward copy reads no byte it has already overwritten.
\<close>

theorem memcpy_memmove:
  assumes "unat dest + unat n \<le> 2 ^ 64" and "unat src + unat n \<le> 2 ^ 64"
    and "dest \<le> src \<or> unat src + unat n \<le> unat dest"
  shows "memcpy dest src n m = memmove dest src n m"
proof (cases "dest = src")
  case True
  have "fold (\<lambda>i m. m(dest + of_nat i := m (dest + of_nat i))) is m = m" for "is"
    by (induction "is") auto
  moreover have "fold (\<lambda>i m. m(dest + (n - of_nat i) := m (dest + (n - of_nat i)))) is m = m" for "is"
    by (induction "is") auto
  ultimately show ?thesis
    using True by (simp add: memcpy_def memmove_def)
next
  case ne: False
  have "src + of_nat k \<noteq> dest + (of_nat j :: u64)" if "k < unat n" "j < k" for k j
  proof (cases "dest < src")
    case True
    with offset_below [OF True assms(2)] that show ?thesis
      by simp
  next
    case False
    then have le: "unat src + unat n \<le> unat dest"
      using assms(3) ne by auto
    have "unat (src + of_nat k) = unat src + k" "unat (dest + of_nat j) = unat dest + j"
      using that assms(1,2) by (simp_all add: unat_add_u64)
    with le that have "unat (src + of_nat k) < unat (dest + of_nat j)"
      by linarith
    then show ?thesis
      by auto
  qed
  then have up: "bytes (memcpy dest src n m) dest (unat n) = bytes m src (unat n) \<and>
      (\<forall>a. a \<notin> span dest (unat n) \<longrightarrow> memcpy dest src n m a = m a)"
    using copy_up [of "unat n" src dest m] unat_u64_lt [of n] by (simp add: memcpy_def)
  note mv = memmove_ok [OF assms(1,2), of m]
  show ?thesis
  proof
    fix a
    show "memcpy dest src n m a = memmove dest src n m a"
    proof (cases "a \<in> span dest (unat n)")
      case True
      then obtain i where "a = dest + of_nat i" "i < unat n"
        by (auto simp: span_def)
      with up mv show ?thesis
        by (simp add: bytes_eq_iff)
    next
      case False
      with up mv show ?thesis
        by simp
    qed
  qed
qed


theorem memmove_moves_witness:
  "let m = (\<lambda>a. ucast a) :: mem in bytes (memmove 0x1002 0x1000 4 m) 0x1002 4 = [0, 1, 2, 3]"
proof -
  have "bytes (memmove 0x1002 0x1000 4 ucast) 0x1002 (unat (4 :: u64)) = bytes ucast 0x1000 (unat (4 :: u64))"
    by (rule conjunct1 [OF memmove_moves]) simp_all
  moreover have "bytes ucast 0x1000 4 = [0, 1, 2, 3]"
    by code_simp
  ultimately show ?thesis
    by simp
qed

theorem memcpy_memmove_witness: "memcpy 0x1000 0x1002 4 ucast = memmove 0x1000 0x1002 4 ucast"
  by (rule memcpy_memmove) simp_all

text \<open>
  \<open>memset\<close> sets the \<open>n\<close> bytes to the low byte of \<open>c\<close> and no other byte.
\<close>

lemma memset_sets: "memset str c n m a = (if unat (a - str) < unat n then ucast c else m a)"
proof -
  have "fold (\<lambda>i m. m(str + of_nat i := x)) is m a = (if a \<in> (\<lambda>i. str + of_nat i) ` set is then x else m a)"
    for "is" and x :: u8
    by (induction "is" arbitrary: m) auto
  then have "memset str c n m a = (if a \<in> span str (unat n) then ucast c else m a)"
    by (simp add: memset_def span_map)
  moreover have "unat n \<le> 2 ^ 64"
    using unat_u64_lt [of n] by simp
  ultimately show ?thesis
    by (simp only: in_span_iff)
qed

section \<open>Comparing\<close>

text \<open>The reference: the difference of the first pair of signed characters that differ.\<close>

fun compare_chars :: "u8 list \<Rightarrow> u8 list \<Rightarrow> int" where
  "compare_chars (x # xs) (y # ys) = (if x \<noteq> y then sint x - sint y else compare_chars xs ys)"
| "compare_chars _ _ = 0"

lemma sint_eq_iff: "sint x = sint y \<longleftrightarrow> x = y"
  by (auto intro: signed_word_eqI)

lemma compare_chars_eq: "length xs = length ys \<Longrightarrow> compare_chars xs ys = 0 \<longleftrightarrow> xs = ys"
  by (induction xs ys rule: compare_chars.induct) (auto simp: sint_eq_iff)

lemma memcmp_loop_compare: "memcmp_loop m a b n = compare_chars (bytes m a n) (bytes m b n)"
  by (induction m a b n rule: memcmp_loop.induct) (simp_all add: bytes_Suc, simp add: bytes_def)

text \<open>
  \<open>memcmp\<close> is 0 exactly for equal areas, and otherwise the difference of the first pair of
  bytes that differ, read as signed characters: a byte from 128 on counts as less than an
  ASCII byte, where the C standard compares \<open>unsigned char\<close>.
\<close>

theorem memcmp_compares:
  "memcmp m a b n = compare_chars (bytes m a (unat n)) (bytes m b (unat n)) \<and>
   (memcmp m a b n = 0 \<longleftrightarrow> bytes m a (unat n) = bytes m b (unat n)) \<and>
   memcmp ((\<lambda>_. 0)(0 := 0x80, 1 := 0x7f)) 0 1 1 < 0"
proof (intro conjI)
  show "memcmp ((\<lambda>_. 0)(0 := 0x80, 1 := 0x7f)) 0 1 1 < 0"
    by code_simp
qed (simp_all add: memcmp_def memcmp_loop_compare compare_chars_eq)

text \<open>A NUL-terminated string.\<close>

definition cstr :: "mem \<Rightarrow> u64 \<Rightarrow> u8 list \<Rightarrow> bool" where
  "cstr m a xs \<longleftrightarrow> bytes m a (length xs) = xs \<and> 0 \<notin> set xs \<and> m (a + of_nat (length xs)) = 0"

lemma cstr_simps:
  "cstr m a [] \<longleftrightarrow> m a = 0"
  "cstr m a (x # xs) \<longleftrightarrow> m a = x \<and> x \<noteq> 0 \<and> cstr m (a + 1) xs"
  by (auto simp: cstr_def bytes_Suc) (auto simp: bytes_def add.assoc)

lemma cstr_length:
  assumes "cstr m a xs"
  shows "length xs < 2 ^ 64"
proof (rule ccontr)
  assume "\<not> length xs < 2 ^ 64"
  then have i: "length xs mod 2 ^ 64 < length xs"
    by (meson mod_less_divisor not_le_imp_less order_less_le_trans zero_less_numeral zero_less_power)
  have "(of_nat (length xs mod 2 ^ 64) :: u64) = of_nat (length xs)"
    by (simp add: word_unat_eq_iff unat_of_nat take_bit_nat_def)
  then have "m (a + of_nat (length xs mod 2 ^ 64)) = 0"
    using assms by (simp add: cstr_def)
  moreover have "bytes m a (length xs) ! (length xs mod 2 ^ 64) \<in> set xs"
    using nth_mem [OF i] assms unfolding cstr_def by metis
  ultimately show False
    using assms nth_bytes [OF i, of m a] by (simp add: cstr_def)
qed

lemma strcmp_loop_compare:
  "cstr m a xs \<Longrightarrow> cstr m b ys \<Longrightarrow> length xs < k \<Longrightarrow>
     strcmp_loop k m a b = Inr (compare_chars (xs @ [0]) (ys @ [0]))"
proof (induction k m a b arbitrary: xs ys rule: strcmp_loop.induct)
  case (2 k m a b)
  then show ?case
    by (cases xs; cases ys) (auto simp: cstr_simps)
qed simp

lemma compare_cstr: "0 \<notin> set xs \<Longrightarrow> 0 \<notin> set ys \<Longrightarrow> compare_chars (xs @ [0]) (ys @ [0]) = 0 \<longleftrightarrow> xs = ys"
proof (induction xs arbitrary: ys)
  case Nil
  then show ?case
    by (cases ys) (auto simp: signed_eq_0_iff)
next
  case (Cons x xs)
  then show ?case
    by (cases ys) (auto simp: signed_eq_0_iff sint_eq_iff)
qed

text \<open>
  C23. \<open>strcmp\<close> of two NUL-terminated strings returns: 0 exactly when they are equal, and
  otherwise the difference of the first characters that differ, the NUL included.
\<close>

theorem strcmp_terminates:
  assumes "cstr m a xs" and "cstr m b ys"
  shows "\<exists>r. strcmp m a b = Inr r \<and> r = compare_chars (xs @ [0]) (ys @ [0]) \<and> (r = 0 \<longleftrightarrow> xs = ys)"
proof -
  have "length xs < Suc loop_fuel"
    using cstr_length [OF assms(1)] by (simp add: loop_fuel_def)
  from strcmp_loop_compare [OF assms this] compare_cstr [of xs ys] assms show ?thesis
    by (simp add: strcmp_def cstr_def)
qed

theorem strcmp_terminates_witness:
  "strcmp ((\<lambda>_. 0)(0 := 65, 8 := 65, 9 := 66)) 0 8 = Inr (- 66)"
  using strcmp_terminates [of "(\<lambda>_. 0)(0 := 65, 8 := 65, 9 := 66)" 0 "[65]" 8 "[65, 66]"]
  by (simp add: cstr_simps)

end
