(* ===== verification/Util.thy ===== *)
theory Util
  imports Prelude
begin

text \<open>
  kernel/src/util.c and kernel/include/util.h, with the page size of
  kernel/include/memory/defs.h: rounding, range checks, the \<open>MIN\<close> and \<open>MAX\<close> macros on
  \<open>uint64_t\<close>, and the compiler's \<open>__builtin_clzll\<close>, which the allocator and the renderer
  call on non-zero arguments.
\<close>

section \<open>Model\<close>

definition PAGE_SIZE :: u64 where
  "PAGE_SIZE = 0x1000"

definition MAX_u64 :: "u64 \<Rightarrow> u64 \<Rightarrow> u64" where
  "MAX_u64 a b = (if a > b then a else b)"

definition MIN_u64 :: "u64 \<Rightarrow> u64 \<Rightarrow> u64" where
  "MIN_u64 a b = (if a < b then a else b)"

definition round_up_to_multiple :: "u64 \<Rightarrow> u64 \<Rightarrow> u64" where
  "round_up_to_multiple n m = ((n + m - 1) div m) * m"

definition bound_contains :: "u64 \<Rightarrow> u64 \<Rightarrow> u64 \<Rightarrow> bool" where
  "bound_contains x lower upper \<longleftrightarrow> lower \<le> x \<and> x < upper"

definition range_contains :: "u64 \<Rightarrow> u64 \<Rightarrow> u64 \<Rightarrow> bool" where
  "range_contains x lower sz = bound_contains x lower (lower + sz)"

text \<open>The number of binary digits of a number, and the leading zeros of a 64-bit word.\<close>

fun bit_length :: "nat \<Rightarrow> nat" where
  "bit_length n = (if n = 0 then 0 else Suc (bit_length (n div 2)))"

declare bit_length.simps [simp del]

definition clzll :: "u64 \<Rightarrow> nat" where
  "clzll x = 64 - bit_length (unat x)"

section \<open>Bit length\<close>

lemma bit_length_0 [simp]: "bit_length 0 = 0"
  by (simp add: bit_length.simps)

lemma bit_length_pos: "0 < n \<Longrightarrow> bit_length n = Suc (bit_length (n div 2))"
  by (simp add: bit_length.simps)

lemma bit_length_le_iff: "bit_length n \<le> k \<longleftrightarrow> n < 2 ^ k"
proof (induction n arbitrary: k rule: bit_length.induct)
  case (1 n)
  show ?case
  proof (cases "n = 0")
    case False
    then have IH: "\<And>k. bit_length (n div 2) \<le> k \<longleftrightarrow> n div 2 < 2 ^ k"
      using 1 by simp
    show ?thesis
    proof (cases k)
      case (Suc j)
      have "n div 2 < 2 ^ j \<longleftrightarrow> n < 2 ^ Suc j"
        by (auto simp: less_mult_imp_div_less div_less_iff_less_mult mult.commute)
      with False IH [of j] Suc show ?thesis
        by (simp add: bit_length_pos)
    qed (use False in \<open>simp add: bit_length_pos\<close>)
  qed simp
qed

lemma bit_length_le_64: "bit_length (unat (x :: u64)) \<le> 64"
  using unat_u64_lt [of x] by (simp only: bit_length_le_iff)

lemma clzll_le: "clzll x \<le> 64" and sixty_four_minus_clzll: "64 - clzll x = bit_length (unat x)"
  using bit_length_le_64 [of x] by (auto simp: clzll_def)

section \<open>Ranges and rounding\<close>

lemma unat_PAGE_SIZE [simp]: "unat PAGE_SIZE = 4096"
  by (simp add: PAGE_SIZE_def)

lemma range_contains_iff:
  assumes "unat lower + unat sz < 2 ^ 64"
  shows "range_contains x lower sz \<longleftrightarrow> unat lower \<le> unat x \<and> unat x < unat lower + unat sz"
  using assms
  by (simp add: range_contains_def bound_contains_def word_le_nat_alt word_less_nat_alt unat_add_u64)

lemma unat_round_up_to_multiple:
  assumes m: "m \<noteq> 0" and no_wrap: "unat n + unat m \<le> 2 ^ 64"
  shows "unat (round_up_to_multiple n m) = ((unat n + unat m - 1) div unat m) * unat m"
proof -
  have m0: "0 < unat m"
    using m by (simp add: unat_gt_0)
  have eq: "n + m - 1 = n + (m - 1)"
    by simp
  have m1: "unat (m - 1) = unat m - 1"
    using m by (simp add: unat_minus_one)
  have sum: "unat (n + (m - 1)) = unat n + unat m - 1"
    using no_wrap m0 by (subst unat_add_u64) (auto simp: m1)
  have "((unat n + unat m - 1) div unat m) * unat m \<le> unat n + unat m - 1"
    by (rule div_times_less_eq_dividend)
  also have "\<dots> < 2 ^ 64"
    using no_wrap m0 by linarith
  finally have "unat ((n + (m - 1)) div m) * unat m < 2 ^ 64"
    by (simp add: unat_div sum)
  then show ?thesis
    by (simp add: round_up_to_multiple_def eq unat_mult_u64 unat_div sum)
qed

end
