(* ===== verification/Uefi.thy ===== *)
theory Uefi
  imports Util
begin

text \<open>
  kernel/include/uefi.h: the memory map the firmware hands over. The kernel walks the
  descriptor buffer with the firmware's stride \<open>desc_size\<close>; the model is the list of the
  descriptors the walk visits, in buffer order.
\<close>

datatype UEFIMemoryType =
    EfiReservedMemoryType
  | EfiLoaderCode
  | EfiLoaderData
  | EfiBootServicesCode
  | EfiBootServicesData
  | EfiRuntimeServicesCode
  | EfiRuntimeServicesData
  | EfiConventionalMemory
  | EfiUnusableMemory
  | EfiACPIReclaimMemory
  | EfiACPIMemoryNVS
  | EfiMemoryMappedIO
  | EfiMemoryMappedIOPortSpace
  | EfiPalCode
  | EfiMaxMemoryType

record UEFIMemoryDescriptor =
  mtype :: UEFIMemoryType
  physical_start :: u64
  virtual_start :: u64
  num_pages :: u64
  attribute :: u64

type_synonym UEFIMemoryMap = "UEFIMemoryDescriptor list"

end
