(* ===== verification/Acpi.thy ===== *)
theory Acpi
  imports Libc_String Uefi
begin

text \<open>
  kernel/src/acpi.c: the firmware's tables, read byte by byte from the kernel's memory \<open>m\<close>, in
  which \<open>kmap\<close>, the paging code's \<open>kmap_phys_range\<close>, has mapped the pages of the ACPI regions.
  \<open>g_remap_list\<close> with \<open>g_remap_count\<close> is the list of its entries.
\<close>

section \<open>Tables\<close>

text \<open>Offsets of the packed structs \<open>ACPISDTHeader\<close> and \<open>RSDP\<close>.\<close>

definition sizeof_ACPISDTHeader :: u64 where
  "sizeof_ACPISDTHeader = 36"

definition sdt_length :: "mem \<Rightarrow> u64 \<Rightarrow> u32" where
  "sdt_length m sdt = load32 m (sdt + 4)"

definition rsdp_xsdt_phys_addr :: "mem \<Rightarrow> u64 \<Rightarrow> u64" where
  "rsdp_xsdt_phys_addr m rsdp = load64 m (rsdp + 24)"

text \<open>\<open>memcmp(p, s, n)\<close> with a string literal of \<open>n\<close> characters.\<close>

definition memcmp_literal :: "mem \<Rightarrow> u64 \<Rightarrow> string \<Rightarrow> int" where
  "memcmp_literal m p sig = compare_chars (bytes m p (length sig)) (map of_char sig)"

definition sum_bytes :: "mem \<Rightarrow> u64 \<Rightarrow> nat list \<Rightarrow> u8 \<Rightarrow> u8" where
  "sum_bytes m a = fold (\<lambda>i sum. sum + m (a + of_nat i))"

definition sdt_is_valid :: "mem \<Rightarrow> u64 \<Rightarrow> string \<Rightarrow> bool" where
  "sdt_is_valid m sdt sig =
     (if memcmp_literal m sdt sig \<noteq> 0 then False else sum_bytes m sdt [0..<unat (sdt_length m sdt)] 0 = 0)"

section \<open>The remapped regions\<close>

record ACPIMemRemap =
  remap_phys :: u64
  remap_virt :: u64
  remap_size :: u64

definition is_acpi_memory :: "UEFIMemoryDescriptor \<Rightarrow> bool" where
  "is_acpi_memory desc \<longleftrightarrow> mtype desc = EfiACPIMemoryNVS \<or> mtype desc = EfiACPIReclaimMemory"

definition count_acpi_entries :: "UEFIMemoryMap \<Rightarrow> u64" where
  "count_acpi_entries mm = fold (\<lambda>desc n. if is_acpi_memory desc then n + 1 else n) mm 0"

fun store_remaps ::
    "(u64 \<Rightarrow> u64 \<Rightarrow> u32 \<Rightarrow> 'k \<Rightarrow> (u64 \<times> 'k) res) \<Rightarrow> UEFIMemoryMap \<Rightarrow> ACPIMemRemap list \<times> 'k
     \<Rightarrow> (ACPIMemRemap list \<times> 'k) res" where
  "store_remaps kmap [] (remaps, k) = Inr (remaps, k)"
| "store_remaps kmap (desc # mm) (remaps, k) =
     (if \<not> is_acpi_memory desc then store_remaps kmap mm (remaps, k)
      else
        rbind (kmap (physical_start desc) (num_pages desc) 0 k) (\<lambda>(virt, k).
          store_remaps kmap mm
            (remaps @ [\<lparr>remap_phys = physical_start desc, remap_virt = virt, remap_size = num_pages desc * PAGE_SIZE\<rparr>], k)))"

text \<open>\<open>ka\<close> is the kernel's \<open>kalloc\<close>; an \<open>ACPIMemRemap\<close> has 24 bytes.\<close>

definition prepare_acpi_memory ::
    "(u64 \<Rightarrow> 'k \<Rightarrow> (u64 \<times> 'k) res) \<Rightarrow> (u64 \<Rightarrow> u64 \<Rightarrow> u32 \<Rightarrow> 'k \<Rightarrow> (u64 \<times> 'k) res) \<Rightarrow> UEFIMemoryMap \<Rightarrow> 'k
     \<Rightarrow> (ACPIMemRemap list \<times> 'k) res" where
  "prepare_acpi_memory ka kmap mm k =
     rbind (ka (count_acpi_entries mm * 24) k) (\<lambda>(list_ptr, k).
     rbind (kernel_assert (list_ptr \<noteq> 0) ''Out of memory'') (\<lambda>_. store_remaps kmap mm ([], k)))"

fun get_virtual_acpi_address :: "ACPIMemRemap list \<Rightarrow> u64 \<Rightarrow> u64" where
  "get_virtual_acpi_address [] physical = 0"
| "get_virtual_acpi_address (e # remaps) physical =
     (if range_contains physical (remap_phys e) (remap_size e) then remap_virt e - remap_phys e + physical
      else get_virtual_acpi_address remaps physical)"

section \<open>Finding tables\<close>

text \<open>A table that is not in a remapped region has the virtual address 0, which \<open>memcmp\<close> reads.\<close>

fun find_table_loop :: "mem \<Rightarrow> ACPIMemRemap list \<Rightarrow> u64 \<Rightarrow> string \<Rightarrow> nat \<Rightarrow> u64 \<Rightarrow> u64 res" where
  "find_table_loop m remaps xsdt_arr sig 0 i = Inr 0"
| "find_table_loop m remaps xsdt_arr sig (Suc n) i =
     (let header = get_virtual_acpi_address remaps (load64 m (xsdt_arr + 8 * i)) in
      if header = 0 then Inl Null_deref
      else if memcmp_literal m header sig = 0 then Inr header
      else find_table_loop m remaps xsdt_arr sig n (i + 1))"

definition find_table :: "mem \<Rightarrow> ACPIMemRemap list \<Rightarrow> u64 \<Rightarrow> string \<Rightarrow> u64 res" where
  "find_table m remaps g_xsdt sig =
     (let entries = (ucast (sdt_length m g_xsdt) - sizeof_ACPISDTHeader) div 8 in
      find_table_loop m remaps (g_xsdt + sizeof_ACPISDTHeader) sig (unat entries) 0)"

section \<open>Initialization\<close>

text \<open>The result is \<open>g_xsdt\<close>.\<close>

definition initialize_acpi :: "mem \<Rightarrow> ACPIMemRemap list \<Rightarrow> u64 \<Rightarrow> u64 res" where
  "initialize_acpi m remaps rsdp_ptr =
     (let rsdp = get_virtual_acpi_address remaps rsdp_ptr in
      rbind (kernel_assert (rsdp \<noteq> 0) ''RSDP VIRTUAL ADDRESS NOT FOUND'') (\<lambda>_.
      rbind (kernel_assert (memcmp_literal m rsdp ''RSD PTR '' = 0) ''INVALID RSDP SIGNATURE'') (\<lambda>_.
      let sum = sum_bytes m rsdp [0..<20] 0 in
      rbind (kernel_assert (sum = 0) ''INVALID RSDP'') (\<lambda>_.
      let sum = sum_bytes m rsdp [20..<36] sum in
      rbind (kernel_assert (sum = 0) ''INVALID RSDP'') (\<lambda>_.
      let g_xsdt = get_virtual_acpi_address remaps (rsdp_xsdt_phys_addr m rsdp) in
      rbind (kernel_assert (g_xsdt \<noteq> 0) ''XSDT VIRTUAL ADDRESS NOT FOUND'') (\<lambda>_.
      rbind (kernel_assert (sdt_is_valid m g_xsdt ''XSDT'') ''INVALID XSDT'') (\<lambda>_. Inr g_xsdt)))))))"

end
