(* ===== verification/Acpi_Properties.thy ===== *)
theory Acpi_Properties
  imports Acpi
begin

text \<open>
  The remapped ACPI regions as a translation of addresses, and the search for a table as the first
  one of a list with its signature.
\<close>

definition remap_of :: "(u64 \<Rightarrow> u64 \<Rightarrow> u32 \<Rightarrow> 'k \<Rightarrow> (u64 \<times> 'k) res) \<Rightarrow> UEFIMemoryDescriptor \<Rightarrow> ACPIMemRemap \<Rightarrow> bool" where
  "remap_of kmap desc e \<longleftrightarrow> remap_phys e = physical_start desc \<and> remap_size e = num_pages desc * PAGE_SIZE \<and>
     (\<exists>k k'. kmap (physical_start desc) (num_pages desc) 0 k = Inr (remap_virt e, k'))"

lemma store_remaps_regions:
  "store_remaps kmap mm (remaps, k) = Inr (remaps', k') \<Longrightarrow>
     \<exists>es. remaps' = remaps @ es \<and> list_all2 (remap_of kmap) (filter is_acpi_memory mm) es"
proof (induction mm arbitrary: remaps k)
  case (Cons desc mm)
  show ?case
  proof (cases "is_acpi_memory desc")
    case True
    then obtain virt k1 where virt: "kmap (physical_start desc) (num_pages desc) 0 k = Inr (virt, k1)"
      "store_remaps kmap mm (remaps @ [\<lparr>remap_phys = physical_start desc, remap_virt = virt, remap_size = num_pages desc * PAGE_SIZE\<rparr>], k1) = Inr (remaps', k')"
      using Cons.prems by (auto simp: rbind_Inr_iff)
    from Cons.IH [OF virt(2)] obtain es where es:
      "remaps' = remaps @ \<lparr>remap_phys = physical_start desc, remap_virt = virt, remap_size = num_pages desc * PAGE_SIZE\<rparr> # es"
      "list_all2 (remap_of kmap) (filter is_acpi_memory mm) es"
      by auto
    have "remap_of kmap desc \<lparr>remap_phys = physical_start desc, remap_virt = virt, remap_size = num_pages desc * PAGE_SIZE\<rparr>"
      using virt(1) by (auto simp: remap_of_def)
    with es True show ?thesis
      by auto
  next
    case False
    with Cons show ?thesis
      by simp
  qed
qed simp

definition in_region :: "u64 \<Rightarrow> UEFIMemoryDescriptor \<Rightarrow> bool" where
  "in_region p desc \<longleftrightarrow> range_contains p (physical_start desc) (num_pages desc * PAGE_SIZE)"

lemma get_virtual_regions:
  "list_all2 (remap_of kmap) descs es \<Longrightarrow>
     (case find (in_region p) descs of
        None \<Rightarrow> get_virtual_acpi_address es p = 0
      | Some desc \<Rightarrow> \<exists>virt k k'. kmap (physical_start desc) (num_pages desc) 0 k = Inr (virt, k') \<and>
          get_virtual_acpi_address es p = virt + (p - physical_start desc))"
proof (induction descs es rule: list_all2_induct)
  case (Cons d ds e es)
  show ?case
  proof (cases "in_region p d")
    case True
    with Cons(1) show ?thesis
      by (auto simp: remap_of_def in_region_def algebra_simps)
  next
    case False
    with Cons(1) have "get_virtual_acpi_address (e # es) p = get_virtual_acpi_address es p" "find (in_region p) (d # ds) = find (in_region p) ds"
      by (auto simp: remap_of_def in_region_def)
    with Cons(3) show ?thesis
      by (simp only:)
  qed
qed simp

text \<open>
  C37. After \<open>prepare_acpi_memory\<close> there is one remapped region for each ACPI region of the memory
  map, and a physical address in an ACPI region translates to the same offset in the pages the
  region was mapped at; all other addresses translate to 0.
\<close>

theorem prepare_acpi_memory_translates:
  assumes "prepare_acpi_memory ka kmap mm k = Inr (remaps, k')"
  shows "length remaps = length (filter is_acpi_memory mm) \<and>
    (case find (in_region p) (filter is_acpi_memory mm) of
       None \<Rightarrow> get_virtual_acpi_address remaps p = 0
     | Some desc \<Rightarrow> \<exists>virt k k'. kmap (physical_start desc) (num_pages desc) 0 k = Inr (virt, k') \<and>
         get_virtual_acpi_address remaps p = virt + (p - physical_start desc))"
proof -
  from assms obtain k1 where "store_remaps kmap mm ([], k1) = Inr (remaps, k')"
    by (auto simp: prepare_acpi_memory_def rbind_Inr_iff)
  from store_remaps_regions [OF this] have "list_all2 (remap_of kmap) (filter is_acpi_memory mm) remaps"
    by simp
  from get_virtual_regions [OF this] list_all2_lengthD [OF this] show ?thesis
    by simp
qed

definition example_map :: UEFIMemoryMap where
  "example_map = [\<lparr>mtype = EfiConventionalMemory, physical_start = 0x100000, virtual_start = 0, num_pages = 16, attribute = 0\<rparr>,
     \<lparr>mtype = EfiACPIReclaimMemory, physical_start = 0x7000, virtual_start = 0, num_pages = 2, attribute = 0\<rparr>]"

theorem prepare_acpi_memory_translates_witness:
  "\<exists>remaps k'. prepare_acpi_memory (\<lambda>_ k. Inr (0x10, k)) (\<lambda>phys _ _ k. Inr (phys + 0xf0000, k)) example_map () = Inr (remaps, k') \<and>
     get_virtual_acpi_address remaps 0x8123 = 0xf8123 \<and> get_virtual_acpi_address remaps 0x100000 = 0"
proof -
  have acpi: "filter is_acpi_memory example_map = [\<lparr>mtype = EfiACPIReclaimMemory, physical_start = 0x7000, virtual_start = 0, num_pages = 2, attribute = 0\<rparr>]"
    by (simp add: example_map_def is_acpi_memory_def)
  obtain remaps k' where run: "prepare_acpi_memory (\<lambda>_ k. Inr (0x10, k)) (\<lambda>phys _ _ k. Inr (phys + 0xf0000, k)) example_map () = Inr (remaps, k')"
    by (simp add: prepare_acpi_memory_def example_map_def is_acpi_memory_def)
  from prepare_acpi_memory_translates [OF run, of "0x8123"] prepare_acpi_memory_translates [OF run, of "0x100000"] run show ?thesis
    by (auto simp: acpi in_region_def range_contains_def bound_contains_def PAGE_SIZE_def)
qed

definition table_headers_of :: "mem \<Rightarrow> ACPIMemRemap list \<Rightarrow> u64 \<Rightarrow> u64 list" where
  "table_headers_of m remaps g_xsdt =
     map (\<lambda>i. get_virtual_acpi_address remaps (load64 m (g_xsdt + 36 + 8 * of_nat i)))
       [0..<unat ((ucast (sdt_length m g_xsdt) - 36) div 8 :: u64)]"

lemma memcmp_literal_iff: "memcmp_literal m p sig = 0 \<longleftrightarrow> bytes m p (length sig) = map of_char sig"
  by (simp add: memcmp_literal_def compare_chars_eq)

lemma find_table_loop_find:
  assumes "0 \<notin> set (map (\<lambda>j. get_virtual_acpi_address remaps (load64 m (arr + 8 * (i + of_nat j)))) [0..<n])"
  shows "find_table_loop m remaps arr sig n i = Inr (case find (\<lambda>h. memcmp_literal m h sig = 0)
      (map (\<lambda>j. get_virtual_acpi_address remaps (load64 m (arr + 8 * (i + of_nat j)))) [0..<n]) of Some h \<Rightarrow> h | None \<Rightarrow> 0)"
  using assms
proof (induction n arbitrary: i)
  case (Suc n)
  have up: "map (\<lambda>j. f (i + of_nat j)) [0..<Suc n] = f i # map (\<lambda>j. f (i + 1 + of_nat j)) [0..<n]" for f :: "u64 \<Rightarrow> u64"
    by (simp add: upt_conv_Cons map_Suc_upt [symmetric] comp_def add.assoc del: upt_Suc map_Suc_upt)
  note up' = up [of "\<lambda>x. get_virtual_acpi_address remaps (load64 m (arr + 8 * x))"]
  have "find_table_loop m remaps arr sig n (i + 1) = Inr (case find (\<lambda>h. memcmp_literal m h sig = 0)
      (map (\<lambda>j. get_virtual_acpi_address remaps (load64 m (arr + 8 * (i + 1 + of_nat j)))) [0..<n]) of Some h \<Rightarrow> h | None \<Rightarrow> 0)"
    using Suc.prems unfolding up' by (intro Suc.IH) simp
  with Suc.prems show ?case
    unfolding up' by (auto simp: Let_def)
qed simp

text \<open>
  C38. When all tables the XSDT lists lie in remapped regions, \<open>find_table\<close> returns the first of them
  with the signature, and 0 when there is none.
\<close>

theorem find_table_first:
  assumes "0 \<notin> set (table_headers_of m remaps g_xsdt)"
  shows "find_table m remaps g_xsdt sig = Inr
    (case find (\<lambda>h. bytes m h (length sig) = map of_char sig) (table_headers_of m remaps g_xsdt) of Some h \<Rightarrow> h | None \<Rightarrow> 0)"
  using find_table_loop_find [of remaps m "g_xsdt + 36" 0 _ sig] assms
  by (simp add: find_table_def table_headers_of_def sizeof_ACPISDTHeader_def memcmp_literal_iff)

definition example_xsdt :: mem where
  "example_xsdt = (\<lambda>_. 0)(0x104 := 52, 0x125 := 2, 0x12d := 3, 0x200 := 65, 0x300 := 77, 0x301 := 67, 0x302 := 70, 0x303 := 71)"

theorem find_table_first_witness:
  "find_table example_xsdt [\<lparr>remap_phys = 0, remap_virt = 0x5000, remap_size = 0x1000\<rparr>] 0x100 ''MCFG'' = Inr 0 \<and>
   find_table example_xsdt [\<lparr>remap_phys = 0x200, remap_virt = 0x200, remap_size = 0x1000\<rparr>] 0x100 ''MCFG'' = Inr 0x300"
proof -
  have h: "table_headers_of example_xsdt [\<lparr>remap_phys = 0, remap_virt = 0x5000, remap_size = 0x1000\<rparr>] 0x100 = [0x5200, 0x5300]"
    "table_headers_of example_xsdt [\<lparr>remap_phys = 0x200, remap_virt = 0x200, remap_size = 0x1000\<rparr>] 0x100 = [0x200, 0x300]"
    by code_simp+
  have "find (\<lambda>h. bytes example_xsdt h (length ''MCFG'') = map of_char ''MCFG'') [0x5200, 0x5300] = None"
    "find (\<lambda>h. bytes example_xsdt h (length ''MCFG'') = map of_char ''MCFG'') [0x200, 0x300] = Some 0x300"
    by code_simp+
  with h show ?thesis
    by (simp add: find_table_first)
qed

end
