(* ===== verification/Bit_Fields.thy ===== *)
theory Bit_Fields
  imports Prelude
begin

text \<open>
  Bit-fields of packed structs: a field of \<open>n\<close> bits at offset \<open>i\<close> of a word is read with
  \<open>get_field\<close> and written with \<open>set_field\<close>, which truncates the value to the width of the
  field as C does. A one-bit field is a bool, read with \<open>bit\<close> and written with
  \<open>set_flag\<close>.
\<close>

named_theorems field_defs

definition get_field :: "nat \<Rightarrow> nat \<Rightarrow> 'a::len word \<Rightarrow> 'a word" where
  "get_field i n v = take_bit n (drop_bit i v)"

definition set_field :: "nat \<Rightarrow> nat \<Rightarrow> 'a::len word \<Rightarrow> 'a word \<Rightarrow> 'a word" where
  "set_field i n x v = (v AND NOT (push_bit i (mask n))) OR push_bit i (take_bit n x)"

definition set_flag :: "nat \<Rightarrow> bool \<Rightarrow> 'a::len word \<Rightarrow> 'a word" where
  "set_flag i b v = (if b then v OR push_bit i 1 else v AND NOT (push_bit i 1))"

lemma bit_get_field: "bit (get_field i n v) k \<longleftrightarrow> k < n \<and> bit (v :: 'a::len word) (i + k)"
  by (auto simp: get_field_def bit_simps)

lemma bit_set_field:
  "bit (set_field i n x v) k \<longleftrightarrow>
     (if i \<le> k \<and> k < i + n then k < LENGTH('a) \<and> bit x (k - i) else bit (v :: 'a::len word) k)"
  by (auto simp: set_field_def bit_simps dest: bit_imp_le_length)

lemma bit_set_flag:
  "bit (set_flag i b v) k \<longleftrightarrow> (if k = i then b \<and> i < LENGTH('a) else bit (v :: 'a::len word) k)"
  by (auto simp: set_flag_def bit_simps dest: bit_imp_le_length)

lemma get_set_field:
  "i + n \<le> LENGTH('a) \<Longrightarrow> get_field i n (set_field i n x v) = take_bit n (x :: 'a::len word)"
  by (rule bit_word_eqI) (auto simp: bit_get_field bit_set_field bit_simps)

lemma get_set_field_other [simp]:
  "i + n \<le> j \<or> j + m \<le> i \<Longrightarrow> get_field j m (set_field i n x v) = get_field j m (v :: 'a::len word)"
  by (rule bit_word_eqI) (auto simp: bit_get_field bit_set_field)

lemma get_field_set_flag [simp]:
  "k < i \<or> i + n \<le> k \<Longrightarrow> get_field i n (set_flag k b v) = get_field i n (v :: 'a::len word)"
  by (rule bit_word_eqI) (auto simp: bit_get_field bit_set_flag)

lemma bit_set_field_other [simp]:
  "k < i \<or> i + n \<le> k \<Longrightarrow> bit (set_field i n x v) k = bit (v :: 'a::len word) k"
  by (auto simp: bit_set_field)

lemma get_field_0 [simp]: "get_field i n (0 :: 'a::len word) = 0"
  by (simp add: get_field_def)

lemma get_field_bound: "n \<le> 64 \<Longrightarrow> unat (get_field i n (v :: u64)) < 2 ^ n"
  by (simp add: get_field_def unat_take_bit_u64)

lemma take_bit_word_eq: "unat (x :: u64) < 2 ^ n \<Longrightarrow> take_bit n x = x"
  by (simp only: word_unat_eq_iff unat_take_bit_u64 mod_less)

lemma set_field_get_field: "set_field i n (get_field i n v) v = (v :: 'a::len word)"
  by (rule bit_word_eqI) (auto simp: bit_get_field bit_set_field dest: bit_imp_le_length)

end
