(* ===== verification/Node_Heap.thy ===== *)
theory Node_Heap
  imports Util
begin

text \<open>
  The store of 16-byte nodes behind the kernel's linked lists. One node serves in turn as a
  \<open>MemoryEntry\<close> (entry_pool.h), a \<open>ListEntry\<close> (frame_allocator.c), a
  \<open>PageFrameAllocation\<close> (frame_allocator.h), a \<open>FreeListEntry\<close> and a \<open>MappingEntry\<close>
  (paging.h): the code casts freely between them. The store keeps the two 64-bit words of a
  node, and each struct is a view of those words. A pointer is its address, 0 is NULL.
\<close>

section \<open>Nodes and the store\<close>

record entry =
  e_next :: u64
  e_payload :: u64

record mem_state =
  nodes :: "u64 \<Rightarrow> entry"

definition deref :: "u64 \<Rightarrow> 'a mem_state_scheme \<Rightarrow> entry res" where
  "deref p s = (if p = 0 then Inl Null_deref else Inr (nodes s p))"

definition modify_node ::
    "u64 \<Rightarrow> (entry \<Rightarrow> entry) \<Rightarrow> 'a mem_state_scheme \<Rightarrow> 'a mem_state_scheme res" where
  "modify_node p f s =
     (if p = 0 then Inl Null_deref
      else Inr (s\<lparr>nodes := (nodes s)(p := f (nodes s p))\<rparr>))"

abbreviation set_next ::
    "u64 \<Rightarrow> u64 \<Rightarrow> 'a mem_state_scheme \<Rightarrow> 'a mem_state_scheme res" where
  "set_next p v \<equiv> modify_node p (e_next_update (\<lambda>_. v))"

abbreviation set_payload ::
    "u64 \<Rightarrow> u64 \<Rightarrow> 'a mem_state_scheme \<Rightarrow> 'a mem_state_scheme res" where
  "set_payload p v \<equiv> modify_node p (e_payload_update (\<lambda>_. v))"

lemma deref_simps [simp]:
  "deref 0 s = Inl Null_deref"
  "p \<noteq> 0 \<Longrightarrow> deref p s = Inr (nodes s p)"
  by (simp_all add: deref_def)

lemma modify_node_simps [simp]:
  "modify_node 0 f s = Inl Null_deref"
  "p \<noteq> 0 \<Longrightarrow> modify_node p f s = Inr (s\<lparr>nodes := (nodes s)(p := f (nodes s p))\<rparr>)"
  by (simp_all add: modify_node_def)

section \<open>The view as a page frame allocation\<close>

text \<open>
  \<open>PageFrameAllocation\<close> packs the second word as \<open>uint64_t addr : 57\<close> (low bits) and
  \<open>uint8_t order : 7\<close> (high bits).
\<close>

definition pfa_addr :: "entry \<Rightarrow> u64" where
  "pfa_addr e = take_bit 57 (e_payload e)"

definition pfa_order :: "entry \<Rightarrow> nat" where
  "pfa_order e = unat (drop_bit 57 (e_payload e))"

definition pfa_set_addr :: "u64 \<Rightarrow> entry \<Rightarrow> entry" where
  "pfa_set_addr a e =
     e\<lparr>e_payload := (e_payload e AND NOT (mask 57)) OR take_bit 57 a\<rparr>"

definition pfa_set_order :: "nat \<Rightarrow> entry \<Rightarrow> entry" where
  "pfa_set_order k e =
     e\<lparr>e_payload := take_bit 57 (e_payload e) OR push_bit 57 (word_of_nat k)\<rparr>"

lemma pfa_next [simp]:
  "e_next (pfa_set_addr a e) = e_next e"
  "e_next (pfa_set_order k e) = e_next e"
  by (simp_all add: pfa_set_addr_def pfa_set_order_def)

lemma pfa_addr_set_addr [simp]: "pfa_addr (pfa_set_addr a e) = take_bit 57 a"
  by (rule bit_eqI) (auto simp: pfa_addr_def pfa_set_addr_def bit_simps)

lemma pfa_addr_set_order [simp]: "pfa_addr (pfa_set_order k e) = pfa_addr e"
  by (rule bit_eqI) (auto simp: pfa_addr_def pfa_set_order_def bit_simps)

lemma pfa_order_set_addr [simp]: "pfa_order (pfa_set_addr a e) = pfa_order e"
proof -
  have "drop_bit 57 ((e_payload e AND NOT (mask 57)) OR take_bit 57 a) = drop_bit 57 (e_payload e)"
    by (rule bit_eqI) (auto simp: bit_simps dest: bit_imp_le_length)
  then show ?thesis
    by (simp add: pfa_order_def pfa_set_addr_def)
qed

lemma pfa_order_set_order:
  assumes "k < 128"
  shows "pfa_order (pfa_set_order k e) = k"
proof -
  have "take_bit 7 k = k"
    using assms by (simp add: take_bit_nat_eq_self)
  then have k7: "bit k n \<Longrightarrow> n < 7" for n
    using bit_take_bit_iff [of 7 k n] by simp
  have "drop_bit 57 (take_bit 57 (e_payload e) OR push_bit 57 (word_of_nat k)) = (word_of_nat k :: u64)"
    by (rule bit_eqI) (auto simp: bit_simps dest: k7)
  then show ?thesis
    using assms by (simp add: pfa_order_def pfa_set_order_def unat_of_nat)
qed

section \<open>Lists in the store\<close>

primrec list_at :: "(u64 \<Rightarrow> entry) \<Rightarrow> u64 \<Rightarrow> u64 list \<Rightarrow> bool" where
  "list_at h p [] \<longleftrightarrow> p = 0"
| "list_at h p (q # qs) \<longleftrightarrow> p = q \<and> q \<noteq> 0 \<and> list_at h (e_next (h q)) qs"

lemma list_at_NULL [simp]: "list_at h 0 qs \<longleftrightarrow> qs = []"
  by (cases qs) auto

lemma list_at_nonNULL:
  "p \<noteq> 0 \<Longrightarrow> list_at h p qs \<longleftrightarrow> (\<exists>qs'. qs = p # qs' \<and> list_at h (e_next (h p)) qs')"
  by (cases qs) auto

lemma list_at_nonzero: "list_at h p qs \<Longrightarrow> 0 \<notin> set qs"
  by (induction qs arbitrary: p) auto

lemma list_at_cong:
  "(\<And>q. q \<in> set qs \<Longrightarrow> e_next (h q) = e_next (h' q)) \<Longrightarrow> list_at h p qs = list_at h' p qs"
  by (induction qs arbitrary: p) auto

lemma list_at_upd_outside [simp]:
  "q \<notin> set qs \<Longrightarrow> list_at (h(q := e)) p qs = list_at h p qs"
  by (rule list_at_cong) auto

lemma list_at_unique: "list_at h p qs \<Longrightarrow> list_at h p qs' \<Longrightarrow> qs = qs'"
proof (induction qs arbitrary: p qs')
  case (Cons q qs)
  then show ?case
    by (cases qs') auto
qed auto

lemma list_at_append:
  "list_at h p (xs @ q # ys) \<Longrightarrow> q \<noteq> 0 \<and> list_at h q (q # ys)"
  by (induction xs arbitrary: p) auto

lemma list_at_distinct: "list_at h p qs \<Longrightarrow> distinct qs"
proof (induction qs arbitrary: p)
  case (Cons q qs)
  have "q \<notin> set qs"
  proof
    assume "q \<in> set qs"
    then obtain xs ys where split: "qs = xs @ q # ys"
      by (meson split_list)
    with Cons.prems have "list_at h q (q # ys)"
      using list_at_append [of h "e_next (h q)" xs q ys] by simp
    moreover have "list_at h q (q # qs)"
      using Cons.prems by simp
    ultimately have "q # ys = q # qs"
      by (rule list_at_unique)
    with split show False
      by simp
  qed
  with Cons show ?case
    by auto
qed simp

text \<open>Unlinking the node after \<open>l\<close>.\<close>

lemma list_at_unlink:
  assumes "list_at h p (xs @ l # q # ys)"
  shows "list_at (h(l := (h l)\<lparr>e_next := e_next (h q)\<rparr>)) p (xs @ l # ys)"
  using assms
proof (induction xs arbitrary: p)
  case Nil
  then have "l \<notin> set ys"
    using list_at_distinct [of h p "[] @ l # q # ys"] by auto
  then have "list_at (h(l := (h l)\<lparr>e_next := e_next (h q)\<rparr>)) (e_next (h q)) ys =
      list_at h (e_next (h q)) ys"
    by (rule list_at_upd_outside)
  with Nil show ?case
    by (simp del: fun_upd_apply) (simp add: fun_upd_same)
next
  case (Cons x xs)
  then have "x \<noteq> l"
    using list_at_distinct [of h p "(x # xs) @ l # q # ys"] by auto
  with Cons show ?case
    by auto
qed

text \<open>
  A list of \<open>ListEntry\<close> nodes: the pointers in order, each with the address it carries.
\<close>

definition entries_at :: "(u64 \<Rightarrow> entry) \<Rightarrow> u64 \<Rightarrow> (u64 \<times> u64) list \<Rightarrow> bool" where
  "entries_at h p xs \<longleftrightarrow>
     list_at h p (map fst xs) \<and> (\<forall>(q, a) \<in> set xs. e_payload (h q) = a)"

lemma entries_at_Nil [simp]: "entries_at h p [] \<longleftrightarrow> p = 0"
  by (simp add: entries_at_def)

lemma entries_at_Cons [simp]:
  "entries_at h p ((q, a) # xs) \<longleftrightarrow>
     p = q \<and> q \<noteq> 0 \<and> e_payload (h q) = a \<and> entries_at h (e_next (h q)) xs"
  by (auto simp: entries_at_def)

lemma entries_at_NULL [simp]: "entries_at h 0 xs \<longleftrightarrow> xs = []"
  by (auto simp: entries_at_def)

lemma entries_at_nonNULL:
  "p \<noteq> 0 \<Longrightarrow> entries_at h p xs \<longleftrightarrow>
     (\<exists>xs'. xs = (p, e_payload (h p)) # xs' \<and> entries_at h (e_next (h p)) xs')"
  by (cases xs) auto

lemma entries_at_cong:
  "(\<And>q. q \<in> fst ` set xs \<Longrightarrow> h q = h' q) \<Longrightarrow> entries_at h p xs = entries_at h' p xs"
proof -
  assume eq: "\<And>q. q \<in> fst ` set xs \<Longrightarrow> h q = h' q"
  then have "list_at h p (map fst xs) = list_at h' p (map fst xs)"
    by (intro list_at_cong) auto
  moreover have "(\<forall>(q, a) \<in> set xs. e_payload (h q) = a) = (\<forall>(q, a) \<in> set xs. e_payload (h' q) = a)"
    using eq by (auto simp: rev_image_eqI)
  ultimately show ?thesis
    by (simp add: entries_at_def)
qed

lemma entries_at_upd_outside [simp]:
  "q \<notin> fst ` set xs \<Longrightarrow> entries_at (h(q := e)) p xs = entries_at h p xs"
  by (rule entries_at_cong) auto

lemma entries_at_distinct: "entries_at h p xs \<Longrightarrow> distinct (map fst xs)"
  by (auto simp: entries_at_def dest: list_at_distinct)

lemma entries_at_payload: "entries_at h p xs \<Longrightarrow> (q, a) \<in> set xs \<Longrightarrow> e_payload (h q) = a"
  by (auto simp: entries_at_def dest: bspec)

lemma entries_at_list_at: "entries_at h p xs \<Longrightarrow> list_at h p (map fst xs)"
  by (simp add: entries_at_def)

lemma entries_atI:
  "list_at h p (map fst xs) \<Longrightarrow> (\<And>q a. (q, a) \<in> set xs \<Longrightarrow> e_payload (h q) = a) \<Longrightarrow> entries_at h p xs"
  by (auto simp: entries_at_def)

lemma entries_at_nonzero: "entries_at h p xs \<Longrightarrow> 0 \<notin> fst ` set xs"
  using list_at_nonzero [of h p "map fst xs"] by (simp add: entries_at_def)

lemma entries_at_length: "entries_at h p xs \<Longrightarrow> length xs \<le> loop_fuel"
  using distinct_u64_length [of "map fst xs"] by (simp add: entries_at_distinct)

lemma entries_at_push:
  assumes "entries_at h p xs" "q \<noteq> 0" "q \<notin> fst ` set xs"
  shows "entries_at (h(q := \<lparr>e_next = p, e_payload = a\<rparr>)) q ((q, a) # xs)"
  using assms by simp

end
