(* ===== verification/Entry_Pool.thy ===== *)
theory Entry_Pool
  imports Node_Heap
begin

text \<open>
  kernel/src/memory/entry_pool.c: the pool of free 16-byte nodes from which the frame
  allocator and the page mapper take the nodes of their lists. The pool refills itself with
  \<open>alloc_pages(1, PAGING_WRITABLE)\<close> when fewer than \<open>ENTRY_THRESHOLD\<close> nodes are left;
  \<open>alloc_pages\<close> itself takes nodes from the pool, so here it is an argument and the whole
  kernel ties the recursion.
\<close>

section \<open>Model\<close>

record pool_state = mem_state +
  pool_count :: u64
  pool_head :: u64

definition ENTRY_THRESHOLD :: u64 where
  "ENTRY_THRESHOLD = 20"

definition PAGING_WRITABLE :: u32 where
  "PAGING_WRITABLE = 1"

fun fill_pool_loop :: "nat \<Rightarrow> u64 \<Rightarrow> 'a pool_state_scheme \<Rightarrow> 'a pool_state_scheme res" where
  "fill_pool_loop 0 addr s = Inr s"
| "fill_pool_loop (Suc n) addr s =
     rbind (set_next addr (pool_head s) s) (\<lambda>s.
       fill_pool_loop n (addr + 16) (s\<lparr>pool_head := addr\<rparr>))"

definition fill_memory_entry_pool ::
    "u64 \<Rightarrow> u64 \<Rightarrow> 'a pool_state_scheme \<Rightarrow> 'a pool_state_scheme res" where
  "fill_memory_entry_pool addr pages s =
     (let count = (pages * PAGE_SIZE) div 16 in
      rbind (fill_pool_loop (unat count) addr s) (\<lambda>s.
        Inr (s\<lparr>pool_count := pool_count s + count\<rparr>)))"

definition get_memory_entry ::
    "(u64 \<Rightarrow> u32 \<Rightarrow> 'a pool_state_scheme \<Rightarrow> (u64 \<times> 'a pool_state_scheme) res)
     \<Rightarrow> 'a pool_state_scheme \<Rightarrow> (u64 \<times> 'a pool_state_scheme) res" where
  "get_memory_entry alloc_pages s =
     rbind
       (if pool_count s < ENTRY_THRESHOLD then
          rbind (alloc_pages 1 PAGING_WRITABLE
                  (s\<lparr>pool_count := pool_count s + ENTRY_THRESHOLD\<rparr>)) (\<lambda>(memory, s).
          rbind (kernel_assert (memory \<noteq> 0) ''Out of memory'') (\<lambda>_.
          rbind (fill_memory_entry_pool memory 1 s) (\<lambda>s.
            Inr (s\<lparr>pool_count := pool_count s - ENTRY_THRESHOLD\<rparr>))))
        else Inr s)
       (\<lambda>s.
          let entry = pool_head s in
          rbind (deref entry s) (\<lambda>e.
          rbind (set_next entry 0 (s\<lparr>pool_head := e_next e\<rparr>)) (\<lambda>s.
            Inr (entry, s\<lparr>pool_count := pool_count s - 1\<rparr>))))"

definition free_memory_entry ::
    "u64 \<Rightarrow> 'a pool_state_scheme \<Rightarrow> 'a pool_state_scheme res" where
  "free_memory_entry entry s =
     (let s = s\<lparr>pool_count := pool_count s + 1\<rparr> in
      rbind (set_next entry (pool_head s) s) (\<lambda>s.
        Inr (s\<lparr>pool_head := entry\<rparr>)))"

section \<open>What the pool holds\<close>

text \<open>The nodes of the pool, in the order in which they are handed out.\<close>

definition pool_at :: "'a pool_state_scheme \<Rightarrow> u64 list \<Rightarrow> bool" where
  "pool_at s ps \<longleftrightarrow> list_at (nodes s) (pool_head s) ps \<and> unat (pool_count s) = length ps"

lemma pool_at_distinct: "pool_at s ps \<Longrightarrow> distinct ps"
  by (auto simp: pool_at_def dest: list_at_distinct)

lemma pool_at_nonzero: "pool_at s ps \<Longrightarrow> p \<in> set ps \<Longrightarrow> p \<noteq> 0"
  by (auto simp: pool_at_def dest: list_at_nonzero)

lemma pool_at_length: "pool_at s ps \<Longrightarrow> length ps < 2 ^ 64"
  using unat_u64_lt [of "pool_count s"] by (simp add: pool_at_def)

lemma pool_at_upd_outside:
  "pool_at s ps \<Longrightarrow> p \<notin> set ps \<Longrightarrow> pool_at (s\<lparr>nodes := (nodes s)(p := e)\<rparr>) ps"
  by (simp add: pool_at_def)

lemma get_memory_entry_stocked:
  assumes pool: "pool_at s (r # ps)" and stocked: "20 \<le> length (r # ps)"
  shows "get_memory_entry alloc_pages s =
    Inr (r, s\<lparr>nodes := (nodes s)(r := (nodes s r)\<lparr>e_next := 0\<rparr>),
             pool_head := e_next (nodes s r), pool_count := pool_count s - 1\<rparr>)"
proof -
  have r: "pool_head s = r" "r \<noteq> 0"
    using pool by (auto simp: pool_at_def)
  have "\<not> pool_count s < ENTRY_THRESHOLD"
    using pool stocked by (simp add: pool_at_def ENTRY_THRESHOLD_def word_less_nat_alt)
  with r show ?thesis
    by (simp add: get_memory_entry_def)
qed

lemma free_memory_entry_pool:
  assumes pool: "pool_at s ps" and p: "p \<noteq> 0" "p \<notin> set ps"
    and room: "length ps + 1 < 2 ^ 64"
  shows "\<exists>h hd c. free_memory_entry p s = Inr (s\<lparr>nodes := h, pool_head := hd, pool_count := c\<rparr>) \<and>
           (\<forall>q. q \<noteq> p \<longrightarrow> h q = nodes s q) \<and> list_at h hd (p # ps) \<and> unat c = length (p # ps)"
proof -
  have "unat (pool_count s + 1) = Suc (length ps)"
    using pool room by (subst unat_add_u64) (auto simp: pool_at_def)
  with pool p show ?thesis
    by (intro exI [of _ "(nodes s)(p := (nodes s p)\<lparr>e_next := pool_head s\<rparr>)"]
        exI [of _ p] exI [of _ "pool_count s + 1"])
      (simp add: free_memory_entry_def pool_at_def)
qed

section \<open>The interface of the pool\<close>

text \<open>
  What the clients of the pool rely on: while the pool is well stocked, taking a node returns
  the first node of the pool and changes nothing but that node and the pool's own head and
  count. A refill, which runs the frame allocator and the page mapper, is outside this
  contract.
\<close>

locale entry_source =
  fixes gme :: "'a pool_state_scheme \<Rightarrow> (u64 \<times> 'a pool_state_scheme) res"
  assumes get:
    "pool_at s (r # ps) \<Longrightarrow> 20 \<le> length (r # ps) \<Longrightarrow>
       \<exists>h hd c. gme s = Inr (r, s\<lparr>nodes := h, pool_head := hd, pool_count := c\<rparr>) \<and>
         (\<forall>q. q \<noteq> r \<longrightarrow> h q = nodes s q) \<and> e_next (h r) = 0 \<and>
         list_at h hd ps \<and> unat c = length ps"

interpretation refilling_pool: entry_source "get_memory_entry alloc_pages" for alloc_pages
proof
  fix s :: "'a pool_state_scheme" and r ps
  assume pool: "pool_at s (r # ps)" and stocked: "20 \<le> length (r # ps)"
  have "r \<notin> set ps"
    using pool_at_distinct [OF pool] by simp
  moreover have "unat (pool_count s - 1) = length ps"
    using pool by (subst unat_sub_u64) (auto simp: pool_at_def word_le_nat_alt)
  ultimately show "\<exists>h hd c. get_memory_entry alloc_pages s =
      Inr (r, s\<lparr>nodes := h, pool_head := hd, pool_count := c\<rparr>) \<and>
      (\<forall>q. q \<noteq> r \<longrightarrow> h q = nodes s q) \<and> e_next (h r) = 0 \<and> list_at h hd ps \<and> unat c = length ps"
    using pool get_memory_entry_stocked [OF pool stocked, of alloc_pages]
    by (intro exI [of _ "(nodes s)(r := (nodes s r)\<lparr>e_next := 0\<rparr>)"]
        exI [of _ "e_next (nodes s r)"] exI [of _ "pool_count s - 1"])
      (auto simp: pool_at_def)
qed

section \<open>Filling\<close>

text \<open>
  Filling adds the nodes of a fresh region; the last node of the region is handed out first.
\<close>

lemma fill_pool_loop_pool:
  assumes "list_at (nodes s) (pool_head s) ps" and "0 < unat addr"
    and "unat addr + 16 * n \<le> 2 ^ 64"
    and "\<And>p. p \<in> set ps \<Longrightarrow> unat p < unat addr \<or> unat addr + 16 * n \<le> unat p"
  shows "\<exists>h. fill_pool_loop n addr s =
           Inr (s\<lparr>nodes := h, pool_head := (if n = 0 then pool_head s else addr + 16 * (of_nat n - 1))\<rparr>) \<and>
         list_at h (if n = 0 then pool_head s else addr + 16 * (of_nat n - 1))
           (rev (map (\<lambda>i. addr + 16 * of_nat i) [0..<n]) @ ps) \<and>
         (\<forall>p. unat p < unat addr \<or> unat addr + 16 * n \<le> unat p \<longrightarrow> h p = nodes s p)"
  using assms
proof (induction n arbitrary: addr s ps)
  case 0
  then show ?case
    by (intro exI [of _ "nodes s"]) auto
next
  case (Suc n)
  have a0: "addr \<noteq> 0"
    using Suc.prems(2) by auto
  have anotin: "addr \<notin> set ps"
    using Suc.prems(4) [of addr] by auto
  define s1 where "s1 = s\<lparr>nodes := (nodes s)(addr := (nodes s addr)\<lparr>e_next := pool_head s\<rparr>),
    pool_head := addr\<rparr>"
  have step: "fill_pool_loop (Suc n) addr s = fill_pool_loop n (addr + 16) s1"
    using a0 by (simp add: s1_def)
  show ?case
  proof (cases n)
    case 0
    then show ?thesis
      using step a0 anotin Suc.prems(1)
      by (intro exI [of _ "(nodes s)(addr := (nodes s addr)\<lparr>e_next := pool_head s\<rparr>)"])
        (simp add: s1_def fun_upd_same del: fun_upd_apply, auto)
  next
    case (Suc m)
    have ua: "unat (addr + 16) = unat addr + 16"
      using Suc.prems(3) \<open>n = Suc m\<close> by (subst unat_add_u64) auto
    have l1: "list_at (nodes s1) (pool_head s1) (addr # ps)"
      using a0 anotin Suc.prems(1) by (simp add: s1_def)
    have sep: "unat p < unat (addr + 16) \<or> unat (addr + 16) + 16 * n \<le> unat p"
      if "p \<in> set (addr # ps)" for p
      using that Suc.prems(4) [of p] ua by auto
    have "\<exists>h. fill_pool_loop n (addr + 16) s1 =
           Inr (s1\<lparr>nodes := h, pool_head := (if n = 0 then pool_head s1 else addr + 16 + 16 * (of_nat n - 1))\<rparr>) \<and>
         list_at h (if n = 0 then pool_head s1 else addr + 16 + 16 * (of_nat n - 1))
           (rev (map (\<lambda>i. addr + 16 + 16 * of_nat i) [0..<n]) @ addr # ps) \<and>
         (\<forall>p. unat p < unat (addr + 16) \<or> unat (addr + 16) + 16 * n \<le> unat p \<longrightarrow> h p = nodes s1 p)"
      using Suc.prems(3) ua by (intro Suc.IH l1 sep) auto
    then obtain h where h:
      "fill_pool_loop n (addr + 16) s1 =
           Inr (s1\<lparr>nodes := h, pool_head := addr + 16 + 16 * (of_nat n - 1)\<rparr>)"
      "list_at h (addr + 16 + 16 * (of_nat n - 1))
           (rev (map (\<lambda>i. addr + 16 + 16 * of_nat i) [0..<n]) @ addr # ps)"
      "\<forall>p. unat p < unat (addr + 16) \<or> unat (addr + 16) + 16 * n \<le> unat p \<longrightarrow> h p = nodes s1 p"
      using \<open>n = Suc m\<close> by auto
    have idx: "rev (map (\<lambda>i. addr + 16 * of_nat i) [0..<Suc n]) @ ps =
        rev (map (\<lambda>i. addr + 16 + 16 * of_nat i) [0..<n]) @ addr # ps"
      by (simp add: upt_conv_Cons map_Suc_upt [symmetric] algebra_simps del: upt_Suc map_Suc_upt)
    have hd: "addr + 16 + 16 * (of_nat n - 1) = addr + 16 * (of_nat (Suc n) - 1 :: u64)"
      by (simp add: algebra_simps)
    show ?thesis
      using h step ua hd idx by (intro exI [of _ h]) (auto simp: s1_def)
  qed
qed

end
