(* ===== verification/Frame_Allocator.thy ===== *)
theory Frame_Allocator
  imports Entry_Pool Uefi
begin

text \<open>
  kernel/src/memory/frame_allocator.c: the buddy allocator of physical page frames. Orders 0
  to 7 hold blocks of \<open>2 ^ order\<close> pages in singly linked free lists; every order below the
  last has a bitmap with one bit for each pair of buddies, set when exactly one of the two is
  free. This theory translates the operations; the argument \<open>gme\<close> is
  \<open>get_memory_entry\<close>, the pool's operation that hands out a node.
\<close>

section \<open>State\<close>

record frame_state = pool_state +
  heads :: "nat \<Rightarrow> u64"                \<comment> \<open>\<open>g_free_lists[order].head\<close>\<close>
  buddy_maps :: "nat \<Rightarrow> u64 \<Rightarrow> u64"     \<comment> \<open>\<open>g_free_lists[order].buddy_map[index]\<close>\<close>
  order_sizes :: "nat \<Rightarrow> u64"          \<comment> \<open>\<open>g_frame_order_sizes[order]\<close>\<close>
  buddy_base :: "nat \<Rightarrow> u64"           \<comment> \<open>the address in \<open>g_free_lists[order].buddy_map\<close>\<close>
  memory_size :: u64                   \<comment> \<open>\<open>g_memory_size\<close> of memory.c\<close>

type_synonym 'a entry_getter = "'a frame_state_scheme \<Rightarrow> (u64 \<times> 'a frame_state_scheme) res"

definition FRAME_ORDERS :: nat where
  "FRAME_ORDERS = 8"

text \<open>\<open>g_free_lists[i].head\<close>, an access outside the array being undefined.\<close>

definition free_head :: "nat \<Rightarrow> 'a frame_state_scheme \<Rightarrow> u64 res" where
  "free_head i s = (if i < FRAME_ORDERS then Inr (heads s i) else Inl Out_of_bounds)"

definition set_head :: "nat \<Rightarrow> u64 \<Rightarrow> 'a frame_state_scheme \<Rightarrow> 'a frame_state_scheme" where
  "set_head i p s = s\<lparr>heads := (heads s)(i := p)\<rparr>"

section \<open>Orders\<close>

definition get_frame_order_size :: "nat \<Rightarrow> 'a frame_state_scheme \<Rightarrow> u64 res" where
  "get_frame_order_size order s =
     rbind (kernel_assert (order < FRAME_ORDERS) ''Not an order'') (\<lambda>_.
       Inr (order_sizes s order))"

definition get_min_size_frame_order :: "u64 \<Rightarrow> nat res" where
  "get_min_size_frame_order pages =
     rbind (kernel_assert (pages \<noteq> 0) ''Can't have a zero sized allocation'') (\<lambda>_.
       if pages = 1 then Inr 0
       else Inr (min (64 - clzll (pages - 1)) FRAME_ORDERS))"

section \<open>Allocation lists\<close>

fun calculate_allocation_loop ::
    "nat \<Rightarrow> u64 \<Rightarrow> u64 \<Rightarrow> 'a frame_state_scheme \<Rightarrow> u64 res" where
  "calculate_allocation_loop 0 allocation sz s = Inl Diverges"
| "calculate_allocation_loop (Suc n) allocation sz s =
     (if allocation = 0 then Inr (sz div PAGE_SIZE)
      else rbind (deref allocation s) (\<lambda>al.
           rbind (get_frame_order_size (pfa_order al) s) (\<lambda>k.
             calculate_allocation_loop n (e_next al) (sz + k) s)))"

definition calculate_allocation_pages :: "u64 \<Rightarrow> 'a frame_state_scheme \<Rightarrow> u64 res" where
  "calculate_allocation_pages allocation s =
     calculate_allocation_loop (Suc loop_fuel) allocation 0 s"

fun free_entries_loop :: "nat \<Rightarrow> u64 \<Rightarrow> 'a frame_state_scheme \<Rightarrow> 'a frame_state_scheme res" where
  "free_entries_loop 0 allocations s = Inl Diverges"
| "free_entries_loop (Suc n) allocations s =
     (if allocations = 0 then Inr s
      else let memory_entry = allocations in
           rbind (deref allocations s) (\<lambda>al.
           rbind (free_memory_entry memory_entry s) (\<lambda>s.
             free_entries_loop n (e_next al) s)))"

definition free_frame_allocation_entries ::
    "u64 \<Rightarrow> 'a frame_state_scheme \<Rightarrow> 'a frame_state_scheme res" where
  "free_frame_allocation_entries allocations s = free_entries_loop (Suc loop_fuel) allocations s"

section \<open>Buddy bits\<close>

text \<open>The word of the bitmap and the bit in it for the pair a block belongs to.\<close>

definition calc_buddy_index :: "u64 \<Rightarrow> nat \<Rightarrow> 'a frame_state_scheme \<Rightarrow> (u64 \<times> nat) res" where
  "calc_buddy_index addr order s =
     rbind (kernel_assert (order < FRAME_ORDERS - 1) ''Order does not have a buddy map'') (\<lambda>_.
       let arr_index = addr div order_sizes s order;
           arr_index = arr_index - arr_index mod 2;
           arr_index = arr_index div 2;
           bit_index = arr_index AND 0b111111;
           arr_index = arr_index AND NOT 0b111111;
           arr_index = arr_index div 64
       in Inr (arr_index, unat bit_index))"

definition get_buddy_bit :: "u64 \<Rightarrow> nat \<Rightarrow> 'a frame_state_scheme \<Rightarrow> bool res" where
  "get_buddy_bit addr order s =
     rbind (calc_buddy_index addr order s) (\<lambda>(arr_index, bit_index).
       Inr (drop_bit bit_index (buddy_maps s order arr_index) AND 1 \<noteq> 0))"

definition toggle_buddy_bit ::
    "u64 \<Rightarrow> nat \<Rightarrow> 'a frame_state_scheme \<Rightarrow> 'a frame_state_scheme res" where
  "toggle_buddy_bit addr order s =
     (if order = FRAME_ORDERS - 1 then Inr s
      else rbind (calc_buddy_index addr order s) (\<lambda>(arr_index, bit_index).
        Inr (s\<lparr>buddy_maps := (buddy_maps s)(order := (buddy_maps s order)
                (arr_index := buddy_maps s order arr_index XOR push_bit bit_index 1))\<rparr>)))"

section \<open>Splitting and merging blocks\<close>

definition split_entry ::
    "'a entry_getter \<Rightarrow> u64 \<Rightarrow> nat \<Rightarrow> 'a frame_state_scheme \<Rightarrow> 'a frame_state_scheme res" where
  "split_entry gme entry order s =
     rbind (deref entry s) (\<lambda>e.
     rbind (toggle_buddy_bit (e_payload e) order s) (\<lambda>s.
     let left = entry in
     rbind (gme s) (\<lambda>(right, s).
     rbind (deref left s) (\<lambda>l.
     rbind (set_payload right (e_payload l + order_sizes s (order - 1)) s) (\<lambda>s.
     rbind (free_head (order - 1) s) (\<lambda>h.
     rbind (set_next right h s) (\<lambda>s.
     rbind (set_next left right s) (\<lambda>s.
       Inr (set_head (order - 1) left s)))))))))"

text \<open>
  The search of a free list for the first node whose address satisfies \<open>P\<close>: the node (0 when
  there is none) and the node before it (0 for the first node).
\<close>

fun find_entry ::
    "(u64 \<Rightarrow> bool) \<Rightarrow> nat \<Rightarrow> u64 \<Rightarrow> u64 \<Rightarrow> 'a frame_state_scheme \<Rightarrow> (u64 \<times> u64) res" where
  "find_entry P 0 cur prev s = Inl Diverges"
| "find_entry P (Suc n) cur prev s =
     (if cur = 0 then Inr (cur, prev)
      else rbind (deref cur s) (\<lambda>e.
        if P (e_payload e) then Inr (cur, prev)
        else find_entry P n (e_next e) cur s))"

text \<open>Taking the node found out of its list.\<close>

definition unlink_entry ::
    "nat \<Rightarrow> u64 \<Rightarrow> u64 \<Rightarrow> 'a frame_state_scheme \<Rightarrow> 'a frame_state_scheme res" where
  "unlink_entry order cur prev s =
     rbind (free_head order s) (\<lambda>h.
     rbind (deref cur s) (\<lambda>e.
       if cur = h then Inr (set_head order (e_next e) s)
       else set_next prev (e_next e) s))"

fun merge_blocks ::
    "nat \<Rightarrow> u64 \<Rightarrow> nat \<Rightarrow> 'a frame_state_scheme \<Rightarrow> 'a frame_state_scheme res" where
  "merge_blocks 0 entry order s = Inl Diverges"
| "merge_blocks (Suc n) entry order s =
     (if \<not> order < FRAME_ORDERS - 1 then Inr s
      else rbind (deref entry s) (\<lambda>e.
      rbind (get_buddy_bit (e_payload e) order s) (\<lambda>b.
      if b then Inr s
      else
        let s = set_head order (e_next e) s;
            other_addr =
              (if e_payload e mod order_sizes s (order + 1) = 0
               then e_payload e + order_sizes s order
               else e_payload e - order_sizes s order) in
        rbind (free_head order s) (\<lambda>h.
        rbind (find_entry (\<lambda>a. a = other_addr) (Suc loop_fuel) h 0 s) (\<lambda>(buddy_entry, last_entry).
        rbind (kernel_assert (buddy_entry \<noteq> 0) ''Buddy entry not present'') (\<lambda>_.
        rbind (unlink_entry order buddy_entry last_entry s) (\<lambda>s.
        let (buddy_entry, entry) =
              (if other_addr < e_payload e then (entry, buddy_entry) else (buddy_entry, entry)) in
        rbind (free_memory_entry buddy_entry s) (\<lambda>s.
        rbind (free_head (order + 1) s) (\<lambda>h.
        rbind (set_next entry h s) (\<lambda>s.
        let s = set_head (order + 1) entry s in
        rbind (deref entry s) (\<lambda>e.
        rbind (toggle_buddy_bit (e_payload e) (order + 1) s) (\<lambda>s.
          merge_blocks n entry (order + 1) s))))))))))))"

section \<open>Freeing\<close>

fun free_frames_loop :: "nat \<Rightarrow> u64 \<Rightarrow> 'a frame_state_scheme \<Rightarrow> 'a frame_state_scheme res" where
  "free_frames_loop 0 allocation s = Inl Diverges"
| "free_frames_loop (Suc n) allocation s =
     (if allocation = 0 then Inr s
      else rbind (deref allocation s) (\<lambda>al.
      let order = pfa_order al in
      rbind (kernel_assert (order < FRAME_ORDERS) ''Not an order'') (\<lambda>_.
      let entry = allocation in
      rbind (set_payload entry (pfa_addr al) s) (\<lambda>s.
      let allocation = e_next al in
      rbind (toggle_buddy_bit (pfa_addr al) order s) (\<lambda>s.
      rbind (free_head order s) (\<lambda>h.
      rbind (set_next entry h s) (\<lambda>s.
      let s = set_head order entry s in
      rbind (merge_blocks (Suc loop_fuel) entry order s) (\<lambda>s.
        free_frames_loop n allocation s))))))))"

definition free_frames :: "u64 \<Rightarrow> 'a frame_state_scheme \<Rightarrow> 'a frame_state_scheme res" where
  "free_frames allocation s = free_frames_loop (Suc loop_fuel) allocation s"

definition free_frames_contiguos ::
    "'a entry_getter \<Rightarrow> u64 \<Rightarrow> u64 \<Rightarrow> 'a frame_state_scheme \<Rightarrow> 'a frame_state_scheme res" where
  "free_frames_contiguos gme addr pages s =
     rbind (gme s) (\<lambda>(allocation, s).
     rbind (modify_node allocation (pfa_set_addr addr) s) (\<lambda>s.
     rbind (get_min_size_frame_order pages) (\<lambda>order.
     rbind (modify_node allocation (pfa_set_order order) s) (\<lambda>s.
       free_frames allocation s))))"

section \<open>Allocating\<close>

text \<open>
  The order just above the biggest one that fits into \<open>sz\<close> bytes: where the code's loop over
  the orders stops, before it steps back by one.
\<close>

function fit_order :: "u64 \<Rightarrow> nat \<Rightarrow> 'a frame_state_scheme \<Rightarrow> nat" where
  "fit_order sz order s =
     (if order < FRAME_ORDERS \<and> \<not> sz < order_sizes s order
      then fit_order sz (order + 1) s else order)"
  by pat_completeness auto
termination
  by (relation "measure (\<lambda>(sz, order, s). FRAME_ORDERS - order)") auto

declare fit_order.simps [simp del]

text \<open>The biggest order below \<open>order\<close> that has a free block.\<close>

primrec lower_order :: "nat \<Rightarrow> 'a frame_state_scheme \<Rightarrow> nat option" where
  "lower_order 0 s = None"
| "lower_order (Suc order) s = (if heads s order \<noteq> 0 then Some order else lower_order order s)"

text \<open>
  The inner loop of \<open>alloc_frames\<close>: split bigger blocks until the wanted order has a free
  block, or fall back to a smaller order. The result is the order to take a block from;
  \<open>None\<close> means that no block is left at all.
\<close>

fun split_or_fall_back ::
    "'a entry_getter \<Rightarrow> nat \<Rightarrow> nat \<Rightarrow> nat \<Rightarrow> 'a frame_state_scheme
     \<Rightarrow> (nat option \<times> 'a frame_state_scheme) res" where
  "split_or_fall_back gme 0 order_to_alloc order s = Inl Diverges"
| "split_or_fall_back gme (Suc n) order_to_alloc order s =
     rbind (free_head order_to_alloc s) (\<lambda>h.
     if h \<noteq> 0 then Inr (Some order_to_alloc, s)
     else rbind (free_head order s) (\<lambda>entry.
       if entry = 0 then
         (if order + 1 < FRAME_ORDERS then split_or_fall_back gme n order_to_alloc (order + 1) s
          else Inr (lower_order order_to_alloc s, s))
       else
         rbind (deref entry s) (\<lambda>e.
         rbind (split_entry gme entry order (set_head order (e_next e) s)) (\<lambda>s.
           split_or_fall_back gme n order_to_alloc (order - 1) s))))"

fun alloc_frames_loop ::
    "'a entry_getter \<Rightarrow> nat \<Rightarrow> u64 \<Rightarrow> u64 \<Rightarrow> u64 \<Rightarrow> 'a frame_state_scheme
     \<Rightarrow> (u64 \<times> 'a frame_state_scheme) res" where
  "alloc_frames_loop gme 0 sz front back s = Inl Diverges"
| "alloc_frames_loop gme (Suc n) sz front back s =
     (if sz = 0 then Inr (front, s)
      else if fit_order sz 0 s = 0 then Inl Out_of_bounds
      else
        let order_to_alloc = fit_order sz 0 s - 1 in
        rbind (split_or_fall_back gme (Suc loop_fuel) order_to_alloc (order_to_alloc + 1) s)
          (\<lambda>(found, s).
        case found of
          None \<Rightarrow> rbind (free_frames front s) (\<lambda>s. Inr (0, s))
        | Some order_to_alloc \<Rightarrow>
            rbind (free_head order_to_alloc s) (\<lambda>entry.
            rbind (deref entry s) (\<lambda>e.
            let s = set_head order_to_alloc (e_next e) s in
            rbind (toggle_buddy_bit (e_payload e) order_to_alloc s) (\<lambda>s.
            let entry_addr = e_payload e in
            rbind (if front = 0 then Inr (entry, s)
                   else rbind (set_next back entry s) (\<lambda>s. Inr (front, s))) (\<lambda>(front, s).
            let back = entry in
            rbind (modify_node back (pfa_set_addr entry_addr) s) (\<lambda>s.
            rbind (modify_node back (pfa_set_order order_to_alloc) s) (\<lambda>s.
            rbind (set_next back 0 s) (\<lambda>s.
              alloc_frames_loop gme n (sz - order_sizes s order_to_alloc) front back s)))))))))"

definition alloc_frames ::
    "'a entry_getter \<Rightarrow> u64 \<Rightarrow> 'a frame_state_scheme \<Rightarrow> (u64 \<times> 'a frame_state_scheme) res" where
  "alloc_frames gme pages s = alloc_frames_loop gme (Suc loop_fuel) (pages * PAGE_SIZE) 0 0 s"

text \<open>
  The loop of \<open>alloc_frames_contiguos\<close>. When the list of \<open>order\<close> is empty the code steps to
  the next order and takes the head of that list without looking whether it is empty too.
\<close>

fun split_contiguos ::
    "'a entry_getter \<Rightarrow> nat \<Rightarrow> nat \<Rightarrow> nat \<Rightarrow> 'a frame_state_scheme
     \<Rightarrow> (bool \<times> 'a frame_state_scheme) res" where
  "split_contiguos gme 0 order_to_alloc order s = Inl Diverges"
| "split_contiguos gme (Suc n) order_to_alloc order s =
     rbind (free_head order_to_alloc s) (\<lambda>h.
     if h \<noteq> 0 then Inr (True, s)
     else rbind (free_head order s) (\<lambda>h.
       let order' = (if h = 0 then order + 1 else order) in
       if h = 0 \<and> order' \<ge> FRAME_ORDERS then Inr (False, s)
       else
         rbind (free_head order' s) (\<lambda>entry.
         rbind (deref entry s) (\<lambda>e.
         rbind (split_entry gme entry order' (set_head order' (e_next e) s)) (\<lambda>s.
           split_contiguos gme n order_to_alloc (order' - 1) s)))))"

definition alloc_frames_contiguos ::
    "'a entry_getter \<Rightarrow> u64 \<Rightarrow> 'a frame_state_scheme
     \<Rightarrow> (u64 option \<times> 'a frame_state_scheme) res" where
  "alloc_frames_contiguos gme pages s =
     rbind (get_min_size_frame_order pages) (\<lambda>order_to_alloc.
     rbind (kernel_assert (order_to_alloc < FRAME_ORDERS) ''Not an order'') (\<lambda>_.
     rbind (split_contiguos gme (Suc loop_fuel) order_to_alloc (order_to_alloc + 1) s) (\<lambda>(ok, s).
     if \<not> ok then Inr (None, s)
     else
       rbind (free_head order_to_alloc s) (\<lambda>entry.
       rbind (deref entry s) (\<lambda>e.
       let s = set_head order_to_alloc (e_next e) s in
       rbind (toggle_buddy_bit (e_payload e) order_to_alloc s) (\<lambda>s.
       let out_addr = e_payload e in
       rbind (free_memory_entry entry s) (\<lambda>s.
         Inr (Some out_addr, s))))))))"

section \<open>Taking an address range out of the free lists\<close>

text \<open>The biggest order whose block starts at \<open>addr\<close> and fits, plus one.\<close>

function fit_aligned_order :: "u64 \<Rightarrow> u64 \<Rightarrow> nat \<Rightarrow> 'a frame_state_scheme \<Rightarrow> nat" where
  "fit_aligned_order addr sz order s =
     (if order < FRAME_ORDERS \<and> addr mod order_sizes s order = 0 \<and> sz \<ge> order_sizes s order
      then fit_aligned_order addr sz (order + 1) s else order)"
  by pat_completeness auto
termination
  by (relation "measure (\<lambda>(addr, sz, order, s). FRAME_ORDERS - order)") auto

declare fit_aligned_order.simps [simp del]

text \<open>The loop over the orders, from the last down to 0; \<open>False\<close> when the block is not free.\<close>

fun remove_block ::
    "'a entry_getter \<Rightarrow> u64 \<Rightarrow> nat \<Rightarrow> nat \<Rightarrow> 'a frame_state_scheme
     \<Rightarrow> (bool \<times> 'a frame_state_scheme) res" where
  "remove_block gme addr order_to_alloc 0 s = Inr (True, s)"
| "remove_block gme addr order_to_alloc (Suc order) s =
     rbind (free_head order s) (\<lambda>h.
     rbind (find_entry (\<lambda>a. range_contains addr a (order_sizes s order)) (Suc loop_fuel) h 0 s)
       (\<lambda>(curr_entry, last_entry).
     if curr_entry = 0 then
       (if order = order_to_alloc then Inr (False, s)
        else remove_block gme addr order_to_alloc order s)
     else
       rbind (unlink_entry order curr_entry last_entry s) (\<lambda>s.
       rbind (deref curr_entry s) (\<lambda>e.
       if order = order_to_alloc then
         rbind (toggle_buddy_bit (e_payload e) order s) (\<lambda>s.
         rbind (free_memory_entry curr_entry s) (\<lambda>s.
           Inr (True, s)))
       else
         rbind (kernel_assert (order \<noteq> 0) ''Can't split order 0 block'') (\<lambda>_.
         rbind (split_entry gme curr_entry order s) (\<lambda>s.
           remove_block gme addr order_to_alloc order s))))))"

fun remove_range_loop ::
    "'a entry_getter \<Rightarrow> nat \<Rightarrow> u64 \<Rightarrow> u64 \<Rightarrow> 'a frame_state_scheme
     \<Rightarrow> (bool \<times> 'a frame_state_scheme) res" where
  "remove_range_loop gme 0 addr sz s = Inl Diverges"
| "remove_range_loop gme (Suc n) addr sz s =
     (if sz = 0 then Inr (True, s)
      else
        let order_to_alloc = fit_aligned_order addr sz 1 s - 1 in
        rbind (remove_block gme addr order_to_alloc FRAME_ORDERS s) (\<lambda>(ok, s).
        if \<not> ok then Inr (False, s)
        else remove_range_loop gme n (addr + order_sizes s order_to_alloc)
               (sz - order_sizes s order_to_alloc) s))"

definition remove_range ::
    "'a entry_getter \<Rightarrow> u64 \<Rightarrow> u64 \<Rightarrow> 'a frame_state_scheme
     \<Rightarrow> (bool \<times> 'a frame_state_scheme) res" where
  "remove_range gme addr pages s =
     remove_range_loop gme (Suc loop_fuel) addr (pages * PAGE_SIZE) s"

section \<open>Initialization\<close>

definition init_order_sizes :: "'a frame_state_scheme \<Rightarrow> 'a frame_state_scheme" where
  "init_order_sizes s =
     s\<lparr>order_sizes := fold (\<lambda>i sizes. sizes(i := sizes (i - 1) * 2)) [1..<FRAME_ORDERS]
                       ((order_sizes s)(0 := PAGE_SIZE))\<rparr>"

text \<open>
  The walk that reserves memory from the firmware's map: the first region of a usable type
  above 1MB with enough pages loses its first \<open>pages\<close> pages. The address is 0 when no region
  is big enough.
\<close>

fun reserve_from_map :: "u64 \<Rightarrow> UEFIMemoryMap \<Rightarrow> u64 \<times> UEFIMemoryMap" where
  "reserve_from_map pages [] = (0, [])"
| "reserve_from_map pages (desc # descs) =
     (let correct_type = mtype desc = EfiConventionalMemory \<or>
            mtype desc = EfiRuntimeServicesCode \<or> mtype desc = EfiBootServicesCode in
      if \<not> correct_type \<or> physical_start desc < 0x100000 \<or> num_pages desc < pages then
        (let (addr, descs) = reserve_from_map pages descs in (addr, desc # descs))
      else
        (physical_start desc,
         desc\<lparr>num_pages := num_pages desc - pages,
              physical_start := physical_start desc + pages * PAGE_SIZE\<rparr> # descs))"

definition alloc_frame_allocator_memory ::
    "UEFIMemoryMap \<Rightarrow> 'a frame_state_scheme
     \<Rightarrow> (u64 \<times> u64 \<times> u64 \<times> UEFIMemoryMap) \<times> 'a frame_state_scheme" where
  "alloc_frame_allocator_memory memory_map s =
     (let s = init_order_sizes s;
          free_list_entries = (memory_size s div order_sizes s (FRAME_ORDERS - 1)) * 2;
          entry_pool_pages = round_up_to_multiple (free_list_entries * 16) PAGE_SIZE div PAGE_SIZE;
          total_bitmaps_size =
            fold (\<lambda>i total. total + memory_size s div order_sizes s i) [0..<FRAME_ORDERS - 1] 0;
          total_bitmaps_size = round_up_to_multiple total_bitmaps_size PAGE_SIZE div PAGE_SIZE;
          total_pages = entry_pool_pages + total_bitmaps_size;
          (phys_addr, memory_map) = reserve_from_map total_pages memory_map
      in ((phys_addr, total_pages, entry_pool_pages, memory_map), s))"

text \<open>The blocks of the last order, chained in address order after the node \<open>curr_entry\<close>.\<close>

fun populate_blocks ::
    "'a entry_getter \<Rightarrow> nat \<Rightarrow> u64 \<Rightarrow> u64 \<Rightarrow> 'a frame_state_scheme
     \<Rightarrow> 'a frame_state_scheme res" where
  "populate_blocks gme 0 curr_entry curr_addr s = Inr s"
| "populate_blocks gme (Suc n) curr_entry curr_addr s =
     (if curr_addr \<ge> memory_size s then Inr s
      else
        rbind (gme s) (\<lambda>(next_entry, s).
        rbind (set_payload next_entry curr_addr s) (\<lambda>s.
        rbind (set_next curr_entry next_entry s) (\<lambda>s.
          populate_blocks gme n next_entry
            (curr_addr + order_sizes s (FRAME_ORDERS - 1)) s))))"

text \<open>
  The walk that takes every unusable region out of the free lists: the gaps between
  descriptors and the regions of the other types. \<open>last\<close> is \<open>None\<close> before the first
  descriptor.
\<close>

fun remove_unusable ::
    "'a entry_getter \<Rightarrow> UEFIMemoryDescriptor option \<Rightarrow> UEFIMemoryMap \<Rightarrow> 'a frame_state_scheme
     \<Rightarrow> 'a frame_state_scheme res" where
  "remove_unusable gme last_desc [] s = Inr s"
| "remove_unusable gme last_desc (desc # descs) s =
     rbind
       (case last_desc of
          None \<Rightarrow> Inr s
        | Some last_desc \<Rightarrow>
            let addr = physical_start last_desc + num_pages last_desc * PAGE_SIZE in
            if addr \<noteq> physical_start desc then
              let sz = physical_start desc - addr in
              rbind (kernel_assert (addr mod PAGE_SIZE = 0) ''Address not page aligned'') (\<lambda>_.
              rbind (kernel_assert (sz mod PAGE_SIZE = 0) ''Size not page aligned'') (\<lambda>_.
              rbind (remove_range gme addr (sz div PAGE_SIZE) s) (\<lambda>(success, s).
              rbind (kernel_assert success
                ''Failed to remove unusable frames from frame allocator'') (\<lambda>_. Inr s))))
            else Inr s)
       (\<lambda>s.
     rbind
       (if mtype desc \<in> {EfiBootServicesCode, EfiRuntimeServicesCode, EfiConventionalMemory}
        then Inr s
        else
          rbind (remove_range gme (physical_start desc) (num_pages desc) s) (\<lambda>(success, s).
          rbind (kernel_assert success
            ''Failed to remove unusable frames from frame allocator'') (\<lambda>_. Inr s)))
       (\<lambda>s. remove_unusable gme (Some desc) descs s))"

definition initialize_frame_allocator ::
    "'a entry_getter \<Rightarrow> u64 \<Rightarrow> u64 \<Rightarrow> UEFIMemoryMap \<Rightarrow> u64 \<Rightarrow> 'a frame_state_scheme
     \<Rightarrow> 'a frame_state_scheme res" where
  "initialize_frame_allocator gme virt_addr total_pages memory_map entry_pool_pages s =
     (let s = s\<lparr>nodes := (\<lambda>p. if range_contains p virt_addr (total_pages * PAGE_SIZE)
                            then \<lparr>e_next = 0, e_payload = 0\<rparr> else nodes s p)\<rparr> in
      rbind (fill_memory_entry_pool virt_addr entry_pool_pages s) (\<lambda>s.
      let virt_addr = virt_addr + entry_pool_pages * PAGE_SIZE;
          (virt_addr, base) =
            fold (\<lambda>i (v, base). (v + memory_size s div order_sizes s i, base(i := v)))
              [0..<FRAME_ORDERS - 1] (virt_addr, buddy_base s);
          s = s\<lparr>buddy_base := base,
                buddy_maps := (\<lambda>i. if i < FRAME_ORDERS - 1 then (\<lambda>_. 0) else buddy_maps s i)\<rparr> in
      rbind (gme s) (\<lambda>(curr_entry, s).
      rbind (set_payload curr_entry 0 s) (\<lambda>s.
      let s = set_head (FRAME_ORDERS - 1) curr_entry s;
          block_count = memory_size s div order_sizes s (FRAME_ORDERS - 1) in
      rbind (populate_blocks gme (unat block_count - 1) curr_entry
               (order_sizes s (FRAME_ORDERS - 1)) s) (\<lambda>s.
        remove_unusable gme None memory_map s)))))"

end
