(* ===== verification/Paging_Entries.thy ===== *)
theory Paging_Entries
  imports Bit_Fields Frame_Allocator
begin

text \<open>
  The packed structs of kernel/include/memory/paging.h and the index arithmetic of
  kernel/src/memory/paging.c: page table entries, the entries of the list of free virtual
  ranges, and the entries that map the physical address of a page table to the virtual
  address the kernel reaches it by.
\<close>

section \<open>Constants\<close>

definition PAGING_EXECUTABLE :: u32 where
  "PAGING_EXECUTABLE = 2"

definition PAGING_CACHE_DISABLE :: u32 where
  "PAGING_CACHE_DISABLE = 4"

definition PAGING_WRITE_THROUGH :: u32 where
  "PAGING_WRITE_THROUGH = 8"

definition PAGE_POOL_THRESHOLD :: u64 where
  "PAGE_POOL_THRESHOLD = 10"

definition PT_MEM_RANGE :: u64 where
  "PT_MEM_RANGE = PAGE_SIZE * 512"

definition PD_MEM_RANGE :: u64 where
  "PD_MEM_RANGE = PT_MEM_RANGE * 512"

definition PDP_MEM_RANGE :: u64 where
  "PDP_MEM_RANGE = PD_MEM_RANGE * 512"

definition KERNEL_PML4_OFFSET :: nat where
  "KERNEL_PML4_OFFSET = 480"

definition KERNEL_OFFSET :: u64 where
  "KERNEL_OFFSET = of_nat KERNEL_PML4_OFFSET * PDP_MEM_RANGE"

definition NON_EXT_ADDR_MASK :: u64 where
  "NON_EXT_ADDR_MASK = 0xffffffffffff"

abbreviation PT :: nat where "PT \<equiv> 0"
abbreviation PD :: nat where "PD \<equiv> 1"
abbreviation PDP :: nat where "PDP \<equiv> 2"

definition GET_LEVEL_INDEX :: "u64 \<Rightarrow> nat \<Rightarrow> nat" where
  "GET_LEVEL_INDEX addr level =
     unat (drop_bit (12 + 9 * level) (addr AND push_bit (12 + 9 * level) 0x1ff))"

definition SIGN_EXT_ADDR :: "u64 \<Rightarrow> u64" where
  "SIGN_EXT_ADDR addr = addr OR push_bit 48 ((drop_bit 47 addr AND 1) * 0xffff)"

section \<open>PageEntry\<close>

definition pe_present :: "u64 \<Rightarrow> bool" where
  "pe_present v = bit v 0"

definition pe_large :: "u64 \<Rightarrow> bool" where
  "pe_large v = bit v 7"

definition pe_phys_addr :: "u64 \<Rightarrow> u64" where
  "pe_phys_addr v = get_field 12 40 v"

definition pe_set_present :: "bool \<Rightarrow> u64 \<Rightarrow> u64" where
  "pe_set_present b = set_flag 0 b"

definition pe_set_write :: "bool \<Rightarrow> u64 \<Rightarrow> u64" where
  "pe_set_write b = set_flag 1 b"

definition pe_set_user :: "bool \<Rightarrow> u64 \<Rightarrow> u64" where
  "pe_set_user b = set_flag 2 b"

definition pe_set_write_through :: "bool \<Rightarrow> u64 \<Rightarrow> u64" where
  "pe_set_write_through b = set_flag 3 b"

definition pe_set_cache_disable :: "bool \<Rightarrow> u64 \<Rightarrow> u64" where
  "pe_set_cache_disable b = set_flag 4 b"

definition pe_set_phys_addr :: "u64 \<Rightarrow> u64 \<Rightarrow> u64" where
  "pe_set_phys_addr a = set_field 12 40 a"

definition pe_set_prot :: "u8 \<Rightarrow> u64 \<Rightarrow> u64" where
  "pe_set_prot p = set_field 59 4 (ucast p)"

definition pe_set_execute_disable :: "bool \<Rightarrow> u64 \<Rightarrow> u64" where
  "pe_set_execute_disable b = set_flag 63 b"

lemmas pe_defs = pe_present_def pe_large_def pe_phys_addr_def pe_set_present_def pe_set_write_def
  pe_set_user_def pe_set_write_through_def pe_set_cache_disable_def pe_set_phys_addr_def
  pe_set_prot_def pe_set_execute_disable_def

lemma pe_present_simps [simp]:
  "pe_present (pe_set_present b v) = b"
  "pe_present (pe_set_write c v) = pe_present v"
  "pe_present (pe_set_user c v) = pe_present v"
  "pe_present (pe_set_write_through c v) = pe_present v"
  "pe_present (pe_set_cache_disable c v) = pe_present v"
  "pe_present (pe_set_phys_addr a v) = pe_present v"
  "pe_present (pe_set_prot p v) = pe_present v"
  "pe_present (pe_set_execute_disable c v) = pe_present v"
  by (simp_all add: pe_defs bit_set_flag)

lemma pe_large_simps [simp]:
  "pe_large (pe_set_present b v) = pe_large v"
  "pe_large (pe_set_write c v) = pe_large v"
  "pe_large (pe_set_user c v) = pe_large v"
  "pe_large (pe_set_write_through c v) = pe_large v"
  "pe_large (pe_set_cache_disable c v) = pe_large v"
  "pe_large (pe_set_phys_addr a v) = pe_large v"
  "pe_large (pe_set_prot p v) = pe_large v"
  "pe_large (pe_set_execute_disable c v) = pe_large v"
  by (simp_all add: pe_defs bit_set_flag)

lemma pe_phys_addr_simps [simp]:
  "pe_phys_addr (pe_set_present b v) = pe_phys_addr v"
  "pe_phys_addr (pe_set_write c v) = pe_phys_addr v"
  "pe_phys_addr (pe_set_user c v) = pe_phys_addr v"
  "pe_phys_addr (pe_set_write_through c v) = pe_phys_addr v"
  "pe_phys_addr (pe_set_cache_disable c v) = pe_phys_addr v"
  "pe_phys_addr (pe_set_phys_addr a v) = take_bit 40 a"
  "pe_phys_addr (pe_set_prot p v) = pe_phys_addr v"
  "pe_phys_addr (pe_set_execute_disable c v) = pe_phys_addr v"
  by (simp_all add: pe_defs get_set_field)

section \<open>FreeListEntry and MappingEntry\<close>

text \<open>
  Both structs are packed into the 128 bits of a node: \<open>next : 48\<close> and the low 16 bits of the
  36-bit second field share the first word; the rest of the second field and the third field
  share the second word.
\<close>

definition fle_next :: "entry \<Rightarrow> u64" where
  "fle_next e = get_field 0 48 (e_next e)"

definition fle_addr :: "entry \<Rightarrow> u64" where
  "fle_addr e = drop_bit 48 (e_next e) OR push_bit 16 (get_field 0 20 (e_payload e))"

definition fle_pages :: "entry \<Rightarrow> u64" where
  "fle_pages e = get_field 20 44 (e_payload e)"

definition fle_set_next :: "u64 \<Rightarrow> entry \<Rightarrow> entry" where
  "fle_set_next p e = e\<lparr>e_next := set_field 0 48 p (e_next e)\<rparr>"

definition fle_set_addr :: "u64 \<Rightarrow> entry \<Rightarrow> entry" where
  "fle_set_addr a e = e\<lparr>e_next := set_field 48 16 a (e_next e),
                       e_payload := set_field 0 20 (drop_bit 16 a) (e_payload e)\<rparr>"

definition fle_set_pages :: "u64 \<Rightarrow> entry \<Rightarrow> entry" where
  "fle_set_pages n e = e\<lparr>e_payload := set_field 20 44 n (e_payload e)\<rparr>"

definition me_next :: "entry \<Rightarrow> u64" where
  "me_next e = get_field 0 48 (e_next e)"

definition me_virt_addr :: "entry \<Rightarrow> u64" where
  "me_virt_addr e = drop_bit 48 (e_next e) OR push_bit 16 (get_field 0 20 (e_payload e))"

definition me_phys_addr :: "entry \<Rightarrow> u64" where
  "me_phys_addr e = get_field 20 38 (e_payload e)"

definition me_set_next :: "u64 \<Rightarrow> entry \<Rightarrow> entry" where
  "me_set_next p e = e\<lparr>e_next := set_field 0 48 p (e_next e)\<rparr>"

definition me_set_virt_addr :: "u64 \<Rightarrow> entry \<Rightarrow> entry" where
  "me_set_virt_addr a e = e\<lparr>e_next := set_field 48 16 a (e_next e),
                           e_payload := set_field 0 20 (drop_bit 16 a) (e_payload e)\<rparr>"

definition me_set_phys_addr :: "u64 \<Rightarrow> entry \<Rightarrow> entry" where
  "me_set_phys_addr a e = e\<lparr>e_payload := set_field 20 38 a (e_payload e)\<rparr>"

text \<open>A 36-bit field that straddles the two words.\<close>

lemma straddle_get_set:
  "drop_bit 48 (set_field 48 16 a v) OR push_bit 16 (get_field 0 20 (set_field 0 20 (drop_bit 16 a) w)) =
     take_bit 36 (a :: u64)"
proof (rule bit_word_eqI)
  fix n assume "n < LENGTH(64)"
  then show "bit (drop_bit 48 (set_field 48 16 a v) OR push_bit 16 (get_field 0 20 (set_field 0 20 (drop_bit 16 a) w))) n =
      bit (take_bit 36 a) n"
    using bit_imp_le_length [of v "48 + n"]
    by (cases "n < 16"; cases "n < 36") (auto simp: bit_simps bit_set_field bit_get_field)
qed

lemma straddle_get_set':
  "drop_bit 48 (set_field 48 16 a v) OR push_bit 16 (take_bit 20 (drop_bit 16 a)) = take_bit 36 (a :: u64)"
  using straddle_get_set [of a v 0] by (simp add: get_set_field)

lemma drop_set_next: "drop_bit 48 (set_field 0 48 p v) = drop_bit 48 (v :: u64)"
  by (rule bit_word_eqI) (auto simp: bit_simps bit_set_field)

lemma fle_simps [simp]:
  "fle_next (fle_set_next p e) = take_bit 48 p"
  "fle_next (fle_set_addr a e) = fle_next e"
  "fle_next (fle_set_pages n e) = fle_next e"
  "fle_addr (fle_set_next p e) = fle_addr e"
  "fle_addr (fle_set_addr a e) = take_bit 36 a"
  "fle_addr (fle_set_pages n e) = fle_addr e"
  "fle_pages (fle_set_next p e) = fle_pages e"
  "fle_pages (fle_set_addr a e) = fle_pages e"
  "fle_pages (fle_set_pages n e) = take_bit 44 n"
  by (simp_all add: fle_next_def fle_addr_def fle_pages_def fle_set_next_def fle_set_addr_def
      fle_set_pages_def get_set_field straddle_get_set' drop_set_next)

lemma me_simps [simp]:
  "me_next (me_set_next p e) = take_bit 48 p"
  "me_next (me_set_virt_addr a e) = me_next e"
  "me_next (me_set_phys_addr b e) = me_next e"
  "me_virt_addr (me_set_next p e) = me_virt_addr e"
  "me_virt_addr (me_set_virt_addr a e) = take_bit 36 a"
  "me_virt_addr (me_set_phys_addr b e) = me_virt_addr e"
  "me_phys_addr (me_set_next p e) = me_phys_addr e"
  "me_phys_addr (me_set_virt_addr a e) = me_phys_addr e"
  "me_phys_addr (me_set_phys_addr b e) = take_bit 38 b"
  by (simp_all add: me_next_def me_virt_addr_def me_phys_addr_def me_set_next_def me_set_virt_addr_def
      me_set_phys_addr_def get_set_field straddle_get_set' drop_set_next)

section \<open>Index arithmetic\<close>

lemma unat_PDP_MEM_RANGE [simp]: "unat PDP_MEM_RANGE = 2 ^ 39"
  by (simp add: PDP_MEM_RANGE_def PD_MEM_RANGE_def PT_MEM_RANGE_def PAGE_SIZE_def)

lemma mask_0x1ff: "(0x1ff :: u64) = mask 9" and mask_0xffff: "(0xffff :: u64) = mask 16"
  by (simp_all add: mask_eq_exp_minus_1)

lemma GET_LEVEL_INDEX_eq:
  assumes "level < 4"
  shows "GET_LEVEL_INDEX addr level = unat addr div 2 ^ (12 + 9 * level) mod 512"
proof -
  have "drop_bit (12 + 9 * level) (addr AND push_bit (12 + 9 * level) 0x1ff) =
      take_bit 9 (drop_bit (12 + 9 * level) addr)"
  proof (rule bit_word_eqI)
    fix n assume "n < LENGTH(64)"
    then show "bit (drop_bit (12 + 9 * level) (addr AND push_bit (12 + 9 * level) 0x1ff)) n =
        bit (take_bit 9 (drop_bit (12 + 9 * level) addr)) n"
      unfolding mask_0x1ff by (auto simp: bit_simps dest: bit_imp_le_length)
  qed
  then show ?thesis
    by (simp only: GET_LEVEL_INDEX_def unat_take_bit_u64 unat_drop_bit_u64) simp
qed

lemma GET_LEVEL_INDEX_bound: "level < 4 \<Longrightarrow> GET_LEVEL_INDEX addr level < 512"
  by (simp add: GET_LEVEL_INDEX_eq)

lemma bit_SIGN_EXT_ADDR:
  "bit (SIGN_EXT_ADDR a) n \<longleftrightarrow> (if n < 48 then bit a n else n < 64 \<and> (bit a n \<or> bit a 47))"
proof -
  have one: "drop_bit 47 a AND 1 = (if bit a 47 then 1 else 0)"
    by (simp add: and_one_eq bit_iff_odd_drop_bit odd_iff_mod_2_eq_one)
  have "bit (push_bit 48 ((drop_bit 47 a AND 1) * 0xffff)) n \<longleftrightarrow> 48 \<le> n \<and> n < 64 \<and> bit a 47"
    unfolding one mask_0xffff by (auto simp: bit_simps)
  then show ?thesis
    using bit_imp_le_length [of a n] unfolding SIGN_EXT_ADDR_def bit_or_iff by auto
qed

text \<open>Sign extension undoes the truncation of a canonical pointer to 48 bits.\<close>

definition canonical :: "u64 \<Rightarrow> bool" where
  "canonical p \<longleftrightarrow> (\<forall>n \<in> {48..<64}. bit p n = bit p 47)"

lemma SIGN_EXT_take_bit: "canonical p \<Longrightarrow> SIGN_EXT_ADDR (take_bit 48 p) = p"
  by (rule bit_word_eqI) (auto simp: bit_SIGN_EXT_ADDR bit_simps canonical_def)

lemma canonical_SIGN_EXT: "unat a < 2 ^ 48 \<Longrightarrow> canonical (SIGN_EXT_ADDR a)"
proof -
  assume "unat a < 2 ^ 48"
  then have "take_bit 48 a = a"
    by (rule take_bit_word_eq)
  then have "\<not> bit a n" if "48 \<le> n" for n
    using that by (metis bit_take_bit_iff linorder_not_le)
  then show ?thesis
    by (auto simp: canonical_def bit_SIGN_EXT_ADDR)
qed

lemma GET_LEVEL_INDEX_SIGN_EXT:
  assumes "level < 4"
  shows "GET_LEVEL_INDEX (SIGN_EXT_ADDR a) level = GET_LEVEL_INDEX a level"
proof -
  have "SIGN_EXT_ADDR a AND push_bit (12 + 9 * level) 0x1ff = a AND push_bit (12 + 9 * level) 0x1ff"
  proof (rule bit_word_eqI)
    fix n assume "n < LENGTH(64)"
    show "bit (SIGN_EXT_ADDR a AND push_bit (12 + 9 * level) 0x1ff) n =
        bit (a AND push_bit (12 + 9 * level) 0x1ff) n"
      using assms unfolding mask_0x1ff by (auto simp: bit_simps bit_SIGN_EXT_ADDR)
  qed
  then show ?thesis
    by (simp add: GET_LEVEL_INDEX_def)
qed

end
