(* ===== verification/Pci.thy ===== *)
theory Pci
  imports Acpi Paging_Entries
begin

text \<open>
  kernel/src/pci.c: the list of PCI functions. A mapped page of configuration space shows the
  registers of the function at its physical address, \<open>config\<close>; mapping, unmapping and \<open>kalloc\<close>
  are the kernel's operations on the rest of its state.
\<close>

definition PCI_DEVICE_CLASS_MASK :: u32 where
  "PCI_DEVICE_CLASS_MASK = 0xff000000"

definition PCI_DEVICE_SUBCLASS_MASK :: u32 where
  "PCI_DEVICE_SUBCLASS_MASK = 0xffff0000"

definition PCI_DEVICE_PROG_IF_MASK :: u32 where
  "PCI_DEVICE_PROG_IF_MASK = 0xffffff00"

definition PCI_DEVICE_REVISION_ID_MASK :: u32 where
  "PCI_DEVICE_REVISION_ID_MASK = 0xffffffff"

text \<open>The registers of \<open>PCIConfigSpace0\<close> the kernel reads.\<close>

record PCIConfigSpace0 =
  vendor_id :: u16
  header_type :: u8
  cs_revision_ID :: u8
  cs_prog_IF :: u8
  cs_subclass :: u8
  cs_class_code :: u8
  BAR5 :: u32

text \<open>\<open>type\<close> is the union of the four bytes, the revision lowest.\<close>

record PCIDeviceEntry =
  pci_next :: u64
  config_space :: u64
  pci_type :: u32

record 'k pci_state =
  g_pci_device_list :: u64
  pci_entries :: "u64 \<Rightarrow> PCIDeviceEntry"
  pci_kernel :: 'k

record 'k pci_ops =
  pci_kmap :: "u64 \<Rightarrow> u64 \<Rightarrow> u32 \<Rightarrow> 'k \<Rightarrow> (u64 \<times> 'k) res"
  pci_kunmap :: "u64 \<Rightarrow> u64 \<Rightarrow> 'k \<Rightarrow> 'k res"
  pci_kalloc :: "u64 \<Rightarrow> 'k \<Rightarrow> (u64 \<times> 'k) res"

definition pci_type_of :: "PCIConfigSpace0 \<Rightarrow> u32" where
  "pci_type_of c = ucast (cs_revision_ID c) OR push_bit 8 (ucast (cs_prog_IF c)) OR
     push_bit 16 (ucast (cs_subclass c)) OR push_bit 24 (ucast (cs_class_code c))"

section \<open>Searching\<close>

fun get_pci_device_loop :: "nat \<Rightarrow> (u64 \<Rightarrow> PCIDeviceEntry) \<Rightarrow> u64 \<Rightarrow> u32 \<Rightarrow> u32 \<Rightarrow> u64 res" where
  "get_pci_device_loop 0 h device_entry type mask_bits = Inl Diverges"
| "get_pci_device_loop (Suc n) h device_entry type mask_bits =
     (if device_entry = 0 then Inr 0
      else if pci_type (h device_entry) AND mask_bits = type then Inr (config_space (h device_entry))
      else get_pci_device_loop n h (pci_next (h device_entry)) type mask_bits)"

definition get_pci_device :: "u32 \<Rightarrow> u32 \<Rightarrow> 'k pci_state \<Rightarrow> u64 res" where
  "get_pci_device type mask_bits s = get_pci_device_loop (Suc loop_fuel) (pci_entries s) (g_pci_device_list s) type mask_bits"

section \<open>Enumeration\<close>

definition config_phys_addr :: "u64 \<Rightarrow> nat \<Rightarrow> nat \<Rightarrow> nat \<Rightarrow> u64" where
  "config_phys_addr base bus device func =
     base + (push_bit 20 (of_nat bus) OR push_bit 15 (of_nat device) OR push_bit 12 (of_nat func))"

definition add_device :: "'k pci_ops \<Rightarrow> PCIConfigSpace0 \<Rightarrow> u64 \<Rightarrow> 'k pci_state \<Rightarrow> 'k pci_state res" where
  "add_device ops c cs_addr s =
     rbind (pci_kalloc ops 20 (pci_kernel s)) (\<lambda>(e, k).
     if e = 0 then Inl Null_deref
     else Inr (s\<lparr>pci_kernel := k,
       pci_entries := (pci_entries s)(e := \<lparr>pci_next = g_pci_device_list s, config_space = cs_addr, pci_type = pci_type_of c\<rparr>),
       g_pci_device_list := e\<rparr>))"

text \<open>The loop over \<open>func\<close>; its \<open>break\<close> ends it.\<close>

fun scan_functions :: "'k pci_ops \<Rightarrow> (u64 \<Rightarrow> PCIConfigSpace0) \<Rightarrow> u64 \<Rightarrow> nat \<Rightarrow> nat \<Rightarrow> nat list \<Rightarrow> 'k pci_state \<Rightarrow> 'k pci_state res" where
  "scan_functions ops config base bus device [] s = Inr s"
| "scan_functions ops config base bus device (func # funcs) s =
     (let phys = config_phys_addr base bus device func; c = config phys in
      rbind (pci_kmap ops phys 1 (PAGING_WRITABLE OR PAGING_CACHE_DISABLE) (pci_kernel s)) (\<lambda>(cs_addr, k).
      let s = s\<lparr>pci_kernel := k\<rparr>;
          exists = (vendor_id c \<noteq> 0xffff);
          is_multi_func = (header_type c AND 0x80 \<noteq> 0) in
      if func > 0 \<and> \<not> is_multi_func then
        rbind (pci_kunmap ops cs_addr 1 (pci_kernel s)) (\<lambda>k. Inr (s\<lparr>pci_kernel := k\<rparr>))
      else if \<not> exists then
        rbind (pci_kunmap ops cs_addr 1 (pci_kernel s)) (\<lambda>k.
          scan_functions ops config base bus device funcs (s\<lparr>pci_kernel := k\<rparr>))
      else
        rbind (add_device ops c cs_addr s) (scan_functions ops config base bus device funcs)))"

fun scan_devices :: "'k pci_ops \<Rightarrow> (u64 \<Rightarrow> PCIConfigSpace0) \<Rightarrow> u64 \<Rightarrow> nat \<Rightarrow> nat list \<Rightarrow> 'k pci_state \<Rightarrow> 'k pci_state res" where
  "scan_devices ops config base bus [] s = Inr s"
| "scan_devices ops config base bus (device # devices) s =
     rbind (scan_functions ops config base bus device [0..<8] s) (scan_devices ops config base bus devices)"

fun scan_buses :: "'k pci_ops \<Rightarrow> (u64 \<Rightarrow> PCIConfigSpace0) \<Rightarrow> u64 \<Rightarrow> nat list \<Rightarrow> 'k pci_state \<Rightarrow> 'k pci_state res" where
  "scan_buses ops config base [] s = Inr s"
| "scan_buses ops config base (bus # buses) s =
     rbind (scan_devices ops config base bus [0..<32] s) (scan_buses ops config base buses)"

text \<open>An \<open>MCFGEntry\<close> has 16 bytes: the base address, the segment group, the first and the last bus.\<close>

fun scan_segments :: "mem \<Rightarrow> 'k pci_ops \<Rightarrow> (u64 \<Rightarrow> PCIConfigSpace0) \<Rightarrow> u64 \<Rightarrow> nat \<Rightarrow> 'k pci_state \<Rightarrow> 'k pci_state res" where
  "scan_segments m ops config entry 0 s = Inr s"
| "scan_segments m ops config entry (Suc n) s =
     rbind (scan_buses ops config (load64 m entry) [unat (m (entry + 10))..<unat (m (entry + 11))] s)
       (scan_segments m ops config (entry + 16) n)"

definition enumerate_pci_devices ::
    "mem \<Rightarrow> ACPIMemRemap list \<Rightarrow> u64 \<Rightarrow> 'k pci_ops \<Rightarrow> (u64 \<Rightarrow> PCIConfigSpace0) \<Rightarrow> 'k pci_state \<Rightarrow> 'k pci_state res" where
  "enumerate_pci_devices m remaps g_xsdt ops config s =
     rbind (find_table m remaps g_xsdt ''MCFG'') (\<lambda>mcfg.
     rbind (kernel_assert (mcfg \<noteq> 0) ''MCFG TABLE NOT FOUND'') (\<lambda>_.
     let entries = (ucast (sdt_length m mcfg) - 44) div 16 :: u64 in
     scan_segments m ops config (mcfg + 44) (unat entries) s))"

end
