(* ===== verification/Ahci.thy ===== *)
theory Ahci
  imports Pci Bit_Fields
begin

text \<open>
  kernel/src/ahci.c with kernel/include/ahci: commands to SATA drives. The registers of a port are
  a record; the command headers and tables, which the controller reads from memory, are records
  of their fields. What the device does while the kernel waits for it is the sequence of values
  its registers take.
\<close>

section \<open>Constants\<close>

definition PORT_CMD_CR :: u32 where
  "PORT_CMD_CR = push_bit 15 1"

definition PORT_CMD_FR :: u32 where
  "PORT_CMD_FR = push_bit 14 1"

definition PORT_CMD_FRE :: u32 where
  "PORT_CMD_FRE = push_bit 4 1"

definition PORT_CMD_ST :: u32 where
  "PORT_CMD_ST = push_bit 0 1"

definition PORT_IS_TFES :: u32 where
  "PORT_IS_TFES = push_bit 30 1"

definition PORT_IPM_ACTIVE :: u32 where
  "PORT_IPM_ACTIVE = 1"

definition PORT_DET_PRESENT :: u32 where
  "PORT_DET_PRESENT = 3"

definition SATA_SIG_ATA :: u32 where
  "SATA_SIG_ATA = 0x00000101"

definition ATA_CMD_READ_DMA_EX :: u8 where
  "ATA_CMD_READ_DMA_EX = 0x25"

definition ATA_CMD_WRITE_DMA_EXT :: u8 where
  "ATA_CMD_WRITE_DMA_EXT = 0x35"

definition ATA_DEV_DRQ :: u32 where
  "ATA_DEV_DRQ = 0x8"

definition ATA_DEV_BUSY :: u32 where
  "ATA_DEV_BUSY = 0x80"

definition FIS_TYPE_REG_H2D :: u8 where
  "FIS_TYPE_REG_H2D = 0x27"

definition PRDT_LEN :: nat where
  "PRDT_LEN = 8"

definition CMD_TABLE_SIZE :: u64 where
  "CMD_TABLE_SIZE = (((128 + of_nat PRDT_LEN * 16) + 128 - 1) div 128) * 128"

section \<open>Structures\<close>

record AHCIPort =
  cmd_list_base :: u64
  port_fis_base :: u64
  port_interrupt_status :: u32
  port_cmd :: u32
  task_file_data :: u32
  port_signature :: u32
  sata_status :: u32
  sata_active :: u32
  cmd_issue :: u32

record CMDHeader =
  cmd_fis_len :: u8
  hdr_write :: bool
  hdr_prdt_len :: u16
  cmd_table_base :: u64

record PRDTEntry =
  data_base :: u64
  byte_count :: u32
  prdt_interrupt :: bool

record FISRegH2D =
  fis_type :: u8
  fis_c :: bool
  fis_cmd :: u8
  lba0 :: u8
  lba1 :: u8
  lba2 :: u8
  device_reg :: u8
  lba3 :: u8
  lba4 :: u8
  lba5 :: u8
  countl :: u8
  counth :: u8

record CMDTable =
  cmd_fis :: FISRegH2D
  prdt_entry :: "PRDTEntry list"

definition zero_fis :: FISRegH2D where
  "zero_fis = \<lparr>fis_type = 0, fis_c = False, fis_cmd = 0, lba0 = 0, lba1 = 0, lba2 = 0, device_reg = 0, lba3 = 0, lba4 = 0,
     lba5 = 0, countl = 0, counth = 0\<rparr>"

definition zero_table :: CMDTable where
  "zero_table = \<lparr>cmd_fis = zero_fis, prdt_entry = replicate PRDT_LEN \<lparr>data_base = 0, byte_count = 0, prdt_interrupt = False\<rparr>\<rparr>"

section \<open>Ports\<close>

text \<open>\<open>cmds\<close> lists the values of the command register that the waiting loop reads.\<close>

fun wait_while :: "(u32 \<Rightarrow> bool) \<Rightarrow> u32 list \<Rightarrow> u32 res" where
  "wait_while busy [] = Inl Diverges"
| "wait_while busy (v # vs) = (if busy v then wait_while busy vs else Inr v)"

definition start_cmd :: "u32 list \<Rightarrow> AHCIPort \<Rightarrow> AHCIPort res" where
  "start_cmd cmds port =
     rbind (wait_while (\<lambda>v. v AND PORT_CMD_CR \<noteq> 0) cmds) (\<lambda>v.
       Inr (port\<lparr>port_cmd := v OR PORT_CMD_FRE OR PORT_CMD_ST\<rparr>))"

definition stop_cmd :: "(u32 \<Rightarrow> u32 list) \<Rightarrow> AHCIPort \<Rightarrow> AHCIPort res" where
  "stop_cmd cmds port =
     (let v = port_cmd port AND NOT PORT_CMD_ST; v = v AND NOT PORT_CMD_FRE in
      rbind (wait_while (\<lambda>v. v AND PORT_CMD_FR \<noteq> 0 \<or> v AND PORT_CMD_CR \<noteq> 0) (cmds v)) (\<lambda>v.
        Inr (port\<lparr>port_cmd := v\<rparr>)))"

fun find_slot :: "u32 \<Rightarrow> nat list \<Rightarrow> nat res" where
  "find_slot slots [] = Inl (Assert_failed ''Failed to find free cmd slot'')"
| "find_slot slots (i # is) = (if slots AND 1 = 0 then Inr i else find_slot (drop_bit 1 slots) is)"

definition find_cmd_slot :: "u8 \<Rightarrow> AHCIPort \<Rightarrow> nat res" where
  "find_cmd_slot cmd_slots port = find_slot (sata_active port OR cmd_issue port) [0..<unat cmd_slots]"

section \<open>Commands\<close>

text \<open>The 48 bits of the sector number and the 16 bits of the count, in bytes.\<close>

definition build_fis :: "u64 \<Rightarrow> u16 \<Rightarrow> bool \<Rightarrow> FISRegH2D \<Rightarrow> FISRegH2D" where
  "build_fis sector sector_count wr fis =
     (let sector_l = ucast sector :: u32; sector_h = ucast (drop_bit 32 sector) :: u32 in
      fis\<lparr>fis_type := FIS_TYPE_REG_H2D, fis_c := True,
        fis_cmd := (if wr then ATA_CMD_WRITE_DMA_EXT else ATA_CMD_READ_DMA_EX),
        lba0 := ucast sector_l, lba1 := ucast (drop_bit 8 sector_l), lba2 := ucast (drop_bit 16 sector_l),
        lba3 := ucast (drop_bit 24 sector_l), lba4 := ucast sector_h, lba5 := ucast (drop_bit 8 sector_h),
        device_reg := push_bit 6 1,
        countl := ucast (sector_count AND 0xff), counth := ucast (drop_bit 8 sector_count AND 0xff)\<rparr>)"

text \<open>\<open>((sector_count - 1) / 16) + 1\<close> on \<open>int\<close>: the division truncates towards zero.\<close>

definition command_prdt_len :: "u16 \<Rightarrow> u16" where
  "command_prdt_len sector_count = (if sector_count = 0 then 1 else of_nat ((unat sector_count - 1) div 16 + 1))"

text \<open>\<open>byte_count\<close> has 22 bits. \<open>v2p\<close> is \<open>kvirt_to_phys_addr\<close>.\<close>

definition set_prdt_entry :: "(u64 \<Rightarrow> u64 option) \<Rightarrow> nat \<Rightarrow> u64 \<Rightarrow> u32 \<Rightarrow> PRDTEntry list \<Rightarrow> PRDTEntry list res" where
  "set_prdt_entry v2p i buffer count es =
     (case v2p buffer of
       None \<Rightarrow> Inl (Assert_failed ''Failed to get phys addr'')
     | Some phys_addr \<Rightarrow>
         if i < length es then Inr (es[i := \<lparr>data_base = phys_addr, byte_count = take_bit 22 count, prdt_interrupt = True\<rparr>])
         else Inl Out_of_bounds)"

fun fill_prdt :: "(u64 \<Rightarrow> u64 option) \<Rightarrow> nat list \<Rightarrow> u64 \<Rightarrow> PRDTEntry list \<Rightarrow> (u64 \<times> PRDTEntry list) res" where
  "fill_prdt v2p [] buffer es = Inr (buffer, es)"
| "fill_prdt v2p (i # is) buffer es =
     rbind (set_prdt_entry v2p i buffer (0x2000 - 1) es) (fill_prdt v2p is (buffer + 0x2000))"

definition build_prdt :: "(u64 \<Rightarrow> u64 option) \<Rightarrow> u16 \<Rightarrow> u64 \<Rightarrow> PRDTEntry list \<Rightarrow> PRDTEntry list res" where
  "build_prdt v2p sector_count buffer es =
     (let n = unat (command_prdt_len sector_count) in
      rbind (fill_prdt v2p [0..<n - 1] buffer es) (\<lambda>(buffer, es).
        set_prdt_entry v2p (n - 1) buffer (ucast (sector_count mod 16) * 512 - 1) es))"

text \<open>
  What the device answers: the values of \<open>task_file_data\<close> before the command is issued, and of
  \<open>cmd_issue\<close> and \<open>interrupt_status\<close> afterwards.
\<close>

record device_answers =
  answers_busy :: "u32 list"
  answers_done :: "(u32 \<times> u32) list"

fun wait_ready :: "u32 list \<Rightarrow> nat \<Rightarrow> nat res" where
  "wait_ready [] spin = (if spin < 1000000 then Inl Diverges else Inr spin)"
| "wait_ready (v # vs) spin =
     (if v AND (ATA_DEV_BUSY OR ATA_DEV_DRQ) \<noteq> 0 \<and> spin < 1000000 then wait_ready vs (spin + 1) else Inr spin)"

fun wait_done :: "(u32 \<times> u32) list \<Rightarrow> unit res" where
  "wait_done [] = Inl Diverges"
| "wait_done ((issue, status) # rest) =
     (if issue = 0 then Inr ()
      else if status AND PORT_IS_TFES \<noteq> 0 then Inl (Assert_failed ''Failed to read'')
      else wait_done rest)"

record ahci_device =
  dev_port :: AHCIPort
  dev_headers :: "nat \<Rightarrow> CMDHeader"
  dev_tables :: "nat \<Rightarrow> CMDTable"

definition read_write_sectors ::
    "(u64 \<Rightarrow> u64 option) \<Rightarrow> u8 \<Rightarrow> device_answers \<Rightarrow> u64 \<Rightarrow> u16 \<Rightarrow> u64 \<Rightarrow> bool \<Rightarrow> ahci_device \<Rightarrow> ahci_device res" where
  "read_write_sectors v2p cmd_slots answers sector sector_count buffer wr d =
     rbind (find_cmd_slot cmd_slots (dev_port d)) (\<lambda>cmd_slot.
     let d = d\<lparr>dev_port := (dev_port d)\<lparr>port_interrupt_status := 0xffffffff\<rparr>\<rparr> in
     rbind (kernel_assert (unat sector_count * 512 \<le> PRDT_LEN * 0x2000)
       ''PRDT_LEN too small to support that many sectors'') (\<lambda>_.
     let h = (dev_headers d cmd_slot)\<lparr>cmd_fis_len := 5, hdr_write := wr, hdr_prdt_len := command_prdt_len sector_count\<rparr>;
         d = d\<lparr>dev_headers := (dev_headers d)(cmd_slot := h)\<rparr>;
         table = zero_table in
     rbind (build_prdt v2p sector_count buffer (prdt_entry table)) (\<lambda>es.
     let table = table\<lparr>prdt_entry := es, cmd_fis := build_fis sector sector_count wr (cmd_fis table)\<rparr>;
         d = d\<lparr>dev_tables := (dev_tables d)(cmd_slot := table)\<rparr> in
     rbind (wait_ready (answers_busy answers) 0) (\<lambda>spin.
     rbind (kernel_assert (spin \<noteq> 1000000) ''Port hung'') (\<lambda>_.
     let d = d\<lparr>dev_port := (dev_port d)\<lparr>cmd_issue := cmd_issue (dev_port d) OR push_bit cmd_slot 1\<rparr>\<rparr> in
     rbind (wait_done (answers_done answers)) (\<lambda>_. Inr d))))))"

section \<open>Detection\<close>

definition drive_present :: "AHCIPort \<Rightarrow> bool" where
  "drive_present port \<longleftrightarrow> sata_status port AND 0b111 = PORT_DET_PRESENT \<and>
     drop_bit 8 (sata_status port) AND 0b111 = PORT_IPM_ACTIVE \<and> port_signature port = SATA_SIG_ATA"

definition port_count_of :: "u32 \<Rightarrow> u8" where
  "port_count_of capabilities = ucast (capabilities AND 0x1f) + 1"

definition cmd_slots_of :: "u32 \<Rightarrow> u8" where
  "cmd_slots_of capabilities = ucast (drop_bit 8 capabilities AND 0x1f) + 1"

text \<open>The ports on which devices are set up, in order.\<close>

definition implemented_drives :: "u32 \<Rightarrow> u32 \<Rightarrow> (nat \<Rightarrow> AHCIPort) \<Rightarrow> nat list" where
  "implemented_drives capabilities port_impl ports =
     filter (\<lambda>p. port_impl AND push_bit p 1 \<noteq> 0 \<and> drive_present (ports p)) [0..<unat (port_count_of capabilities)]"

text \<open>
  The size of the register window: \<open>written\<close> is what the register shows after ones were written
  to it.
\<close>

definition abar_pages :: "u32 \<Rightarrow> u32" where
  "abar_pages written = ucast ((ucast (NOT (written AND 0xfffffff0) + 1) + PAGE_SIZE - 1) div PAGE_SIZE)"

text \<open>
  The layout of the memory of one device from its first byte \<open>dma_ptr\<close>: the headers, the
  received FIS and the tables; the base addresses are physical.
\<close>

definition dma_pages :: "u8 \<Rightarrow> u64" where
  "dma_pages cmd_slots =
     (let cmd_headers_size = round_up_to_multiple (32 * ucast cmd_slots) 256;
          size = cmd_headers_size + 256 + ucast cmd_slots * CMD_TABLE_SIZE
      in (size + PAGE_SIZE - 1) div PAGE_SIZE)"

record device_layout =
  layout_cmd_list :: u64
  layout_fis :: u64
  layout_headers :: "CMDHeader list"

fun table_headers :: "(u64 \<Rightarrow> u64 option) \<Rightarrow> nat \<Rightarrow> u64 \<Rightarrow> CMDHeader list \<Rightarrow> CMDHeader list res" where
  "table_headers v2p 0 dma_ptr hs = Inr hs"
| "table_headers v2p (Suc n) dma_ptr hs =
     (case v2p dma_ptr of
       None \<Rightarrow> Inl (Assert_failed ''Failed to get physical address'')
     | Some phys_addr \<Rightarrow>
         rbind (kernel_assert (phys_addr AND 0b111111 = 0) ''Not aligned'') (\<lambda>_.
           table_headers v2p n (dma_ptr + CMD_TABLE_SIZE)
             (hs @ [\<lparr>cmd_fis_len = 0, hdr_write = False, hdr_prdt_len = of_nat PRDT_LEN, cmd_table_base = phys_addr\<rparr>])))"

definition lay_out_device :: "(u64 \<Rightarrow> u64 option) \<Rightarrow> u8 \<Rightarrow> u64 \<Rightarrow> device_layout res" where
  "lay_out_device v2p cmd_slots dma_ptr =
     (case v2p dma_ptr of
       None \<Rightarrow> Inl (Assert_failed ''Failed to get physical address'')
     | Some cmd_list \<Rightarrow>
         case v2p (dma_ptr + 1024) of
           None \<Rightarrow> Inl (Assert_failed ''Failed to get physical address'')
         | Some fis \<Rightarrow>
             rbind (table_headers v2p (unat cmd_slots) (dma_ptr + 1024 + 256) []) (\<lambda>hs.
               Inr \<lparr>layout_cmd_list = cmd_list, layout_fis = fis, layout_headers = hs\<rparr>))"

end
