(* ===== verification/Ahci_Init.thy ===== *)
theory Ahci_Init
  imports Ahci
begin

text \<open>
  \<open>initialize_ahci\<close> of kernel/src/ahci.c: the controller is found on the PCI list and mapped, its
  ports are searched for drives, and every drive gets the structures it needs and is started.
  The operations on memory act on the kernel's state behind the PCI list. The registers of the
  controller are its two capability words and its ports; what its registers answer while the
  kernel waits for a port to stop or to start is an argument.
\<close>

section \<open>State\<close>

text \<open>\<open>Device\<close>, with the command headers its pointer leads to.\<close>

record Device =
  device_port :: nat
  device_cmd_header :: u64
  device_fis_base :: u64
  device_cmd_tables :: u64
  device_headers :: "CMDHeader list"

record 'k ahci_state =
  ahci_pci :: "'k pci_state"
  hba_bar5 :: u32
  hba_bar5_ones :: u32                   \<comment> \<open>what BAR5 reads after ones were written to it\<close>
  hba_capabilities :: u32
  hba_port_impl :: u32
  hba_ports :: "nat \<Rightarrow> AHCIPort"
  g_controller :: u64
  g_port_count :: u8
  g_cmd_slots :: u8
  g_devices_ptr :: u64
  g_devices :: "Device list"             \<comment> \<open>\<open>devices[0 .. device_count - 1]\<close>\<close>

record 'k ahci_ops =
  ahci_kmap_phys_range :: "u64 \<Rightarrow> u64 \<Rightarrow> u32 \<Rightarrow> 'k \<Rightarrow> (u64 \<times> 'k) res"
  ahci_kalloc :: "u64 \<Rightarrow> 'k \<Rightarrow> (u64 \<times> 'k) res"
  ahci_alloc_pages_contiguous :: "u64 \<Rightarrow> u32 \<Rightarrow> 'k \<Rightarrow> (u64 \<times> 'k) res"
  ahci_virt_to_phys :: "'k \<Rightarrow> u64 \<Rightarrow> u64 option"
  answers_stop :: "nat \<Rightarrow> u32 \<Rightarrow> u32 list"
  answers_start :: "nat \<Rightarrow> u32 list"

definition sizeof_Device :: u64 where
  "sizeof_Device = 32"

section \<open>The controller\<close>

definition find_controller :: "'k ahci_ops \<Rightarrow> 'k ahci_state \<Rightarrow> 'k ahci_state res" where
  "find_controller ops s =
     rbind (get_pci_device 0x01060000 PCI_DEVICE_SUBCLASS_MASK (ahci_pci s)) (\<lambda>config.
     rbind (kernel_assert (config \<noteq> 0) ''AHCI controller not found'') (\<lambda>_.
     rbind (ahci_kmap_phys_range ops (ucast (hba_bar5 s AND 0xfffffff0)) (ucast (abar_pages (hba_bar5_ones s)))
         (PAGING_WRITABLE OR PAGING_CACHE_DISABLE) (pci_kernel (ahci_pci s))) (\<lambda>(controller, k).
     let s = s\<lparr>ahci_pci := (ahci_pci s)\<lparr>pci_kernel := k\<rparr>, g_controller := controller\<rparr> in
     if controller = 0 then Inl Null_deref
     else
       rbind (kernel_assert (hba_capabilities s AND push_bit 31 1 \<noteq> 0)
         ''AHCI controller does not support 64-bit addressing'') (\<lambda>_. Inr s))))"

section \<open>The drives\<close>

text \<open>A drive on port \<open>p\<close>: it is stopped, gets its structures, and is started.\<close>

definition setup_device :: "'k ahci_ops \<Rightarrow> nat \<Rightarrow> 'k ahci_state \<Rightarrow> 'k ahci_state res" where
  "setup_device ops p s =
     rbind (stop_cmd (answers_stop ops p) (hba_ports s p)) (\<lambda>port.
     if g_devices_ptr s = 0 then Inl Null_deref
     else
       rbind (ahci_alloc_pages_contiguous ops (dma_pages (g_cmd_slots s)) PAGING_WRITABLE (pci_kernel (ahci_pci s)))
         (\<lambda>(dma_ptr, k).
       rbind (kernel_assert (dma_ptr \<noteq> 0) ''Failed to allocate memory'') (\<lambda>_.
       rbind (lay_out_device (ahci_virt_to_phys ops k) (g_cmd_slots s) dma_ptr) (\<lambda>l.
       rbind (start_cmd (answers_start ops p) (port\<lparr>cmd_list_base := layout_cmd_list l, port_fis_base := layout_fis l\<rparr>)) (\<lambda>port.
         Inr (s\<lparr>ahci_pci := (ahci_pci s)\<lparr>pci_kernel := k\<rparr>, hba_ports := (hba_ports s)(p := port),
           g_devices := g_devices s @ [\<lparr>device_port = p, device_cmd_header = dma_ptr, device_fis_base = dma_ptr + 1024,
             device_cmd_tables = dma_ptr + 1024 + 256, device_headers = layout_headers l\<rparr>]\<rparr>))))))"

fun setup_devices :: "'k ahci_ops \<Rightarrow> nat list \<Rightarrow> 'k ahci_state \<Rightarrow> 'k ahci_state res" where
  "setup_devices ops [] s = Inr s"
| "setup_devices ops (p # ps) s =
     (if hba_port_impl s AND push_bit p 1 = 0 then setup_devices ops ps s
      else if \<not> drive_present (hba_ports s p) then setup_devices ops ps s
      else rbind (setup_device ops p s) (setup_devices ops ps))"

definition initialize_ahci :: "'k ahci_ops \<Rightarrow> 'k ahci_state \<Rightarrow> 'k ahci_state res" where
  "initialize_ahci ops s =
     rbind (find_controller ops s) (\<lambda>s.
     let s = s\<lparr>g_port_count := port_count_of (hba_capabilities s), g_cmd_slots := cmd_slots_of (hba_capabilities s)\<rparr> in
     rbind (ahci_kalloc ops (sizeof_Device * ucast (g_port_count s)) (pci_kernel (ahci_pci s))) (\<lambda>(devices, k).
       setup_devices ops [0..<unat (g_port_count s)] (s\<lparr>ahci_pci := (ahci_pci s)\<lparr>pci_kernel := k\<rparr>, g_devices_ptr := devices\<rparr>)))"

end
