(* ===== verification/Ahci_Properties.thy ===== *)
theory Ahci_Properties
  imports Ahci
begin

text \<open>
  What a command to a drive says to the controller, and whether the structures of a device fit
  the memory allocated for them.
\<close>

section \<open>The command\<close>

text \<open>The sector number and the count as the drive reads them.\<close>


definition fis_lba :: "FISRegH2D \<Rightarrow> u64" where
  "fis_lba f = ucast (lba0 f) OR push_bit 8 (ucast (lba1 f)) OR push_bit 16 (ucast (lba2 f)) OR
     push_bit 24 (ucast (lba3 f)) OR push_bit 32 (ucast (lba4 f)) OR push_bit 40 (ucast (lba5 f))"

definition fis_count :: "FISRegH2D \<Rightarrow> u16" where
  "fis_count f = ucast (countl f) OR push_bit 8 (ucast (counth f))"

lemma fis_lba_build: "fis_lba (build_fis sector count wr f) = take_bit 48 sector"
proof (rule bit_word_eqI)
  fix n assume n: "n < LENGTH(64)"
  consider "n < 8" | "8 \<le> n" "n < 16" | "16 \<le> n" "n < 24" | "24 \<le> n" "n < 32" | "32 \<le> n" "n < 40" | "40 \<le> n" "n < 48" | "48 \<le> n"
    by linarith
  then show "bit (fis_lba (build_fis sector count wr f)) n = bit (take_bit 48 sector) n"
    using n by cases (auto simp: fis_lba_def build_fis_def Let_def bit_simps)
qed

lemma fis_count_build: "fis_count (build_fis sector count wr f) = count"
proof (rule bit_word_eqI)
  fix n assume n: "n < LENGTH(16)"
  have m: "(0xff :: u16) = mask 8"
    by (simp add: mask_eq_exp_minus_1)
  show "bit (fis_count (build_fis sector count wr f)) n = bit count n"
    using n unfolding m fis_count_def build_fis_def Let_def by (cases "n < 8") (auto simp add: bit_simps m)
qed

lemma find_slot_least:
  assumes "\<not> bit slots k" "\<And>j. j < k \<Longrightarrow> bit slots j" "k < n"
  shows "find_slot slots [a..<a + n] = Inr (a + k)"
  using assms
proof (induction n arbitrary: slots k a)
  case (Suc n)
  have up: "[a..<Suc (a + n)] = a # [Suc a..<Suc (a + n)]"
    by (simp add: upt_conv_Cons)
  have odd: "slots AND 1 = 0 \<longleftrightarrow> \<not> bit slots 0"
    by (simp add: and_one_eq mod_2_eq_odd bit_0)
  show ?case
  proof (cases k)
    case 0
    then show ?thesis
      using Suc.prems odd by (simp add: up del: upt_Suc)
  next
    case (Suc k')
    have "bit slots 0"
      using Suc Suc.prems(2) [of 0] by simp
    moreover have "find_slot (drop_bit 1 slots) [Suc a..<Suc a + n] = Inr (Suc a + k')"
      using Suc Suc.prems(1,3) Suc.prems(2) by (intro Suc.IH) (auto simp: bit_simps)
    ultimately show ?thesis
      using Suc odd by (simp add: up del: upt_Suc)
  qed
qed simp

lemma wait_ready_ready:
  "\<forall>v \<in> set vs. v AND (ATA_DEV_BUSY OR ATA_DEV_DRQ) \<noteq> 0 \<Longrightarrow> v AND (ATA_DEV_BUSY OR ATA_DEV_DRQ) = 0 \<Longrightarrow>
     spin + length vs < 1000000 \<Longrightarrow> wait_ready (vs @ v # rest) spin = Inr (spin + length vs)"
  by (induction vs arbitrary: spin) auto

lemma wait_done_done:
  "\<forall>(issue, status) \<in> set vs. issue \<noteq> 0 \<and> status AND PORT_IS_TFES = 0 \<Longrightarrow> wait_done (vs @ (0, st) # rest) = Inr ()"
  by (induction vs) auto

text \<open>The table of regions: entry \<open>i\<close> of the first \<open>n\<close> covers 8192 bytes.\<close>

lemma fill_prdt_entries:
  assumes "\<And>i. i \<in> set is \<Longrightarrow> i < length es" "\<And>j. j < length is \<Longrightarrow> v2p (buffer + of_nat j * 0x2000) = Some (pa (is ! j))" "distinct is"
  shows "fill_prdt v2p is buffer es = Inr (buffer + of_nat (length is) * 0x2000,
    map (\<lambda>i. if i \<in> set is then \<lparr>data_base = pa i, byte_count = 0x1fff, prdt_interrupt = True\<rparr> else es ! i) [0..<length es])"
  using assms
proof (induction "is" arbitrary: buffer es)
  case Nil
  then show ?case
    by (simp add: map_nth)
next
  case (Cons i "is")
  have v0: "v2p buffer = Some (pa i)"
    using Cons.prems(2) [of 0] by simp
  have tk: "take_bit 22 (0x2000 - 1 :: u32) = 0x1fff"
    by simp
  let ?es = "es[i := \<lparr>data_base = pa i, byte_count = 0x1fff, prdt_interrupt = True\<rparr>]"
  have "fill_prdt v2p is (buffer + 0x2000) ?es = Inr (buffer + 0x2000 + of_nat (length is) * 0x2000,
     map (\<lambda>i. if i \<in> set is then \<lparr>data_base = pa i, byte_count = 0x1fff, prdt_interrupt = True\<rparr> else ?es ! i) [0..<length ?es])"
  proof (rule Cons.IH)
    fix j assume "j < length is"
    then show "v2p (buffer + 0x2000 + of_nat j * 0x2000) = Some (pa (is ! j))"
      using Cons.prems(2) [of "Suc j"] by (simp add: algebra_simps)
  qed (use Cons.prems in auto)
  moreover have "map (\<lambda>k. if k \<in> set is then \<lparr>data_base = pa k, byte_count = 0x1fff, prdt_interrupt = True\<rparr> else ?es ! k) [0..<length ?es] =
     map (\<lambda>k. if k \<in> set (i # is) then \<lparr>data_base = pa k, byte_count = 0x1fff, prdt_interrupt = True\<rparr> else es ! k) [0..<length es]"
    using Cons.prems by (auto simp: nth_list_update)
  ultimately show ?case
    using v0 Cons.prems(1) tk by (simp add: set_prdt_entry_def algebra_simps)
qed


lemma build_prdt_regions:
  assumes "0 < unat count" "unat count \<le> 128"
    and "\<And>i. i \<le> (unat count - 1) div 16 \<Longrightarrow> v2p (buffer + of_nat i * 0x2000) = Some (pa i)"
  defines "n \<equiv> (unat count - 1) div 16"
  shows "build_prdt v2p count buffer (prdt_entry zero_table) = Inr
    (map (\<lambda>i. if i < n then \<lparr>data_base = pa i, byte_count = 0x1fff, prdt_interrupt = True\<rparr>
              else if i = n then \<lparr>data_base = pa n, byte_count = take_bit 22 (ucast (count mod 16) * 512 - 1), prdt_interrupt = True\<rparr>
              else \<lparr>data_base = 0, byte_count = 0, prdt_interrupt = False\<rparr>) [0..<8])"
proof -
  have n8: "n < 8"
    using assms(2) by (simp add: n_def)
  have len: "unat (command_prdt_len count) = n + 1"
  proof -
    have "count \<noteq> 0"
      using assms(1) by auto
    then have "command_prdt_len count = of_nat (n + 1)"
      by (simp only: command_prdt_len_def n_def if_False)
    then show ?thesis
      using n8 by (simp only: unat_of_nat) simp
  qed
  have z: "length (prdt_entry zero_table) = 8" "\<And>i. i < 8 \<Longrightarrow> prdt_entry zero_table ! i = \<lparr>data_base = 0, byte_count = 0, prdt_interrupt = False\<rparr>"
    by (simp_all add: zero_table_def PRDT_LEN_def)
  let ?es = "map (\<lambda>i. if i < n then \<lparr>data_base = pa i, byte_count = 0x1fff, prdt_interrupt = True\<rparr> else prdt_entry zero_table ! i) [0..<8]"
  have "fill_prdt v2p [0..<n] buffer (prdt_entry zero_table) = Inr (buffer + of_nat n * 0x2000, ?es)"
    using fill_prdt_entries [of "[0..<n]" "prdt_entry zero_table" v2p buffer pa] assms(3) n8 z(1) by (simp add: n_def)
  moreover have "v2p (buffer + of_nat n * 0x2000) = Some (pa n)"
    using assms(3) by (simp add: n_def)
  ultimately show ?thesis
    using n8 unfolding build_prdt_def len
    by (simp add: set_prdt_entry_def list_eq_iff_nth_eq nth_list_update z)
qed

text \<open>The number of bytes a list of regions describes.\<close>

definition prdt_bytes :: "PRDTEntry list \<Rightarrow> nat" where
  "prdt_bytes es = sum_list (map (\<lambda>e. unat (byte_count e) + 1) es)"

lemma last_byte_count:
  "unat (take_bit 22 (ucast (count mod 16) * 512 - 1 :: u32)) + 1 =
     (if count mod 16 = 0 then 2 ^ 22 else unat (count mod 16) * 512)" for count :: u16
proof (cases "count mod 16 = 0")
  case True
  then show ?thesis
    by (simp add: take_bit_minus_one_eq_mask mask_eq_exp_minus_1)
next
  case False
  have lt: "unat (count mod 16) < 16"
    by (simp add: unat_mod)
  have pos: "0 < unat (count mod 16)"
    using False by (simp add: unat_gt_0)
  have "unat (ucast (count mod 16) * 512 :: u32) = unat (count mod 16) * 512"
    using lt by (subst unat_mult_lem [THEN iffD1]) (simp_all add: unsigned_ucast_eq unsigned_take_bit_eq take_bit_nat_eq_self)
  then have "unat (ucast (count mod 16) * 512 - 1 :: u32) = unat (count mod 16) * 512 - 1"
    using pos by (subst unat_sub) (simp_all add: word_le_nat_alt)
  then show ?thesis
    using False lt pos by (simp add: unsigned_take_bit_eq take_bit_nat_eq_self)
qed


lemma pred_div_16:
  fixes c :: nat
  assumes "0 < c"
  shows "c = (if c mod 16 = 0 then 16 * ((c - 1) div 16) + 16 else 16 * ((c - 1) div 16) + c mod 16)"
proof -
  obtain r where r: "c = Suc r"
    using assms by (cases c) auto
  show ?thesis
    unfolding r using mult_div_mod_eq [of 16 "Suc r"] mult_div_mod_eq [of 16 r] by (auto simp: mod_Suc div_Suc split: if_splits)
qed

lemma prdt_bytes_regions:
  assumes "0 < unat count" "unat count \<le> 128" "build_prdt v2p count buffer (prdt_entry zero_table) = Inr es"
    and v2p: "\<And>i. i \<le> (unat count - 1) div 16 \<Longrightarrow> v2p (buffer + of_nat i * 0x2000) = Some (pa i)"
  defines "n \<equiv> (unat count - 1) div 16 + 1"
  shows "map data_base (take n es) = map pa [0..<n]"
    and "prdt_bytes (take n es) = (if unat count mod 16 = 0 then 512 * (unat count - 16) + 2 ^ 22 else 512 * unat count)"
proof -
  define m where "m = (unat count - 1) div 16"
  have m: "n = Suc m" "m < 8"
    using assms(2) by (simp_all add: n_def m_def)
  define last where "last = \<lparr>data_base = pa m, byte_count = take_bit 22 (ucast (count mod 16) * 512 - 1), prdt_interrupt = True\<rparr>"
  let ?e = "\<lambda>i. \<lparr>data_base = pa i, byte_count = 0x1fff, prdt_interrupt = True\<rparr>"
  have "es = map (\<lambda>i. if i < m then ?e i else if i = m then last else \<lparr>data_base = 0, byte_count = 0, prdt_interrupt = False\<rparr>) [0..<8]"
    using build_prdt_regions [of count v2p buffer pa, OF assms(1,2) v2p] assms(3) by (simp add: m_def last_def)
  then have take: "take n es = map ?e [0..<m] @ [last]"
    using m by (simp add: list_eq_iff_nth_eq nth_append)
  show "map data_base (take n es) = map pa [0..<n]"
    using take by (simp add: m(1) last_def)
  have lb: "unat (byte_count last) + 1 = (if unat count mod 16 = 0 then 2 ^ 22 else unat count mod 16 * 512)"
    using last_byte_count [of count] by (auto simp: last_def unat_mod word_unat_eq_iff)
  have "prdt_bytes (take n es) = m * 0x2000 + (unat (byte_count last) + 1)"
    unfolding take by (simp add: prdt_bytes_def sum_list_triv comp_def)
  also have "\<dots> = (if unat count mod 16 = 0 then 512 * (unat count - 16) + 2 ^ 22 else 512 * unat count)"
  proof (cases "unat count mod 16 = 0")
    case True
    then have "unat count = 16 * m + 16"
      using pred_div_16 [of "unat count"] assms(1) unfolding m_def by simp
    with True lb show ?thesis
      by simp
  next
    case False
    then have "unat count = 16 * m + unat count mod 16"
      using pred_div_16 [of "unat count"] assms(1) unfolding m_def by simp
    with False lb show ?thesis
      by simp
  qed
  finally show "prdt_bytes (take n es) = (if unat count mod 16 = 0 then 512 * (unat count - 16) + 2 ^ 22 else 512 * unat count)" .
qed

text \<open>
  C30. With a free command slot, a drive that gets ready and a mapped buffer, a transfer of 1 to
  128 sectors ends, and the command it issued in the lowest free slot asks for the sector (48
  bits), the count and the direction given; its regions start at the physical addresses of the
  8 KB pieces of the buffer and describe all bytes of the sectors, except when the count is a
  multiple of 16: then the last region claims 4 MB.
\<close>

theorem read_write_sectors_command:
  assumes slot: "\<not> bit (sata_active (dev_port d) OR cmd_issue (dev_port d)) k"
      "\<forall>j < k. bit (sata_active (dev_port d) OR cmd_issue (dev_port d)) j" "k < unat slots" "k < 32"
    and count: "0 < unat count" "unat count \<le> 128"
    and mapped: "\<forall>i \<le> (unat count - 1) div 16. v2p (buffer + of_nat i * 0x2000) = Some (pa i)"
    and idle: "\<forall>v \<in> set vs. v AND (ATA_DEV_BUSY OR ATA_DEV_DRQ) \<noteq> 0" "v AND (ATA_DEV_BUSY OR ATA_DEV_DRQ) = 0" "length vs < 1000000"
    and ready: "\<forall>(issue, status) \<in> set ds. issue \<noteq> 0 \<and> status AND PORT_IS_TFES = 0"
  shows "\<exists>d'. read_write_sectors v2p slots \<lparr>answers_busy = vs @ [v], answers_done = ds @ [(0, st)]\<rparr> sector count buffer wr d = Inr d' \<and>
    (let t = dev_tables d' k; n = (unat count - 1) div 16 + 1 in
       fis_lba (cmd_fis t) = take_bit 48 sector \<and> fis_count (cmd_fis t) = count \<and>
       fis_cmd (cmd_fis t) = (if wr then ATA_CMD_WRITE_DMA_EXT else ATA_CMD_READ_DMA_EX) \<and>
       hdr_write (dev_headers d' k) = wr \<and> unat (hdr_prdt_len (dev_headers d' k)) = n \<and>
       map data_base (take n (prdt_entry t)) = map pa [0..<n] \<and>
       prdt_bytes (take n (prdt_entry t)) = (if unat count mod 16 = 0 then 512 * (unat count - 16) + 2 ^ 22 else 512 * unat count) \<and>
       cmd_issue (dev_port d') = cmd_issue (dev_port d) OR push_bit k 1 \<and>
       (\<forall>j. j \<noteq> k \<longrightarrow> dev_tables d' j = dev_tables d j))"
proof -
  have find: "find_cmd_slot slots (dev_port d) = Inr k"
    using find_slot_least [of "sata_active (dev_port d) OR cmd_issue (dev_port d)" k "unat slots" 0] slot
    by (simp add: find_cmd_slot_def)
  have v2p: "\<And>i. i \<le> (unat count - 1) div 16 \<Longrightarrow> v2p (buffer + of_nat i * 0x2000) = Some (pa i)"
    using mapped by simp
  obtain es where es: "build_prdt v2p count buffer (prdt_entry zero_table) = Inr es"
    using build_prdt_regions [of count v2p buffer pa, OF count v2p] by blast
  note regions = prdt_bytes_regions [of count v2p buffer es pa, OF count es v2p]
  have len: "unat (command_prdt_len count) = (unat count - 1) div 16 + 1"
  proof -
    have "count \<noteq> 0"
      using count(1) by auto
    then have "command_prdt_len count = of_nat ((unat count - 1) div 16 + 1)"
      by (simp only: command_prdt_len_def if_False)
    then show ?thesis
      using count(2) by (simp only: unat_of_nat) simp
  qed
  have w: "wait_ready (vs @ [v]) 0 = Inr (length vs)" "wait_done (ds @ [(0, st)]) = Inr ()"
    using wait_ready_ready [OF idle(1,2), of 0 "[]"] idle(3) wait_done_done [OF ready, of st "[]"] by simp_all
  show ?thesis
    unfolding read_write_sectors_def find
    using count(2) idle(3) len regions
    by (simp add: es w PRDT_LEN_def fis_lba_build fis_count_build) (simp add: build_fis_def Let_def)
qed

definition idle_port :: AHCIPort where
  "idle_port = \<lparr>cmd_list_base = 0, port_fis_base = 0, port_interrupt_status = 0, port_cmd = 0, task_file_data = 0,
     port_signature = SATA_SIG_ATA, sata_status = 0, sata_active = 1, cmd_issue = 0\<rparr>"

definition idle_device :: ahci_device where
  "idle_device = \<lparr>dev_port = idle_port,
     dev_headers = (\<lambda>_. \<lparr>cmd_fis_len = 0, hdr_write = False, hdr_prdt_len = 0, cmd_table_base = 0\<rparr>),
     dev_tables = (\<lambda>_. zero_table)\<rparr>"

theorem read_write_sectors_command_witness:
  "\<exists>d'. read_write_sectors Some 32 \<lparr>answers_busy = [0x80, 0], answers_done = [(2, 0), (0, 0)]\<rparr> 5 17 0x10000 False idle_device = Inr d' \<and>
     fis_lba (cmd_fis (dev_tables d' 1)) = 5 \<and> prdt_bytes (take 2 (prdt_entry (dev_tables d' 1))) = 17 * 512"
proof -
  have b: "bit (1 :: u32) j \<longleftrightarrow> j = 0" for j
    by (simp add: bit_1_iff)
  have two: "take 2 xs = take (Suc (Suc 0)) xs" for xs :: "PRDTEntry list"
    by (simp add: numeral_2_eq_2)
  show ?thesis
    unfolding two
    using read_write_sectors_command [where d = idle_device and k = 1 and slots = 32 and count = 17 and v2p = Some and buffer = "0x10000" and pa = "\<lambda>i. 0x10000 + of_nat i * 0x2000" and vs = "[0x80]" and v = 0 and ds = "[(2, 0)]" and st = 0 and sector = 5 and wr = False]
    by (auto simp: idle_device_def idle_port_def b ATA_DEV_BUSY_def ATA_DEV_DRQ_def PORT_IS_TFES_def Let_def)
qed

section \<open>The memory of a device\<close>


definition table_header :: "u64 \<Rightarrow> CMDHeader" where
  "table_header phys_addr = \<lparr>cmd_fis_len = 0, hdr_write = False, hdr_prdt_len = of_nat PRDT_LEN, cmd_table_base = phys_addr\<rparr>"

lemma table_headers_step:
  assumes "v2p p = Some a" "a AND 63 = 0"
  shows "table_headers v2p (Suc n) p hs = table_headers v2p n (p + 256) (hs @ [table_header a])"
  using assms by (simp add: table_header_def CMD_TABLE_SIZE_def PRDT_LEN_def)

lemma table_headers_run:
  assumes "\<And>i. i < k \<Longrightarrow> v2p (p + 256 * of_nat i) = Some (a + 256 * of_nat i) \<and> (a + 256 * of_nat i) AND 63 = 0"
  shows "table_headers v2p (k + n) p hs = table_headers v2p n (p + 256 * of_nat k) (hs @ map (\<lambda>i. table_header (a + 256 * of_nat i)) [0..<k])"
  using assms
proof (induction k arbitrary: p a hs)
  case (Suc k)
  have "table_headers v2p (Suc k + n) p hs = table_headers v2p (k + n) (p + 256) (hs @ [table_header a])"
    using Suc.prems [of 0] by (simp only: add_Suc) (rule table_headers_step, simp_all)
  also have "\<dots> = table_headers v2p n (p + 256 + 256 * of_nat k) ((hs @ [table_header a]) @ map (\<lambda>i. table_header (a + 256 + 256 * of_nat i)) [0..<k])"
    using Suc.prems [of "Suc i" for i] by (intro Suc.IH) (auto simp: algebra_simps)
  also have "[0..<Suc k] = 0 # map Suc [0..<k]"
    by (simp add: map_Suc_upt upt_conv_Cons del: upt_Suc)
  ultimately show ?case
    by (simp add: algebra_simps comp_def)
qed simp

lemma dma_pages_bytes:
  "\<forall>s \<in> set [1..<33]. (if s = 12 \<or> s = 13 then unat (dma_pages (of_nat s)) = 1 else 1280 + 256 * s \<le> unat (dma_pages (of_nat s)) * 4096)"
  by (simp add: upt_rec dma_pages_def Let_def round_up_to_multiple_def CMD_TABLE_SIZE_def PRDT_LEN_def PAGE_SIZE_def)

lemma and_63_iff: "(a :: u64) AND 63 = 0 \<longleftrightarrow> unat a mod 64 = 0"
proof -
  have m: "(63 :: u64) = mask 6"
    by (simp add: mask_eq_exp_minus_1)
  show ?thesis
    by (simp only: m word_unat_eq_iff unat_and_mask_u64) simp
qed

lemma and_63_add: "a AND 63 = 0 \<Longrightarrow> (a + 256 * of_nat i) AND 63 = (0 :: u64)"
proof -
  assume a: "a AND 63 = 0"
  have "a + 256 * of_nat i = of_nat (unat a + 256 * i)"
    by simp
  then have "unat (a + 256 * of_nat i) = (unat a + 256 * i) mod 2 ^ 64"
    by (simp only: unat_of_nat take_bit_nat_def len_bit0 len_num1) simp
  moreover have "(unat a + 256 * i) mod 2 ^ 64 mod 64 = (unat a + 256 * i) mod 64"
    by (rule mod_mod_cancel) simp
  moreover have "(unat a + 256 * i) mod 64 = unat a mod 64"
    using mod_mult_self2 [of "unat a" 64 "4 * i"] by simp
  ultimately show ?thesis
    using a by (simp only: and_63_iff)
qed

lemma dma_pages_small:
  assumes "1 \<le> unat slots" "unat slots \<le> 32"
  shows "unat (dma_pages slots) \<le> 4"
proof -
  have "unat slots \<in> set [1..<33]" "of_nat (unat slots) = slots"
    using assms by auto
  moreover have "\<forall>s \<in> set [1..<33]. unat (dma_pages (of_nat s)) \<le> 4"
    by (simp add: upt_rec dma_pages_def Let_def round_up_to_multiple_def CMD_TABLE_SIZE_def PRDT_LEN_def PAGE_SIZE_def)
  ultimately show ?thesis
    by metis
qed

lemma table_offset:
  assumes "i < 64"
  shows "unat (1280 + 256 * of_nat i :: u64) = 1280 + 256 * i"
proof -
  have "(1280 + 256 * of_nat i :: u64) = of_nat (1280 + 256 * i)"
    by simp
  then show ?thesis
    using assms unat_of_nat_u64 [of "1280 + 256 * i"] by simp
qed

lemma dma_pages_cases:
  assumes "1 \<le> unat slots" "unat slots \<le> 32"
  shows "if unat slots = 12 \<or> unat slots = 13 then unat (dma_pages slots) = 1 else 1280 + 256 * unat slots \<le> unat (dma_pages slots) * 4096"
proof -
  have "unat slots \<in> set [1..<33]" "of_nat (unat slots) = slots"
    using assms by auto
  then show ?thesis
    using dma_pages_bytes by (metis (no_types, lifting))
qed

lemma lay_out_device_done:
  assumes slots: "1 \<le> unat slots" "unat slots \<le> 32" "unat slots \<noteq> 12" "unat slots \<noteq> 13" and aligned: "a AND 63 = 0"
    and v2p: "\<And>i. i < unat (dma_pages slots) * 4096 \<Longrightarrow> v2p (dma_ptr + of_nat i) = Some (a + of_nat i)"
  shows "lay_out_device v2p slots dma_ptr = Inr \<lparr>layout_cmd_list = a, layout_fis = a + 1024,
    layout_headers = map (\<lambda>i. table_header (a + 1280 + 256 * of_nat i)) [0..<unat slots]\<rparr>"
proof -
  have big: "1280 + 256 * unat slots \<le> unat (dma_pages slots) * 4096"
    using dma_pages_cases [OF slots(1,2)] slots(3,4) by simp
  have "v2p (dma_ptr + 1280 + 256 * of_nat i) = Some (a + 1280 + 256 * of_nat i)" if "i < unat slots" for i
    using v2p [of "1280 + 256 * i"] big that by (simp add: algebra_simps)
  moreover have "(a + 1280 + 256 * of_nat i) AND 63 = 0" for i
    using and_63_add [OF aligned, of "5 + i"] by (simp add: algebra_simps)
  ultimately have "table_headers v2p (unat slots + 0) (dma_ptr + 1280) [] =
      table_headers v2p 0 (dma_ptr + 1280 + 256 * of_nat (unat slots)) ([] @ map (\<lambda>i. table_header (a + 1280 + 256 * of_nat i)) [0..<unat slots])"
    by (intro table_headers_run) auto
  then show ?thesis
    using v2p [of 0] v2p [of 1024] big slots(1) by (simp add: lay_out_device_def add.assoc)
qed

text \<open>
  C31. When the kernel can translate the addresses of the pages it allocated for the structures of
  a device, the layout puts the command list at the first byte, the received FIS at byte 1024 and
  a command table every 256 bytes from byte 1280, for every number of command slots but 12 and
  13: there the last table starts past the pages and the kernel stops.
\<close>

theorem lay_out_device_fits:
  assumes slots: "1 \<le> unat slots" "unat slots \<le> 32" and aligned: "a AND 63 = 0"
    and v2p: "\<forall>p. v2p p = (if unat (p - dma_ptr) < unat (dma_pages slots) * 4096 then Some (a + (p - dma_ptr)) else None)"
  shows "lay_out_device v2p slots dma_ptr =
    (if unat slots = 12 \<or> unat slots = 13 then Inl (Assert_failed ''Failed to get physical address'')
     else Inr \<lparr>layout_cmd_list = a, layout_fis = a + 1024,
       layout_headers = map (\<lambda>i. table_header (a + 1280 + 256 * of_nat i)) [0..<unat slots]\<rparr>)"
proof (cases "unat slots = 12 \<or> unat slots = 13")
  case True
  then have one: "unat (dma_pages slots) = 1"
    using dma_pages_cases [OF slots] by simp
  have at: "v2p (dma_ptr + 1280 + 256 * of_nat i) = (if i < 11 then Some (a + 1280 + 256 * of_nat i) else None)" if "i < 64" for i
    using v2p table_offset [OF that] one by (simp add: algebra_simps)
  have "(a + 1280 + 256 * of_nat i) AND 63 = 0" for i
    using and_63_add [OF aligned, of "5 + i"] by (simp add: algebra_simps)
  then have "table_headers v2p (11 + (unat slots - 11)) (dma_ptr + 1280) [] =
      table_headers v2p (unat slots - 11) (dma_ptr + 1280 + 256 * of_nat 11) (map (\<lambda>i. table_header (a + 1280 + 256 * of_nat i)) [0..<11])"
    using at by (subst table_headers_run [where a = "a + 1280"]) auto
  moreover have "v2p (dma_ptr + 1280 + 256 * of_nat 11) = None"
    using at [of 11] by simp
  moreover have "11 + (unat slots - 11) = unat slots" "unat slots - 11 = Suc (unat slots - 12)"
    using True by auto
  ultimately have "table_headers v2p (unat slots) (dma_ptr + 1280) [] = Inl (Assert_failed ''Failed to get physical address'')"
    by simp
  then show ?thesis
    using True v2p one by (simp add: lay_out_device_def add.assoc)
next
  case False
  have "v2p (dma_ptr + of_nat i) = Some (a + of_nat i)" if "i < unat (dma_pages slots) * 4096" for i
  proof -
    have "unat (dma_pages slots) * 4096 < 2 ^ 64"
      using dma_pages_small [OF slots] by simp
    then show ?thesis
      using v2p that by (simp add: unat_of_nat_u64)
  qed
  then show ?thesis
    using False lay_out_device_done [OF slots _ _ aligned] by simp
qed

theorem lay_out_device_fits_witness:
  "lay_out_device (\<lambda>p. if unat (p - 0x5000) < 3 * 4096 then Some (0x9000 + (p - 0x5000)) else None) 32 0x5000 =
     Inr \<lparr>layout_cmd_list = 0x9000, layout_fis = 0x9400, layout_headers = map (\<lambda>i. table_header (0x9500 + 256 * of_nat i)) [0..<32]\<rparr>"
proof -
  have pages: "unat (dma_pages 32) = 3"
    by (simp add: dma_pages_def Let_def round_up_to_multiple_def CMD_TABLE_SIZE_def PRDT_LEN_def PAGE_SIZE_def)
  show ?thesis
    by (subst lay_out_device_fits [where a = "0x9000"]) (simp_all add: pages)
qed

end
