(* ===== verification/Ahci_Init_Properties.thy ===== *)
theory Ahci_Init_Properties
  imports Ahci_Init Ahci_Properties
begin

text \<open>
  What the initialization of AHCI leaves behind: one device for every drive, with its structures
  where the controller is told, and its port started.
\<close>

text \<open>The waits for the ports end, and memory for the structures is to be had.\<close>

definition ports_answer :: "'k ahci_ops \<Rightarrow> bool" where
  "ports_answer ops \<longleftrightarrow>
     (\<forall>p v. \<exists>v'. wait_while (\<lambda>v. v AND PORT_CMD_FR \<noteq> 0 \<or> v AND PORT_CMD_CR \<noteq> 0) (answers_stop ops p v) = Inr v') \<and>
     (\<forall>p. \<exists>v'. wait_while (\<lambda>v. v AND PORT_CMD_CR \<noteq> 0) (answers_start ops p) = Inr v')"

definition dma_memory :: "'k ahci_ops \<Rightarrow> u8 \<Rightarrow> bool" where
  "dma_memory ops slots \<longleftrightarrow>
     (\<forall>k. \<exists>ptr a k'. ahci_alloc_pages_contiguous ops (dma_pages slots) PAGING_WRITABLE k = Inr (ptr, k') \<and> ptr \<noteq> 0 \<and> a AND 63 = 0 \<and>
        (\<forall>i < unat (dma_pages slots) * 4096. ahci_virt_to_phys ops k' (ptr + of_nat i) = Some (a + of_nat i)))"

text \<open>A device and its port as the controller needs them.\<close>

definition device_ready :: "u8 \<Rightarrow> (nat \<Rightarrow> AHCIPort) \<Rightarrow> Device \<Rightarrow> bool" where
  "device_ready slots ports d \<longleftrightarrow> (let port = ports (device_port d); a = cmd_list_base port in
     port_fis_base port = a + 1024 \<and> device_headers d = map (\<lambda>i. table_header (a + 1280 + 256 * of_nat i)) [0..<unat slots] \<and>
     device_fis_base d = device_cmd_header d + 1024 \<and> device_cmd_tables d = device_cmd_header d + 1280 \<and>
     port_cmd port AND PORT_CMD_FRE \<noteq> 0 \<and> port_cmd port AND PORT_CMD_ST \<noteq> 0)"

lemma device_ready_cong: "ports (device_port d) = ports' (device_port d) \<Longrightarrow> device_ready slots ports d = device_ready slots ports' d"
  by (simp add: device_ready_def)

lemma command_bits: "(v OR PORT_CMD_FRE OR PORT_CMD_ST) AND PORT_CMD_FRE \<noteq> 0" "(v OR PORT_CMD_FRE OR PORT_CMD_ST) AND PORT_CMD_ST \<noteq> 0"
proof -
  have "bit ((v OR PORT_CMD_FRE OR PORT_CMD_ST) AND PORT_CMD_FRE) 4" "bit ((v OR PORT_CMD_FRE OR PORT_CMD_ST) AND PORT_CMD_ST) 0"
    by (simp_all add: PORT_CMD_FRE_def PORT_CMD_ST_def bit_simps)
  then show "(v OR PORT_CMD_FRE OR PORT_CMD_ST) AND PORT_CMD_FRE \<noteq> 0" "(v OR PORT_CMD_FRE OR PORT_CMD_ST) AND PORT_CMD_ST \<noteq> 0"
    by (metis bit_0_eq bot_apply bot_bool_def)+
qed

definition device_slots :: "u8 \<Rightarrow> bool" where
  "device_slots slots \<longleftrightarrow> 1 \<le> unat slots \<and> unat slots \<le> 32 \<and> unat slots \<noteq> 12 \<and> unat slots \<noteq> 13"

lemma setup_device_ready:
  assumes "ports_answer ops" "dma_memory ops (g_cmd_slots s)" "device_slots (g_cmd_slots s)" "g_devices_ptr s \<noteq> 0"
  shows "\<exists>k port d. setup_device ops p s =
      Inr (s\<lparr>ahci_pci := (ahci_pci s)\<lparr>pci_kernel := k\<rparr>, hba_ports := (hba_ports s)(p := port), g_devices := g_devices s @ [d]\<rparr>) \<and>
    device_port d = p \<and> device_ready (g_cmd_slots s) ((hba_ports s)(p := port)) d"
proof -
  obtain v1 where v1: "stop_cmd (answers_stop ops p) (hba_ports s p) = Inr ((hba_ports s p)\<lparr>port_cmd := v1\<rparr>)"
    using assms(1) unfolding ports_answer_def stop_cmd_def Let_def by (metis rbind_simps(2))
  obtain v2 where v2: "wait_while (\<lambda>v. v AND PORT_CMD_CR \<noteq> 0) (answers_start ops p) = Inr v2"
    using assms(1) unfolding ports_answer_def by blast
  obtain ptr a k where mem: "ahci_alloc_pages_contiguous ops (dma_pages (g_cmd_slots s)) PAGING_WRITABLE (pci_kernel (ahci_pci s)) = Inr (ptr, k)"
    "ptr \<noteq> 0" "a AND 63 = 0" "\<And>i. i < unat (dma_pages (g_cmd_slots s)) * 4096 \<Longrightarrow> ahci_virt_to_phys ops k (ptr + of_nat i) = Some (a + of_nat i)"
    using assms(2) unfolding dma_memory_def by blast
  have layout: "lay_out_device (ahci_virt_to_phys ops k) (g_cmd_slots s) ptr = Inr \<lparr>layout_cmd_list = a, layout_fis = a + 1024,
      layout_headers = map (\<lambda>i. table_header (a + 1280 + 256 * of_nat i)) [0..<unat (g_cmd_slots s)]\<rparr>"
    using assms(3) lay_out_device_done [OF _ _ _ _ mem(3,4)] by (simp add: device_slots_def)
  show ?thesis
    using assms(4) v1 v2 mem(1,2) layout
    by (intro exI) (auto simp: setup_device_def start_cmd_def device_ready_def command_bits Let_def)
qed

text \<open>The devices for the drives among the ports, and what else changed.\<close>

definition drives_of :: "u32 \<Rightarrow> (nat \<Rightarrow> AHCIPort) \<Rightarrow> nat list \<Rightarrow> nat list" where
  "drives_of port_impl ports = List.filter (\<lambda>p. port_impl AND push_bit p 1 \<noteq> 0 \<and> drive_present (ports p))"

lemma setup_devices_ready:
  assumes "ports_answer ops" "dma_memory ops (g_cmd_slots s)" "device_slots (g_cmd_slots s)" "g_devices_ptr s \<noteq> 0" "distinct ps"
    and "\<forall>d \<in> set (g_devices s). device_ready (g_cmd_slots s) (hba_ports s) d \<and> device_port d \<notin> set ps"
  shows "\<exists>s'. setup_devices ops ps s = Inr s' \<and>
    map device_port (g_devices s') = map device_port (g_devices s) @ drives_of (hba_port_impl s) (hba_ports s) ps \<and>
    (\<forall>d \<in> set (g_devices s'). device_ready (g_cmd_slots s) (hba_ports s') d) \<and>
    (\<forall>p. p \<notin> set (drives_of (hba_port_impl s) (hba_ports s) ps) \<longrightarrow> hba_ports s' p = hba_ports s p) \<and>
    g_controller s' = g_controller s \<and> g_cmd_slots s' = g_cmd_slots s \<and> g_port_count s' = g_port_count s"
  using assms(2-)
proof (induction ps arbitrary: s)
  case (Cons p ps)
  show ?case
  proof (cases "hba_port_impl s AND push_bit p 1 \<noteq> 0 \<and> drive_present (hba_ports s p)")
    case False
    with Cons.IH [of s] Cons.prems show ?thesis
      by (auto simp: drives_of_def)
  next
    case True
    obtain k port d where d: "setup_device ops p s =
        Inr (s\<lparr>ahci_pci := (ahci_pci s)\<lparr>pci_kernel := k\<rparr>, hba_ports := (hba_ports s)(p := port), g_devices := g_devices s @ [d]\<rparr>)"
      "device_port d = p" "device_ready (g_cmd_slots s) ((hba_ports s)(p := port)) d"
      using setup_device_ready [OF assms(1) Cons.prems(1-3)] by blast
    let ?s = "s\<lparr>ahci_pci := (ahci_pci s)\<lparr>pci_kernel := k\<rparr>, hba_ports := (hba_ports s)(p := port), g_devices := g_devices s @ [d]\<rparr>"
    have ready: "\<forall>e \<in> set (g_devices ?s). device_ready (g_cmd_slots ?s) (hba_ports ?s) e \<and> device_port e \<notin> set ps"
      using Cons.prems(4,5) d(2,3) device_ready_cong [of "hba_ports s" _ "(hba_ports s)(p := port)"] by auto
    have drives: "drives_of (hba_port_impl ?s) (hba_ports ?s) ps = drives_of (hba_port_impl s) (hba_ports s) ps"
      unfolding drives_of_def using Cons.prems(4) by (intro filter_cong) auto
    have head: "drives_of (hba_port_impl s) (hba_ports s) (p # ps) = p # drives_of (hba_port_impl s) (hba_ports s) ps"
      using True by (simp add: drives_of_def)
    have "dma_memory ops (g_cmd_slots ?s)" "device_slots (g_cmd_slots ?s)" "g_devices_ptr ?s \<noteq> 0" "distinct ps"
      using Cons.prems by simp_all
    from Cons.IH [OF this ready] obtain s' where s': "setup_devices ops ps ?s = Inr s'"
      "map device_port (g_devices s') = map device_port (g_devices ?s) @ drives_of (hba_port_impl ?s) (hba_ports ?s) ps"
      "\<forall>d \<in> set (g_devices s'). device_ready (g_cmd_slots ?s) (hba_ports s') d"
      "\<forall>q. q \<notin> set (drives_of (hba_port_impl ?s) (hba_ports ?s) ps) \<longrightarrow> hba_ports s' q = hba_ports ?s q"
      "g_controller s' = g_controller ?s" "g_cmd_slots s' = g_cmd_slots ?s" "g_port_count s' = g_port_count ?s"
      by blast
    have "setup_devices ops (p # ps) s = Inr s'"
      using True d(1) s'(1) by simp
    moreover have "map device_port (g_devices s') = map device_port (g_devices s) @ drives_of (hba_port_impl s) (hba_ports s) (p # ps)"
      unfolding s'(2) drives head by (simp add: d(2))
    moreover have "\<forall>q. q \<notin> set (drives_of (hba_port_impl s) (hba_ports s) (p # ps)) \<longrightarrow> hba_ports s' q = hba_ports s q"
      using s'(4) unfolding drives head by simp
    ultimately show ?thesis
      using s'(3,5-7) by (intro exI [of _ s']) simp
  qed
qed (auto simp: drives_of_def)

text \<open>
  C40. When the controller is on the PCI list and addresses 64 bits, memory is to be had, the ports
  answer, and the number of command slots is not 12 or 13 (where the structures do not fit), the
  initialization ends. The devices are then the drives behind the implemented ports, in order;
  each port was told the physical addresses of its command list, its FIS and a table for every
  slot, and runs; and the other ports are untouched.
\<close>

theorem initialize_ahci_drives:
  assumes pci: "get_pci_device 0x01060000 PCI_DEVICE_SUBCLASS_MASK (ahci_pci s) = Inr config" "config \<noteq> 0"
    and map: "ahci_kmap_phys_range ops (ucast (hba_bar5 s AND 0xfffffff0)) (ucast (abar_pages (hba_bar5_ones s)))
      (PAGING_WRITABLE OR PAGING_CACHE_DISABLE) (pci_kernel (ahci_pci s)) = Inr (controller, k1)" "controller \<noteq> 0"
    and caps: "bit (hba_capabilities s) 31" "slots = cmd_slots_of (hba_capabilities s)" "unat slots \<noteq> 12" "unat slots \<noteq> 13"
    and heap: "ahci_kalloc ops (32 * ucast (port_count_of (hba_capabilities s))) k1 = Inr (ptr, k2)" "ptr \<noteq> 0"
    and services: "ports_answer ops" "dma_memory ops slots" and "g_devices s = []"
  shows "\<exists>s'. initialize_ahci ops s = Inr s' \<and> g_controller s' = controller \<and> g_cmd_slots s' = slots \<and>
    map device_port (g_devices s') = implemented_drives (hba_capabilities s) (hba_port_impl s) (hba_ports s) \<and>
    (\<forall>d \<in> set (g_devices s'). device_ready slots (hba_ports s') d) \<and>
    (\<forall>p. p \<notin> set (implemented_drives (hba_capabilities s) (hba_port_impl s) (hba_ports s)) \<longrightarrow> hba_ports s' p = hba_ports s p)"
proof -
  have and31: "hba_capabilities s AND push_bit 31 1 \<noteq> 0"
  proof
    assume "hba_capabilities s AND push_bit 31 1 = 0"
    then have "\<not> bit (hba_capabilities s AND push_bit 31 1) 31"
      by simp
    with caps(1) show False
      by (simp add: bit_simps)
  qed
  have bound: "device_slots slots"
  proof -
    have "drop_bit 8 (hba_capabilities s) AND 0x1f = take_bit 5 (drop_bit 8 (hba_capabilities s))"
      by (simp add: take_bit_eq_mask mask_eq_exp_minus_1)
    then have "unat slots = unat (drop_bit 8 (hba_capabilities s)) mod 32 + 1"
      unfolding caps(2) cmd_slots_of_def by (simp add: unat_word_ariths unsigned_ucast_eq unsigned_take_bit_eq take_bit_eq_mod mod_mod_cancel)
    then show ?thesis
      using caps(3,4) by (simp add: device_slots_def)
  qed
  let ?s = "s\<lparr>g_controller := controller, g_port_count := port_count_of (hba_capabilities s), g_cmd_slots := slots,
    ahci_pci := (ahci_pci s)\<lparr>pci_kernel := k2\<rparr>, g_devices_ptr := ptr\<rparr>"
  have "initialize_ahci ops s = setup_devices ops [0..<unat (port_count_of (hba_capabilities s))] ?s"
    using pci map heap and31 by (simp add: initialize_ahci_def find_controller_def sizeof_Device_def caps(2) Let_def)
  moreover have "dma_memory ops (g_cmd_slots ?s)" "device_slots (g_cmd_slots ?s)" "g_devices_ptr ?s \<noteq> 0"
    "distinct [0..<unat (port_count_of (hba_capabilities s))]" "\<forall>d \<in> set (g_devices ?s). device_ready (g_cmd_slots ?s) (hba_ports ?s) d \<and> device_port d \<notin> set [0..<unat (port_count_of (hba_capabilities s))]"
    using services(2) bound heap(2) assms(13) by simp_all
  note setup_devices_ready [OF services(1) this]
  ultimately show ?thesis
    using assms(13) by (simp add: implemented_drives_def drives_of_def) blast
qed


definition example_drive :: AHCIPort where
  "example_drive = \<lparr>cmd_list_base = 0, port_fis_base = 0, port_interrupt_status = 0, port_cmd = 0x11, task_file_data = 0,
     port_signature = 0x101, sata_status = 0x103, sata_active = 0, cmd_issue = 0\<rparr>"

definition example_controller :: "u64 ahci_state" where
  "example_controller = \<lparr>ahci_pci = \<lparr>g_pci_device_list = 0x10,
       pci_entries = (\<lambda>_. \<lparr>pci_next = 0, config_space = 0x7000, pci_type = 0x01060000\<rparr>), pci_kernel = 0\<rparr>,
     hba_bar5 = 0xfebf1000, hba_bar5_ones = 0xfffff000, hba_capabilities = 0x80000701, hba_port_impl = 3,
     hba_ports = (\<lambda>p. if p = 1 then example_drive else example_drive\<lparr>sata_status := 0\<rparr>),
     g_controller = 0, g_port_count = 0, g_cmd_slots = 0, g_devices_ptr = 0, g_devices = []\<rparr>"

definition example_ahci_services :: "u64 ahci_ops" where
  "example_ahci_services = \<lparr>ahci_kmap_phys_range = (\<lambda>_ _ _ k. Inr (0x8000, k)), ahci_kalloc = (\<lambda>_ k. Inr (0x9000, k)),
     ahci_alloc_pages_contiguous = (\<lambda>_ _ k. Inr (0x10000, k)), ahci_virt_to_phys = (\<lambda>_. Some),
     answers_stop = (\<lambda>_ _. [0x8000, 0]), answers_start = (\<lambda>_. [0])\<rparr>"

theorem initialize_ahci_drives_witness:
  "\<exists>s'. initialize_ahci example_ahci_services example_controller = Inr s' \<and> g_cmd_slots s' = 8 \<and> map device_port (g_devices s') = [1] \<and>
     (\<forall>d \<in> set (g_devices s'). device_ready 8 (hba_ports s') d) \<and> hba_ports s' 0 = hba_ports example_controller 0"
proof -
  have find: "get_pci_device 0x01060000 PCI_DEVICE_SUBCLASS_MASK (ahci_pci example_controller) = Inr 0x7000"
    by (simp add: get_pci_device_def example_controller_def PCI_DEVICE_SUBCLASS_MASK_def)
  have regs: "hba_capabilities example_controller = 0x80000701" "cmd_slots_of 0x80000701 = 8" "g_devices example_controller = []"
    "pci_kernel (ahci_pci example_controller) = 0"
    "implemented_drives 0x80000701 (hba_port_impl example_controller) (hba_ports example_controller) = [1]"
    by (simp_all add: example_controller_def cmd_slots_of_def implemented_drives_def port_count_of_def drive_present_def example_drive_def
        PORT_DET_PRESENT_def PORT_IPM_ACTIVE_def SATA_SIG_ATA_def upt_rec)
  have calls: "ahci_kmap_phys_range example_ahci_services a b c k = Inr (0x8000, k)" "ahci_kalloc example_ahci_services a k = Inr (0x9000, k)" for a b c k
    by (simp_all add: example_ahci_services_def)
  have "ports_answer example_ahci_services"
    by (simp add: ports_answer_def example_ahci_services_def PORT_CMD_FR_def PORT_CMD_CR_def)
  moreover have "dma_memory example_ahci_services 8"
    unfolding dma_memory_def by (intro allI, rule exI [of _ "0x10000"], rule exI [of _ "0x10000"]) (simp add: example_ahci_services_def)
  ultimately have "\<exists>s'. initialize_ahci example_ahci_services example_controller = Inr s' \<and> g_controller s' = 0x8000 \<and> g_cmd_slots s' = 8 \<and>
      map device_port (g_devices s') = [1] \<and> (\<forall>d \<in> set (g_devices s'). device_ready 8 (hba_ports s') d) \<and>
      (\<forall>p. p \<notin> set [1] \<longrightarrow> hba_ports s' p = hba_ports example_controller p)"
    using initialize_ahci_drives [OF find, of example_ahci_services "0x8000" 0 8 "0x9000" 0, unfolded regs]
    by (simp add: calls bit_simps)
  then show ?thesis
    by auto
qed

end
