(* ===== verification/Apic.thy ===== *)
theory Apic
  imports Acpi Paging_Entries Bit_Fields
begin

text \<open>
  kernel/src/apic.c with kernel/include/apic.h: the tables of interrupt controllers, found in the
  MADT, and the registers of the I/O and local APICs. The memory that holds the MADT is \<open>m\<close>; the
  register windows of the devices are records of their own.
\<close>

section \<open>I/O APIC\<close>

text \<open>The selected register and the registers behind the window.\<close>

record IOAPIC =
  current_register :: u32
  ioapic_registers :: "u32 \<Rightarrow> u32"

type_synonym ioapics = "u64 \<Rightarrow> IOAPIC"

definition read_ioapic_register :: "u64 \<Rightarrow> u32 \<Rightarrow> ioapics \<Rightarrow> u32 \<times> ioapics" where
  "read_ioapic_register ioapic_address offset io =
     (let d = (io ioapic_address)\<lparr>current_register := offset\<rparr> in
      (ioapic_registers d (current_register d), io(ioapic_address := d)))"

definition write_ioapic_register :: "u64 \<Rightarrow> u32 \<Rightarrow> u32 \<Rightarrow> ioapics \<Rightarrow> ioapics" where
  "write_ioapic_register ioapic_address offset v io =
     (let d = (io ioapic_address)\<lparr>current_register := offset\<rparr> in
      io(ioapic_address := d\<lparr>ioapic_registers := (ioapic_registers d)(current_register d := v)\<rparr>))"

text \<open>\<open>((num & ((1U << ub) - (1U << lb))) >> lb)\<close>\<close>

definition GET_BITRANGE_VALUE :: "u32 \<Rightarrow> nat \<Rightarrow> nat \<Rightarrow> u32" where
  "GET_BITRANGE_VALUE num lb ub = drop_bit lb (num AND (push_bit ub 1 - push_bit lb 1))"

definition read_ioapic_id :: "u64 \<Rightarrow> ioapics \<Rightarrow> u32 \<times> ioapics" where
  "read_ioapic_id a io = (let (r0, io) = read_ioapic_register a 0 io in (GET_BITRANGE_VALUE r0 24 27, io))"

definition read_ioapic_version :: "u64 \<Rightarrow> ioapics \<Rightarrow> u32 \<times> ioapics" where
  "read_ioapic_version a io = (let (r1, io) = read_ioapic_register a 1 io in (GET_BITRANGE_VALUE r1 0 8, io))"

definition read_ioapic_mre :: "u64 \<Rightarrow> ioapics \<Rightarrow> u32 \<times> ioapics" where
  "read_ioapic_mre a io = (let (r1, io) = read_ioapic_register a 1 io in (GET_BITRANGE_VALUE r1 16 24, io))"

definition REDTBL_OFFSET :: "u32 \<Rightarrow> u32" where
  "REDTBL_OFFSET irq = 2 * irq + 0x10"

text \<open>
  \<open>IOREDTBLEntry\<close> is a union: 64 bits of which the fields are bit-fields and the two dwords the
  halves. The declared widths leave \<open>destination\<close> at bit 56.
\<close>

type_synonym IOREDTBLEntry = u64

definition red_vector :: "IOREDTBLEntry \<Rightarrow> u64" where
  "red_vector = get_field 0 8"

definition red_delivery_mode :: "IOREDTBLEntry \<Rightarrow> u64" where
  "red_delivery_mode = get_field 8 3"

definition red_mask :: "IOREDTBLEntry \<Rightarrow> u64" where
  "red_mask = get_field 16 1"

definition red_destination :: "IOREDTBLEntry \<Rightarrow> u64" where
  "red_destination = get_field 56 8"

definition red_set_vector :: "u64 \<Rightarrow> IOREDTBLEntry \<Rightarrow> IOREDTBLEntry" where
  "red_set_vector = set_field 0 8"

definition red_set_delivery_mode :: "u64 \<Rightarrow> IOREDTBLEntry \<Rightarrow> IOREDTBLEntry" where
  "red_set_delivery_mode = set_field 8 3"

definition red_set_mask :: "u64 \<Rightarrow> IOREDTBLEntry \<Rightarrow> IOREDTBLEntry" where
  "red_set_mask = set_field 16 1"

definition red_set_destination :: "u64 \<Rightarrow> IOREDTBLEntry \<Rightarrow> IOREDTBLEntry" where
  "red_set_destination = set_field 56 8"

definition red_lower_dword :: "IOREDTBLEntry \<Rightarrow> u32" where
  "red_lower_dword e = ucast e"

definition red_upper_dword :: "IOREDTBLEntry \<Rightarrow> u32" where
  "red_upper_dword e = ucast (drop_bit 32 e)"

definition red_entry :: "u32 \<Rightarrow> u32 \<Rightarrow> IOREDTBLEntry" where
  "red_entry lower upper = ucast lower OR push_bit 32 (ucast upper)"

text \<open>The offsets are kept in a \<open>uint8_t\<close>.\<close>

definition read_redtable_entry :: "u64 \<Rightarrow> u32 \<Rightarrow> ioapics \<Rightarrow> IOREDTBLEntry \<times> ioapics" where
  "read_redtable_entry ioapic_address irq io =
     (let lower_offset = ucast (REDTBL_OFFSET irq) :: u8; upper_offset = lower_offset + 1;
          (lower, io) = read_ioapic_register ioapic_address (ucast lower_offset) io;
          (upper, io) = read_ioapic_register ioapic_address (ucast upper_offset) io
      in (red_entry lower upper, io))"

definition write_redtable_entry :: "u64 \<Rightarrow> u32 \<Rightarrow> IOREDTBLEntry \<Rightarrow> ioapics \<Rightarrow> ioapics" where
  "write_redtable_entry ioapic_address irq entry io =
     (let lower_offset = ucast (REDTBL_OFFSET irq) :: u8; upper_offset = lower_offset + 1 in
      write_ioapic_register ioapic_address (ucast upper_offset) (red_upper_dword entry)
        (write_ioapic_register ioapic_address (ucast lower_offset) (red_lower_dword entry) io))"

section \<open>Tables of controllers\<close>

definition MAX_8259_IRQ_COUNT :: nat where
  "MAX_8259_IRQ_COUNT = 16"

definition MAX_IOAPIC_COUNT :: nat where
  "MAX_IOAPIC_COUNT = 4"

definition MAX_LAPIC_COUNT :: nat where
  "MAX_LAPIC_COUNT = 16"

record IOAPICInfo =
  info_ioapic_id :: u8
  info_physical_address :: u64
  info_virtual_address :: u64
  info_gsi_offset :: u32
  info_used_irqs :: u32

record GSIOverrideEntry =
  gsi_present :: bool
  gsi :: u32
  gsi_flags :: u16

text \<open>The registers of the local APIC the kernel writes.\<close>

record LocalAPIC =
  lapic_id :: u32
  task_priority :: u32
  lapic_eoi :: u32
  spurious_interrupt_vector :: u32
  lvt_timer :: u32
  lvt_lint0 :: u32
  lvt_lint1 :: u32
  initial_count :: u32
  divide_configuration :: u32

text \<open>
  The lists \<open>found_ioapics\<close> and \<open>found_lapics\<close> are the filled parts of the arrays
  \<open>g_found_ioapics\<close> and \<open>g_found_lapics\<close>; a local APIC is the address of its MADT entry.
\<close>

record 'k apic_state =
  gsi_override_table :: "nat \<Rightarrow> GSIOverrideEntry"
  found_ioapics :: "IOAPICInfo list"
  found_lapics :: "u64 list"
  g_lapic :: LocalAPIC
  g_lapic_address :: u64
  apic_base_msr :: u64
  port_writes :: "(u16 \<times> u8) list"
  ioapics :: ioapics
  apic_kernel :: 'k

text \<open>Types of MADT entries.\<close>

definition LOCAL_APIC_ENTRY :: u8 where
  "LOCAL_APIC_ENTRY = 0"

definition IO_APIC_ENTRY :: u8 where
  "IO_APIC_ENTRY = 1"

definition INTERRUPT_SOURCE_OVERRIDE_ENTRY :: u8 where
  "INTERRUPT_SOURCE_OVERRIDE_ENTRY = 2"

definition LOCAL_APIC_ADDRESS_OVERRIDE_ENTRY :: u8 where
  "LOCAL_APIC_ADDRESS_OVERRIDE_ENTRY = 5"

section \<open>Reading the MADT\<close>

type_synonym 'k kmap_op = "u64 \<Rightarrow> u64 \<Rightarrow> u32 \<Rightarrow> 'k \<Rightarrow> (u64 \<times> 'k) res"

definition add_lapic :: "u64 \<Rightarrow> 'k apic_state \<Rightarrow> 'k apic_state res" where
  "add_lapic entry s =
     (if length (found_lapics s) < MAX_LAPIC_COUNT then Inr (s\<lparr>found_lapics := found_lapics s @ [entry]\<rparr>)
      else Inl Out_of_bounds)"

definition add_ioapic :: "mem \<Rightarrow> 'k kmap_op \<Rightarrow> u64 \<Rightarrow> 'k apic_state \<Rightarrow> 'k apic_state res" where
  "add_ioapic m kmap entry s =
     (if length (found_ioapics s) < MAX_IOAPIC_COUNT then
        let phys = ucast (load32 m (entry + 4)) in
        rbind (kmap phys 1 (PAGING_WRITABLE OR PAGING_CACHE_DISABLE) (apic_kernel s)) (\<lambda>(virt, k).
        let (mre, io) = read_ioapic_mre virt (ioapics s);
            (fetched, io) = read_ioapic_id virt io;
            info = \<lparr>info_ioapic_id = m (entry + 2), info_physical_address = phys, info_virtual_address = virt,
              info_gsi_offset = load32 m (entry + 8), info_used_irqs = 1 + mre\<rparr> in
        rbind (kernel_assert (info_ioapic_id info = ucast fetched) ''ID MISMATCH WHEN LOADING IOAPIC'') (\<lambda>_.
          Inr (s\<lparr>found_ioapics := found_ioapics s @ [info], ioapics := io, apic_kernel := k\<rparr>)))
      else Inl Out_of_bounds)"

definition add_override :: "mem \<Rightarrow> u64 \<Rightarrow> 'k apic_state \<Rightarrow> 'k apic_state res" where
  "add_override m entry s =
     (let irq = unat (m (entry + 3)) in
      if irq < MAX_8259_IRQ_COUNT then
        Inr (s\<lparr>gsi_override_table := (gsi_override_table s)
          (irq := \<lparr>gsi_present = True, gsi = load32 m (entry + 4), gsi_flags = load16 m (entry + 8)\<rparr>)\<rparr>)
      else Inl Out_of_bounds)"

text \<open>One turn of the \<open>switch\<close>; the first component is \<open>local_apic_phys_addr\<close>.\<close>

definition madt_entry :: "mem \<Rightarrow> 'k kmap_op \<Rightarrow> u64 \<Rightarrow> u64 \<times> 'k apic_state \<Rightarrow> (u64 \<times> 'k apic_state) res" where
  "madt_entry m kmap entry = (\<lambda>(phys, s).
     if m entry = LOCAL_APIC_ENTRY then rbind (add_lapic entry s) (\<lambda>s. Inr (phys, s))
     else if m entry = IO_APIC_ENTRY then rbind (add_ioapic m kmap entry s) (\<lambda>s. Inr (phys, s))
     else if m entry = INTERRUPT_SOURCE_OVERRIDE_ENTRY then rbind (add_override m entry s) (\<lambda>s. Inr (phys, s))
     else if m entry = LOCAL_APIC_ADDRESS_OVERRIDE_ENTRY then Inr (load64 m (entry + 4), s)
     else Inr (phys, s))"

fun parse_madt ::
    "nat \<Rightarrow> mem \<Rightarrow> 'k kmap_op \<Rightarrow> u64 \<Rightarrow> u64 \<Rightarrow> u64 \<times> 'k apic_state \<Rightarrow> (u64 \<times> 'k apic_state) res" where
  "parse_madt 0 m kmap end_addr curr_addr st = Inl Diverges"
| "parse_madt (Suc n) m kmap end_addr curr_addr st =
     (if curr_addr < end_addr then
        rbind (madt_entry m kmap curr_addr st)
          (parse_madt n m kmap end_addr (curr_addr + ucast (m (curr_addr + 1))))
      else Inr st)"

section \<open>Setup\<close>

definition pic_sequence :: "(u16 \<times> u8) list" where
  "pic_sequence = [(0x20, 0x11), (0xA0, 0x11), (0x21, 0x20), (0xA1, 0x28), (0x21, 0x04), (0xA1, 0x02),
     (0x21, 0x01), (0xA1, 0x01), (0x21, 0xff), (0xA1, 0xff)]"

definition APIC_BASE_MSR_ENABLE :: u64 where
  "APIC_BASE_MSR_ENABLE = 0x800"

definition setup_apic :: "mem \<Rightarrow> ACPIMemRemap list \<Rightarrow> u64 \<Rightarrow> 'k kmap_op \<Rightarrow> 'k apic_state \<Rightarrow> 'k apic_state res" where
  "setup_apic m remaps g_xsdt kmap s =
     (let s = s\<lparr>port_writes := port_writes s @ pic_sequence\<rparr> in
      rbind (find_table m remaps g_xsdt ''APIC'') (\<lambda>madt.
      rbind (kernel_assert (madt \<noteq> 0) ''MADT NOT FOUND'') (\<lambda>_.
      rbind (kernel_assert (sdt_is_valid m madt ''APIC'') ''INVALID MADT'') (\<lambda>_.
      let s = s\<lparr>gsi_override_table := \<lambda>i. if i < MAX_8259_IRQ_COUNT then (gsi_override_table s i)\<lparr>gsi := of_nat i\<rparr>
            else gsi_override_table s i\<rparr> in
      rbind (parse_madt (Suc loop_fuel) m kmap (madt + ucast (sdt_length m madt)) (madt + 44)
          (ucast (load32 m (madt + 36)), s)) (\<lambda>(local_apic_phys_addr, s).
      let s = s\<lparr>apic_base_msr := apic_base_msr s OR APIC_BASE_MSR_ENABLE\<rparr> in
      rbind (kmap local_apic_phys_addr 1 (PAGING_WRITABLE OR PAGING_CACHE_DISABLE) (apic_kernel s)) (\<lambda>(virt, k).
        Inr (s\<lparr>apic_kernel := k, g_lapic_address := virt,
          g_lapic := (g_lapic s)\<lparr>spurious_interrupt_vector := 0xFF OR push_bit 8 1,
            task_priority := task_priority (g_lapic s) AND NOT 0xff\<rparr>\<rparr>)))))))"

section \<open>Lookup\<close>

definition responsible :: "u32 \<Rightarrow> IOAPICInfo \<Rightarrow> bool" where
  "responsible g info \<longleftrightarrow> info_gsi_offset info \<le> g \<and> info_gsi_offset info + info_used_irqs info > g"

definition get_responsible_ioapic :: "u32 \<Rightarrow> 'k apic_state \<Rightarrow> IOAPICInfo option" where
  "get_responsible_ioapic g s = find (responsible g) (found_ioapics s)"

definition get_lapic_id :: "mem \<Rightarrow> u8 \<Rightarrow> 'k apic_state \<Rightarrow> u8 option" where
  "get_lapic_id m acpi_id s =
     (case find (\<lambda>entry. m (entry + 2) = acpi_id) (found_lapics s) of
       None \<Rightarrow> None
     | Some entry \<Rightarrow> Some (m (entry + 3)))"

end
