(* ===== verification/Apic_Properties.thy ===== *)
theory Apic_Properties
  imports Apic
begin

text \<open>
  Reading the table of interrupt controllers: the loop over the MADT visits the entries in order
  and fills the kernel's tables with what they say.
\<close>

text \<open>The entries of a MADT: each has a length, and the last ends at the end of the table.\<close>

fun madt_chain :: "mem \<Rightarrow> u64 \<Rightarrow> u64 \<Rightarrow> u64 list \<Rightarrow> bool" where
  "madt_chain m end_addr cur [] \<longleftrightarrow> cur = end_addr"
| "madt_chain m end_addr cur (a # as) \<longleftrightarrow>
     cur = a \<and> 0 < unat (m (a + 1)) \<and> unat a + unat (m (a + 1)) \<le> unat end_addr \<and>
     madt_chain m end_addr (a + ucast (m (a + 1))) as"

fun madt_entries :: "mem \<Rightarrow> 'k kmap_op \<Rightarrow> u64 list \<Rightarrow> u64 \<times> 'k apic_state \<Rightarrow> (u64 \<times> 'k apic_state) res" where
  "madt_entries m kmap [] st = Inr st"
| "madt_entries m kmap (a # as) st = rbind (madt_entry m kmap a st) (madt_entries m kmap as)"

lemma madt_next:
  assumes "unat a + unat (m (a + 1)) \<le> unat (end_addr :: u64)"
  shows "unat (a + ucast (m (a + 1)) :: u64) = unat a + unat (m (a + 1) :: u8)"
proof -
  have "unat (ucast (m (a + 1)) :: u64) = unat (m (a + 1))"
    using unsigned_less [of "m (a + 1)", where ?'a = nat] by (simp add: unsigned_ucast_eq unsigned_take_bit_eq take_bit_nat_eq_self)
  then show ?thesis
    using assms unat_u64_lt [of end_addr] by (subst unat_add_u64) simp_all
qed

lemma madt_chain_length: "madt_chain m end_addr cur as \<Longrightarrow> length as + unat cur \<le> unat end_addr"
  by (induction as arbitrary: cur) (force simp: madt_next)+

lemma parse_madt_chain:
  "madt_chain m end_addr cur as \<Longrightarrow> length as < n \<Longrightarrow> parse_madt n m kmap end_addr cur st = madt_entries m kmap as st"
proof (induction as arbitrary: cur n st)
  case Nil
  then show ?case
    by (cases n) auto
next
  case (Cons a as)
  then obtain k where k: "n = Suc k"
    by (cases n) auto
  have "cur < end_addr"
    using Cons.prems(1) by (auto simp: word_less_nat_alt)
  moreover have "parse_madt k m kmap end_addr (a + ucast (m (a + 1))) = madt_entries m kmap as"
    using Cons k by (intro ext) auto
  ultimately show ?case
    using Cons.prems by (simp add: k)
qed

definition override_of :: "mem \<Rightarrow> u64 \<Rightarrow> GSIOverrideEntry" where
  "override_of m a = \<lparr>gsi_present = True, gsi = load32 m (a + 4), gsi_flags = load16 m (a + 8)\<rparr>"

definition overrides :: "mem \<Rightarrow> nat \<Rightarrow> u64 \<Rightarrow> bool" where
  "overrides m irq a \<longleftrightarrow> m a = INTERRUPT_SOURCE_OVERRIDE_ENTRY \<and> unat (m (a + 3)) = irq"

text \<open>
  What the entry at \<open>a\<close> for an I/O APIC and the controller's own registers \<open>io\<close> say: the identity, the
  page its registers were mapped at, its first interrupt number and how many it has (the register
  at offset 1 has the last one in bits 16 to 23); bits 24 to 26 of the register at offset 0 agree with the
  identity.
\<close>

definition ioapic_described :: "mem \<Rightarrow> 'k kmap_op \<Rightarrow> ioapics \<Rightarrow> u64 \<Rightarrow> IOAPICInfo \<Rightarrow> bool" where
  "ioapic_described m kmap io a info \<longleftrightarrow>
     info_ioapic_id info = m (a + 2) \<and> info_physical_address info = ucast (load32 m (a + 4)) \<and>
     info_gsi_offset info = load32 m (a + 8) \<and>
     (\<exists>k k'. kmap (info_physical_address info) 1 (PAGING_WRITABLE OR PAGING_CACHE_DISABLE) k = Inr (info_virtual_address info, k')) \<and>
     (let regs = ioapic_registers (io (info_virtual_address info)) in
        info_used_irqs info = 1 + take_bit 8 (drop_bit 16 (regs 1)) \<and>
        info_ioapic_id info = ucast (take_bit 3 (drop_bit 24 (regs 0))))"

definition same_registers :: "ioapics \<Rightarrow> ioapics \<Rightarrow> bool" where
  "same_registers io io' \<longleftrightarrow> (\<forall>x. ioapic_registers (io' x) = ioapic_registers (io x))"

lemma read_ioapic_fields:
  "fst (read_ioapic_mre virt io) = take_bit 8 (drop_bit 16 (ioapic_registers (io virt) 1))"
  "fst (read_ioapic_id virt io) = take_bit 3 (drop_bit 24 (ioapic_registers (io virt) 0))"
  "same_registers io (snd (read_ioapic_mre virt io))" "same_registers io (snd (read_ioapic_id virt io))"
proof -
  have "(push_bit 24 1 - push_bit 16 1 :: u32) = push_bit 16 (mask 8)" "(push_bit 27 1 - push_bit 24 1 :: u32) = push_bit 24 (mask 3)"
    by code_simp+
  moreover have "drop_bit 16 (x AND push_bit 16 (mask 8)) = take_bit 8 (drop_bit 16 x)" "drop_bit 24 (x AND push_bit 24 (mask 3)) = take_bit 3 (drop_bit 24 x)"
    for x :: u32
    by (rule bit_word_eqI; auto simp: bit_simps)+
  ultimately show "fst (read_ioapic_mre virt io) = take_bit 8 (drop_bit 16 (ioapic_registers (io virt) 1))"
    "fst (read_ioapic_id virt io) = take_bit 3 (drop_bit 24 (ioapic_registers (io virt) 0))"
    by (simp_all add: read_ioapic_mre_def read_ioapic_id_def read_ioapic_register_def GET_BITRANGE_VALUE_def)
  show "same_registers io (snd (read_ioapic_mre virt io))" "same_registers io (snd (read_ioapic_id virt io))"
    by (simp_all add: read_ioapic_mre_def read_ioapic_id_def read_ioapic_register_def same_registers_def)
qed

lemma ioapic_described_cong: "same_registers io io' \<Longrightarrow> ioapic_described m kmap io' = ioapic_described m kmap io"
  by (intro ext) (simp add: ioapic_described_def same_registers_def Let_def)

lemma add_ioapic_effect:
  assumes "add_ioapic m kmap a s = Inr s'"
  shows "\<exists>info io k. s' = s\<lparr>found_ioapics := found_ioapics s @ [info], ioapics := io, apic_kernel := k\<rparr> \<and>
    ioapic_described m kmap (ioapics s) a info \<and> same_registers (ioapics s) io \<and> length (found_ioapics s) < 4"
proof -
  from assms have len: "length (found_ioapics s) < 4"
    by (simp add: add_ioapic_def MAX_IOAPIC_COUNT_def split: if_splits)
  obtain virt k where map: "kmap (ucast (load32 m (a + 4))) 1 (PAGING_WRITABLE OR PAGING_CACHE_DISABLE) (apic_kernel s) = Inr (virt, k)"
    using assms len by (auto simp: add_ioapic_def MAX_IOAPIC_COUNT_def rbind_Inr_iff Let_def)
  obtain mre io1 where r1: "read_ioapic_mre virt (ioapics s) = (mre, io1)"
    by fastforce
  obtain fetched io2 where r2: "read_ioapic_id virt io1 = (fetched, io2)"
    by fastforce
  have regs: "mre = take_bit 8 (drop_bit 16 (ioapic_registers (ioapics s virt) 1))" "same_registers (ioapics s) io2"
    "fetched = take_bit 3 (drop_bit 24 (ioapic_registers (ioapics s virt) 0))"
    using read_ioapic_fields [where virt = virt and io = "ioapics s"] read_ioapic_fields [where virt = virt and io = io1] by (simp_all add: r1 r2 same_registers_def)
  let ?info = "\<lparr>info_ioapic_id = m (a + 2), info_physical_address = ucast (load32 m (a + 4)),
      info_virtual_address = virt, info_gsi_offset = load32 m (a + 8), info_used_irqs = 1 + mre\<rparr>"
  have "s' = s\<lparr>found_ioapics := found_ioapics s @ [?info], ioapics := io2, apic_kernel := k\<rparr>" "m (a + 2) = ucast fetched"
    using assms len by (auto simp: add_ioapic_def MAX_IOAPIC_COUNT_def map r1 r2 Let_def rbind_Inr_iff kernel_assert_def split: if_splits)
  moreover from this(2) have "ioapic_described m kmap (ioapics s) a ?info"
    using map by (auto simp: ioapic_described_def Let_def regs)
  ultimately show ?thesis
    using len regs(2) by blast
qed

lemma madt_entry_cases:
  assumes "madt_entry m kmap a (phys, s) = Inr (phys', s')"
  obtains "m a = LOCAL_APIC_ENTRY" "phys' = phys" "s' = s\<lparr>found_lapics := found_lapics s @ [a]\<rparr>" "length (found_lapics s) < 16"
  | info io k where "m a = IO_APIC_ENTRY" "phys' = phys" "s' = s\<lparr>found_ioapics := found_ioapics s @ [info], ioapics := io, apic_kernel := k\<rparr>"
      "ioapic_described m kmap (ioapics s) a info" "same_registers (ioapics s) io" "length (found_ioapics s) < 4"
  | "m a = INTERRUPT_SOURCE_OVERRIDE_ENTRY" "phys' = phys"
      "s' = s\<lparr>gsi_override_table := (gsi_override_table s)(unat (m (a + 3)) := override_of m a)\<rparr>"
  | "m a = LOCAL_APIC_ADDRESS_OVERRIDE_ENTRY" "phys' = load64 m (a + 4)" "s' = s"
  | "m a \<notin> {LOCAL_APIC_ENTRY, IO_APIC_ENTRY, INTERRUPT_SOURCE_OVERRIDE_ENTRY, LOCAL_APIC_ADDRESS_OVERRIDE_ENTRY}" "phys' = phys" "s' = s"
proof -
  consider (lapic) "m a = LOCAL_APIC_ENTRY" | (ioapic) "m a = IO_APIC_ENTRY" "m a \<noteq> LOCAL_APIC_ENTRY"
    | (source) "m a = INTERRUPT_SOURCE_OVERRIDE_ENTRY" "m a \<noteq> LOCAL_APIC_ENTRY" "m a \<noteq> IO_APIC_ENTRY" | (other) "m a \<notin> {LOCAL_APIC_ENTRY, IO_APIC_ENTRY, INTERRUPT_SOURCE_OVERRIDE_ENTRY}"
    by blast
  then show thesis
  proof cases
    case lapic
    with assms show thesis
      by (intro that(1)) (auto simp: madt_entry_def add_lapic_def MAX_LAPIC_COUNT_def rbind_Inr_iff split: if_splits)
  next
    case ioapic
    with assms obtain s1 where "add_ioapic m kmap a s = Inr s1" "phys' = phys" "s' = s1"
      by (auto simp: madt_entry_def rbind_Inr_iff)
    with add_ioapic_effect [of m kmap a s s1] ioapic that(2) show thesis
      by blast
  next
    case source
    with assms show thesis
      by (intro that(3)) (auto simp: madt_entry_def add_override_def override_of_def Let_def rbind_Inr_iff split: if_splits)
  next
    case other
    with assms that(4,5) show thesis
      by (auto simp: madt_entry_def split: if_splits)
  qed
qed

lemmas madt_types = LOCAL_APIC_ENTRY_def IO_APIC_ENTRY_def INTERRUPT_SOURCE_OVERRIDE_ENTRY_def LOCAL_APIC_ADDRESS_OVERRIDE_ENTRY_def

lemma madt_entry_effect:
  assumes "madt_entry m kmap a (phys, s) = Inr (phys', s')"
  shows "found_lapics s' = found_lapics s @ (if m a = LOCAL_APIC_ENTRY then [a] else [])"
    and "\<exists>infos. found_ioapics s' = found_ioapics s @ infos \<and>
      list_all2 (ioapic_described m kmap (ioapics s)) (filter (\<lambda>a. m a = IO_APIC_ENTRY) [a]) infos"
    and "same_registers (ioapics s) (ioapics s')"
    and "gsi_override_table s' irq = (if overrides m irq a then override_of m a else gsi_override_table s irq)"
    and "phys' = (if m a = LOCAL_APIC_ADDRESS_OVERRIDE_ENTRY then load64 m (a + 4) else phys)"
    and "length (found_lapics s) \<le> 16 \<Longrightarrow> length (found_lapics s') \<le> 16"
    and "length (found_ioapics s) \<le> 4 \<Longrightarrow> length (found_ioapics s') \<le> 4"
  by (rule madt_entry_cases [OF assms]; simp add: madt_types overrides_def same_registers_def; fail)+

lemma madt_entries_effect:
  assumes "madt_entries m kmap as (phys, s) = Inr (phys', s')"
  shows "found_lapics s' = found_lapics s @ filter (\<lambda>a. m a = LOCAL_APIC_ENTRY) as \<and>
    (\<exists>infos. found_ioapics s' = found_ioapics s @ infos \<and>
      list_all2 (ioapic_described m kmap (ioapics s)) (filter (\<lambda>a. m a = IO_APIC_ENTRY) as) infos) \<and>
    same_registers (ioapics s) (ioapics s') \<and>
    gsi_override_table s' irq = (case find (overrides m irq) (rev as) of Some a \<Rightarrow> override_of m a | None \<Rightarrow> gsi_override_table s irq) \<and>
    phys' = (case find (\<lambda>a. m a = LOCAL_APIC_ADDRESS_OVERRIDE_ENTRY) (rev as) of Some a \<Rightarrow> load64 m (a + 4) | None \<Rightarrow> phys) \<and>
    (length (found_lapics s) \<le> 16 \<longrightarrow> length (found_lapics s') \<le> 16) \<and> (length (found_ioapics s) \<le> 4 \<longrightarrow> length (found_ioapics s') \<le> 4)"
  using assms
proof (induction as arbitrary: phys s)
  case Nil
  then show ?case
    by (simp add: same_registers_def)
next
  case (Cons a as)
  from Cons.prems obtain phys1 s1 where step: "madt_entry m kmap a (phys, s) = Inr (phys1, s1)" and rest: "madt_entries m kmap as (phys1, s1) = Inr (phys', s')"
    by (auto simp: rbind_Inr_iff)
  note eff = madt_entry_effect [OF step] and IH = Cons.IH [OF rest]
  obtain infos1 infos where "found_ioapics s1 = found_ioapics s @ infos1"
    "list_all2 (ioapic_described m kmap (ioapics s)) (filter (\<lambda>a. m a = IO_APIC_ENTRY) [a]) infos1"
    "found_ioapics s' = found_ioapics s1 @ infos"
    "list_all2 (ioapic_described m kmap (ioapics s1)) (filter (\<lambda>a. m a = IO_APIC_ENTRY) as) infos"
    using eff(2) IH by blast
  moreover from this(4) have "list_all2 (ioapic_described m kmap (ioapics s)) (filter (\<lambda>a. m a = IO_APIC_ENTRY) as) infos"
    by (simp add: ioapic_described_cong [OF eff(3)])
  moreover have "filter P (a # as) = filter P [a] @ filter P as" for P
    by simp
  ultimately have "\<exists>infos. found_ioapics s' = found_ioapics s @ infos \<and>
      list_all2 (ioapic_described m kmap (ioapics s)) (filter (\<lambda>a. m a = IO_APIC_ENTRY) (a # as)) infos"
    by (metis append_assoc list_all2_appendI)
  moreover have "same_registers (ioapics s) (ioapics s')"
    using eff(3) IH by (simp add: same_registers_def)
  ultimately show ?case
    using IH eff(6,7) by (auto simp: eff(1,4,5) find_append split: option.splits)
qed

lemma parse_madt_zero_length:
  assumes "cur < end_addr" and "m (cur + 1) = 0" and "m cur \<notin> {0, 1, 2, 5}"
  shows "parse_madt n m kmap end_addr cur st = Inl Diverges"
  using assms by (induction n arbitrary: st) (auto simp: madt_entry_def madt_types split: prod.splits)

text \<open>
  C36. On a table whose entries have positive lengths and fill it exactly, the loop ends, having
  handled each entry once and in order. When it succeeds, the local APICs are those of the table
  in order, at most 16; the I/O APICs are those of the table in order, at most 4, each with the identity,
  the address and the first interrupt number of its entry, the page the address was mapped to,
  and as many interrupts as its own register has, and with the identity its own register names; a
  line is overridden by the last override entry for it, and the address of the local APIC is the last
  override of it or else the one given.
\<close>

theorem parse_madt_entries:
  assumes "madt_chain m end_addr cur as" and "length (found_lapics s) \<le> 16" and "length (found_ioapics s) \<le> 4"
  shows "parse_madt (Suc loop_fuel) m kmap end_addr cur (phys, s) = madt_entries m kmap as (phys, s) \<and>
    (case parse_madt (Suc loop_fuel) m kmap end_addr cur (phys, s) of Inl e \<Rightarrow> True | Inr (phys', s') \<Rightarrow>
       found_lapics s' = found_lapics s @ filter (\<lambda>a. m a = LOCAL_APIC_ENTRY) as \<and> length (found_lapics s') \<le> 16 \<and>
       (\<exists>infos. found_ioapics s' = found_ioapics s @ infos \<and>
         list_all2 (ioapic_described m kmap (ioapics s)) (filter (\<lambda>a. m a = IO_APIC_ENTRY) as) infos) \<and>
       length (found_ioapics s') \<le> 4 \<and>
       (\<forall>irq. gsi_override_table s' irq =
         (case find (overrides m irq) (rev as) of Some a \<Rightarrow> override_of m a | None \<Rightarrow> gsi_override_table s irq)) \<and>
       phys' = (case find (\<lambda>a. m a = LOCAL_APIC_ADDRESS_OVERRIDE_ENTRY) (rev as) of Some a \<Rightarrow> load64 m (a + 4) | None \<Rightarrow> phys))"
proof -
  have "length as < Suc loop_fuel"
    using madt_chain_length [OF assms(1)] unat_u64_lt [of end_addr] by (simp add: loop_fuel_def)
  note eq = parse_madt_chain [OF assms(1) this, of kmap "(phys, s)"]
  show ?thesis
  proof (cases "madt_entries m kmap as (phys, s)")
    case (Inr r)
    obtain phys' s' where r: "r = (phys', s')"
      by (cases r)
    note eff = madt_entries_effect [OF Inr [unfolded r]]
    show ?thesis
      unfolding eq Inr r sum.case prod.case using eff assms(2,3) by blast
  qed (simp only: eq sum.case simp_thms)
qed

definition example_madt :: mem where
  "example_madt = (\<lambda>_. 0)(0x101 := 8, 0x102 := 1, 0x103 := 1, 0x108 := 2, 0x109 := 10, 0x10b := 1, 0x10c := 2,
     0x112 := 1, 0x113 := 12, 0x119 := 0xfe, 0x11a := 24)"

definition no_apics :: "unit apic_state" where
  "no_apics = \<lparr>gsi_override_table = (\<lambda>i. \<lparr>gsi_present = False, gsi = of_nat i, gsi_flags = 0\<rparr>), found_ioapics = [],
     found_lapics = [], g_lapic = \<lparr>lapic_id = 0, task_priority = 0, lapic_eoi = 0, spurious_interrupt_vector = 0,
       lvt_timer = 0, lvt_lint0 = 0, lvt_lint1 = 0, initial_count = 0, divide_configuration = 0\<rparr>,
     g_lapic_address = 0, apic_base_msr = 0, port_writes = [],
     ioapics = (\<lambda>_. \<lparr>current_register = 0, ioapic_registers = (\<lambda>_. 0)\<rparr>), apic_kernel = ()\<rparr>"

definition fixed_map :: "unit kmap_op" where
  "fixed_map = (\<lambda>_ _ _ k. Inr (0x1000, k))"

lemma no_apics_lists: "found_lapics no_apics = []" "found_ioapics no_apics = []"
  by (simp_all add: no_apics_def)

theorem parse_madt_entries_witness:
  "\<exists>s' info. parse_madt (Suc loop_fuel) example_madt fixed_map 0x11e 0x100 (0xfee00000, no_apics) = Inr (0xfee00000, s') \<and>
     found_lapics s' = [0x100] \<and> gsi (gsi_override_table s' 1) = 2 \<and> found_ioapics s' = [info] \<and>
     info_physical_address info = 0xfe000000 \<and> info_virtual_address info = 0x1000 \<and> info_gsi_offset info = 24 \<and> info_used_irqs info = 1"
proof -
  let ?as = "[0x100, 0x108, 0x112]"
  have chain: "madt_chain example_madt 0x11e 0x100 ?as"
    by (simp add: example_madt_def)
  have io: "ioapics no_apics = (\<lambda>_. \<lparr>current_register = 0, ioapic_registers = (\<lambda>_. 0)\<rparr>)"
    by (simp add: no_apics_def)
  have "madt_entries example_madt fixed_map ?as (0xfee00000, no_apics) \<noteq> Inl e" for e
    by (simp add: madt_entry_def example_madt_def madt_types add_lapic_def add_override_def add_ioapic_def fixed_map_def no_apics_def
        MAX_LAPIC_COUNT_def MAX_8259_IRQ_COUNT_def MAX_IOAPIC_COUNT_def read_ioapic_mre_def read_ioapic_id_def read_ioapic_register_def
        GET_BITRANGE_VALUE_def Let_def)
  then obtain phys' s' where run: "madt_entries example_madt fixed_map ?as (0xfee00000, no_apics) = Inr (phys', s')"
    by (metis sum.exhaust surj_pair)
  have parts: "filter (\<lambda>a. example_madt a = LOCAL_APIC_ENTRY) ?as = [0x100]" "filter (\<lambda>a. example_madt a = IO_APIC_ENTRY) ?as = [0x112]"
    "find (overrides example_madt 1) (rev ?as) = Some 0x108"
    "find (\<lambda>a. example_madt a = LOCAL_APIC_ADDRESS_OVERRIDE_ENTRY) (rev ?as) = None"
    by (simp_all add: example_madt_def madt_types overrides_def)
  have "gsi (override_of example_madt 0x108) = 2"
    by code_simp
  have "length (found_lapics no_apics) \<le> 16" "length (found_ioapics no_apics) \<le> 4"
    by (simp_all add: no_apics_lists)
  note whole = parse_madt_entries [OF chain this, of fixed_map "0xfee00000"]
  have parse: "parse_madt (Suc loop_fuel) example_madt fixed_map 0x11e 0x100 (0xfee00000, no_apics) = Inr (phys', s')"
    using conjunct1 [OF whole] by (simp only: run)
  note result = conjunct2 [OF whole, unfolded parse sum.case prod.case parts]
  obtain info where info: "found_ioapics s' = [info]" "ioapic_described example_madt fixed_map (ioapics no_apics) 0x112 info"
    using result by (auto simp: no_apics_lists list_all2_Cons1)
  have "load32 example_madt 0x116 = 0xfe000000" "load32 example_madt 0x11a = 24"
    by code_simp+
  with info(2) have "info_physical_address info = 0xfe000000" "info_virtual_address info = 0x1000" "info_gsi_offset info = 24" "info_used_irqs info = 1"
    by (simp_all add: ioapic_described_def io fixed_map_def Let_def)
  moreover have "\<forall>irq. gsi_override_table s' irq =
      (case find (overrides example_madt irq) (rev ?as) of Some a \<Rightarrow> override_of example_madt a | None \<Rightarrow> gsi_override_table no_apics irq)"
    using result by blast
  then have "gsi (gsi_override_table s' 1) = 2"
    using \<open>gsi (override_of example_madt 0x108) = 2\<close> by (simp only: parts option.case)
  moreover have "phys' = 0xfee00000" "found_lapics s' = [0x100]"
    using result by (simp_all add: no_apics_lists)
  ultimately show ?thesis
    using parse info(1) by blast
qed

end
