(* ===== verification/Elf_Loader.thy ===== *)
theory Elf_Loader
  imports Libc_String Paging_Entries
begin

text \<open>
  kernel/src/elf_loader.c: loading an ELF image from a buffer. The image and the memory the
  segments are mapped at are one byte memory \<open>m\<close>, as the address space in use shows it; the
  operations on frames and address spaces act on the rest of the kernel's state, and a mapping
  may change the memory in the range it maps.
\<close>

definition ELFCLASS64 :: u8 where
  "ELFCLASS64 = 2"

definition ELFDATA2MSB :: u8 where
  "ELFDATA2MSB = 2"

definition PT_LOAD :: u32 where
  "PT_LOAD = 1"

definition PF_X :: u32 where
  "PF_X = 1"

definition PF_W :: u32 where
  "PF_W = 2"

text \<open>The fields of the packed headers, at their offsets.\<close>

record Elf64Ehdr =
  e_ident :: "u8 list"
  e_entry :: u64
  e_phoff :: u64
  e_phnum :: u16

record Elf64Phdr =
  p_type :: u32
  p_flags :: u32
  p_offset :: u64
  p_vaddr :: u64
  p_filesz :: u64
  p_memsz :: u64

definition read_ehdr :: "mem \<Rightarrow> u64 \<Rightarrow> Elf64Ehdr" where
  "read_ehdr m a = \<lparr>e_ident = bytes m a 16, e_entry = load64 m (a + 24), e_phoff = load64 m (a + 32),
     e_phnum = load16 m (a + 56)\<rparr>"

definition sizeof_Elf64Phdr :: u64 where
  "sizeof_Elf64Phdr = 56"

definition read_phdr :: "mem \<Rightarrow> u64 \<Rightarrow> Elf64Phdr" where
  "read_phdr m a = \<lparr>p_type = load32 m a, p_flags = load32 m (a + 4), p_offset = load64 m (a + 8),
     p_vaddr = load64 m (a + 16), p_filesz = load64 m (a + 32), p_memsz = load64 m (a + 40)\<rparr>"

definition valid_elf_ident :: "u8 list \<Rightarrow> bool" where
  "valid_elf_ident i \<longleftrightarrow>
     \<not> (i ! 0 \<noteq> 0x7f \<or> i ! 1 \<noteq> 69 \<or> i ! 2 \<noteq> 76 \<or> i ! 3 \<noteq> 70) \<and> i ! 4 = ELFCLASS64 \<and> i ! 5 \<noteq> ELFDATA2MSB"

record 'k elf_state =
  elf_mem :: mem
  elf_kernel :: 'k

record 'k elf_ops =
  elf_alloc_frames :: "u64 \<Rightarrow> 'k elf_state \<Rightarrow> (u64 \<times> 'k elf_state) res"
  elf_map_allocation_to_range :: "u64 \<Rightarrow> u64 \<Rightarrow> u64 \<Rightarrow> u32 \<Rightarrow> 'k elf_state \<Rightarrow> (bool \<times> 'k elf_state) res"
  elf_free_entries :: "u64 \<Rightarrow> 'k elf_state \<Rightarrow> 'k elf_state res"
  elf_range_set_flags :: "u64 \<Rightarrow> u64 \<Rightarrow> u64 \<Rightarrow> u32 \<Rightarrow> 'k elf_state \<Rightarrow> (bool \<times> 'k elf_state) res"

definition segment_pages :: "Elf64Phdr \<Rightarrow> u64" where
  "segment_pages h = (p_memsz h + PAGE_SIZE - 1) div PAGE_SIZE"

definition segment_flags :: "Elf64Phdr \<Rightarrow> u32" where
  "segment_flags h = (if p_flags h AND PF_X \<noteq> 0 then PAGING_EXECUTABLE else 0) OR
     (if p_flags h AND PF_W \<noteq> 0 then PAGING_WRITABLE else 0)"

text \<open>The memory after a segment is cleared and copied.\<close>

definition fill_segment :: "u64 \<Rightarrow> Elf64Phdr \<Rightarrow> mem \<Rightarrow> mem" where
  "fill_segment data h m =
     memcpy (p_vaddr h) (data + p_offset h) (p_filesz h) (memset (p_vaddr h) 0 (segment_pages h * PAGE_SIZE) m)"

text \<open>One loadable segment; False when the loader gives up.\<close>

definition load_segment :: "'k elf_ops \<Rightarrow> u64 \<Rightarrow> u64 \<Rightarrow> Elf64Phdr \<Rightarrow> 'k elf_state \<Rightarrow> (bool \<times> 'k elf_state) res" where
  "load_segment ops addr_space data h s =
     (if p_vaddr h mod PAGE_SIZE \<noteq> 0 then Inr (False, s)
      else
        rbind (elf_alloc_frames ops (segment_pages h) s) (\<lambda>(allocation, s).
        if allocation = 0 then Inr (False, s)
        else
          rbind (elf_map_allocation_to_range ops addr_space allocation (p_vaddr h) PAGING_WRITABLE s) (\<lambda>(success, s).
          rbind (elf_free_entries ops allocation s) (\<lambda>s.
          if \<not> success then Inr (False, s)
          else
            let s = s\<lparr>elf_mem := fill_segment data h (elf_mem s)\<rparr> in
            rbind (elf_range_set_flags ops addr_space (p_vaddr h) (segment_pages h) (segment_flags h) s) (\<lambda>(success, s).
            rbind (kernel_assert success ''Failed to change flags of mapped memory'') (\<lambda>_. Inr (True, s)))))))"

text \<open>The headers are read from memory again in every turn of the loop.\<close>

fun load_segments :: "'k elf_ops \<Rightarrow> u64 \<Rightarrow> u64 \<Rightarrow> u64 \<Rightarrow> nat list \<Rightarrow> 'k elf_state \<Rightarrow> (bool \<times> 'k elf_state) res" where
  "load_segments ops addr_space data program_headers [] s = Inr (True, s)"
| "load_segments ops addr_space data program_headers (p # ps) s =
     (let h = read_phdr (elf_mem s) (program_headers + of_nat p * sizeof_Elf64Phdr) in
      if p_type h = PT_LOAD then
        rbind (load_segment ops addr_space data h s) (\<lambda>(ok, s).
        if ok then load_segments ops addr_space data program_headers ps s else Inr (False, s))
      else load_segments ops addr_space data program_headers ps s)"

text \<open>The entry point when loading succeeds.\<close>

definition load_elf_from_buff :: "'k elf_ops \<Rightarrow> u64 \<Rightarrow> u64 \<Rightarrow> 'k elf_state \<Rightarrow> (u64 option \<times> 'k elf_state) res" where
  "load_elf_from_buff ops addr_space data s =
     (let h = read_ehdr (elf_mem s) data in
      if \<not> valid_elf_ident (e_ident h) then Inr (None, s)
      else
        rbind (load_segments ops addr_space data (data + e_phoff h) [0..<unat (e_phnum h)] s) (\<lambda>(ok, s).
          Inr (if ok then Some (e_entry (read_ehdr (elf_mem s) data)) else None, s)))"

end
