(* ===== verification/Bootloader.thy ===== *)
theory Bootloader
  imports Elf_Loader Uefi
begin

text \<open>
  bootloader/src: the loader of the kernel image (elf-loader.c), the search for the ACPI root
  pointer (rsdp-finder.c) and the memory map handed to the kernel (main.c). The firmware's
  services are the operations of \<open>efi_ops\<close>: an error status or the new state.
\<close>

section \<open>Firmware\<close>

type_synonym EFI_STATUS = u64

definition EFI_UNSUPPORTED :: EFI_STATUS where
  "EFI_UNSUPPORTED = 0x8000000000000003"

definition EFI_NOT_FOUND :: EFI_STATUS where
  "EFI_NOT_FOUND = 0x800000000000000e"

record 'w boot_state =
  boot_mem :: mem
  firmware :: 'w

text \<open>
  \<open>efi_read n a\<close> reads \<open>n\<close> bytes from the position of the file to the address; the other
  operations are those of the UEFI specification with their out-parameters as results.
\<close>

record 'w efi_ops =
  efi_open :: "'w boot_state \<Rightarrow> EFI_STATUS + 'w boot_state"
  efi_set_position :: "u64 \<Rightarrow> 'w boot_state \<Rightarrow> EFI_STATUS + 'w boot_state"
  efi_read :: "u64 \<Rightarrow> u64 \<Rightarrow> 'w boot_state \<Rightarrow> EFI_STATUS + 'w boot_state"
  efi_close :: "'w boot_state \<Rightarrow> EFI_STATUS + 'w boot_state"
  efi_allocate_pool :: "u64 \<Rightarrow> 'w boot_state \<Rightarrow> EFI_STATUS + (u64 \<times> 'w boot_state)"
  efi_free_pool :: "u64 \<Rightarrow> 'w boot_state \<Rightarrow> EFI_STATUS + 'w boot_state"
  efi_allocate_pages :: "u64 \<Rightarrow> 'w boot_state \<Rightarrow> EFI_STATUS + (u64 \<times> 'w boot_state)"
  efi_set_mem :: "u64 \<Rightarrow> u64 \<Rightarrow> u8 \<Rightarrow> 'w boot_state \<Rightarrow> 'w boot_state"

definition ebind :: "'e + 'a \<Rightarrow> ('a \<Rightarrow> 'e + 'b) \<Rightarrow> 'e + 'b" where
  "ebind m f = (case m of Inl e \<Rightarrow> Inl e | Inr x \<Rightarrow> f x)"

lemma ebind_simps [simp]:
  "ebind (Inl e) f = Inl e"
  "ebind (Inr x) f = f x"
  by (simp_all add: ebind_def)

section \<open>The kernel image\<close>

text \<open>\<open>EFI_SIZE_TO_PAGES\<close>\<close>

definition EFI_SIZE_TO_PAGES :: "u64 \<Rightarrow> u64" where
  "EFI_SIZE_TO_PAGES a = drop_bit 12 a + (if a AND 0xfff \<noteq> 0 then 1 else 0)"

text \<open>The lowest and the highest address and the number of the loadable segments.\<close>

fun segment_bounds :: "Elf64Phdr list \<Rightarrow> u64 \<times> u64 \<times> nat \<Rightarrow> u64 \<times> u64 \<times> nat" where
  "segment_bounds [] st = st"
| "segment_bounds (h # hs) (low, high, loaded) =
     (if p_type h = PT_LOAD then
        segment_bounds hs
          (if p_vaddr h < low then p_vaddr h else low,
           if p_vaddr h > high then p_vaddr h + p_memsz h else high,
           loaded + 1)
      else segment_bounds hs (low, high, loaded))"

definition read_headers :: "mem \<Rightarrow> u64 \<Rightarrow> nat \<Rightarrow> Elf64Phdr list" where
  "read_headers m a n = map (\<lambda>p. read_phdr m (a + of_nat p * sizeof_Elf64Phdr)) [0..<n]"

definition read_segment :: "'w efi_ops \<Rightarrow> u64 \<Rightarrow> u64 \<Rightarrow> Elf64Phdr \<Rightarrow> 'w boot_state \<Rightarrow> EFI_STATUS + 'w boot_state" where
  "read_segment ops kernel_base_addr low_virt_addr h s =
     (let physical_addr = kernel_base_addr + p_vaddr h - low_virt_addr in
      ebind
        (if p_filesz h > 0 then
           ebind (efi_set_position ops (p_offset h) s) (efi_read ops (p_filesz h) physical_addr)
         else Inr s) (\<lambda>s.
      Inr (efi_set_mem ops (physical_addr + p_filesz h) (p_memsz h - p_filesz h) 0 s)))"

fun read_segments ::
    "'w efi_ops \<Rightarrow> u64 \<Rightarrow> nat list \<Rightarrow> u64 \<Rightarrow> u64 \<Rightarrow> 'w boot_state \<Rightarrow> EFI_STATUS + 'w boot_state" where
  "read_segments ops program_headers [] kernel_base_addr low_virt_addr s = Inr s"
| "read_segments ops program_headers (p # ps) kernel_base_addr low_virt_addr s =
     (let h = read_phdr (boot_mem s) (program_headers + of_nat p * sizeof_Elf64Phdr) in
      ebind (if p_type h = PT_LOAD then read_segment ops kernel_base_addr low_virt_addr h s else Inr s)
        (read_segments ops program_headers ps kernel_base_addr low_virt_addr))"

text \<open>The result is the entry point.\<close>

definition load_kernel :: "'w efi_ops \<Rightarrow> 'w boot_state \<Rightarrow> EFI_STATUS + (u64 \<times> 'w boot_state)" where
  "load_kernel ops s =
     ebind (efi_open ops s) (\<lambda>s.
     ebind (efi_set_position ops 0 s) (\<lambda>s.
     ebind (efi_allocate_pool ops 64 s) (\<lambda>(file_header, s).
     ebind (efi_read ops 64 file_header s) (\<lambda>s.
     if \<not> valid_elf_ident (e_ident (read_ehdr (boot_mem s) file_header)) then Inl EFI_UNSUPPORTED
     else
       let len = sizeof_Elf64Phdr * ucast (e_phnum (read_ehdr (boot_mem s) file_header)) in
       ebind (efi_allocate_pool ops len s) (\<lambda>(program_headers, s).
       ebind (efi_set_position ops (e_phoff (read_ehdr (boot_mem s) file_header)) s) (\<lambda>s.
       ebind (efi_read ops len program_headers s) (\<lambda>s.
       let eh = read_ehdr (boot_mem s) file_header;
           n = unat (e_phnum eh);
           (low, high, loaded) = segment_bounds (read_headers (boot_mem s) program_headers n) (0xffffffffffffffff, 0, 0) in
       if loaded = 0 then Inl EFI_NOT_FOUND
       else
         ebind (efi_allocate_pages ops (EFI_SIZE_TO_PAGES (high - low)) s) (\<lambda>(kernel_base_addr, s).
         let entry_point = kernel_base_addr + (e_entry eh - low) in
         ebind (read_segments ops program_headers [0..<n] kernel_base_addr low s) (\<lambda>s.
         ebind (efi_free_pool ops program_headers s) (\<lambda>s.
         ebind (efi_free_pool ops file_header s) (\<lambda>s.
         ebind (efi_close ops s) (\<lambda>s. Inr (entry_point, s)))))))))))))"

section \<open>The ACPI root pointer\<close>

record EFI_CONFIGURATION_TABLE =
  VendorGuid :: "u8 list"
  VendorTable :: u64

text \<open>\<open>ACPI_20_TABLE_GUID\<close> in memory order.\<close>

definition acpi_guid :: "u8 list" where
  "acpi_guid = [0x71, 0xe8, 0x68, 0x88, 0xf1, 0xe4, 0xd3, 0x11, 0xbc, 0x22, 0x00, 0x80, 0xc7, 0x3c, 0x88, 0x81]"

text \<open>The index at which \<open>while (j < 16 && guid[j] == acpi_guid[j]) j++\<close> stops.\<close>

function guid_match :: "u8 list \<Rightarrow> nat \<Rightarrow> nat" where
  "guid_match guid j = (if j < 16 \<and> guid ! j = acpi_guid ! j then guid_match guid (j + 1) else j)"
  by pat_completeness auto

termination
  by (relation "measure (\<lambda>(_, j). 16 - j)") auto

fun find_rsdp :: "EFI_CONFIGURATION_TABLE list \<Rightarrow> EFI_STATUS + u64" where
  "find_rsdp [] = Inl EFI_NOT_FOUND"
| "find_rsdp (table # tables) =
     (if guid_match (VendorGuid table) 0 = 16 then Inr (VendorTable table) else find_rsdp tables)"

section \<open>The memory map\<close>

definition retype_descriptor :: "u64 \<Rightarrow> UEFIMemoryDescriptor \<Rightarrow> UEFIMemoryDescriptor" where
  "retype_descriptor kernel_entry desc =
     (if mtype desc = EfiLoaderCode \<and>
         \<not> (kernel_entry \<ge> physical_start desc \<and> kernel_entry < physical_start desc + num_pages desc * PAGE_SIZE)
      then desc\<lparr>mtype := EfiLoaderData\<rparr> else desc)"

definition retype_memory_map :: "u64 \<Rightarrow> UEFIMemoryMap \<Rightarrow> UEFIMemoryMap" where
  "retype_memory_map kernel_entry = map (retype_descriptor kernel_entry)"

end
