(* ===== verification/Boot_Main.thy ===== *)
theory Boot_Main
  imports Bootloader
begin

text \<open>
  \<open>efi_main\<close> of bootloader/src/main.c: the firmware is asked for the screen, the kernel file and
  the memory map, and the kernel is entered with what was found. The firmware's protocols are
  the operations of \<open>boot_services\<close>, with their out-parameters as results; an error status ends
  the boot loader with it. Reading through a pointer that no call has set is \<open>Uninitialized\<close>.
\<close>

section \<open>Results\<close>

datatype boot_error = Status EFI_STATUS | Uninitialized | Boot_diverges

definition status :: "EFI_STATUS + 'a \<Rightarrow> boot_error + 'a" where
  "status r = (case r of Inl e \<Rightarrow> Inl (Status e) | Inr x \<Rightarrow> Inr x)"

lemma status_simps [simp]:
  "status (Inl e) = Inl (Status e)"
  "status (Inr x) = Inr x"
  by (simp_all add: status_def)

definition EFI_ERROR :: "EFI_STATUS \<Rightarrow> bool" where
  "EFI_ERROR a \<longleftrightarrow> a <s 0"

definition EFI_NOT_STARTED :: EFI_STATUS where
  "EFI_NOT_STARTED = 0x8000000000000013"

definition EFI_BUFFER_TOO_SMALL :: EFI_STATUS where
  "EFI_BUFFER_TOO_SMALL = 0x8000000000000005"

section \<open>The firmware\<close>

text \<open>The fields of \<open>EFI_GRAPHICS_OUTPUT_MODE_INFORMATION\<close> that are read.\<close>

record graphics_mode =
  HorizontalResolution :: u32
  VerticalResolution :: u32
  PixelFormat :: u32
  PixelsPerScanLine :: u32

record boot_frame_buffer =
  boot_address :: u64
  boot_width :: u64
  boot_height :: u64
  boot_pixels_per_scanline :: u64
  boot_format :: u32

record boot_memory_map =
  map_nbytes :: u64
  map_buffer :: u64
  map_mapkey :: u64
  map_desc_size :: u64
  map_desc_version :: u32

record 'w boot_services =
  file_ops :: "'w efi_ops"
  efi_set_watchdog_timer :: "'w boot_state \<Rightarrow> EFI_STATUS + 'w boot_state"
  efi_locate_graphics :: "'w boot_state \<Rightarrow> EFI_STATUS + 'w boot_state"
  efi_query_mode :: "'w boot_state \<Rightarrow> EFI_STATUS + (graphics_mode \<times> 'w boot_state)"
  efi_set_mode :: "'w boot_state \<Rightarrow> EFI_STATUS + 'w boot_state"
  efi_frame_buffer_base :: "'w boot_state \<Rightarrow> u64"
  efi_locate_file_system :: "'w boot_state \<Rightarrow> EFI_STATUS + 'w boot_state"
  efi_open_volume :: "'w boot_state \<Rightarrow> EFI_STATUS + 'w boot_state"
  efi_close_root :: "'w boot_state \<Rightarrow> EFI_STATUS + 'w boot_state"
  efi_get_memory_map :: "boot_memory_map \<Rightarrow> 'w boot_state \<Rightarrow> EFI_STATUS \<times> boot_memory_map \<times> 'w boot_state"
  efi_exit_boot_services :: "u64 \<Rightarrow> 'w boot_state \<Rightarrow> EFI_STATUS + 'w boot_state"

section \<open>The screen\<close>

definition PixelRedGreenBlueReserved8BitPerColor :: u32 where
  "PixelRedGreenBlueReserved8BitPerColor = 0"

definition PixelBlueGreenRedReserved8BitPerColor :: u32 where
  "PixelBlueGreenRedReserved8BitPerColor = 1"

text \<open>When the mode has to be set first, \<open>info\<close> stays as it was: no call has set it.\<close>

definition mode_information :: "'w boot_services \<Rightarrow> 'w boot_state \<Rightarrow> boot_error + (graphics_mode \<times> 'w boot_state)" where
  "mode_information ops s =
     (case efi_query_mode ops s of
       Inl e \<Rightarrow>
         if e \<noteq> EFI_NOT_STARTED then Inl (Status e)
         else ebind (status (efi_set_mode ops s)) (\<lambda>s. Inl Uninitialized)
     | Inr r \<Rightarrow> Inr r)"

definition find_frame_buffer :: "'w boot_services \<Rightarrow> 'w boot_state \<Rightarrow> boot_error + (boot_frame_buffer \<times> 'w boot_state)" where
  "find_frame_buffer ops s =
     ebind (status (efi_locate_graphics ops s)) (\<lambda>s.
     ebind (mode_information ops s) (\<lambda>(info, s).
     if PixelFormat info \<noteq> PixelRedGreenBlueReserved8BitPerColor \<and> PixelFormat info \<noteq> PixelBlueGreenRedReserved8BitPerColor
     then Inl (Status EFI_UNSUPPORTED)
     else Inr (\<lparr>boot_address = efi_frame_buffer_base ops s, boot_width = ucast (HorizontalResolution info),
       boot_height = ucast (VerticalResolution info), boot_pixels_per_scanline = ucast (PixelsPerScanLine info),
       boot_format = PixelFormat info\<rparr>, s)))"

section \<open>The memory map\<close>

text \<open>A descriptor is retyped in place: its type is the 32 bits at its start.\<close>

definition retype_at :: "u64 \<Rightarrow> u64 \<Rightarrow> mem \<Rightarrow> mem" where
  "retype_at kernel_entry desc m =
     (let start = load64 m (desc + 8); pages = load64 m (desc + 24) in
      if load32 m desc = 1 \<and> \<not> (kernel_entry \<ge> start \<and> kernel_entry < start + pages * PAGE_SIZE)
      then store32 desc 2 m else m)"

fun retype_buffer :: "nat \<Rightarrow> u64 \<Rightarrow> boot_memory_map \<Rightarrow> u64 \<Rightarrow> mem \<Rightarrow> boot_error + mem" where
  "retype_buffer 0 kernel_entry mm i m = Inl Boot_diverges"
| "retype_buffer (Suc n) kernel_entry mm i m =
     (if i < map_nbytes mm then
        retype_buffer n kernel_entry mm (i + map_desc_size mm) (retype_at kernel_entry (map_buffer mm + i) m)
      else Inr m)"

text \<open>The size is asked for first; two descriptors are added for the allocation itself.\<close>

definition find_memory_map :: "'w boot_services \<Rightarrow> u64 \<Rightarrow> 'w boot_state \<Rightarrow> boot_error + (boot_memory_map \<times> 'w boot_state)" where
  "find_memory_map ops kernel_entry s =
     (let (st, mm, s) = efi_get_memory_map ops \<lparr>map_nbytes = 0, map_buffer = 0, map_mapkey = 0, map_desc_size = 0, map_desc_version = 0\<rparr> s in
      if EFI_ERROR st \<and> st \<noteq> EFI_BUFFER_TOO_SMALL then Inl (Status st)
      else
        let nbytes = map_nbytes mm + map_desc_size mm * 2 in
        ebind (status (efi_allocate_pool (file_ops ops) nbytes s)) (\<lambda>(buffer, s).
        let (st, mm, s) = efi_get_memory_map ops (mm\<lparr>map_nbytes := nbytes, map_buffer := buffer\<rparr>) s in
        if EFI_ERROR st then Inl (Status st)
        else
          ebind (retype_buffer (Suc loop_fuel) kernel_entry mm 0 (boot_mem s)) (\<lambda>m.
            Inr (mm, s\<lparr>boot_mem := m\<rparr>))))"

section \<open>The boot loader\<close>

text \<open>What the kernel is entered with, and where.\<close>

record handoff =
  arg_memory_map :: boot_memory_map
  arg_frame_buffer :: boot_frame_buffer
  arg_rsdp :: u64
  entered_at :: u64

definition efi_main ::
    "'w boot_services \<Rightarrow> EFI_CONFIGURATION_TABLE list \<Rightarrow> 'w boot_state \<Rightarrow> boot_error + (handoff \<times> 'w boot_state)" where
  "efi_main ops tables s =
     ebind (status (efi_set_watchdog_timer ops s)) (\<lambda>s.
     ebind (find_frame_buffer ops s) (\<lambda>(frame_buffer, s).
     ebind (status (efi_locate_file_system ops s)) (\<lambda>s.
     ebind (status (efi_open_volume ops s)) (\<lambda>s.
     ebind (status (load_kernel (file_ops ops) s)) (\<lambda>(kernel_entry, s).
     ebind (status (efi_close_root ops s)) (\<lambda>s.
     ebind (status (find_rsdp tables)) (\<lambda>rsdp_addr.
     ebind (find_memory_map ops kernel_entry s) (\<lambda>(memory_map, s).
     ebind (status (efi_exit_boot_services ops (map_mapkey memory_map) s)) (\<lambda>s.
       Inr (\<lparr>arg_memory_map = memory_map, arg_frame_buffer = frame_buffer, arg_rsdp = rsdp_addr,
         entered_at = kernel_entry\<rparr>, s))))))))))"

end
