(* ===== verification/Elf_Properties.thy ===== *)
theory Elf_Properties
  imports Elf_Loader
begin

text \<open>
  What loading a program means: every loadable segment of an image appears at its address, the
  bytes of the file first and zeros after them, and nothing else in memory changes.
\<close>

section \<open>Bytes in ranges\<close>

lemma span_sub: "k + n \<le> N \<Longrightarrow> span (a + of_nat k) n \<subseteq> span a N"
proof
  fix x assume kn: "k + n \<le> N" and "x \<in> span (a + of_nat k) n"
  then obtain i where "i < n" "x = a + of_nat (k + i)"
    by (auto simp: span_def add.assoc)
  moreover from this kn have "k + i < N"
    by simp
  ultimately show "x \<in> span a N"
    unfolding span_def by (intro image_eqI [of _ _ "k + i"]) simp_all
qed

lemma in_span_offset: "i < n \<Longrightarrow> a + of_nat i \<in> span a n"
  by (auto simp: span_def)

lemma read_phdr_cong:
  assumes "\<And>x. x \<in> span a 56 \<Longrightarrow> m x = m' x"
  shows "read_phdr m a = read_phdr m' a"
proof -
  have "load_le n m (a + of_nat k) = load_le n m' (a + of_nat k)" if "k + n \<le> 56" for k n
    using assms span_sub [OF that, of a] by (intro load_le_cong) auto
  from this [of 0 4] this [of 4 4] this [of 8 8] this [of 16 8] this [of 32 8] this [of 40 8] show ?thesis
    by (simp add: read_phdr_def load32_def load64_def)
qed

lemma read_ehdr_cong:
  assumes "\<And>x. x \<in> span a 64 \<Longrightarrow> m x = m' x"
  shows "read_ehdr m a = read_ehdr m' a"
proof -
  have "load_le n m (a + of_nat k) = load_le n m' (a + of_nat k)" if "k + n \<le> 64" for k n
    using assms span_sub [OF that, of a] by (intro load_le_cong) auto
  moreover have "bytes m a 16 = bytes m' a 16"
    using assms span_sub [of 0 16 64 a] by (auto simp: bytes_eq_iff intro!: assms in_span_offset)
  ultimately show ?thesis
    using \<open>\<And>n k. k + n \<le> 64 \<Longrightarrow> _\<close> [of 24 8] \<open>\<And>n k. k + n \<le> 64 \<Longrightarrow> _\<close> [of 32 8] \<open>\<And>n k. k + n \<le> 64 \<Longrightarrow> _\<close> [of 56 2]
    by (simp add: read_ehdr_def load16_def load64_def)
qed

lemma memcpy_apart:
  assumes "span dest (unat n) \<inter> span src (unat n) = {}"
  shows "memcpy dest src n m a = (if a \<in> span dest (unat n) then m (src + (a - dest)) else m a)"
proof -
  have "\<forall>k < unat n. \<forall>j < k. src + of_nat k \<noteq> dest + (of_nat j :: u64)"
  proof (intro allI impI notI)
    fix k j assume "k < unat n" "j < k" "src + of_nat k = dest + (of_nat j :: u64)"
    then have "src + of_nat k \<in> span dest (unat n) \<inter> span src (unat n)"
      using in_span_offset [of j "unat n" dest] in_span_offset [of k "unat n" src] by simp
    with assms show False
      by simp
  qed
  from copy_up [OF _ this, of m]
  have copy: "bytes (memcpy dest src n m) dest (unat n) = bytes m src (unat n)" "a \<notin> span dest (unat n) \<Longrightarrow> memcpy dest src n m a = m a"
    using unat_u64_lt [of n] by (auto simp: memcpy_def)
  show ?thesis
  proof (cases "a \<in> span dest (unat n)")
    case True
    then obtain i where "i < unat n" "a = dest + of_nat i"
      by (auto simp: span_def)
    with copy(1) show ?thesis
      using True by (simp add: bytes_eq_iff)
  qed (simp add: copy(2))
qed

section \<open>One segment\<close>

definition segment_size :: "Elf64Phdr \<Rightarrow> nat" where
  "segment_size h = unat (segment_pages h * PAGE_SIZE)"

definition segment_bytes :: "Elf64Phdr \<Rightarrow> u64 set" where
  "segment_bytes h = span (p_vaddr h) (segment_size h)"

text \<open>The byte of a loaded segment at an offset.\<close>

definition segment_image :: "mem \<Rightarrow> u64 \<Rightarrow> Elf64Phdr \<Rightarrow> nat \<Rightarrow> u8" where
  "segment_image m data h i = (if i < unat (p_filesz h) then m (data + p_offset h + of_nat i) else 0)"

text \<open>What the loader needs of the headers of an image of \<open>len\<close> bytes.\<close>

definition segment_ok :: "u64 \<Rightarrow> nat \<Rightarrow> Elf64Phdr \<Rightarrow> bool" where
  "segment_ok data len h \<longleftrightarrow> p_vaddr h mod PAGE_SIZE = 0 \<and> p_filesz h \<le> p_memsz h \<and> unat (p_memsz h) + 4095 < 2 ^ 64 \<and>
     span (data + p_offset h) (unat (p_filesz h)) \<subseteq> span data len \<and> segment_bytes h \<inter> span data len = {}"

text \<open>
  The services do what they promise for a segment: frames are found, mapped at the segment's
  address (which changes no memory elsewhere), and the flags of the range can be set.
\<close>

definition provides :: "'k elf_ops \<Rightarrow> u64 \<Rightarrow> Elf64Phdr \<Rightarrow> bool" where
  "provides ops sp h \<longleftrightarrow>
     (\<forall>s. \<exists>a s1 s2 s3. elf_alloc_frames ops (segment_pages h) s = Inr (a, s1) \<and> a \<noteq> 0 \<and> elf_mem s1 = elf_mem s \<and>
        elf_map_allocation_to_range ops sp a (p_vaddr h) PAGING_WRITABLE s1 = Inr (True, s2) \<and>
        (\<forall>x. x \<notin> segment_bytes h \<longrightarrow> elf_mem s2 x = elf_mem s x) \<and>
        elf_free_entries ops a s2 = Inr s3 \<and> elf_mem s3 = elf_mem s2) \<and>
     (\<forall>s. \<exists>s'. elf_range_set_flags ops sp (p_vaddr h) (segment_pages h) (segment_flags h) s = Inr (True, s') \<and> elf_mem s' = elf_mem s)"

lemma segment_size_covers:
  assumes "segment_ok data len h"
  shows "unat (p_memsz h) \<le> segment_size h"
proof -
  have "unat (p_memsz h + 4095) = unat (p_memsz h) + 4095"
    using assms by (subst unat_add_u64) (simp_all add: segment_ok_def)
  then have pages: "unat (segment_pages h) = (unat (p_memsz h) + 4095) div 4096"
    by (simp add: segment_pages_def PAGE_SIZE_def unat_div add_diff_eq [symmetric])
  have bound: "(unat (p_memsz h) + 4095) div 4096 * 4096 \<le> unat (p_memsz h) + 4095"
    by (rule div_times_less_eq_dividend)
  moreover have "(unat (p_memsz h) + 4095) div 4096 < 2 ^ 52"
    using assms by (intro less_mult_imp_div_less) (simp add: segment_ok_def)
  ultimately have "segment_size h = (unat (p_memsz h) + 4095) div 4096 * 4096"
    using assms unfolding segment_size_def PAGE_SIZE_def by (subst unat_mult_lem [THEN iffD1]) (simp_all add: pages segment_ok_def)
  then show ?thesis
    by simp
qed

lemma fill_segment_bytes:
  assumes "segment_ok data len h"
  shows "x \<notin> segment_bytes h \<Longrightarrow> fill_segment data h m x = m x"
    and "i < segment_size h \<Longrightarrow> fill_segment data h m (p_vaddr h + of_nat i) = segment_image m data h i"
proof -
  let ?m = "memset (p_vaddr h) 0 (segment_pages h * PAGE_SIZE) m"
  have size: "segment_size h \<le> 2 ^ 64" "unat (p_filesz h) \<le> segment_size h"
    using segment_size_covers [OF assms] assms less_imp_le [OF unat_u64_lt] by (auto simp: segment_size_def segment_ok_def word_le_nat_alt)
  have sub: "span (p_vaddr h) (unat (p_filesz h)) \<subseteq> segment_bytes h"
    using span_sub [of 0 "unat (p_filesz h)" "segment_size h" "p_vaddr h"] size(2) by (simp add: segment_bytes_def)
  have apart: "span (p_vaddr h) (unat (p_filesz h)) \<inter> span (data + p_offset h) (unat (p_filesz h)) = {}"
    using sub assms unfolding segment_ok_def by blast
  have set: "?m a = (if a \<in> segment_bytes h then 0 else m a)" for a
    using size(1) by (simp add: memset_sets segment_bytes_def segment_size_def in_span_iff)
  have fill: "fill_segment data h m a = (if a \<in> span (p_vaddr h) (unat (p_filesz h)) then ?m (data + p_offset h + (a - p_vaddr h)) else ?m a)" for a
    unfolding fill_segment_def by (rule memcpy_apart [OF apart])
  show "x \<notin> segment_bytes h \<Longrightarrow> fill_segment data h m x = m x"
    using sub by (auto simp: fill set)
  show "fill_segment data h m (p_vaddr h + of_nat i) = segment_image m data h i" if i: "i < segment_size h"
  proof (cases "i < unat (p_filesz h)")
    case True
    have "data + p_offset h + of_nat i \<in> span data len"
      using in_span_offset [OF True, of "data + p_offset h"] assms by (auto simp: segment_ok_def)
    then have "data + p_offset h + of_nat i \<notin> segment_bytes h"
      using assms by (auto simp: segment_ok_def)
    then show ?thesis
      using True in_span_offset [OF True, of "p_vaddr h"] by (simp add: fill set segment_image_def)
  next
    case False
    have "p_vaddr h + of_nat i \<notin> span (p_vaddr h) (unat (p_filesz h))"
      using False i size by (simp add: in_span_iff)
    then show ?thesis
      using False in_span_offset [OF i, of "p_vaddr h"] by (simp add: fill set segment_image_def segment_bytes_def)
  qed
qed

lemma load_segment_fills:
  assumes "segment_ok data len h" "provides ops sp h"
  shows "\<exists>s'. load_segment ops sp data h s = Inr (True, s') \<and>
    (\<forall>x. x \<notin> segment_bytes h \<longrightarrow> elf_mem s' x = elf_mem s x) \<and>
    (\<forall>i < segment_size h. elf_mem s' (p_vaddr h + of_nat i) = segment_image (elf_mem s) data h i)"
proof -
  obtain a s1 s2 s3 where run: "elf_alloc_frames ops (segment_pages h) s = Inr (a, s1)" "a \<noteq> 0"
    "elf_map_allocation_to_range ops sp a (p_vaddr h) PAGING_WRITABLE s1 = Inr (True, s2)"
    "elf_free_entries ops a s2 = Inr s3" "elf_mem s3 = elf_mem s2"
    and kept: "\<forall>x. x \<notin> segment_bytes h \<longrightarrow> elf_mem s2 x = elf_mem s x"
    using assms(2) unfolding provides_def by blast
  let ?m = "fill_segment data h (elf_mem s2)"
  obtain s' where flags: "elf_range_set_flags ops sp (p_vaddr h) (segment_pages h) (segment_flags h) (s3\<lparr>elf_mem := ?m\<rparr>) = Inr (True, s')"
    "elf_mem s' = ?m"
    using assms(2) unfolding provides_def by (metis elf_state.select_convs(1) elf_state.surjective elf_state.update_convs(1))
  have "segment_image (elf_mem s2) data h i = segment_image (elf_mem s) data h i" for i
  proof -
    have "data + p_offset h + of_nat i \<notin> segment_bytes h" if "i < unat (p_filesz h)"
      using in_span_offset [OF that, of "data + p_offset h"] assms(1) by (auto simp: segment_ok_def)
    with kept show ?thesis
      by (simp add: segment_image_def)
  qed
  moreover have "load_segment ops sp data h s = Inr (True, s')"
    using assms(1) run flags by (simp add: load_segment_def segment_ok_def Let_def)
  ultimately show ?thesis
    using flags(2) kept fill_segment_bytes [OF assms(1)] by auto
qed


section \<open>All segments\<close>

definition phdr :: "mem \<Rightarrow> u64 \<Rightarrow> nat \<Rightarrow> Elf64Phdr" where
  "phdr m data p = read_phdr m (data + e_phoff (read_ehdr m data) + of_nat p * sizeof_Elf64Phdr)"

text \<open>The headers of the loadable segments.\<close>

definition loadable :: "mem \<Rightarrow> u64 \<Rightarrow> nat \<Rightarrow> bool" where
  "loadable m data p \<longleftrightarrow> p < unat (e_phnum (read_ehdr m data)) \<and> p_type (phdr m data p) = PT_LOAD"

text \<open>
  An image of \<open>len\<close> bytes: it holds its headers and the contents of its segments, and the
  segments lie apart from it and from each other.
\<close>

definition elf_image :: "mem \<Rightarrow> u64 \<Rightarrow> nat \<Rightarrow> bool" where
  "elf_image m data len \<longleftrightarrow> valid_elf_ident (e_ident (read_ehdr m data)) \<and> 64 \<le> len \<and>
     span (data + e_phoff (read_ehdr m data)) (56 * unat (e_phnum (read_ehdr m data))) \<subseteq> span data len \<and>
     (\<forall>p. loadable m data p \<longrightarrow> segment_ok data len (phdr m data p)) \<and>
     (\<forall>p q. loadable m data p \<and> loadable m data q \<and> p \<noteq> q \<longrightarrow> segment_bytes (phdr m data p) \<inter> segment_bytes (phdr m data q) = {})"

lemma phdr_read:
  assumes "elf_image m data len" "\<forall>x \<in> span data len. m' x = m x" "p < unat (e_phnum (read_ehdr m data))"
  shows "read_phdr m' (data + e_phoff (read_ehdr m data) + of_nat p * sizeof_Elf64Phdr) = phdr m data p"
proof -
  let ?n = "unat (e_phnum (read_ehdr m data))" and ?t = "data + e_phoff (read_ehdr m data)"
  have "56 * p + 56 \<le> 56 * ?n"
    using assms(3) by simp
  then have "span (?t + of_nat (56 * p)) 56 \<subseteq> span ?t (56 * ?n)"
    by (rule span_sub)
  also have "\<dots> \<subseteq> span data len"
    using assms(1) by (simp add: elf_image_def)
  finally have "\<forall>x \<in> span (?t + of_nat p * sizeof_Elf64Phdr) 56. m' x = m x"
    using assms(2) by (auto simp: sizeof_Elf64Phdr_def mult.commute)
  then show ?thesis
    unfolding phdr_def by (intro read_phdr_cong) simp
qed

lemma load_segments_fill:
  assumes image: "elf_image m data len" and ops: "\<forall>p. loadable m data p \<longrightarrow> provides ops sp (phdr m data p)"
    and "set ps \<subseteq> {..<unat (e_phnum (read_ehdr m data))}" "distinct ps" "\<forall>x \<in> span data len. elf_mem s x = m x"
  shows "\<exists>s'. load_segments ops sp data (data + e_phoff (read_ehdr m data)) ps s = Inr (True, s') \<and>
    (\<forall>x. (\<forall>p \<in> set ps. loadable m data p \<longrightarrow> x \<notin> segment_bytes (phdr m data p)) \<longrightarrow> elf_mem s' x = elf_mem s x) \<and>
    (\<forall>p \<in> set ps. loadable m data p \<longrightarrow>
      (\<forall>i < segment_size (phdr m data p). elf_mem s' (p_vaddr (phdr m data p) + of_nat i) = segment_image m data (phdr m data p) i))"
  using assms(3-)
proof (induction ps arbitrary: s)
  case (Cons p ps)
  let ?h = "phdr m data p"
  have p: "p < unat (e_phnum (read_ehdr m data))" "p \<notin> set ps" "distinct ps" "set ps \<subseteq> {..<unat (e_phnum (read_ehdr m data))}"
    using Cons.prems by simp_all
  note head = phdr_read [OF image Cons.prems(3) p(1)]
  show ?case
  proof (cases "p_type ?h = PT_LOAD")
    case False
    then have "\<not> loadable m data p"
      by (simp add: loadable_def)
    with Cons.IH [OF p(4,3) Cons.prems(3)] False head show ?thesis
      by simp
  next
    case True
    then have load: "loadable m data p"
      using p(1) by (simp add: loadable_def)
    then have ok: "segment_ok data len ?h" "provides ops sp ?h"
      using image ops by (auto simp: elf_image_def)
    obtain s1 where s1: "load_segment ops sp data ?h s = Inr (True, s1)" "\<forall>x. x \<notin> segment_bytes ?h \<longrightarrow> elf_mem s1 x = elf_mem s x"
      "\<forall>i < segment_size ?h. elf_mem s1 (p_vaddr ?h + of_nat i) = segment_image (elf_mem s) data ?h i"
      using load_segment_fills [OF ok] by blast
    have "\<forall>x \<in> span data len. elf_mem s1 x = m x"
      using s1(2) Cons.prems(3) ok(1) by (auto simp: segment_ok_def)
    from Cons.IH [OF p(4,3) this] obtain s' where s': "load_segments ops sp data (data + e_phoff (read_ehdr m data)) ps s1 = Inr (True, s')"
      "\<And>x. (\<forall>p \<in> set ps. loadable m data p \<longrightarrow> x \<notin> segment_bytes (phdr m data p)) \<Longrightarrow> elf_mem s' x = elf_mem s1 x"
      "\<And>p i. p \<in> set ps \<Longrightarrow> loadable m data p \<Longrightarrow> i < segment_size (phdr m data p) \<Longrightarrow>
         elf_mem s' (p_vaddr (phdr m data p) + of_nat i) = segment_image m data (phdr m data p) i"
      by blast
    have image_s: "segment_image (elf_mem s) data ?h i = segment_image m data ?h i" for i
    proof -
      have "data + p_offset ?h + of_nat i \<in> span data len" if "i < unat (p_filesz ?h)"
        using in_span_offset [OF that, of "data + p_offset ?h"] ok(1) by (auto simp: segment_ok_def)
      with Cons.prems(3) show ?thesis
        by (simp add: segment_image_def)
    qed
    have here: "elf_mem s' (p_vaddr ?h + of_nat i) = segment_image m data ?h i" if i: "i < segment_size ?h" for i
    proof -
      have in_h: "p_vaddr ?h + of_nat i \<in> segment_bytes ?h"
        using i unfolding segment_bytes_def by (rule in_span_offset)
      have "p_vaddr ?h + of_nat i \<notin> segment_bytes (phdr m data q)" if "q \<in> set ps" "loadable m data q" for q
      proof -
        have "segment_bytes ?h \<inter> segment_bytes (phdr m data q) = {}"
          using image load that p(2) unfolding elf_image_def by metis
        with in_h show ?thesis
          by blast
      qed
      then show ?thesis
        using s'(2) s1(3) i image_s by simp
    qed
    have run: "load_segments ops sp data (data + e_phoff (read_ehdr m data)) (p # ps) s = Inr (True, s')"
      using s1(1) s'(1) True head by (simp add: Let_def)
    moreover have "elf_mem s' x = elf_mem s x" if "\<forall>q \<in> set (p # ps). loadable m data q \<longrightarrow> x \<notin> segment_bytes (phdr m data q)" for x
      using that s'(2) s1(2) load by simp
    ultimately show ?thesis
      using here s'(3) by (intro exI [of _ s']) simp
  qed
qed simp

text \<open>
  C14. Suppose a valid image holds its headers and the contents of its segments, its loadable
  segments are page-aligned, no larger in the file than in memory, and apart from the image and
  from each other, and frames, mappings and flags are to be had for them. Then loading returns the
  entry point; each segment shows the bytes of the file at its address and zeros up to the end of
  its last page; and no other byte of memory has changed.
\<close>

theorem load_elf_from_buff_loads:
  assumes "elf_image (elf_mem s) data len" "\<forall>p. loadable (elf_mem s) data p \<longrightarrow> provides ops sp (phdr (elf_mem s) data p)"
  shows "\<exists>s'. load_elf_from_buff ops sp data s = Inr (Some (e_entry (read_ehdr (elf_mem s) data)), s') \<and>
    (\<forall>p. loadable (elf_mem s) data p \<longrightarrow> (let h = phdr (elf_mem s) data p in unat (p_memsz h) \<le> segment_size h \<and>
      (\<forall>i < segment_size h. elf_mem s' (p_vaddr h + of_nat i) = segment_image (elf_mem s) data h i))) \<and>
    (\<forall>x. (\<forall>p. loadable (elf_mem s) data p \<longrightarrow> x \<notin> segment_bytes (phdr (elf_mem s) data p)) \<longrightarrow> elf_mem s' x = elf_mem s x)"
proof -
  let ?m = "elf_mem s" and ?ps = "[0..<unat (e_phnum (read_ehdr (elf_mem s) data))]"
  have indices: "set ?ps \<subseteq> {..<unat (e_phnum (read_ehdr ?m data))}" "distinct ?ps" "\<forall>x \<in> span data len. ?m x = ?m x"
    by auto
  obtain s' where s': "load_segments ops sp data (data + e_phoff (read_ehdr ?m data)) ?ps s = Inr (True, s')"
    and other: "\<And>x. (\<forall>p \<in> set ?ps. loadable ?m data p \<longrightarrow> x \<notin> segment_bytes (phdr ?m data p)) \<Longrightarrow> elf_mem s' x = ?m x"
    and at: "\<And>p i. p \<in> set ?ps \<Longrightarrow> loadable ?m data p \<Longrightarrow> i < segment_size (phdr ?m data p) \<Longrightarrow>
       elf_mem s' (p_vaddr (phdr ?m data p) + of_nat i) = segment_image ?m data (phdr ?m data p) i"
    using load_segments_fill [OF assms indices] by blast
  have set: "p \<in> set ?ps" if "loadable ?m data p" for p
    using that by (simp add: loadable_def)
  have ok: "segment_ok data len (phdr ?m data p)" if "loadable ?m data p" for p
    using assms(1) that by (simp add: elf_image_def)
  have "elf_mem s' x = ?m x" if "x \<in> span data len" for x
    using ok that by (intro other) (auto simp: segment_ok_def)
  then have "read_ehdr (elf_mem s') data = read_ehdr ?m data"
    using assms(1) span_sub [of 0 64 len data] by (intro read_ehdr_cong) (auto simp: elf_image_def)
  then have "load_elf_from_buff ops sp data s = Inr (Some (e_entry (read_ehdr ?m data)), s')"
    using assms(1) s' by (simp add: load_elf_from_buff_def elf_image_def Let_def)
  moreover have "unat (p_memsz (phdr ?m data p)) \<le> segment_size (phdr ?m data p)" if "loadable ?m data p" for p
    using segment_size_covers [OF ok [OF that]] .
  ultimately show ?thesis
    using at set other by (intro exI [of _ s']) (simp add: Let_def)
qed


text \<open>An image of one segment of 4 bytes in the file and 8 in memory.\<close>

definition example_image :: "u8 list" where
  "example_image = [0x7f, 69, 76, 70, 2, 1] @ replicate 18 0 @ [0x34, 0x12] @ replicate 6 0 @ [64] @ replicate 23 0 @ [1] @ replicate 7 0 @
     [1, 0, 0, 0, 5, 0, 0, 0, 120, 0, 0, 0, 0, 0, 0, 0, 0, 0, 64] @ replicate 13 0 @ [4] @ replicate 7 0 @ [8] @ replicate 15 0 @ [10, 11, 12, 13]"

definition example_memory :: mem where
  "example_memory a = (if unat (a - 0x1000) < 124 then example_image ! unat (a - 0x1000) else 0xff)"

definition example_services :: "unit elf_ops" where
  "example_services = \<lparr>elf_alloc_frames = (\<lambda>_ s. Inr (1, s)), elf_map_allocation_to_range = (\<lambda>_ _ _ _ s. Inr (True, s)),
     elf_free_entries = (\<lambda>_ s. Inr s), elf_range_set_flags = (\<lambda>_ _ _ _ s. Inr (True, s))\<rparr>"

lemma example_ehdr: "read_ehdr example_memory 0x1000 =
    \<lparr>e_ident = [0x7f, 69, 76, 70, 2, 1] @ replicate 10 0, e_entry = 0x1234, e_phoff = 64, e_phnum = 1\<rparr>"
  by code_simp

lemma example_phdr: "read_phdr example_memory 0x1040 =
    \<lparr>p_type = 1, p_flags = 5, p_offset = 120, p_vaddr = 0x400000, p_filesz = 4, p_memsz = 8\<rparr>"
  by code_simp


lemma example_loadable: "loadable example_memory 0x1000 p \<longleftrightarrow> p = 0" "phdr example_memory 0x1000 0 =
    \<lparr>p_type = 1, p_flags = 5, p_offset = 120, p_vaddr = 0x400000, p_filesz = 4, p_memsz = 8\<rparr>"
  using example_phdr by (auto simp: loadable_def phdr_def example_ehdr PT_LOAD_def)

lemma example_size: "segment_size (phdr example_memory 0x1000 0) = 4096"
  by (simp add: segment_size_def segment_pages_def example_loadable(2) PAGE_SIZE_def)

lemma example_elf_image: "elf_image example_memory 0x1000 124"
proof -
  have "segment_bytes (phdr example_memory 0x1000 0) \<inter> span 0x1000 124 = {}"
    unfolding segment_bytes_def example_size unfolding example_loadable(2) by (intro span_disjoint) simp_all
  moreover have "span 0x1078 4 \<subseteq> span 0x1000 124" "span 0x1040 56 \<subseteq> span 0x1000 124"
    using span_sub [of 120 4 124 "0x1000"] span_sub [of 64 56 124 "0x1000"] by simp_all
  ultimately have "segment_ok 0x1000 124 (phdr example_memory 0x1000 0)"
    unfolding segment_ok_def by (simp add: example_loadable(2) PAGE_SIZE_def)
  moreover have "valid_elf_ident ([0x7f, 69, 76, 70, 2, 1] @ replicate 10 0)"
    by code_simp
  ultimately show ?thesis
    using \<open>span 0x1040 56 \<subseteq> span 0x1000 124\<close> by (simp add: elf_image_def example_ehdr example_loadable)
qed

theorem load_elf_from_buff_loads_witness:
  "\<exists>s'. load_elf_from_buff example_services 0 0x1000 \<lparr>elf_mem = example_memory, elf_kernel = ()\<rparr> = Inr (Some 0x1234, s') \<and>
     elf_mem s' 0x400002 = 12 \<and> elf_mem s' 0x400004 = 0 \<and> elf_mem s' 0x401000 = 0xff"
proof -
  let ?s = "\<lparr>elf_mem = example_memory, elf_kernel = ()\<rparr>"
  have image: "elf_image (elf_mem ?s) 0x1000 124"
    by (simp add: example_elf_image)
  have ops: "\<forall>p. loadable (elf_mem ?s) 0x1000 p \<longrightarrow> provides example_services 0 (phdr (elf_mem ?s) 0x1000 p)"
    by (simp add: provides_def example_services_def)
  let ?h = "phdr example_memory 0x1000 0"
  obtain s' where run: "load_elf_from_buff example_services 0 0x1000 ?s = Inr (Some (e_entry (read_ehdr example_memory 0x1000)), s')"
    and segments: "\<forall>p. loadable example_memory 0x1000 p \<longrightarrow> (let h = phdr example_memory 0x1000 p in unat (p_memsz h) \<le> segment_size h \<and>
      (\<forall>i < segment_size h. elf_mem s' (p_vaddr h + of_nat i) = segment_image example_memory 0x1000 h i))"
    and others: "\<forall>x. (\<forall>p. loadable example_memory 0x1000 p \<longrightarrow> x \<notin> segment_bytes (phdr example_memory 0x1000 p)) \<longrightarrow> elf_mem s' x = example_memory x"
    using load_elf_from_buff_loads [OF image ops] unfolding elf_state.select_convs by blast
  have load: "loadable example_memory 0x1000 0"
    by (simp add: example_loadable)
  have at: "elf_mem s' (p_vaddr ?h + of_nat i) = segment_image example_memory 0x1000 ?h i" if "i < 4096" for i
    using segments [rule_format, OF load] that unfolding Let_def example_size by blast
  have other: "elf_mem s' x = example_memory x" if "x \<notin> segment_bytes ?h" for x
    using others that by (simp only: example_loadable(1)) simp
  have "example_memory 0x107a = 12" "example_memory 0x401000 = 0xff"
    by (simp_all add: example_memory_def example_image_def nth_append nth_Cons')
  moreover have "0x401000 \<notin> segment_bytes (phdr example_memory 0x1000 0)"
    unfolding segment_bytes_def example_size unfolding example_loadable(2) by (simp add: in_span_iff)
  ultimately show ?thesis
    using run at [of 2] at [of 4] other [of "0x401000"] by (simp add: segment_image_def example_loadable(2) example_ehdr)
qed

text \<open>
  A segment larger in the file than in memory: the copy goes on past the pages cleared for it.
\<close>

lemma fill_segment_overrun:
  fixes h data m
  defines "h \<equiv> \<lparr>p_type = PT_LOAD, p_flags = 0, p_offset = 0, p_vaddr = 0x400000, p_filesz = 0x1001, p_memsz = 0x1000\<rparr>"
  assumes "span 0x400000 0x1001 \<inter> span data 0x1001 = {}"
  shows "0x401000 \<notin> segment_bytes h" "fill_segment data h m 0x401000 = m (data + 0x1000)"
proof -
  have size: "segment_size h = 4096"
    by (simp add: h_def segment_size_def segment_pages_def PAGE_SIZE_def)
  show "0x401000 \<notin> segment_bytes h"
    unfolding segment_bytes_def size by (simp add: h_def in_span_iff)
  have "span (p_vaddr h) (unat (p_filesz h)) \<inter> span (data + p_offset h) (unat (p_filesz h)) = {}"
    using assms(2) by (simp add: h_def)
  moreover have "data + 0x1000 \<notin> segment_bytes h"
  proof
    assume "data + 0x1000 \<in> segment_bytes h"
    then have "data + 0x1000 \<in> span 0x400000 0x1001"
      using span_sub [of 0 4096 4097 "0x400000"] size by (auto simp: segment_bytes_def h_def)
    moreover have "data + of_nat 0x1000 \<in> span data 0x1001"
      by (rule in_span_offset) simp
    ultimately show False
      using assms(2) by auto
  qed
  moreover have "0x401000 \<in> span (p_vaddr h) (unat (p_filesz h))"
    by (simp add: h_def in_span_iff)
  ultimately show "fill_segment data h m 0x401000 = m (data + 0x1000)"
    unfolding fill_segment_def using size
    by (simp add: memcpy_apart memset_sets segment_bytes_def segment_size_def in_span_iff) (simp add: h_def)
qed

end
