(* ===== verification/Boot_Properties.thy ===== *)
theory Boot_Properties
  imports Boot_Main Elf_Properties
begin

text \<open>
  What the boot loader hands to the kernel: the retyping of the memory map in the firmware's
  buffer, and the arguments of the kernel's entry.
\<close>

section \<open>Ranges of a buffer\<close>

lemma span_offsets:
  assumes "p + a \<le> q" "q + b \<le> 2 ^ 64"
  shows "span (x + of_nat p) a \<inter> span (x + of_nat q) b = {}"
proof (rule ccontr)
  assume "span (x + of_nat p) a \<inter> span (x + of_nat q) b \<noteq> {}"
  then obtain i j where ij: "i < a" "j < b" "x + of_nat p + of_nat i = x + of_nat q + (of_nat j :: u64)"
    by (auto simp: span_def)
  then have "(of_nat (p + i) :: u64) = of_nat (q + j)"
    by (simp add: add.assoc)
  moreover have "p + i < 2 ^ 64" "q + j < 2 ^ 64"
    using ij(1,2) assms by linarith+
  ultimately have "p + i = q + j"
    by (simp only: of_nat_u64_eq_iff)
  then show False
    using ij(1,2) assms(1) by linarith
qed

section \<open>Descriptors\<close>

definition uefi_types :: "UEFIMemoryType list" where
  "uefi_types = [EfiReservedMemoryType, EfiLoaderCode, EfiLoaderData, EfiBootServicesCode, EfiBootServicesData,
     EfiRuntimeServicesCode, EfiRuntimeServicesData, EfiConventionalMemory, EfiUnusableMemory, EfiACPIReclaimMemory, EfiACPIMemoryNVS,
     EfiMemoryMappedIO, EfiMemoryMappedIOPortSpace, EfiPalCode]"

definition type_of_code :: "u32 \<Rightarrow> UEFIMemoryType" where
  "type_of_code c = (if unat c < 14 then uefi_types ! unat c else EfiMaxMemoryType)"

definition read_descriptor :: "mem \<Rightarrow> u64 \<Rightarrow> UEFIMemoryDescriptor" where
  "read_descriptor m a = \<lparr>mtype = type_of_code (load32 m a), physical_start = load64 m (a + 8), virtual_start = load64 m (a + 16),
     num_pages = load64 m (a + 24), attribute = load64 m (a + 32)\<rparr>"

lemma read_descriptor_cong:
  assumes "\<And>x. x \<in> span a 40 \<Longrightarrow> m x = m' x"
  shows "read_descriptor m a = read_descriptor m' a"
proof -
  have "load64 m (a + of_nat k) = load64 m' (a + of_nat k)" if "k + 8 \<le> 40" for k
    unfolding load64_def using assms span_sub [OF that, of a] by (intro load_le_cong) auto
  from this [of 8] this [of 16] this [of 24] this [of 32]
  have "load64 m (a + 8) = load64 m' (a + 8)" "load64 m (a + 16) = load64 m' (a + 16)"
    "load64 m (a + 24) = load64 m' (a + 24)" "load64 m (a + 32) = load64 m' (a + 32)"
    by simp_all
  moreover have "load32 m a = load32 m' a"
    unfolding load32_def using assms span_sub [of 0 4 40 a] by (intro load_le_cong) auto
  ultimately show ?thesis
    by (simp add: read_descriptor_def)
qed

lemma type_of_code_loader: "type_of_code c = EfiLoaderCode \<longleftrightarrow> c = 1" "type_of_code 2 = EfiLoaderData"
proof -
  have "\<forall>i \<in> set [0..<14]. uefi_types ! i = EfiLoaderCode \<longleftrightarrow> i = 1"
    by code_simp
  then have "type_of_code c = EfiLoaderCode \<longleftrightarrow> unat c = 1"
    by (auto simp: type_of_code_def)
  then show "type_of_code c = EfiLoaderCode \<longleftrightarrow> c = 1"
    by (simp add: word_unat_eq_iff)
  show "type_of_code 2 = EfiLoaderData"
    by (simp add: type_of_code_def uefi_types_def)
qed

lemma retype_at_other: "x \<notin> span a 4 \<Longrightarrow> retype_at entry a m x = m x"
  by (simp add: retype_at_def Let_def store32_def store_le_other)

lemma retype_at_same: "read_descriptor (retype_at entry a m) a = retype_descriptor entry (read_descriptor m a)"
proof -
  have "load64 (store32 a 2 m) (a + of_nat k) = load64 m (a + of_nat k)" if "4 \<le> k" "k \<le> 32" for k
    using span_offsets [of 0 4 k 8 a] that unfolding load64_def store32_def by (intro load_store_le_other) simp
  from this [of 8] this [of 16] this [of 24] this [of 32]
  have "load64 (store32 a 2 m) (a + 8) = load64 m (a + 8)" "load64 (store32 a 2 m) (a + 16) = load64 m (a + 16)"
    "load64 (store32 a 2 m) (a + 24) = load64 m (a + 24)" "load64 (store32 a 2 m) (a + 32) = load64 m (a + 32)"
    by simp_all
  moreover have "load32 (store32 a 2 m) a = 2"
    by (simp add: load32_def store32_def load_store_le take_bit_word_eq_self)
  ultimately show ?thesis
    by (auto simp: retype_at_def retype_descriptor_def read_descriptor_def type_of_code_loader Let_def)
qed

section \<open>The loop\<close>

definition map_entry_at :: "boot_memory_map \<Rightarrow> nat \<Rightarrow> u64" where
  "map_entry_at mm j = map_buffer mm + of_nat (j * unat (map_desc_size mm))"

definition read_map :: "mem \<Rightarrow> boot_memory_map \<Rightarrow> nat \<Rightarrow> UEFIMemoryMap" where
  "read_map m mm n = map (\<lambda>j. read_descriptor m (map_entry_at mm j)) [0..<n]"

text \<open>A map of \<open>n\<close> whole descriptors of the size the firmware names.\<close>

definition whole_map :: "boot_memory_map \<Rightarrow> nat \<Rightarrow> bool" where
  "whole_map mm n \<longleftrightarrow> unat (map_nbytes mm) = n * unat (map_desc_size mm) \<and> 40 \<le> unat (map_desc_size mm)"

lemma whole_map_bound: "whole_map mm n \<Longrightarrow> n * unat (map_desc_size mm) < 2 ^ 64 \<and> n \<le> loop_fuel"
proof -
  assume whole: "whole_map mm n"
  then have "n * unat (map_desc_size mm) < 2 ^ 64"
    using unat_u64_lt [of "map_nbytes mm"] by (simp add: whole_map_def)
  moreover have "n * 1 \<le> n * unat (map_desc_size mm)"
    using whole by (intro mult_le_mono2) (simp add: whole_map_def)
  ultimately show ?thesis
    unfolding loop_fuel_def by linarith
qed

lemma retype_buffer_fold:
  assumes "whole_map mm n" "j + k = n" "k < fuel"
  shows "retype_buffer fuel entry mm (of_nat (j * unat (map_desc_size mm))) m = Inr (fold (\<lambda>j. retype_at entry (map_entry_at mm j)) [j..<n] m)"
  using assms(2,3)
proof (induction k arbitrary: j fuel m)
  case 0
  then have "\<not> of_nat (j * unat (map_desc_size mm)) < map_nbytes mm"
    using assms(1) whole_map_bound [OF assms(1)] by (simp add: word_less_nat_alt whole_map_def unat_of_nat_u64 del: of_nat_mult)
  with 0 show ?case
    by (cases fuel) simp_all
next
  case (Suc k)
  let ?d = "unat (map_desc_size mm)"
  have d: "0 < ?d" "j < n"
    using assms(1) Suc.prems by (simp_all add: whole_map_def)
  then have lt: "j * ?d < n * ?d"
    by simp
  have "unat (of_nat (j * ?d) :: u64) = j * ?d"
    using lt whole_map_bound [OF assms(1)] by (intro unat_of_nat_u64) linarith
  with lt have "of_nat (j * ?d) < map_nbytes mm"
    using assms(1) by (simp only: word_less_nat_alt whole_map_def)
  moreover have "of_nat (j * ?d) + map_desc_size mm = of_nat (Suc j * ?d)"
    by (simp add: algebra_simps)
  moreover obtain f where "fuel = Suc f" "k < f"
    using Suc.prems(2) by (cases fuel) auto
  moreover from this have "retype_buffer f entry mm (of_nat (Suc j * ?d)) m' = Inr (fold (\<lambda>j. retype_at entry (map_entry_at mm j)) [Suc j..<n] m')" for m'
    using Suc.prems(1) by (intro Suc.IH) simp_all
  ultimately show ?case
    by (simp only: retype_buffer.simps if_True upt_conv_Cons [OF d(2)] fold_simps) (simp only: map_entry_at_def)
qed

lemma entries_apart:
  assumes "whole_map mm n" "i < n" "j < n" "i \<noteq> j"
  shows "span (map_entry_at mm i) 4 \<inter> span (map_entry_at mm j) 40 = {}"
proof -
  let ?d = "unat (map_desc_size mm)"
  have step: "p * ?d + 40 \<le> q * ?d" "q * ?d + 40 \<le> 2 ^ 64" if "p < q" "q < n" for p q
  proof -
    have "p * ?d + ?d \<le> q * ?d" "q * ?d + ?d \<le> n * ?d"
      using that mult_le_mono1 [of "Suc p" q ?d] mult_le_mono1 [of "Suc q" n ?d] by simp_all
    then show "p * ?d + 40 \<le> q * ?d" "q * ?d + 40 \<le> 2 ^ 64"
      using assms(1) whole_map_bound [OF assms(1)] by (simp_all add: whole_map_def)
  qed
  have sub: "span (map_entry_at mm i) 4 \<subseteq> span (map_entry_at mm i) 40"
    using span_sub [of 0 4 40] by simp
  show ?thesis
  proof (cases "i < j")
    case True
    then show ?thesis
      using span_offsets [OF step [OF True assms(3)], of "map_buffer mm"] sub unfolding map_entry_at_def by blast
  next
    case False
    then have "j < i"
      using assms(4) by simp
    then show ?thesis
      using span_offsets [OF step [OF \<open>j < i\<close> assms(2)], of "map_buffer mm"] sub unfolding map_entry_at_def by blast
  qed
qed

lemma retype_fold_reads:
  assumes "whole_map mm n" "distinct js" "set js \<subseteq> {..<n}" "i < n"
  shows "read_descriptor (fold (\<lambda>j. retype_at entry (map_entry_at mm j)) js m) (map_entry_at mm i) =
    (if i \<in> set js then retype_descriptor entry (read_descriptor m (map_entry_at mm i)) else read_descriptor m (map_entry_at mm i))"
  using assms(2,3)
proof (induction js arbitrary: m)
  case (Cons j js)
  have "read_descriptor (retype_at entry (map_entry_at mm j) m) (map_entry_at mm i) =
      (if i = j then retype_descriptor entry (read_descriptor m (map_entry_at mm i)) else read_descriptor m (map_entry_at mm i))"
  proof (cases "i = j")
    case True
    then show ?thesis
      by (simp add: retype_at_same)
  next
    case False
    then have "span (map_entry_at mm j) 4 \<inter> span (map_entry_at mm i) 40 = {}"
      using entries_apart [OF assms(1)] Cons.prems(2) assms(4) by auto
    then have "read_descriptor (retype_at entry (map_entry_at mm j) m) (map_entry_at mm i) = read_descriptor m (map_entry_at mm i)"
      by (intro read_descriptor_cong retype_at_other) blast
    with False show ?thesis
      by simp
  qed
  with Cons show ?case
    by auto
qed simp

lemma retype_fold_other:
  "\<forall>j \<in> set js. x \<notin> span (map_entry_at mm j) 4 \<Longrightarrow> fold (\<lambda>j. retype_at entry (map_entry_at mm j)) js m x = m x"
  by (induction js arbitrary: m) (simp_all add: retype_at_other)

lemma retype_buffer_map:
  assumes "whole_map mm n"
  shows "\<exists>m'. retype_buffer (Suc loop_fuel) entry mm 0 m = Inr m' \<and> read_map m' mm n = retype_memory_map entry (read_map m mm n) \<and>
    (\<forall>x. (\<forall>j < n. x \<notin> span (map_entry_at mm j) 4) \<longrightarrow> m' x = m x)"
proof -
  let ?m = "fold (\<lambda>j. retype_at entry (map_entry_at mm j)) [0..<n] m"
  have "retype_buffer (Suc loop_fuel) entry mm 0 m = Inr ?m"
    using retype_buffer_fold [OF assms, of 0 n "Suc loop_fuel" entry m] whole_map_bound [OF assms] by simp
  moreover have "read_descriptor ?m (map_entry_at mm i) = retype_descriptor entry (read_descriptor m (map_entry_at mm i))" if "i < n" for i
    using retype_fold_reads [OF assms, of "[0..<n]" i] that by (simp add: atLeast0LessThan)
  moreover have "?m x = m x" if "\<forall>j < n. x \<notin> span (map_entry_at mm j) 4" for x
    using that by (intro retype_fold_other) simp
  ultimately show ?thesis
    by (simp add: read_map_def retype_memory_map_def)
qed


section \<open>Entering the kernel\<close>

definition holds_address :: "u64 \<Rightarrow> UEFIMemoryDescriptor \<Rightarrow> bool" where
  "holds_address a d \<longleftrightarrow> physical_start d \<le> a \<and> a < physical_start d + num_pages d * PAGE_SIZE"

lemma retyped_code: "d \<in> set (retype_memory_map entry ds) \<Longrightarrow> mtype d = EfiLoaderCode \<Longrightarrow> holds_address entry d"
  by (auto simp: retype_memory_map_def retype_descriptor_def holds_address_def split: if_splits)

definition no_map :: boot_memory_map where
  "no_map = \<lparr>map_nbytes = 0, map_buffer = 0, map_mapkey = 0, map_desc_size = 0, map_desc_version = 0\<rparr>"

text \<open>
  C15. When each call of the firmware succeeds and the memory map it stores consists of whole
  descriptors, the boot loader enters the kernel at the address \<open>load_kernel\<close> found, with the screen
  the firmware described, the ACPI root pointer, and the memory map in which the ranges of loader
  code without the kernel's entry have become loader data: the kernel's own range is the only
  loader code left. No other memory is written after the map was stored.
\<close>

theorem efi_main_hands_over:
  assumes start: "efi_set_watchdog_timer ops s = Inr s1" "efi_locate_graphics ops s1 = Inr s2" "efi_query_mode ops s2 = Inr (info, s3)"
      "PixelFormat info = 0 \<or> PixelFormat info = 1"
    and kernel: "efi_locate_file_system ops s3 = Inr s4" "efi_open_volume ops s4 = Inr s5" "load_kernel (file_ops ops) s5 = Inr (entry, s6)"
      "efi_close_root ops s6 = Inr s7" "find_rsdp tables = Inr rsdp"
    and map: "efi_get_memory_map ops no_map s7 = (EFI_BUFFER_TOO_SMALL, mm0, s8)"
      "efi_allocate_pool (file_ops ops) (map_nbytes mm0 + map_desc_size mm0 * 2) s8 = Inr (buffer, s9)"
      "efi_get_memory_map ops (mm0\<lparr>map_nbytes := map_nbytes mm0 + map_desc_size mm0 * 2, map_buffer := buffer\<rparr>) s9 = (0, mm, s10)"
      "whole_map mm n"
    and leave: "\<forall>s. \<exists>s'. efi_exit_boot_services ops (map_mapkey mm) s = Inr s' \<and> boot_mem s' = boot_mem s"
  shows "\<exists>s'. efi_main ops tables s = Inr (\<lparr>arg_memory_map = mm,
      arg_frame_buffer = \<lparr>boot_address = efi_frame_buffer_base ops s3, boot_width = ucast (HorizontalResolution info),
        boot_height = ucast (VerticalResolution info), boot_pixels_per_scanline = ucast (PixelsPerScanLine info), boot_format = PixelFormat info\<rparr>,
      arg_rsdp = rsdp, entered_at = entry\<rparr>, s') \<and>
    read_map (boot_mem s') mm n = retype_memory_map entry (read_map (boot_mem s10) mm n) \<and>
    (\<forall>d \<in> set (read_map (boot_mem s') mm n). mtype d = EfiLoaderCode \<longrightarrow> holds_address entry d) \<and>
    (\<forall>x. (\<forall>j < n. x \<notin> span (map_entry_at mm j) 4) \<longrightarrow> boot_mem s' x = boot_mem s10 x)"
proof -
  obtain m where m: "retype_buffer (Suc loop_fuel) entry mm 0 (boot_mem s10) = Inr m"
    "read_map m mm n = retype_memory_map entry (read_map (boot_mem s10) mm n)"
    "\<forall>x. (\<forall>j < n. x \<notin> span (map_entry_at mm j) 4) \<longrightarrow> m x = boot_mem s10 x"
    using retype_buffer_map [OF map(4)] by blast
  obtain s' where s': "efi_exit_boot_services ops (map_mapkey mm) (s10\<lparr>boot_mem := m\<rparr>) = Inr s'" "boot_mem s' = m"
    using leave by (metis boot_state.select_convs(1) boot_state.surjective boot_state.update_convs(1))
  have "find_memory_map ops entry s7 = Inr (mm, s10\<lparr>boot_mem := m\<rparr>)"
    using map(1-3) m(1) by (simp add: find_memory_map_def no_map_def EFI_ERROR_def del: retype_buffer.simps)
  then have "efi_main ops tables s = Inr (\<lparr>arg_memory_map = mm,
      arg_frame_buffer = \<lparr>boot_address = efi_frame_buffer_base ops s3, boot_width = ucast (HorizontalResolution info),
        boot_height = ucast (VerticalResolution info), boot_pixels_per_scanline = ucast (PixelsPerScanLine info), boot_format = PixelFormat info\<rparr>,
      arg_rsdp = rsdp, entered_at = entry\<rparr>, s')"
    using start kernel s'(1)
    by (auto simp: efi_main_def find_frame_buffer_def mode_information_def PixelRedGreenBlueReserved8BitPerColor_def
        PixelBlueGreenRedReserved8BitPerColor_def)
  with m(2,3) s'(2) show ?thesis
    using retyped_code [of _ entry "read_map (boot_mem s10) mm n"] by (intro exI [of _ s']) simp
qed

text \<open>When the mode has to be set first, what the kernel is told of the screen was never read.\<close>

lemma efi_main_uninitialized_mode:
  assumes "efi_set_watchdog_timer ops s = Inr s1" "efi_locate_graphics ops s1 = Inr s2" "efi_query_mode ops s2 = Inl EFI_NOT_STARTED"
    and "efi_set_mode ops s2 = Inr s3"
  shows "efi_main ops tables s = Inl Uninitialized"
  using assms by (simp add: efi_main_def find_frame_buffer_def mode_information_def)


text \<open>
  The example: the image of Elf_Properties at \<open>0x1000\<close>, and a map of two ranges of loader code at
  \<open>0x2000\<close>, the second of them with the kernel.
\<close>

definition example_map :: boot_memory_map where
  "example_map = \<lparr>map_nbytes = 80, map_buffer = 0x2000, map_mapkey = 7, map_desc_size = 40, map_desc_version = 1\<rparr>"

definition boot_memory :: mem where
  "boot_memory a = (if a = 0x2000 \<or> a = 0x2028 then 1 else if a = 0x200a then 0x50 else if a = 0x2032 then 0x60
     else if a = 0x2018 \<or> a = 0x2040 then 1 else if 0x2000 \<le> a then 0 else example_memory a)"

definition example_file :: "unit efi_ops" where
  "example_file = \<lparr>efi_open = Inr, efi_set_position = (\<lambda>_. Inr), efi_read = (\<lambda>_ _. Inr), efi_close = Inr,
     efi_allocate_pool = (\<lambda>n s. Inr (if n = 64 then 0x1000 else if n = 56 then 0x1040 else 0x2000, s)), efi_free_pool = (\<lambda>_. Inr),
     efi_allocate_pages = (\<lambda>_ s. Inr (0x9ff000, s)), efi_set_mem = (\<lambda>_ _ _ s. s)\<rparr>"

definition example_firmware :: "unit boot_services" where
  "example_firmware = \<lparr>file_ops = example_file, efi_set_watchdog_timer = Inr, efi_locate_graphics = Inr,
     efi_query_mode = (\<lambda>s. Inr (\<lparr>HorizontalResolution = 1024, VerticalResolution = 768, PixelFormat = 1, PixelsPerScanLine = 1024\<rparr>, s)),
     efi_set_mode = Inr, efi_frame_buffer_base = (\<lambda>_. 0x80000000), efi_locate_file_system = Inr, efi_open_volume = Inr, efi_close_root = Inr,
     efi_get_memory_map = (\<lambda>mm s. if map_nbytes mm = 0 then (EFI_BUFFER_TOO_SMALL, example_map, s) else (0, example_map, s)),
     efi_exit_boot_services = (\<lambda>_. Inr)\<rparr>"

definition example_start :: "unit boot_state" where
  "example_start = \<lparr>boot_mem = boot_memory, firmware = ()\<rparr>"

lemma boot_memory_low:
  assumes "x \<in> span a k" "unat a + k \<le> 0x2000"
  shows "boot_memory x = example_memory x"
proof -
  obtain i where i: "i < k" "x = a + of_nat i"
    using assms(1) by (auto simp: span_def)
  then have "unat x = unat a + i"
    using assms(2) by (simp add: unat_add_u64 unat_of_nat_u64)
  then have "unat x < 0x2000"
    using i(1) assms(2) by simp
  then show ?thesis
    by (auto simp: boot_memory_def word_le_nat_alt)
qed

lemma boot_memory_image: "read_ehdr boot_memory 0x1000 = read_ehdr example_memory 0x1000" "read_phdr boot_memory 0x1040 = read_phdr example_memory 0x1040"
proof -
  show "read_ehdr boot_memory 0x1000 = read_ehdr example_memory 0x1000"
    by (rule read_ehdr_cong) (erule boot_memory_low, simp)
  show "read_phdr boot_memory 0x1040 = read_phdr example_memory 0x1040"
    by (rule read_phdr_cong) (erule boot_memory_low, simp)
qed

lemma example_load_kernel: "load_kernel example_file example_start = Inr (0x600234, example_start)"
proof -
  have ident: "valid_elf_ident ([0x7f, 69, 76, 70, 2, 1] @ replicate 10 0)"
    by code_simp
  have pages: "EFI_SIZE_TO_PAGES 8 = 1"
    by (simp add: EFI_SIZE_TO_PAGES_def)
  show ?thesis
    using ident
    by (simp add: load_kernel_def example_file_def example_start_def boot_memory_image example_ehdr example_phdr sizeof_Elf64Phdr_def
        read_headers_def PT_LOAD_def read_segment_def Let_def)
qed


lemma example_whole: "whole_map example_map 2"
  by (simp add: whole_map_def example_map_def)

lemma example_read_map: "read_map boot_memory example_map 2 =
    [\<lparr>mtype = EfiLoaderCode, physical_start = 0x500000, virtual_start = 0, num_pages = 1, attribute = 0\<rparr>,
     \<lparr>mtype = EfiLoaderCode, physical_start = 0x600000, virtual_start = 0, num_pages = 1, attribute = 0\<rparr>]"
  by code_simp

theorem efi_main_hands_over_witness:
  "\<exists>h s'. efi_main example_firmware [\<lparr>VendorGuid = acpi_guid, VendorTable = 0xe0000\<rparr>] example_start = Inr (h, s') \<and>
     entered_at h = 0x600234 \<and> arg_rsdp h = 0xe0000 \<and> boot_width (arg_frame_buffer h) = 1024 \<and>
     map mtype (read_map (boot_mem s') example_map 2) = [EfiLoaderData, EfiLoaderCode]"
proof -
  have rsdp: "find_rsdp [\<lparr>VendorGuid = acpi_guid, VendorTable = 0xe0000\<rparr>] = Inr 0xe0000"
    by code_simp
  have mem: "boot_mem example_start = boot_memory"
    by (simp add: example_start_def)
  have map: "retype_memory_map 0x600234 (read_map boot_memory example_map 2) =
      [\<lparr>mtype = EfiLoaderData, physical_start = 0x500000, virtual_start = 0, num_pages = 1, attribute = 0\<rparr>,
       \<lparr>mtype = EfiLoaderCode, physical_start = 0x600000, virtual_start = 0, num_pages = 1, attribute = 0\<rparr>]"
    by (simp add: example_read_map retype_memory_map_def retype_descriptor_def PAGE_SIZE_def)
  let ?mode = "\<lparr>HorizontalResolution = 1024, VerticalResolution = 768, PixelFormat = 1, PixelsPerScanLine = 1024\<rparr>" and ?s = example_start
  have calls: "efi_set_watchdog_timer example_firmware ?s = Inr ?s" "efi_locate_graphics example_firmware ?s = Inr ?s"
    "efi_query_mode example_firmware ?s = Inr (?mode, ?s)" "PixelFormat ?mode = 0 \<or> PixelFormat ?mode = 1"
    "efi_locate_file_system example_firmware ?s = Inr ?s" "efi_open_volume example_firmware ?s = Inr ?s"
    "load_kernel (file_ops example_firmware) ?s = Inr (0x600234, ?s)" "efi_close_root example_firmware ?s = Inr ?s"
    by (simp_all add: example_firmware_def example_load_kernel)
  have map_calls: "efi_get_memory_map example_firmware no_map ?s = (EFI_BUFFER_TOO_SMALL, example_map, ?s)"
    "efi_allocate_pool (file_ops example_firmware) (map_nbytes example_map + map_desc_size example_map * 2) ?s = Inr (0x2000, ?s)"
    "efi_get_memory_map example_firmware (example_map\<lparr>map_nbytes := map_nbytes example_map + map_desc_size example_map * 2, map_buffer := 0x2000\<rparr>) ?s = (0, example_map, ?s)"
    by (simp_all add: example_firmware_def example_file_def no_map_def example_map_def)
  have leave: "\<forall>s. \<exists>s'. efi_exit_boot_services example_firmware (map_mapkey example_map) s = Inr s' \<and> boot_mem s' = boot_mem s"
    by (simp add: example_firmware_def)
  obtain h s' where "efi_main example_firmware [\<lparr>VendorGuid = acpi_guid, VendorTable = 0xe0000\<rparr>] ?s = Inr (h, s')"
    "entered_at h = 0x600234" "arg_rsdp h = 0xe0000" "boot_width (arg_frame_buffer h) = ucast (HorizontalResolution ?mode)"
    "read_map (boot_mem s') example_map 2 = retype_memory_map 0x600234 (read_map (boot_mem ?s) example_map 2)"
    using efi_main_hands_over [OF calls rsdp map_calls example_whole leave] by (elim exE conjE) (rule that, assumption, simp_all)
  then show ?thesis
    by (intro exI [of _ h] exI [of _ s']) (simp add: mem map)
qed

end
