(* ===== verification/Paging.thy ===== *)
theory Paging
  imports Paging_Entries
begin

text \<open>
  kernel/src/memory/paging.c: address spaces, page tables and the mapping of frames into
  virtual memory (initialize_paging is in Paging_Init). The tables live in physical memory; the
  kernel reaches a table through a virtual pointer, which the processor translates with the
  same tables, so an access to an entry goes through \<open>mmu\<close>. The operations take their callees
  outside this file as arguments: \<open>gme\<close> is \<open>get_memory_entry\<close>, \<open>kmap\<close> and \<open>kmap_phys\<close> are
  \<open>kmap_allocation\<close> and \<open>kmap_phys_range\<close>, which come back to this file (Memory ties the
  recursion).
\<close>

section \<open>State\<close>

text \<open>The address of an \<open>AddressSpace\<close>: \<open>&g_kernel_space\<close> or one of a process.\<close>

datatype space_ref = Kernel_Space | Process_Space u64

record AddressSpace =
  current_address :: u64
  pdp_index :: nat
  pdp :: u64
  prot :: u8
  free_list :: u64
  entry_maps :: "nat \<Rightarrow> u64"

text \<open>What the kernel does to the translation lookaside buffer, the latest first.\<close>

datatype tlb_event = Invlpg u64 | Reload_cr3

record paging_state = frame_state +
  tables :: "u64 \<Rightarrow> nat \<Rightarrow> u64"          \<comment> \<open>entries of the table at a physical address\<close>
  g_pml4 :: "nat \<Rightarrow> u64"
  own_tables :: bool                     \<comment> \<open>CR3 holds \<open>g_pml4\<close>, no longer the firmware's table\<close>
  g_paging_execute_disable :: bool
  spaces :: "space_ref \<Rightarrow> AddressSpace"
  page_pool_count :: u64
  page_pool_head :: u64
  tlb :: "tlb_event list"

type_synonym ('a, 'b) paging_op = "'a paging_state_scheme \<Rightarrow> ('b \<times> 'a paging_state_scheme) res"
type_synonym 'a paging_act = "'a paging_state_scheme \<Rightarrow> 'a paging_state_scheme res"

text \<open>The argument types of the callees outside this file.\<close>

type_synonym 'a node_getter = "('a, u64) paging_op"
type_synonym 'a alloc_mapper = "u64 \<Rightarrow> u32 \<Rightarrow> ('a, u64) paging_op"
type_synonym 'a phys_mapper = "u64 \<Rightarrow> u64 \<Rightarrow> u32 \<Rightarrow> ('a, u64) paging_op"

definition update_space ::
    "space_ref \<Rightarrow> (AddressSpace \<Rightarrow> AddressSpace) \<Rightarrow> 'a paging_state_scheme \<Rightarrow> 'a paging_state_scheme" where
  "update_space sp f s = s\<lparr>spaces := (spaces s)(sp := f (spaces s sp))\<rparr>"

section \<open>Translation by the processor\<close>

text \<open>
  The walk of the processor over four levels; an entry with the large bit set at the second or
  third level maps 1GB or 2MB. Before the kernel loads its own tables the firmware's tables map
  every address to itself (UEFI specification, boot services).
\<close>

definition mmu_walk :: "(nat \<Rightarrow> u64) \<Rightarrow> (u64 \<Rightarrow> nat \<Rightarrow> u64) \<Rightarrow> u64 \<Rightarrow> u64 option" where
  "mmu_walk root tabs va =
     (let e4 = root (GET_LEVEL_INDEX va 3) in
      if \<not> pe_present e4 then None else
      let e3 = tabs (push_bit 12 (pe_phys_addr e4)) (GET_LEVEL_INDEX va PDP) in
      if \<not> pe_present e3 then None else
      if pe_large e3 then Some ((push_bit 12 (pe_phys_addr e3) AND NOT (mask 30)) OR take_bit 30 va) else
      let e2 = tabs (push_bit 12 (pe_phys_addr e3)) (GET_LEVEL_INDEX va PD) in
      if \<not> pe_present e2 then None else
      if pe_large e2 then Some ((push_bit 12 (pe_phys_addr e2) AND NOT (mask 21)) OR take_bit 21 va) else
      let e1 = tabs (push_bit 12 (pe_phys_addr e2)) (GET_LEVEL_INDEX va PT) in
      if \<not> pe_present e1 then None
      else Some (push_bit 12 (pe_phys_addr e1) OR take_bit 12 va))"

definition mmu :: "'a paging_state_scheme \<Rightarrow> u64 \<Rightarrow> u64 option" where
  "mmu s va = (if own_tables s then mmu_walk (g_pml4 s) (tables s) va else Some va)"

text \<open>\<open>p[i]\<close> for a \<open>PageEntry* p\<close>: reading, writing, and clearing the whole page.\<close>

definition load_entry :: "u64 \<Rightarrow> nat \<Rightarrow> 'a paging_state_scheme \<Rightarrow> u64 res" where
  "load_entry p i s =
     (if p = 0 then Inl Null_deref
      else case mmu s p of None \<Rightarrow> Inl Page_fault | Some f \<Rightarrow> Inr (tables s f i))"

definition modify_entry :: "u64 \<Rightarrow> nat \<Rightarrow> (u64 \<Rightarrow> u64) \<Rightarrow> 'a paging_act" where
  "modify_entry p i g s =
     (if p = 0 then Inl Null_deref
      else case mmu s p of
        None \<Rightarrow> Inl Page_fault
      | Some f \<Rightarrow> Inr (s\<lparr>tables := (tables s)(f := (tables s f)(i := g (tables s f i)))\<rparr>))"

definition zero_page :: "u64 \<Rightarrow> 'a paging_act" where
  "zero_page p s =
     (if p = 0 then Inl Null_deref
      else case mmu s p of
        None \<Rightarrow> Inl Page_fault
      | Some f \<Rightarrow> Inr (s\<lparr>tables := (tables s)(f := (\<lambda>_. 0))\<rparr>))"

definition invlpg :: "u64 \<Rightarrow> 'a paging_state_scheme \<Rightarrow> 'a paging_state_scheme" where
  "invlpg va s = s\<lparr>tlb := Invlpg va # tlb s\<rparr>"

section \<open>Reaching page tables\<close>

fun find_mapping :: "nat \<Rightarrow> u64 \<Rightarrow> u64 \<Rightarrow> 'a paging_state_scheme \<Rightarrow> u64 res" where
  "find_mapping 0 phys_addr mapping s = Inl Diverges"
| "find_mapping (Suc n) phys_addr mapping s =
     (if mapping = 0 then Inr 0
      else rbind (deref mapping s) (\<lambda>m.
        if me_phys_addr m = phys_addr then Inr (SIGN_EXT_ADDR (push_bit 12 (me_virt_addr m)))
        else find_mapping n phys_addr (SIGN_EXT_ADDR (me_next m)) s))"

definition get_page_entries ::
    "space_ref \<Rightarrow> u64 \<Rightarrow> nat \<Rightarrow> nat \<Rightarrow> 'a paging_state_scheme \<Rightarrow> u64 res" where
  "get_page_entries space table index level s =
     rbind (load_entry table index s) (\<lambda>e.
       find_mapping (Suc loop_fuel) (pe_phys_addr e) (entry_maps (spaces s space) level) s)"

fun pool_pages :: "'a node_getter \<Rightarrow> nat \<Rightarrow> u64 \<Rightarrow> u64 \<Rightarrow> ('a, u64) paging_op" where
  "pool_pages gme 0 virt_addr phys_addr s = Inr (virt_addr, s)"
| "pool_pages gme (Suc n) virt_addr phys_addr s =
     rbind (gme s) (\<lambda>(entry, s).
     rbind (modify_node entry (me_set_phys_addr (drop_bit 12 phys_addr) \<circ>
         me_set_virt_addr (drop_bit 12 virt_addr) \<circ> me_set_next (page_pool_head s)) s) (\<lambda>s.
       pool_pages gme n (virt_addr + PAGE_SIZE) (phys_addr + PAGE_SIZE) (s\<lparr>page_pool_head := entry\<rparr>)))"

fun populate_page_pool :: "'a node_getter \<Rightarrow> nat \<Rightarrow> u64 \<Rightarrow> u64 \<Rightarrow> 'a paging_act" where
  "populate_page_pool gme 0 allocation virt_addr s = Inl Diverges"
| "populate_page_pool gme (Suc n) allocation virt_addr s =
     (if allocation = 0 then Inr s
      else rbind (deref allocation s) (\<lambda>al.
      rbind (get_frame_order_size (pfa_order al) s) (\<lambda>sz.
      rbind (pool_pages gme (unat (sz div PAGE_SIZE)) virt_addr (pfa_addr al) s) (\<lambda>(virt_addr, s).
      rbind (deref allocation s) (\<lambda>al.
      let memory_entry = allocation; allocation = e_next al in
      rbind (free_memory_entry memory_entry s) (\<lambda>s.
        populate_page_pool gme n allocation virt_addr s))))))"

definition refill_page_pool :: "'a node_getter \<Rightarrow> 'a alloc_mapper \<Rightarrow> 'a paging_act" where
  "refill_page_pool gme kmap s =
     (let s = s\<lparr>page_pool_count := page_pool_count s + PAGE_POOL_THRESHOLD\<rparr> in
      rbind (alloc_frames gme PAGE_POOL_THRESHOLD s) (\<lambda>(allocation, s).
      rbind (kernel_assert (allocation \<noteq> 0) ''Out of memory'') (\<lambda>_.
      rbind (kmap allocation PAGING_WRITABLE s) (\<lambda>(virt_addr, s).
        populate_page_pool gme (Suc loop_fuel) allocation virt_addr s))))"

text \<open>The branch of the kernel's address space: a table from the pool of pages.\<close>

definition take_pool_page ::
    "'a node_getter \<Rightarrow> 'a alloc_mapper \<Rightarrow> u64 \<Rightarrow> nat \<Rightarrow> nat \<Rightarrow> ('a, u64) paging_op" where
  "take_pool_page gme kmap table index level s =
     rbind (if page_pool_count s \<le> PAGE_POOL_THRESHOLD then refill_page_pool gme kmap s else Inr s) (\<lambda>s.
     let pool_entry = page_pool_head s in
     rbind (deref pool_entry s) (\<lambda>e.
     let s = s\<lparr>page_pool_head := SIGN_EXT_ADDR (me_next e), page_pool_count := page_pool_count s - 1\<rparr> in
     rbind (modify_node pool_entry (me_set_next (entry_maps (spaces s Kernel_Space) level)) s) (\<lambda>s.
     let s = update_space Kernel_Space (\<lambda>k. k\<lparr>entry_maps := (entry_maps k)(level := pool_entry)\<rparr>) s in
     rbind (deref pool_entry s) (\<lambda>e.
     rbind (modify_entry table index
         (pe_set_write True \<circ> pe_set_present True \<circ> pe_set_phys_addr (me_phys_addr e)) s) (\<lambda>s.
     let entries = SIGN_EXT_ADDR (push_bit 12 (me_virt_addr e)) in
     rbind (zero_page entries s) (\<lambda>s. Inr (entries, s)))))))"

text \<open>The branch of the other address spaces: a fresh frame, mapped into the kernel.\<close>

definition take_fresh_page ::
    "'a node_getter \<Rightarrow> 'a phys_mapper \<Rightarrow> space_ref \<Rightarrow> u64 \<Rightarrow> nat \<Rightarrow> nat \<Rightarrow> ('a, u64) paging_op" where
  "take_fresh_page gme kmap_phys space table index level s =
     rbind (alloc_frames_contiguos gme 1 s) (\<lambda>(found, s).
     case found of
       None \<Rightarrow> Inl (Assert_failed ''Out of memory'')
     | Some phys_addr \<Rightarrow>
         let p = prot (spaces s space) in
         rbind (modify_entry table index (pe_set_user (p = 3) \<circ> pe_set_prot p \<circ> pe_set_write True \<circ>
             pe_set_present True \<circ> pe_set_phys_addr (drop_bit 12 phys_addr)) s) (\<lambda>s.
         rbind (kmap_phys phys_addr 1 PAGING_WRITABLE s) (\<lambda>(virt_addr, s).
         rbind (zero_page virt_addr s) (\<lambda>s.
         rbind (gme s) (\<lambda>(mapping_entry, s).
         rbind (modify_node mapping_entry (me_set_next (entry_maps (spaces s space) level) \<circ>
             me_set_phys_addr (drop_bit 12 phys_addr) \<circ> me_set_virt_addr (drop_bit 12 virt_addr)) s) (\<lambda>s.
           Inr (virt_addr, update_space space
             (\<lambda>k. k\<lparr>entry_maps := (entry_maps k)(level := mapping_entry)\<rparr>) s)))))))"

definition get_or_alloc_page_entries ::
    "'a node_getter \<Rightarrow> 'a alloc_mapper \<Rightarrow> 'a phys_mapper \<Rightarrow> space_ref \<Rightarrow> u64 \<Rightarrow> nat \<Rightarrow> nat
     \<Rightarrow> ('a, u64) paging_op" where
  "get_or_alloc_page_entries gme kmap kmap_phys space table index level s =
     rbind (load_entry table index s) (\<lambda>e.
       if pe_present e then rbind (get_page_entries space table index level s) (\<lambda>p. Inr (p, s))
       else if space = Kernel_Space then take_pool_page gme kmap table index level s
       else take_fresh_page gme kmap_phys space table index level s)"

section \<open>Locations in the page tables\<close>

record PageTableLocation =
  pd_index :: nat
  pd :: u64
  pt_index :: nat
  pt :: u64

text \<open>\<open>alloc_entries ? get_or_alloc_page_entries(...) : get_page_entries(...)\<close>\<close>

definition reach_entries ::
    "'a node_getter \<Rightarrow> 'a alloc_mapper \<Rightarrow> 'a phys_mapper \<Rightarrow> bool \<Rightarrow> space_ref \<Rightarrow> u64 \<Rightarrow> nat \<Rightarrow> nat
     \<Rightarrow> ('a, u64) paging_op" where
  "reach_entries gme kmap kmap_phys alloc_entries space table index level s =
     (if alloc_entries then get_or_alloc_page_entries gme kmap kmap_phys space table index level s
      else rbind (get_page_entries space table index level s) (\<lambda>p. Inr (p, s)))"

definition populate_page_table_location ::
    "'a node_getter \<Rightarrow> 'a alloc_mapper \<Rightarrow> 'a phys_mapper \<Rightarrow> space_ref \<Rightarrow> u64 \<Rightarrow> bool
     \<Rightarrow> ('a, PageTableLocation) paging_op" where
  "populate_page_table_location gme kmap kmap_phys space virt_addr alloc_entries s =
     (let i = GET_LEVEL_INDEX virt_addr PDP in
      rbind (reach_entries gme kmap kmap_phys alloc_entries space (pdp (spaces s space)) i PD s) (\<lambda>(d, s).
      let j = GET_LEVEL_INDEX virt_addr PD in
      rbind (reach_entries gme kmap kmap_phys alloc_entries space d j PT s) (\<lambda>(t, s).
        Inr (\<lparr>pd_index = i, pd = d, pt_index = j, pt = t\<rparr>, s))))"

definition page_table_traversal_helper ::
    "'a node_getter \<Rightarrow> 'a alloc_mapper \<Rightarrow> 'a phys_mapper \<Rightarrow> space_ref \<Rightarrow> u64 \<Rightarrow> PageTableLocation \<Rightarrow> bool
     \<Rightarrow> ('a, PageTableLocation) paging_op" where
  "page_table_traversal_helper gme kmap kmap_phys space virt_addr location alloc_entries s =
     (let new_pd_index = GET_LEVEL_INDEX virt_addr PDP; new_pt_index = GET_LEVEL_INDEX virt_addr PD in
      if new_pd_index \<noteq> pd_index location then
        rbind (reach_entries gme kmap kmap_phys alloc_entries space (pdp (spaces s space)) new_pd_index PD s)
          (\<lambda>(d, s).
        rbind (kernel_assert (d \<noteq> 0) ''PD not present'') (\<lambda>_.
        rbind (reach_entries gme kmap kmap_phys alloc_entries space d 0 PT s) (\<lambda>(t, s).
        rbind (kernel_assert (t \<noteq> 0) ''PT not present'') (\<lambda>_.
          Inr (\<lparr>pd_index = new_pd_index, pd = d, pt_index = 0, pt = t\<rparr>, s)))))
      else if new_pt_index \<noteq> pt_index location then
        rbind (reach_entries gme kmap kmap_phys alloc_entries space (pd location) new_pt_index PT s)
          (\<lambda>(t, s).
        rbind (kernel_assert (t \<noteq> 0) ''PT not present'') (\<lambda>_.
          Inr (location\<lparr>pt_index := new_pt_index, pt := t\<rparr>, s)))
      else Inr (location, s))"

section \<open>Virtual ranges\<close>

definition add_range_to_free_list ::
    "'a node_getter \<Rightarrow> space_ref \<Rightarrow> u64 \<Rightarrow> u64 \<Rightarrow> 'a paging_act" where
  "add_range_to_free_list gme space virt_addr pages s =
     rbind (gme s) (\<lambda>(entry, s).
     rbind (modify_node entry (fle_set_next (free_list (spaces s space)) \<circ> fle_set_pages pages \<circ>
         fle_set_addr (drop_bit 12 virt_addr)) s) (\<lambda>s.
       Inr (update_space space (\<lambda>k. k\<lparr>free_list := entry\<rparr>) s)))"

definition set_flags :: "bool \<Rightarrow> u32 \<Rightarrow> u64 \<Rightarrow> u64" where
  "set_flags nx flags =
     pe_set_execute_disable (flags AND PAGING_EXECUTABLE = 0 \<and> nx) \<circ>
     pe_set_write_through (flags AND PAGING_WRITE_THROUGH \<noteq> 0) \<circ>
     pe_set_cache_disable (flags AND PAGING_CACHE_DISABLE \<noteq> 0) \<circ>
     pe_set_write (flags AND PAGING_WRITABLE \<noteq> 0)"

text \<open>
  The search of the list of freed ranges: the address, or \<open>None\<close> when no range is big enough.
\<close>

fun search_free_list :: "nat \<Rightarrow> space_ref \<Rightarrow> u64 \<Rightarrow> u64 \<Rightarrow> u64 \<Rightarrow> ('a, u64 option) paging_op" where
  "search_free_list 0 space pages entry prev s = Inl Diverges"
| "search_free_list (Suc n) space pages entry prev s =
     (if entry = 0 then Inr (None, s)
      else rbind (deref entry s) (\<lambda>e.
        let addr = push_bit 12 (fle_addr e) in
        if pages < fle_pages e then
          rbind (modify_node entry (fle_set_pages (fle_pages e + pages) \<circ>
              fle_set_addr (drop_bit 12 (addr + pages * PAGE_SIZE))) s) (\<lambda>s.
            Inr (Some (SIGN_EXT_ADDR addr), s))
        else if fle_pages e = pages then
          rbind (if prev = 0 then Inr (update_space space (\<lambda>k. k\<lparr>free_list := fle_next e\<rparr>) s)
                 else modify_node prev (fle_set_next (fle_next e)) s) (\<lambda>s.
          rbind (free_memory_entry entry s) (\<lambda>s.
            Inr (Some (SIGN_EXT_ADDR addr), s)))
        else search_free_list n space pages (SIGN_EXT_ADDR (fle_next e)) entry s))"

definition alloc_addr_space :: "space_ref \<Rightarrow> u64 \<Rightarrow> ('a, u64) paging_op" where
  "alloc_addr_space space pages s =
     rbind (search_free_list (Suc loop_fuel) space pages (free_list (spaces s space)) 0 s) (\<lambda>(found, s).
     case found of
       Some addr \<Rightarrow> Inr (addr, s)
     | None \<Rightarrow>
         let addr = current_address (spaces s space);
             s = update_space space (\<lambda>k. k\<lparr>current_address := current_address k + pages * PAGE_SIZE\<rparr>) s in
         rbind (kernel_assert (current_address (spaces s space)
                  < of_nat (pdp_index (spaces s space) + 1) * PDP_MEM_RANGE) ''Out of address space'') (\<lambda>_.
           Inr (SIGN_EXT_ADDR addr, s)))"

definition claim_virt_range :: "'a node_getter \<Rightarrow> space_ref \<Rightarrow> u64 \<Rightarrow> u64 \<Rightarrow> ('a, bool) paging_op" where
  "claim_virt_range gme space virt_addr pages s =
     (if current_address (spaces s space) \<le> virt_addr AND NON_EXT_ADDR_MASK then
        if virt_addr + pages * PAGE_SIZE > of_nat (pdp_index (spaces s space) + 1) * PDP_MEM_RANGE then Inr (False, s)
        else
          rbind (gme s) (\<lambda>(free_entry, s).
          let k = spaces s space in
          rbind (modify_node free_entry (fle_set_next (free_list k) \<circ>
              fle_set_pages ((virt_addr - current_address k) div PAGE_SIZE) \<circ>
              fle_set_addr (drop_bit 12 (current_address k))) s) (\<lambda>s.
            Inr (True, update_space space (\<lambda>k. k\<lparr>free_list := free_entry,
              current_address := (virt_addr + pages * PAGE_SIZE) AND NON_EXT_ADDR_MASK\<rparr>) s)))
      else Inr (False, s))"

section \<open>Mapping\<close>

fun map_range_helper ::
    "'a node_getter \<Rightarrow> 'a alloc_mapper \<Rightarrow> 'a phys_mapper \<Rightarrow> space_ref \<Rightarrow> u64 \<Rightarrow> u64 \<Rightarrow> nat \<Rightarrow> u32
     \<Rightarrow> PageTableLocation \<Rightarrow> ('a, PageTableLocation) paging_op" where
  "map_range_helper gme kmap kmap_phys space virt_addr phys_addr 0 flags location s = Inr (location, s)"
| "map_range_helper gme kmap kmap_phys space virt_addr phys_addr (Suc pages) flags location s =
     rbind (page_table_traversal_helper gme kmap kmap_phys space virt_addr location True s) (\<lambda>(location, s).
     let index = GET_LEVEL_INDEX virt_addr PT; p = prot (spaces s space) in
     rbind (modify_entry (pt location) index (pe_set_user (p = 3) \<circ> pe_set_prot p \<circ>
         set_flags (g_paging_execute_disable s) flags \<circ> pe_set_present True \<circ>
         pe_set_phys_addr (drop_bit 12 phys_addr)) s) (\<lambda>s.
       map_range_helper gme kmap kmap_phys space (virt_addr + PAGE_SIZE) (phys_addr + PAGE_SIZE) pages
         flags location (invlpg virt_addr s)))"

text \<open>The loop over the allocations of a list.\<close>

fun map_allocations ::
    "'a node_getter \<Rightarrow> 'a alloc_mapper \<Rightarrow> 'a phys_mapper \<Rightarrow> nat \<Rightarrow> space_ref \<Rightarrow> u64 \<Rightarrow> u64 \<Rightarrow> u32
     \<Rightarrow> PageTableLocation \<Rightarrow> 'a paging_act" where
  "map_allocations gme kmap kmap_phys 0 space allocation virt_addr flags location s = Inl Diverges"
| "map_allocations gme kmap kmap_phys (Suc n) space allocation virt_addr flags location s =
     (if allocation = 0 then Inr s
      else rbind (deref allocation s) (\<lambda>al.
      rbind (get_frame_order_size (pfa_order al) s) (\<lambda>allocation_size.
      rbind (map_range_helper gme kmap kmap_phys space virt_addr (pfa_addr al)
               (unat (allocation_size div PAGE_SIZE)) flags location s) (\<lambda>(location, s).
      rbind (deref allocation s) (\<lambda>al.
        map_allocations gme kmap kmap_phys n space (e_next al) (virt_addr + allocation_size) flags
          location s)))))"

definition map_allocation ::
    "'a node_getter \<Rightarrow> 'a alloc_mapper \<Rightarrow> 'a phys_mapper \<Rightarrow> space_ref \<Rightarrow> u64 \<Rightarrow> u32 \<Rightarrow> ('a, u64) paging_op" where
  "map_allocation gme kmap kmap_phys space allocation flags s =
     rbind (calculate_allocation_pages allocation s) (\<lambda>total_pages.
     rbind (alloc_addr_space space total_pages s) (\<lambda>(virt_addr, s).
     rbind (populate_page_table_location gme kmap kmap_phys space virt_addr True s) (\<lambda>(location, s).
     rbind (map_allocations gme kmap kmap_phys (Suc loop_fuel) space allocation virt_addr flags location s) (\<lambda>s.
       Inr (virt_addr, s)))))"

definition map_phys_range ::
    "'a node_getter \<Rightarrow> 'a alloc_mapper \<Rightarrow> 'a phys_mapper \<Rightarrow> space_ref \<Rightarrow> u64 \<Rightarrow> u64 \<Rightarrow> u32
     \<Rightarrow> ('a, u64) paging_op" where
  "map_phys_range gme kmap kmap_phys space phys_addr pages flags s =
     rbind (alloc_addr_space space pages s) (\<lambda>(virt_addr, s).
     rbind (populate_page_table_location gme kmap kmap_phys space virt_addr True s) (\<lambda>(location, s).
     rbind (map_range_helper gme kmap kmap_phys space virt_addr phys_addr (unat pages) flags location s)
       (\<lambda>(location, s). Inr (virt_addr, s))))"

definition map_allocation_to_range ::
    "'a node_getter \<Rightarrow> 'a alloc_mapper \<Rightarrow> 'a phys_mapper \<Rightarrow> space_ref \<Rightarrow> u64 \<Rightarrow> u64 \<Rightarrow> u32
     \<Rightarrow> ('a, bool) paging_op" where
  "map_allocation_to_range gme kmap kmap_phys space allocation virt_addr flags s =
     rbind (calculate_allocation_pages allocation s) (\<lambda>total_pages.
     rbind (claim_virt_range gme space virt_addr total_pages s) (\<lambda>(ok, s).
     if \<not> ok then Inr (False, s)
     else
       rbind (populate_page_table_location gme kmap kmap_phys space virt_addr True s) (\<lambda>(location, s).
       rbind (map_allocations gme kmap kmap_phys (Suc loop_fuel) space allocation virt_addr flags location s)
         (\<lambda>s. Inr (True, s)))))"

definition map_to_range ::
    "'a node_getter \<Rightarrow> 'a alloc_mapper \<Rightarrow> 'a phys_mapper \<Rightarrow> space_ref \<Rightarrow> u64 \<Rightarrow> u64 \<Rightarrow> u64 \<Rightarrow> u32
     \<Rightarrow> ('a, bool) paging_op" where
  "map_to_range gme kmap kmap_phys space phys_addr virt_addr pages flags s =
     rbind (claim_virt_range gme space virt_addr pages s) (\<lambda>(ok, s).
     if \<not> ok then Inr (False, s)
     else
       rbind (populate_page_table_location gme kmap kmap_phys space virt_addr True s) (\<lambda>(location, s).
       rbind (map_range_helper gme kmap kmap_phys space virt_addr phys_addr (unat pages) flags location s)
         (\<lambda>(location, s). Inr (True, s))))"

section \<open>Unmapping\<close>

fun unmap_pages ::
    "'a node_getter \<Rightarrow> 'a alloc_mapper \<Rightarrow> 'a phys_mapper \<Rightarrow> space_ref \<Rightarrow> u64 \<Rightarrow> nat
     \<Rightarrow> PageTableLocation \<Rightarrow> 'a paging_act" where
  "unmap_pages gme kmap kmap_phys space virt_addr 0 location s = Inr s"
| "unmap_pages gme kmap kmap_phys space virt_addr (Suc pages) location s =
     rbind (page_table_traversal_helper gme kmap kmap_phys space virt_addr location False s) (\<lambda>(location, s).
     rbind (modify_entry (pt location) (GET_LEVEL_INDEX virt_addr PT) (\<lambda>_. 0) s) (\<lambda>s.
       unmap_pages gme kmap kmap_phys space (virt_addr + PAGE_SIZE) pages location (invlpg virt_addr s)))"

definition unmap_range ::
    "'a node_getter \<Rightarrow> 'a alloc_mapper \<Rightarrow> 'a phys_mapper \<Rightarrow> space_ref \<Rightarrow> u64 \<Rightarrow> u64 \<Rightarrow> 'a paging_act" where
  "unmap_range gme kmap kmap_phys space virt_addr pages s =
     rbind (add_range_to_free_list gme space virt_addr pages s) (\<lambda>s.
     rbind (populate_page_table_location gme kmap kmap_phys space virt_addr False s) (\<lambda>(location, s).
       unmap_pages gme kmap kmap_phys space virt_addr (unat pages) location s))"

text \<open>\<open>__builtin_popcountll(n) == 1\<close> for the run lengths of \<open>unmap_and_free_frames\<close>.\<close>

definition popcountll :: "u64 \<Rightarrow> nat" where
  "popcountll x = length (List.filter (bit x) [0..<64])"

definition free_run :: "'a node_getter \<Rightarrow> u64 \<Rightarrow> u64 \<Rightarrow> 'a paging_act" where
  "free_run gme start_phys_addr frame_pages s =
     rbind (kernel_assert (popcountll frame_pages = 1) ''Allocation is not power of 2'') (\<lambda>_.
       free_frames_contiguos gme start_phys_addr frame_pages s)"

text \<open>
  The loop over the pages; \<open>start\<close>, \<open>cur\<close> and \<open>frame_pages\<close> are the run of adjacent frames
  met so far. At a frame that does not continue the run the code frees the run and starts anew
  with the next page.
\<close>

fun unmap_and_free_loop ::
    "'a node_getter \<Rightarrow> 'a alloc_mapper \<Rightarrow> 'a phys_mapper \<Rightarrow> space_ref \<Rightarrow> u64 \<Rightarrow> nat
     \<Rightarrow> PageTableLocation \<Rightarrow> u64 \<Rightarrow> u64 \<Rightarrow> u64 \<Rightarrow> ('a, u64 \<times> u64) paging_op" where
  "unmap_and_free_loop gme kmap kmap_phys space virt_addr 0 location start cur frame_pages s =
     Inr ((start, frame_pages), s)"
| "unmap_and_free_loop gme kmap kmap_phys space virt_addr (Suc pages) location start cur frame_pages s =
     rbind (page_table_traversal_helper gme kmap kmap_phys space virt_addr location False s) (\<lambda>(location, s).
     let index = GET_LEVEL_INDEX virt_addr PT in
     rbind (load_entry (pt location) index s) (\<lambda>e.
     let phys_addr = push_bit 12 (pe_phys_addr e) in
     rbind
       (if frame_pages = 0 then Inr ((phys_addr, phys_addr, 1), s)
        else
          let cur = cur + PAGE_SIZE in
          rbind (get_frame_order_size (FRAME_ORDERS - 1) s) (\<lambda>last_size.
          if cur \<noteq> phys_addr \<or> frame_pages * PAGE_SIZE \<ge> last_size then
            rbind (free_run gme start frame_pages s) (\<lambda>s. Inr ((start, cur, 0), s))
          else Inr ((start, cur, frame_pages + 1), s))) (\<lambda>((start, cur, frame_pages), s).
     rbind (modify_entry (pt location) index (\<lambda>_. 0) s) (\<lambda>s.
       unmap_and_free_loop gme kmap kmap_phys space (virt_addr + PAGE_SIZE) pages location
         start cur frame_pages (invlpg virt_addr s)))))"

definition unmap_and_free_frames ::
    "'a node_getter \<Rightarrow> 'a alloc_mapper \<Rightarrow> 'a phys_mapper \<Rightarrow> space_ref \<Rightarrow> u64 \<Rightarrow> u64 \<Rightarrow> 'a paging_act" where
  "unmap_and_free_frames gme kmap kmap_phys space virt_addr pages s =
     rbind (add_range_to_free_list gme space virt_addr pages s) (\<lambda>s.
     rbind (populate_page_table_location gme kmap kmap_phys space virt_addr False s) (\<lambda>(location, s).
     rbind (unmap_and_free_loop gme kmap kmap_phys space virt_addr (unat pages) location 0 0 0 s)
       (\<lambda>((start, frame_pages), s).
       if frame_pages \<noteq> 0 then free_run gme start frame_pages s else Inr s)))"

section \<open>Translation by the kernel\<close>

definition virt_to_phys_addr :: "space_ref \<Rightarrow> u64 \<Rightarrow> 'a paging_state_scheme \<Rightarrow> u64 option res" where
  "virt_to_phys_addr space virt_addr s =
     rbind (get_page_entries space (pdp (spaces s space)) (GET_LEVEL_INDEX virt_addr PDP) PD s) (\<lambda>d.
     if d = 0 then Inr None
     else
       rbind (get_page_entries space d (GET_LEVEL_INDEX virt_addr PD) PT s) (\<lambda>t.
       if t = 0 then Inr None
       else
         rbind (load_entry t (GET_LEVEL_INDEX virt_addr PT) s) (\<lambda>e.
         if \<not> pe_present e then Inr None
         else Inr (Some (push_bit 12 (pe_phys_addr e) OR (virt_addr AND 0xfff))))))"

fun range_set_flags_loop ::
    "'a node_getter \<Rightarrow> 'a alloc_mapper \<Rightarrow> 'a phys_mapper \<Rightarrow> space_ref \<Rightarrow> u64 \<Rightarrow> nat \<Rightarrow> u32
     \<Rightarrow> PageTableLocation \<Rightarrow> ('a, bool) paging_op" where
  "range_set_flags_loop gme kmap kmap_phys space virt_addr 0 flags location s = Inr (True, s)"
| "range_set_flags_loop gme kmap kmap_phys space virt_addr (Suc pages) flags location s =
     rbind (page_table_traversal_helper gme kmap kmap_phys space virt_addr location False s) (\<lambda>(location, s).
     let index = GET_LEVEL_INDEX virt_addr PT in
     rbind (load_entry (pt location) index s) (\<lambda>e.
     if \<not> pe_present e then Inr (False, s)
     else
       rbind (modify_entry (pt location) index (set_flags (g_paging_execute_disable s) flags) s) (\<lambda>s.
         range_set_flags_loop gme kmap kmap_phys space (virt_addr + PAGE_SIZE) pages flags location s)))"

definition range_set_flags ::
    "'a node_getter \<Rightarrow> 'a alloc_mapper \<Rightarrow> 'a phys_mapper \<Rightarrow> space_ref \<Rightarrow> u64 \<Rightarrow> u64 \<Rightarrow> u32
     \<Rightarrow> ('a, bool) paging_op" where
  "range_set_flags gme kmap kmap_phys space virt_addr pages flags s =
     rbind (populate_page_table_location gme kmap kmap_phys space virt_addr False s) (\<lambda>(location, s).
       range_set_flags_loop gme kmap kmap_phys space virt_addr (unat pages) flags location s)"

section \<open>Address spaces\<close>

text \<open>The loop that invalidates the used range of an address space.\<close>

fun invalidate_range :: "nat \<Rightarrow> u64 \<Rightarrow> u64 \<Rightarrow> 'a paging_act" where
  "invalidate_range 0 virt_addr last_addr s = Inl Diverges"
| "invalidate_range (Suc n) virt_addr last_addr s =
     (if virt_addr < last_addr then invalidate_range n (virt_addr + PAGE_SIZE) last_addr (invlpg virt_addr s)
      else Inr s)"

definition map_address_space :: "space_ref \<Rightarrow> 'a paging_act" where
  "map_address_space space s =
     (let k = spaces s space in
      rbind (virt_to_phys_addr Kernel_Space (pdp k) s) (\<lambda>found.
      case found of
        None \<Rightarrow> Inl (Assert_failed ''Could not find physical address'')
      | Some pdp_phys_addr \<Rightarrow>
          let s = s\<lparr>g_pml4 := (g_pml4 s)(pdp_index k :=
                (pe_set_user (prot k = 3) \<circ> pe_set_prot (prot k) \<circ> pe_set_write True \<circ> pe_set_present True \<circ>
                 pe_set_phys_addr (drop_bit 12 pdp_phys_addr)) (g_pml4 s (pdp_index k)))\<rparr> in
          invalidate_range (Suc loop_fuel) (of_nat (pdp_index k) * PDP_MEM_RANGE) (current_address k) s))"

definition unmap_address_space :: "space_ref \<Rightarrow> 'a paging_act" where
  "unmap_address_space space s =
     (let k = spaces s space; s = s\<lparr>g_pml4 := (g_pml4 s)(pdp_index k := 0)\<rparr> in
      invalidate_range (Suc loop_fuel) (of_nat (pdp_index k) * PDP_MEM_RANGE) (current_address k) s)"

end
