(* ===== verification/Memory.thy ===== *)
theory Memory
  imports Paging
begin

text \<open>
  kernel/src/memory.c, and the operations of paging.c that call it. Taking a node may allocate a
  page, mapping a page may need a table and with it nodes and pages of its own: the three
  operations \<open>alloc_pages\<close>, \<open>kmap_allocation\<close> and \<open>kmap_phys_range\<close> call each other. The
  first argument bounds the depth of these calls; a run that exceeds it is \<open>Diverges\<close>.
\<close>

section \<open>The recursion through the kernel\<close>

fun alloc_pages :: "nat \<Rightarrow> u64 \<Rightarrow> u32 \<Rightarrow> ('a, u64) paging_op"
  and kmap_allocation :: "nat \<Rightarrow> u64 \<Rightarrow> u32 \<Rightarrow> ('a, u64) paging_op"
  and kmap_phys_range :: "nat \<Rightarrow> u64 \<Rightarrow> u64 \<Rightarrow> u32 \<Rightarrow> ('a, u64) paging_op"
where
  "alloc_pages 0 = (\<lambda>pages flags s. Inl Diverges)"
| "alloc_pages (Suc d) = (\<lambda>pages flags s.
     rbind (alloc_frames (get_memory_entry (alloc_pages d)) pages s) (\<lambda>(allocation, s).
     if allocation = 0 then Inr (0, s)
     else
       rbind (kmap_allocation d allocation flags s) (\<lambda>(ptr, s).
       rbind (free_frame_allocation_entries allocation s) (\<lambda>s. Inr (ptr, s)))))"
| "kmap_allocation 0 = (\<lambda>allocation flags s. Inl Diverges)"
| "kmap_allocation (Suc d) = (\<lambda>allocation flags s.
     map_allocation (get_memory_entry (alloc_pages d)) (kmap_allocation d) (kmap_phys_range d)
       Kernel_Space allocation flags s)"
| "kmap_phys_range 0 = (\<lambda>phys_addr pages flags s. Inl Diverges)"
| "kmap_phys_range (Suc d) = (\<lambda>phys_addr pages flags s.
     map_phys_range (get_memory_entry (alloc_pages d)) (kmap_allocation d) (kmap_phys_range d)
       Kernel_Space phys_addr pages flags s)"

abbreviation memory_entry :: "nat \<Rightarrow> ('a, u64) paging_op" where
  "memory_entry d \<equiv> get_memory_entry (alloc_pages d)"

section \<open>The kernel's address space\<close>

definition kunmap_range :: "nat \<Rightarrow> u64 \<Rightarrow> u64 \<Rightarrow> 'a paging_act" where
  "kunmap_range d virt_addr pages s =
     unmap_range (memory_entry d) (kmap_allocation d) (kmap_phys_range d) Kernel_Space virt_addr pages s"

definition kunmap_and_free_frames :: "nat \<Rightarrow> u64 \<Rightarrow> u64 \<Rightarrow> 'a paging_act" where
  "kunmap_and_free_frames d virt_addr pages s =
     unmap_and_free_frames (memory_entry d) (kmap_allocation d) (kmap_phys_range d) Kernel_Space
       virt_addr pages s"

definition kvirt_to_phys_addr :: "u64 \<Rightarrow> 'a paging_state_scheme \<Rightarrow> u64 option res" where
  "kvirt_to_phys_addr virt_addr s = virt_to_phys_addr Kernel_Space virt_addr s"

definition free_pages :: "nat \<Rightarrow> u64 \<Rightarrow> u64 \<Rightarrow> 'a paging_act" where
  "free_pages d ptr pages s = kunmap_and_free_frames d ptr pages s"

definition alloc_pages_contiguous :: "nat \<Rightarrow> u64 \<Rightarrow> u32 \<Rightarrow> ('a, u64) paging_op" where
  "alloc_pages_contiguous d pages flags s =
     rbind (alloc_frames_contiguos (memory_entry d) pages s) (\<lambda>(found, s).
     case found of
       None \<Rightarrow> Inr (0, s)
     | Some phys_addr \<Rightarrow> kmap_phys_range d phys_addr pages flags s)"

definition free_pages_contiguous :: "nat \<Rightarrow> u64 \<Rightarrow> u64 \<Rightarrow> 'a paging_act" where
  "free_pages_contiguous d ptr pages s =
     rbind (kvirt_to_phys_addr ptr s) (\<lambda>found.
     case found of
       None \<Rightarrow> Inl (Assert_failed ''Physical address does not exist'')
     | Some phys_addr \<Rightarrow>
         rbind (kunmap_range d ptr pages s) (\<lambda>s.
           free_frames_contiguos (memory_entry d) phys_addr pages s))"

definition get_memory_size :: "'a paging_state_scheme \<Rightarrow> u64" where
  "get_memory_size s = memory_size s"

section \<open>Making and deleting address spaces\<close>

definition new_address_space :: "nat \<Rightarrow> space_ref \<Rightarrow> nat \<Rightarrow> u8 \<Rightarrow> 'a paging_act" where
  "new_address_space d space index p s =
     rbind (kernel_assert (index < KERNEL_PML4_OFFSET)
       ''AddressSpace can't overlap with kernel address space'') (\<lambda>_.
     rbind (kernel_assert (p \<le> 0b1111) ''Prot is only 4 bits page entries'') (\<lambda>_.
     let start = of_nat index * PDP_MEM_RANGE;
         space_value = \<lparr>current_address = (if start = 0 then start + PAGE_SIZE else start), pdp_index = index,
            pdp = 0, prot = p, free_list = 0, entry_maps = (\<lambda>_. 0)\<rparr>;
         s = update_space space (\<lambda>_. space_value) s in
     rbind (alloc_pages_contiguous d 1 PAGING_WRITABLE s) (\<lambda>(ptr, s).
     let s = update_space space (\<lambda>k. k\<lparr>pdp := ptr\<rparr>) s in
     rbind (kernel_assert (ptr \<noteq> 0) ''Out of memory'') (\<lambda>_.
       zero_page ptr s))))"

fun delete_free_list :: "nat \<Rightarrow> u64 \<Rightarrow> 'a paging_act" where
  "delete_free_list 0 free_entry s = Inl Diverges"
| "delete_free_list (Suc n) free_entry s =
     (if free_entry = 0 then Inr s
      else rbind (deref free_entry s) (\<lambda>e.
        let mem_entry = free_entry; free_entry = SIGN_EXT_ADDR (fle_next e) in
        rbind (free_memory_entry mem_entry s) (\<lambda>s. delete_free_list n free_entry s)))"

fun delete_mappings :: "nat \<Rightarrow> nat \<Rightarrow> u64 \<Rightarrow> 'a paging_act" where
  "delete_mappings d 0 map_entry s = Inl Diverges"
| "delete_mappings d (Suc n) map_entry s =
     (if map_entry = 0 then Inr s
      else rbind (deref map_entry s) (\<lambda>m.
        rbind (free_pages_contiguous d (SIGN_EXT_ADDR (push_bit 12 (me_virt_addr m))) 1 s) (\<lambda>s.
        rbind (deref map_entry s) (\<lambda>m.
        let mem_entry = map_entry; map_entry = SIGN_EXT_ADDR (me_next m) in
        rbind (free_memory_entry mem_entry s) (\<lambda>s. delete_mappings d n map_entry s)))))"

definition delete_address_space :: "nat \<Rightarrow> space_ref \<Rightarrow> 'a paging_act" where
  "delete_address_space d space s =
     rbind (delete_free_list (Suc loop_fuel) (free_list (spaces s space)) s) (\<lambda>s.
     rbind (delete_mappings d (Suc loop_fuel) (entry_maps (spaces s space) 0) s) (\<lambda>s.
     rbind (delete_mappings d (Suc loop_fuel) (entry_maps (spaces s space) 1) s) (\<lambda>s.
       free_pages_contiguous d (pdp (spaces s space)) 1 s)))"

section \<open>Firmware memory after the boot\<close>

text \<open>
  \<open>for (; order < FRAME_ORDERS; ++order)\<close>: the first order that is too big or not aligned.
\<close>

function fit_free_order :: "u64 \<Rightarrow> u64 \<Rightarrow> nat \<Rightarrow> 'a paging_state_scheme \<Rightarrow> nat" where
  "fit_free_order phys_addr sz order s =
     (if order < FRAME_ORDERS \<and> \<not> (order_sizes s order > sz \<or> phys_addr mod order_sizes s order \<noteq> 0)
      then fit_free_order phys_addr sz (order + 1) s else order)"
  by pat_completeness auto
termination
  by (relation "measure (\<lambda>(phys_addr, sz, order, s). FRAME_ORDERS - order)") auto

declare fit_free_order.simps [simp del]

text \<open>
  \<open>order\<close> is a \<open>uint8_t\<close>: when no order fits, \<open>--order\<close> wraps to 255 and the assertion fails.
\<close>

fun free_uefi_range :: "nat \<Rightarrow> nat \<Rightarrow> u64 \<Rightarrow> u64 \<Rightarrow> 'a paging_act" where
  "free_uefi_range d 0 phys_addr sz s = Inl Diverges"
| "free_uefi_range d (Suc n) phys_addr sz s =
     (if sz = 0 then Inr s
      else
        let order = (fit_free_order phys_addr sz 0 s + 255) mod 256 in
        rbind (kernel_assert (order < FRAME_ORDERS) ''Order does not exist'') (\<lambda>_.
        let order_size = order_sizes s order in
        rbind (free_frames_contiguos (memory_entry d) phys_addr (order_size div PAGE_SIZE) s) (\<lambda>s.
          free_uefi_range d n (phys_addr + order_size) (sz - order_size) s)))"

primrec free_uefi_memory :: "nat \<Rightarrow> UEFIMemoryMap \<Rightarrow> 'a paging_act" where
  "free_uefi_memory d [] s = Inr s"
| "free_uefi_memory d (desc # descs) s =
     (if mtype desc \<in> {EfiBootServicesData, EfiRuntimeServicesData, EfiLoaderData} then
        rbind (free_uefi_range d (Suc loop_fuel) (physical_start desc) (num_pages desc * PAGE_SIZE) s)
          (\<lambda>s. free_uefi_memory d descs s)
      else free_uefi_memory d descs s)"

definition free_uefi_memory_and_remove_identity_mapping :: "nat \<Rightarrow> UEFIMemoryMap \<Rightarrow> 'a paging_act" where
  "free_uefi_memory_and_remove_identity_mapping d memory_map s =
     rbind (free_uefi_memory d memory_map s) (\<lambda>s.
       Inr (s\<lparr>g_pml4 := (\<lambda>i. if i < KERNEL_PML4_OFFSET then 0 else g_pml4 s i),
              tlb := Reload_cr3 # tlb s\<rparr>))"

end
