(* ===== verification/Paging_Init.thy ===== *)
theory Paging_Init
  imports Memory
begin

text \<open>
  \<open>initialize_paging\<close> of kernel/src/memory/paging.c and \<open>initialize_memory\<close> of
  kernel/src/memory.c: the kernel's own page tables are built through the firmware's identity
  mapping, loaded, and the tables then entered into the kernel's list of mappings. What the
  code reads from outside C (CPUID, the firmware's table behind CR3, the linker's symbols) are
  arguments.
\<close>

record kernel_image =
  rodata_start :: u64
  rodata_end :: u64
  data_start :: u64
  data_end :: u64

text \<open>The state before the first instruction of paging.c: the initializer of \<open>g_kernel_space\<close>.\<close>

definition initial_kernel_space :: AddressSpace where
  "initial_kernel_space =
     \<lparr>current_address = KERNEL_OFFSET, pdp_index = KERNEL_PML4_OFFSET, pdp = 0, prot = 0,
      free_list = 0, entry_maps = (\<lambda>_. 0)\<rparr>"

section \<open>How many tables\<close>

fun grow_pd_count :: "nat \<Rightarrow> u64 \<Rightarrow> u64 \<Rightarrow> u64 res" where
  "grow_pd_count 0 total_size pd_count = Inl Diverges"
| "grow_pd_count (Suc n) total_size pd_count =
     (if pd_count * PD_MEM_RANGE - total_size < pd_count * PAGE_SIZE
      then grow_pd_count n total_size (pd_count + 1) else Inr pd_count)"

fun grow_pt_count :: "nat \<Rightarrow> u64 \<Rightarrow> u64 \<Rightarrow> u64 \<Rightarrow> u64 res" where
  "grow_pt_count 0 total_size pd_count pt_count = Inl Diverges"
| "grow_pt_count (Suc n) total_size pd_count pt_count =
     (if pt_count * PT_MEM_RANGE - total_size < (pt_count + pd_count) * PAGE_SIZE
      then grow_pt_count n total_size pd_count (pt_count + 1) else Inr pt_count)"

section \<open>Building the tables\<close>

definition kernel_pdp :: "'a paging_state_scheme \<Rightarrow> u64" where
  "kernel_pdp s = pdp (spaces s Kernel_Space)"

text \<open>An entry that points to a table or page, present and writable.\<close>

definition link_entry :: "u64 \<Rightarrow> u64 \<Rightarrow> u64" where
  "link_entry phys_addr =
     pe_set_write True \<circ> pe_set_present True \<circ> pe_set_phys_addr (drop_bit 12 phys_addr)"

text \<open>The loop over the page tables of one directory.\<close>

fun link_pts :: "u64 \<Rightarrow> nat \<Rightarrow> nat \<Rightarrow> u64 \<Rightarrow> ('a, u64) paging_op" where
  "link_pts d j 0 allocated_phys_addr s = Inr (allocated_phys_addr, s)"
| "link_pts d j (Suc n) allocated_phys_addr s =
     rbind (modify_entry d j (link_entry allocated_phys_addr) s) (\<lambda>s.
       link_pts d (j + 1) n (allocated_phys_addr + PAGE_SIZE) s)"

text \<open>The loop over the directories; \<open>curr_pt_count\<close> is the number of page tables left.\<close>

fun link_pds :: "nat \<Rightarrow> nat \<Rightarrow> u64 \<Rightarrow> u64 \<Rightarrow> ('a, u64) paging_op" where
  "link_pds i 0 curr_pt_count allocated_phys_addr s = Inr (allocated_phys_addr, s)"
| "link_pds i (Suc n) curr_pt_count allocated_phys_addr s =
     (let d = allocated_phys_addr; allocated_phys_addr = allocated_phys_addr + PAGE_SIZE in
      rbind (modify_entry (kernel_pdp s) i (link_entry d) s) (\<lambda>s.
      rbind (link_pts d 0 (unat (MIN_u64 curr_pt_count 512)) allocated_phys_addr s)
        (\<lambda>(allocated_phys_addr, s).
        link_pds (i + 1) n (curr_pt_count - 512) allocated_phys_addr s)))"

text \<open>\<open>MAP_PAGE\<close>: the tables are reached by their physical addresses.\<close>

definition map_page :: "u64 \<Rightarrow> u64 \<Rightarrow> bool \<Rightarrow> bool \<Rightarrow> 'a paging_act" where
  "map_page virt_addr frame writable executable s =
     rbind (load_entry (kernel_pdp s) (GET_LEVEL_INDEX virt_addr PDP) s) (\<lambda>e3.
     let d = push_bit 12 (pe_phys_addr e3) in
     rbind (load_entry d (GET_LEVEL_INDEX virt_addr PD) s) (\<lambda>e2.
     let t = push_bit 12 (pe_phys_addr e2) in
       modify_entry t (GET_LEVEL_INDEX virt_addr PT)
         (pe_set_execute_disable (\<not> executable \<and> g_paging_execute_disable s) \<circ> pe_set_write writable \<circ>
          pe_set_present True \<circ> pe_set_phys_addr frame) s))"

text \<open>\<open>virt_addr = current_address; current_address += PAGE_SIZE\<close>\<close>

definition next_kernel_page :: "'a paging_state_scheme \<Rightarrow> u64 \<times> 'a paging_state_scheme" where
  "next_kernel_page s =
     (current_address (spaces s Kernel_Space),
      update_space Kernel_Space (\<lambda>k. k\<lparr>current_address := current_address k + PAGE_SIZE\<rparr>) s)"

fun map_kernel :: "kernel_image \<Rightarrow> nat \<Rightarrow> u64 \<Rightarrow> u64 \<Rightarrow> 'a paging_act" where
  "map_kernel img 0 curr_phys_addr end_addr s = Inl Diverges"
| "map_kernel img (Suc n) curr_phys_addr end_addr s =
     (if curr_phys_addr = end_addr then Inr s
      else
        let (addr, s) = next_kernel_page s; virt_addr = SIGN_EXT_ADDR addr;
            is_data = bound_contains curr_phys_addr (data_start img) (data_end img);
            is_rodata = bound_contains curr_phys_addr (rodata_start img) (rodata_end img);
            frame = drop_bit 12 curr_phys_addr in
        rbind (if is_data then map_page virt_addr frame True False s
               else if is_rodata then map_page virt_addr frame False False s
               else map_page virt_addr frame True True s) (\<lambda>s.
          map_kernel img n (curr_phys_addr + PAGE_SIZE) end_addr s))"

fun map_entry_pages :: "nat \<Rightarrow> u64 \<Rightarrow> ('a, u64) paging_op" where
  "map_entry_pages 0 allocated_phys_addr s = Inr (allocated_phys_addr, s)"
| "map_entry_pages (Suc n) allocated_phys_addr s =
     rbind (map_page (current_address (spaces s Kernel_Space)) (drop_bit 12 allocated_phys_addr) True False s) (\<lambda>s.
       map_entry_pages n (allocated_phys_addr + PAGE_SIZE) (snd (next_kernel_page s)))"

fun fill_page_pool :: "'a node_getter \<Rightarrow> nat \<Rightarrow> u64 \<Rightarrow> ('a, u64) paging_op" where
  "fill_page_pool gme 0 allocated_phys_addr s = Inr (allocated_phys_addr, s)"
| "fill_page_pool gme (Suc n) allocated_phys_addr s =
     (let (addr, s) = next_kernel_page s; virt_addr = SIGN_EXT_ADDR addr in
      rbind (map_page virt_addr (drop_bit 12 allocated_phys_addr) True False s) (\<lambda>s.
      rbind (gme s) (\<lambda>(pool_entry, s).
      rbind (modify_node pool_entry (me_set_virt_addr (drop_bit 12 virt_addr) \<circ>
          me_set_phys_addr (drop_bit 12 allocated_phys_addr) \<circ> me_set_next (page_pool_head s)) s) (\<lambda>s.
        fill_page_pool gme n (allocated_phys_addr + PAGE_SIZE) (s\<lparr>page_pool_head := pool_entry\<rparr>)))))"

fun map_allocator_memory :: "nat \<Rightarrow> u64 \<Rightarrow> u64 \<Rightarrow> 'a paging_act" where
  "map_allocator_memory 0 curr_phys_addr end_addr s = Inl Diverges"
| "map_allocator_memory (Suc n) curr_phys_addr end_addr s =
     (if curr_phys_addr = end_addr then Inr s
      else
        let (addr, s) = next_kernel_page s in
        rbind (map_page (SIGN_EXT_ADDR addr) (drop_bit 12 curr_phys_addr) True False s) (\<lambda>s.
          map_allocator_memory n (curr_phys_addr + PAGE_SIZE) end_addr s))"

section \<open>Entering the tables into the list of mappings\<close>

definition enter_table :: "'a node_getter \<Rightarrow> nat \<Rightarrow> u64 \<Rightarrow> u64 \<Rightarrow> 'a paging_act" where
  "enter_table gme level frame virt_addr s =
     rbind (map_page virt_addr frame True False s) (\<lambda>s.
     rbind (gme s) (\<lambda>(entry, s).
     rbind (modify_node entry (me_set_virt_addr (drop_bit 12 virt_addr) \<circ> me_set_phys_addr frame \<circ>
         me_set_next (entry_maps (spaces s Kernel_Space) level)) s) (\<lambda>s.
       Inr (update_space Kernel_Space (\<lambda>k. k\<lparr>entry_maps := (entry_maps k)(level := entry)\<rparr>) s))))"

fun enter_pts :: "'a node_getter \<Rightarrow> u64 \<Rightarrow> nat \<Rightarrow> nat \<Rightarrow> 'a paging_act" where
  "enter_pts gme d j 0 s = Inr s"
| "enter_pts gme d j (Suc n) s =
     (let (virt_addr, s) = next_kernel_page s in
      rbind (load_entry d j s) (\<lambda>e.
      rbind (enter_table gme PT (pe_phys_addr e) virt_addr s) (\<lambda>s.
        enter_pts gme d (j + 1) n s)))"

fun enter_pds :: "'a node_getter \<Rightarrow> nat \<Rightarrow> nat \<Rightarrow> u64 \<Rightarrow> 'a paging_act" where
  "enter_pds gme i 0 curr_pt_count s = Inr s"
| "enter_pds gme i (Suc n) curr_pt_count s =
     (let (addr, s) = next_kernel_page s in
      rbind (load_entry (kernel_pdp s) i s) (\<lambda>e.
      rbind (enter_table gme PD (pe_phys_addr e) (SIGN_EXT_ADDR addr) s) (\<lambda>s.
      rbind (load_entry (kernel_pdp s) i s) (\<lambda>e.
      rbind (enter_pts gme (push_bit 12 (pe_phys_addr e)) 0 (unat (MIN_u64 curr_pt_count 512)) s) (\<lambda>s.
        enter_pds gme (i + 1) n (curr_pt_count - 512) s)))))"

definition enter_tables :: "'a node_getter \<Rightarrow> u64 \<Rightarrow> u64 \<Rightarrow> 'a paging_act" where
  "enter_tables gme pd_count pt_count s =
     (let (addr, s) = next_kernel_page s; virt_addr = SIGN_EXT_ADDR addr in
      rbind (map_page virt_addr (drop_bit 12 (kernel_pdp s)) True False s) (\<lambda>s.
        enter_pds gme 0 (unat pd_count) pt_count (update_space Kernel_Space (\<lambda>k. k\<lparr>pdp := virt_addr\<rparr>) s)))"

section \<open>initialize_paging\<close>

text \<open>The part before CR3 is loaded, from the zeroed pages on.\<close>

definition build_tables ::
    "(nat \<Rightarrow> u64) \<Rightarrow> u64 \<Rightarrow> u64 \<Rightarrow> u64 \<Rightarrow> u64 \<Rightarrow> ('a, u64) paging_op" where
  "build_tables uefi_pml4 pd_count pt_count pages_to_allocate allocated_phys_addr s =
     (let s = s\<lparr>tables := (\<lambda>f. if range_contains f allocated_phys_addr (pages_to_allocate * PAGE_SIZE)
                             then (\<lambda>_. 0) else tables s f),
               g_pml4 := (\<lambda>i. if i < 512 \<and> pe_present (uefi_pml4 i) then uefi_pml4 i else g_pml4 s i)\<rparr>;
          s = update_space Kernel_Space (\<lambda>k. k\<lparr>pdp := allocated_phys_addr\<rparr>) s;
          allocated_phys_addr = allocated_phys_addr + PAGE_SIZE in
      rbind (zero_page (kernel_pdp s) s) (\<lambda>s.
        link_pds 0 (unat pd_count) pt_count allocated_phys_addr
          (s\<lparr>g_pml4 := (g_pml4 s)(KERNEL_PML4_OFFSET := link_entry (kernel_pdp s) (g_pml4 s KERNEL_PML4_OFFSET))\<rparr>)))"

definition initialize_paging ::
    "'a node_getter \<Rightarrow> u32 \<Rightarrow> (nat \<Rightarrow> u64) \<Rightarrow> kernel_image \<Rightarrow> UEFIMemoryMap \<Rightarrow> u64 \<Rightarrow> u64 \<Rightarrow> ('a, u64) paging_op" where
  "initialize_paging gme cpuid_edx uefi_pml4 img memory_map kernel_phys_addr kernel_size s =
     (let s = s\<lparr>g_paging_execute_disable := bit cpuid_edx 20\<rparr>;
          ((fa_phys_addr, total_pages, entry_pool_pages, memory_map), s) = alloc_frame_allocator_memory memory_map s;
          frame_allocator_size = total_pages * PAGE_SIZE;
          starting_pool_size = PAGE_POOL_THRESHOLD * 2 * PAGE_SIZE;
          memory_entries_size = PAGE_SIZE;
          total_size = kernel_size + starting_pool_size + frame_allocator_size + memory_entries_size;
          pdp_count = 1 in
      rbind (grow_pd_count (Suc loop_fuel) total_size (MAX_u64 (total_size div PD_MEM_RANGE) 1)) (\<lambda>pd_count.
      rbind (grow_pt_count (Suc loop_fuel) total_size pd_count (MAX_u64 (total_size div PT_MEM_RANGE) 1)) (\<lambda>pt_count.
      let pages_to_allocate = pdp_count + pd_count + pt_count + (starting_pool_size + memory_entries_size) div PAGE_SIZE in
      rbind (kernel_assert (pages_to_allocate * PAGE_SIZE < get_memory_size s)
        ''Memory initialization requires more memory than we have'') (\<lambda>_.
      rbind (kernel_assert (pages_to_allocate * PAGE_SIZE < PDP_MEM_RANGE)
        ''Memory initialization requires more than 512GB'') (\<lambda>_.
      let (allocated_phys_addr, memory_map) = reserve_from_map pages_to_allocate memory_map in
      rbind (kernel_assert (allocated_phys_addr \<noteq> 0) ''Out of memory'') (\<lambda>_.
      rbind (build_tables uefi_pml4 pd_count pt_count pages_to_allocate allocated_phys_addr s)
        (\<lambda>(allocated_phys_addr, s).
      rbind (map_kernel img (Suc loop_fuel) kernel_phys_addr (kernel_phys_addr + kernel_size) s) (\<lambda>s.
      let memory_entries_virt_addr = SIGN_EXT_ADDR (current_address (spaces s Kernel_Space)) in
      rbind (map_entry_pages (unat (memory_entries_size div PAGE_SIZE)) allocated_phys_addr s)
        (\<lambda>(allocated_phys_addr, s).
      let s = s\<lparr>own_tables := True, tlb := Reload_cr3 # tlb s\<rparr> in
      rbind (fill_memory_entry_pool memory_entries_virt_addr (memory_entries_size div PAGE_SIZE) s) (\<lambda>s.
      rbind (fill_page_pool gme (unat (starting_pool_size div PAGE_SIZE)) allocated_phys_addr s)
        (\<lambda>(allocated_phys_addr, s).
      let s = s\<lparr>page_pool_count := page_pool_count s + starting_pool_size div PAGE_SIZE\<rparr>;
          frame_allocator_virt_addr = SIGN_EXT_ADDR (current_address (spaces s Kernel_Space)) in
      rbind (map_allocator_memory (Suc loop_fuel) fa_phys_addr (fa_phys_addr + frame_allocator_size) s) (\<lambda>s.
      rbind (enter_tables gme pd_count pt_count s) (\<lambda>s.
      let s = s\<lparr>tlb := Reload_cr3 # tlb s\<rparr> in
      rbind (initialize_frame_allocator gme frame_allocator_virt_addr total_pages memory_map entry_pool_pages s) (\<lambda>s.
        Inr (SIGN_EXT_ADDR KERNEL_OFFSET, s)))))))))))))))"

section \<open>initialize_memory\<close>

text \<open>The size of the memory, and the kernel's address and size, from the firmware's map.\<close>

fun scan_memory_map :: "UEFIMemoryMap \<Rightarrow> u64 \<Rightarrow> u64 \<Rightarrow> u64 \<Rightarrow> u64 \<times> u64 \<times> u64" where
  "scan_memory_map [] mem_size kernel_phys_addr kernel_size = (mem_size, kernel_phys_addr, kernel_size)"
| "scan_memory_map (desc # descs) mem_size kernel_phys_addr kernel_size =
     (let high_addr = physical_start desc + num_pages desc * PAGE_SIZE;
          mem_size = (if high_addr > mem_size then high_addr else mem_size) in
      if mtype desc = EfiLoaderCode
      then scan_memory_map descs mem_size (physical_start desc) (num_pages desc * PAGE_SIZE)
      else scan_memory_map descs mem_size kernel_phys_addr kernel_size)"

text \<open>
  The kernel's physical and virtual address; \<open>initialize_slab_allocator\<close>, which follows, is an
  argument.
\<close>

definition initialize_memory ::
    "'a node_getter \<Rightarrow> 'a paging_act \<Rightarrow> u32 \<Rightarrow> (nat \<Rightarrow> u64) \<Rightarrow> kernel_image \<Rightarrow> UEFIMemoryMap \<Rightarrow> u64
     \<Rightarrow> ('a, u64 \<times> u64) paging_op" where
  "initialize_memory gme initialize_slabs cpuid_edx uefi_pml4 img memory_map kernel_phys_addr s =
     (let (mem_size, kernel_phys_addr, kernel_size) = scan_memory_map memory_map (memory_size s) kernel_phys_addr 0;
          s = s\<lparr>memory_size := mem_size\<rparr> in
      rbind (kernel_assert (kernel_size \<noteq> 0) ''Could not find kernel address'') (\<lambda>_.
      rbind (initialize_paging gme cpuid_edx uefi_pml4 img memory_map kernel_phys_addr kernel_size s)
        (\<lambda>(kernel_virt_addr, s).
      rbind (initialize_slabs s) (\<lambda>s. Inr ((kernel_phys_addr, kernel_virt_addr), s)))))"

end
