(* ===== verification/Paging_Tables.thy ===== *)
theory Paging_Tables
  imports Paging_Init
begin

text \<open>
  The invariant of the kernel's page tables: each table the processor reaches is mapped in the
  kernel's range, and the kernel's lists (\<open>MappingEntry\<close>) name the address it is mapped at.
  Under it the kernel's walk through these lists agrees with the walk of the processor. Then
  the slots of the top table, which give a process its address space.
\<close>

declare One_nat_def [simp del]

section \<open>The kernel's tables\<close>

text \<open>The frame an entry points to, and the entries on the way of a kernel address.\<close>

definition table_frame :: "u64 \<Rightarrow> u64" where
  "table_frame e = push_bit 12 (pe_phys_addr e)"

definition kernel_va :: "u64 \<Rightarrow> bool" where
  "kernel_va va \<longleftrightarrow> GET_LEVEL_INDEX va 3 = KERNEL_PML4_OFFSET"

definition kernel_root :: "'a paging_state_scheme \<Rightarrow> u64" where
  "kernel_root s = table_frame (g_pml4 s KERNEL_PML4_OFFSET)"

definition pd_entry :: "'a paging_state_scheme \<Rightarrow> nat \<Rightarrow> u64" where
  "pd_entry s i = tables s (kernel_root s) i"

definition pt_entry :: "'a paging_state_scheme \<Rightarrow> nat \<Rightarrow> nat \<Rightarrow> u64" where
  "pt_entry s i j = tables s (table_frame (pd_entry s i)) j"

definition page_entry :: "'a paging_state_scheme \<Rightarrow> nat \<Rightarrow> nat \<Rightarrow> nat \<Rightarrow> u64" where
  "page_entry s i j k = tables s (table_frame (pt_entry s i j)) k"

text \<open>The kernel reaches the table an entry points to.\<close>

definition reaches :: "'a paging_state_scheme \<Rightarrow> nat \<Rightarrow> u64 \<Rightarrow> bool" where
  "reaches s level e \<longleftrightarrow> (\<exists>p. find_mapping (Suc loop_fuel) (pe_phys_addr e) (entry_maps (spaces s Kernel_Space) level) s = Inr p \<and>
     p \<noteq> 0 \<and> kernel_va p \<and> mmu s p = Some (table_frame e))"

definition unreached :: "'a paging_state_scheme \<Rightarrow> nat \<Rightarrow> u64 \<Rightarrow> bool" where
  "unreached s level e \<longleftrightarrow> find_mapping (Suc loop_fuel) (pe_phys_addr e) (entry_maps (spaces s Kernel_Space) level) s = Inr 0"

definition linked :: "'a paging_state_scheme \<Rightarrow> nat \<Rightarrow> u64 \<Rightarrow> bool" where
  "linked s level e \<longleftrightarrow> (if pe_present e then \<not> pe_large e \<and> reaches s level e else unreached s level e)"

definition kernel_tables :: "'a paging_state_scheme \<Rightarrow> bool" where
  "kernel_tables s \<longleftrightarrow> own_tables s \<and> pe_present (g_pml4 s KERNEL_PML4_OFFSET) \<and>
     pdp (spaces s Kernel_Space) \<noteq> 0 \<and> kernel_va (pdp (spaces s Kernel_Space)) \<and> mmu s (pdp (spaces s Kernel_Space)) = Some (kernel_root s) \<and>
     (\<forall>i < 512. linked s PD (pd_entry s i) \<and> (pe_present (pd_entry s i) \<longrightarrow> (\<forall>j < 512. linked s PT (pt_entry s i j))))"

abbreviation i3 :: "u64 \<Rightarrow> nat" where "i3 va \<equiv> GET_LEVEL_INDEX va 2"
abbreviation i2 :: "u64 \<Rightarrow> nat" where "i2 va \<equiv> GET_LEVEL_INDEX va 1"
abbreviation i1 :: "u64 \<Rightarrow> nat" where "i1 va \<equiv> GET_LEVEL_INDEX va 0"

definition walk_ok :: "'a paging_state_scheme \<Rightarrow> bool" where
  "walk_ok s \<longleftrightarrow> own_tables s \<and> pe_present (g_pml4 s KERNEL_PML4_OFFSET) \<and>
     (\<forall>i < 512. pe_present (pd_entry s i) \<longrightarrow> \<not> pe_large (pd_entry s i) \<and> (\<forall>j < 512. pe_present (pt_entry s i j) \<longrightarrow> \<not> pe_large (pt_entry s i j)))"

lemma kernel_tables_walk_ok: "kernel_tables s \<Longrightarrow> walk_ok s"
  by (auto simp: kernel_tables_def walk_ok_def linked_def)

lemma index_bounds [simp]: "i3 va < 512" "i2 va < 512" "i1 va < 512"
  by (simp_all add: GET_LEVEL_INDEX_bound)

lemma mmu_walk_ok:
  assumes "walk_ok s" "kernel_va va"
  shows "mmu s va =
    (if pe_present (pd_entry s (i3 va)) \<and> pe_present (pt_entry s (i3 va) (i2 va)) \<and> pe_present (page_entry s (i3 va) (i2 va) (i1 va))
     then Some (table_frame (page_entry s (i3 va) (i2 va) (i1 va)) OR take_bit 12 va) else None)"
proof -
  have "\<not> pe_large (pd_entry s (i3 va))" if "pe_present (pd_entry s (i3 va))"
    using assms(1) that by (simp add: walk_ok_def)
  moreover have "\<not> pe_large (pt_entry s (i3 va) (i2 va))" if "pe_present (pd_entry s (i3 va))" "pe_present (pt_entry s (i3 va) (i2 va))"
    using assms(1) that by (simp add: walk_ok_def)
  ultimately show ?thesis
    using assms unfolding mmu_def mmu_walk_def Let_def
    by (simp add: walk_ok_def kernel_va_def pd_entry_def pt_entry_def page_entry_def kernel_root_def table_frame_def)
qed

lemmas mmu_kernel = mmu_walk_ok [OF kernel_tables_walk_ok]

lemma load_entry_mmu: "p \<noteq> 0 \<Longrightarrow> mmu s p = Some f \<Longrightarrow> load_entry p i s = Inr (tables s f i)"
  by (simp add: load_entry_def)

lemma page_offset: "va AND 0xfff = take_bit 12 (va :: u64)"
proof -
  have "(0xfff :: u64) = mask 12"
    by (simp add: mask_eq_exp_minus_1)
  then show ?thesis
    by (simp only: take_bit_eq_mask)
qed

lemma virt_to_phys_mmu:
  assumes "kernel_tables s" "kernel_va va"
  shows "virt_to_phys_addr Kernel_Space va s = Inr (mmu s va)"
proof -
  have b: "i3 va < 512" "i2 va < 512"
    by (simp_all add: GET_LEVEL_INDEX_bound)
  let ?e3 = "pd_entry s (i3 va)" and ?e2 = "pt_entry s (i3 va) (i2 va)"
  have root: "load_entry (pdp (spaces s Kernel_Space)) (i3 va) s = Inr ?e3"
    using assms(1) by (simp add: kernel_tables_def load_entry_mmu pd_entry_def)
  show ?thesis
  proof (cases "pe_present ?e3")
    case False
    then have "unreached s PD ?e3"
      using assms(1) b by (simp add: kernel_tables_def linked_def)
    with False root show ?thesis
      by (simp add: virt_to_phys_addr_def get_page_entries_def unreached_def mmu_kernel [OF assms] del: find_mapping.simps)
  next
    case e3: True
    then have "reaches s PD ?e3"
      using assms(1) b by (simp add: kernel_tables_def linked_def)
    then obtain d where d: "find_mapping (Suc loop_fuel) (pe_phys_addr ?e3) (entry_maps (spaces s Kernel_Space) PD) s = Inr d" "d \<noteq> 0"
      "mmu s d = Some (table_frame ?e3)"
      by (auto simp: reaches_def)
    then have ld: "load_entry d (i2 va) s = Inr ?e2"
      by (simp add: load_entry_mmu pt_entry_def)
    show ?thesis
    proof (cases "pe_present ?e2")
      case False
      then have "unreached s PT ?e2"
        using assms(1) b e3 by (simp add: kernel_tables_def linked_def)
      with False root d ld show ?thesis
        by (simp add: virt_to_phys_addr_def get_page_entries_def unreached_def mmu_kernel [OF assms] del: find_mapping.simps)
    next
      case True
      then have "reaches s PT ?e2"
        using assms(1) b e3 by (simp add: kernel_tables_def linked_def)
      then obtain t where "find_mapping (Suc loop_fuel) (pe_phys_addr ?e2) (entry_maps (spaces s Kernel_Space) PT) s = Inr t" "t \<noteq> 0"
        "mmu s t = Some (table_frame ?e2)"
        by (auto simp: reaches_def)
      with True e3 root d ld show ?thesis
        by (simp add: virt_to_phys_addr_def get_page_entries_def mmu_kernel [OF assms] load_entry_mmu page_entry_def table_frame_def page_offset
            del: find_mapping.simps)
    qed
  qed
qed

section \<open>Address spaces\<close>

definition range_pages :: "u64 \<Rightarrow> u64 \<Rightarrow> nat" where
  "range_pages first last_addr = (unat last_addr - unat first + 4095) div 4096"

lemma invalidate_range_tlb:
  assumes "unat first + 4096 * range_pages first last_addr < 2 ^ 64" "range_pages first last_addr < n"
  shows "invalidate_range n first last_addr s = Inr (s\<lparr>tlb := rev (map (\<lambda>m. Invlpg (first + of_nat (4096 * m))) [0..<range_pages first last_addr]) @ tlb s\<rparr>)"
  using assms
proof (induction n arbitrary: first s)
  case 0
  then show ?case
    by simp
next
  case (Suc n)
  show ?case
  proof (cases "first < last_addr")
    case False
    then have "range_pages first last_addr = 0"
      by (simp add: range_pages_def word_less_nat_alt)
    with False show ?thesis
      by simp
  next
    case True
    then have less: "unat first < unat last_addr"
      by (simp add: word_less_nat_alt)
    then obtain m where m: "range_pages first last_addr = Suc m"
      unfolding range_pages_def by (cases "(unat last_addr - unat first + 4095) div 4096") (auto simp: div_eq_0_iff)
    have next_first: "unat (first + 4096) = unat first + 4096"
      using Suc.prems(1) m by (subst unat_add_u64) simp_all
    have "range_pages (first + 4096) last_addr = m"
    proof -
      have "(unat last_addr - unat first + 4095) div 4096 = Suc m"
        using m by (simp add: range_pages_def)
      then show ?thesis
        unfolding range_pages_def next_first using less
        by (cases "unat last_addr - unat first \<ge> 4096") (auto simp: div_eq_0_iff le_div_geq)
    qed
    note IH = Suc.IH [of "first + 4096", unfolded this next_first]
    have "[0..<Suc m] = 0 # map Suc [0..<m]"
      by (simp add: upt_conv_Cons map_Suc_upt del: upt_Suc)
    with True m IH Suc.prems show ?thesis
      by (simp add: PAGE_SIZE_def invlpg_def comp_def add.assoc del: upt_Suc)
  qed
qed

lemma mmu_walk_root:
  assumes "pe_present (root (GET_LEVEL_INDEX va 3)) = pe_present (root' (GET_LEVEL_INDEX va 3))"
    and "pe_phys_addr (root (GET_LEVEL_INDEX va 3)) = pe_phys_addr (root' (GET_LEVEL_INDEX va 3))"
  shows "mmu_walk root tabs va = mmu_walk root' tabs va"
  using assms by (simp add: mmu_walk_def Let_def)


definition set_slot :: "nat \<Rightarrow> u64 \<Rightarrow> tlb_event list \<Rightarrow> 'a paging_state_scheme \<Rightarrow> 'a paging_state_scheme" where
  "set_slot i e events s = s\<lparr>g_pml4 := (g_pml4 s)(i := e), tlb := events @ tlb s\<rparr>"

lemma set_slot_simps [simp]:
  "g_pml4 (set_slot i e events s) = (g_pml4 s)(i := e)" "tables (set_slot i e events s) = tables s"
  "spaces (set_slot i e events s) = spaces s" "own_tables (set_slot i e events s) = own_tables s"
  "tlb (set_slot i e events s) = events @ tlb s"
  by (simp_all add: set_slot_def)

lemma set_slot_find [simp]: "find_mapping n phys m (set_slot i e events s) = find_mapping n phys m s"
  by (induction n phys m s rule: find_mapping.induct) (simp_all add: deref_def set_slot_def)

lemma set_slot_mmu:
  assumes "own_tables s"
  shows "GET_LEVEL_INDEX x 3 \<noteq> i \<Longrightarrow> mmu (set_slot i e events s) x = mmu s x"
    and "GET_LEVEL_INDEX x 3 = i \<Longrightarrow> mmu (set_slot i e events s) x = mmu_walk (\<lambda>_. e) (tables s) x"
  using assms by (auto simp: mmu_def intro: mmu_walk_root)

lemma set_slot_kernel_tables:
  assumes "kernel_tables s" "i \<noteq> KERNEL_PML4_OFFSET"
  shows "kernel_tables (set_slot i e events s)"
proof -
  have own: "own_tables s"
    using assms(1) by (simp add: kernel_tables_def)
  have root: "kernel_root (set_slot i e events s) = kernel_root s"
    using assms(2) by (simp add: kernel_root_def)
  then have entries: "pd_entry (set_slot i e events s) = pd_entry s" "pt_entry (set_slot i e events s) = pt_entry s"
    by (intro ext, simp add: pd_entry_def pt_entry_def)+
  have mmu: "mmu (set_slot i e events s) x = mmu s x" if "kernel_va x" for x
    using that assms(2) set_slot_mmu(1) [OF own] by (simp add: kernel_va_def)
  have "linked (set_slot i e events s) level v = linked s level v" for level v
    unfolding linked_def reaches_def unreached_def set_slot_find set_slot_simps by (simp add: mmu cong: conj_cong del: find_mapping.simps)
  then show ?thesis
    using assms mmu unfolding kernel_tables_def entries root by simp
qed

lemma mmu_walk_absent: "\<not> pe_present e \<Longrightarrow> mmu_walk (\<lambda>_. e) tabs x = None"
  by (simp add: mmu_walk_def)

definition slot_events :: "AddressSpace \<Rightarrow> tlb_event list" where
  "slot_events k = (let first = of_nat (pdp_index k) * PDP_MEM_RANGE in
     rev (map (\<lambda>m. Invlpg (first + of_nat (4096 * m))) [0..<range_pages first (current_address k)]))"

lemma invalidate_slot:
  assumes "pdp_index k < KERNEL_PML4_OFFSET" "current_address k \<le> of_nat (pdp_index k + 1) * PDP_MEM_RANGE"
  shows "invalidate_range (Suc loop_fuel) (of_nat (pdp_index k) * PDP_MEM_RANGE) (current_address k) (s\<lparr>g_pml4 := (g_pml4 s)(pdp_index k := e)\<rparr>) =
    Inr (set_slot (pdp_index k) e (slot_events k) s)"
proof -
  have start: "unat (of_nat i * PDP_MEM_RANGE :: u64) = i * 2 ^ 39" if "i \<le> 480" for i
  proof -
    have "unat (of_nat i :: u64) = i"
      using that by (intro unat_of_nat_u64) simp
    then show ?thesis
      using that by (simp add: unat_mult_lem [THEN iffD1])
  qed
  let ?first = "of_nat (pdp_index k) * PDP_MEM_RANGE"
  have first: "unat ?first = pdp_index k * 2 ^ 39" "pdp_index k < 480"
    using assms(1) start [of "pdp_index k"] by (simp_all add: KERNEL_PML4_OFFSET_def)
  have "unat (current_address k) \<le> (pdp_index k + 1) * 2 ^ 39"
    using assms start [of "pdp_index k + 1"] by (simp only: word_le_nat_alt KERNEL_PML4_OFFSET_def)
  then have "unat (current_address k) - unat ?first \<le> 2 ^ 39"
    unfolding first(1) by (simp add: algebra_simps)
  then have pages: "range_pages ?first (current_address k) \<le> 2 ^ 27"
    unfolding range_pages_def by (simp add: less_mult_imp_div_less div_le_mono [of _ "2 ^ 39 + 4095" 4096, simplified])
  then have "unat ?first + 4096 * range_pages ?first (current_address k) < 2 ^ 64"
    using first by simp
  moreover have "range_pages ?first (current_address k) < Suc loop_fuel"
    using pages by (simp add: loop_fuel_def)
  ultimately show ?thesis
    by (simp only: invalidate_range_tlb) (simp add: set_slot_def slot_events_def Let_def)
qed

definition own_slot :: "u64 \<Rightarrow> u64" where
  "own_slot frame = pe_set_phys_addr (drop_bit 12 frame) (pe_set_present True 0)"

end
