(* ===== verification/Paging_Mapping.thy ===== *)
theory Paging_Mapping
  imports Paging_Tables Memory
begin

text \<open>
  Mapping pages whose page tables exist: the step of the mapping loop writes one entry and keeps
  the invariant, the loop maps a range, and an address of the range is translated by its offset.
\<close>

section \<open>Mapping a page\<close>

definition tables_apart :: "'a paging_state_scheme \<Rightarrow> bool" where
  "tables_apart s \<longleftrightarrow> (\<forall>i < 512. \<forall>j < 512. pe_present (pd_entry s i) \<and> pe_present (pt_entry s i j) \<longrightarrow>
     table_frame (pt_entry s i j) \<noteq> kernel_root s \<and>
     (\<forall>i' < 512. pe_present (pd_entry s i') \<longrightarrow> table_frame (pt_entry s i j) \<noteq> table_frame (pd_entry s i') \<and>
       (\<forall>j' < 512. pe_present (pt_entry s i' j') \<longrightarrow> table_frame (pt_entry s i j) = table_frame (pt_entry s i' j') \<longrightarrow> i = i' \<and> j = j')))"

definition set_page :: "nat \<Rightarrow> nat \<Rightarrow> nat \<Rightarrow> u64 \<Rightarrow> 'a paging_state_scheme \<Rightarrow> 'a paging_state_scheme" where
  "set_page i j k v s = (let t = table_frame (pt_entry s i j) in s\<lparr>tables := (tables s)(t := (tables s t)(k := v))\<rparr>)"

lemma find_mapping_tables [simp]:
  "find_mapping n phys m (s\<lparr>tables := t\<rparr>) = find_mapping n phys m s"
  "find_mapping n phys m (s\<lparr>tlb := l\<rparr>) = find_mapping n phys m s"
  by (induction n phys m s rule: find_mapping.induct) (simp_all add: deref_def)

text \<open>An entry of a page table that exists.\<close>

definition page_slot :: "'a paging_state_scheme \<Rightarrow> nat \<Rightarrow> nat \<Rightarrow> nat \<Rightarrow> bool" where
  "page_slot s i j k \<longleftrightarrow> kernel_tables s \<and> tables_apart s \<and> i < 512 \<and> j < 512 \<and> k < 512 \<and>
     pe_present (pd_entry s i) \<and> pe_present (pt_entry s i j)"

lemma page_slotD:
  assumes "page_slot s i j k"
  shows "kernel_tables s" "tables_apart s" "i < 512" "j < 512" "k < 512" "pe_present (pd_entry s i)" "pe_present (pt_entry s i j)"
  using assms by (simp_all add: page_slot_def)

lemma set_page_simps:
  assumes "page_slot s i j k"
  shows "kernel_root (set_page i j k v s) = kernel_root s"
    and "g_pml4 (set_page i j k v s) = g_pml4 s"
    and "own_tables (set_page i j k v s) = own_tables s"
    and "spaces (set_page i j k v s) = spaces s"
    and "pd_entry (set_page i j k v s) i' = pd_entry s i'"
proof -
  show root: "kernel_root (set_page i j k v s) = kernel_root s"
    by (simp add: kernel_root_def set_page_def Let_def)
  have "table_frame (pt_entry s i j) \<noteq> kernel_root s"
    using page_slotD [OF assms] by (simp add: tables_apart_def)
  then show "pd_entry (set_page i j k v s) i' = pd_entry s i'"
    unfolding pd_entry_def root by (simp add: set_page_def Let_def)
qed (simp_all add: set_page_def Let_def)

lemma set_page_pt_entry:
  assumes "page_slot s i j k" "i' < 512" "pe_present (pd_entry s i')"
  shows "pt_entry (set_page i j k v s) i' j' = pt_entry s i' j'"
proof -
  have "table_frame (pt_entry s i j) \<noteq> table_frame (pd_entry s i')"
    using page_slotD [OF assms(1)] assms(2,3) by (simp add: tables_apart_def)
  then have "tables (set_page i j k v s) (table_frame (pd_entry s i')) = tables s (table_frame (pd_entry s i'))"
    by (simp add: set_page_def Let_def)
  then show ?thesis
    by (simp only: pt_entry_def set_page_simps(5) [OF assms(1)])
qed

lemma set_page_page_entry:
  assumes "page_slot s i j k" "i' < 512" "pe_present (pd_entry s i')" "j' < 512" "pe_present (pt_entry s i' j')"
  shows "page_entry (set_page i j k v s) i' j' k' = (if i' = i \<and> j' = j \<and> k' = k then v else page_entry s i' j' k')"
proof -
  have "i = i' \<and> j = j'" if "table_frame (pt_entry s i j) = table_frame (pt_entry s i' j')"
    using page_slotD [OF assms(1)] assms(2-5) that unfolding tables_apart_def by blast
  then show ?thesis
    unfolding page_entry_def set_page_pt_entry [OF assms(1-3)] by (auto simp: set_page_def Let_def)
qed

lemmas set_page_entries = set_page_simps set_page_pt_entry set_page_page_entry

lemma set_page_walk_ok: "page_slot s i j k \<Longrightarrow> walk_ok (set_page i j k v s)"
  using kernel_tables_walk_ok [OF page_slotD(1)] unfolding walk_ok_def by (simp add: set_page_entries)

lemma set_page_mmu:
  assumes "page_slot s i j k" "kernel_va va"
  shows "mmu (set_page i j k v s) va =
    (if i3 va = i \<and> i2 va = j \<and> i1 va = k then (if pe_present v then Some (table_frame v OR take_bit 12 va) else None) else mmu s va)"
  using page_slotD [OF assms(1)]
  by (cases "i3 va = i \<and> i2 va = j \<and> i1 va = k")
    (simp_all add: mmu_walk_ok [OF set_page_walk_ok [OF assms(1)] assms(2)] mmu_kernel [OF page_slotD(1) [OF assms(1)] assms(2)]
      set_page_entries [OF assms(1)] cong: conj_cong)

lemma set_page_keeps:
  assumes "page_slot s i j k" "\<not> pe_present (page_entry s i j k)" "kernel_va p" "mmu s p = Some f"
  shows "mmu (set_page i j k v s) p = Some f"
  using assms by (auto simp: set_page_mmu mmu_kernel [OF page_slotD(1)] split: if_splits)

lemma set_page_linked:
  assumes "page_slot s i j k" "\<not> pe_present (page_entry s i j k)" "linked s level e"
  shows "linked (set_page i j k v s) level e"
proof -
  have "reaches s level e \<Longrightarrow> reaches (set_page i j k v s) level e"
    unfolding reaches_def set_page_simps [OF assms(1)] using set_page_keeps [OF assms(1,2)]
    by (force simp: set_page_def Let_def simp del: find_mapping.simps)
  moreover have "unreached s level e \<Longrightarrow> unreached (set_page i j k v s) level e"
    unfolding unreached_def set_page_simps [OF assms(1)] by (simp add: set_page_def Let_def del: find_mapping.simps)
  ultimately show ?thesis
    using assms(3) by (simp add: linked_def)
qed

lemma set_page_invariant:
  assumes slot: "page_slot s i j k" and free: "\<not> pe_present (page_entry s i j k)"
  shows "kernel_tables (set_page i j k v s)" and "tables_apart (set_page i j k v s)"
proof -
  show "kernel_tables (set_page i j k v s)"
    using page_slotD(1) [OF slot] set_page_keeps [OF slot free] set_page_linked [OF slot free] unfolding kernel_tables_def
    by (simp add: set_page_entries [OF slot])
  show "tables_apart (set_page i j k v s)"
    using page_slotD(2) [OF slot] unfolding tables_apart_def by (simp add: set_page_entries [OF slot] cong: conj_cong)
qed

section \<open>Pointers to tables\<close>

text \<open>The virtual addresses through which the kernel reaches its tables.\<close>

definition table_pointer :: "'a paging_state_scheme \<Rightarrow> u64 \<Rightarrow> bool" where
  "table_pointer s p \<longleftrightarrow> p = pdp (spaces s Kernel_Space) \<or>
     (\<exists>i < 512. pe_present (pd_entry s i) \<and> (find_mapping (Suc loop_fuel) (pe_phys_addr (pd_entry s i)) (entry_maps (spaces s Kernel_Space) PD) s = Inr p \<or>
       (\<exists>j < 512. pe_present (pt_entry s i j) \<and>
         find_mapping (Suc loop_fuel) (pe_phys_addr (pt_entry s i j)) (entry_maps (spaces s Kernel_Space) PT) s = Inr p)))"

lemma find_mapping_set_page [simp]: "find_mapping n phys m (set_page i j k v s) = find_mapping n phys m s"
  by (simp add: set_page_def Let_def)

lemma table_pointer_set_page:
  assumes "page_slot s i j k"
  shows "table_pointer (set_page i j k v s) p = table_pointer s p"
  unfolding table_pointer_def by (simp add: set_page_entries [OF assms] cong: conj_cong del: find_mapping.simps)

text \<open>An entry through which no table is reached can be written whatever it held.\<close>

lemma set_page_unused_invariant:
  assumes slot: "page_slot s i j k" and unused: "\<And>p. table_pointer s p \<Longrightarrow> \<not> (i3 p = i \<and> i2 p = j \<and> i1 p = k)"
  shows "kernel_tables (set_page i j k v s)" and "tables_apart (set_page i j k v s)"
proof -
  have keep: "mmu (set_page i j k v s) p = mmu s p" if "table_pointer s p" "kernel_va p" for p
    using unused [OF that(1)] by (auto simp: set_page_mmu [OF slot that(2)])
  have linked: "linked (set_page i j k v s) level e"
    if "linked s level e" "pe_present e \<Longrightarrow> \<forall>p. find_mapping (Suc loop_fuel) (pe_phys_addr e) (entry_maps (spaces s Kernel_Space) level) s = Inr p \<longrightarrow> table_pointer s p" for level e
    using that keep unfolding linked_def reaches_def unreached_def find_mapping_set_page set_page_simps [OF slot] by (auto split: if_splits)
  have pd: "linked (set_page i j k v s) PD (pd_entry s i')" if "i' < 512" for i'
    using page_slotD(1) [OF slot] that by (intro linked) (auto simp: kernel_tables_def table_pointer_def simp del: find_mapping.simps)
  have pt: "linked (set_page i j k v s) PT (pt_entry s i' j')" if "i' < 512" "pe_present (pd_entry s i')" "j' < 512" for i' j'
    using page_slotD(1) [OF slot] that by (intro linked) (auto simp: kernel_tables_def table_pointer_def simp del: find_mapping.simps)
  have "table_pointer s (pdp (spaces s Kernel_Space))"
    by (simp add: table_pointer_def)
  then show "kernel_tables (set_page i j k v s)"
    using page_slotD(1) [OF slot] keep pd pt unfolding kernel_tables_def by (simp add: set_page_entries [OF slot])
  show "tables_apart (set_page i j k v s)"
    using page_slotD(2) [OF slot] unfolding tables_apart_def by (simp add: set_page_entries [OF slot] cong: conj_cong)
qed

section \<open>Locations\<close>

definition points_to :: "'a paging_state_scheme \<Rightarrow> u64 \<Rightarrow> u64 \<Rightarrow> bool" where
  "points_to s p e \<longleftrightarrow> p \<noteq> 0 \<and> kernel_va p \<and> mmu s p = Some (table_frame e) \<and> table_pointer s p"

definition has_page_table :: "'a paging_state_scheme \<Rightarrow> u64 \<Rightarrow> bool" where
  "has_page_table s va \<longleftrightarrow> kernel_va va \<and> pe_present (pd_entry s (i3 va)) \<and> pe_present (pt_entry s (i3 va) (i2 va))"

definition location_for :: "'a paging_state_scheme \<Rightarrow> u64 \<Rightarrow> PageTableLocation \<Rightarrow> bool" where
  "location_for s va loc \<longleftrightarrow> has_page_table s va \<and> pd_index loc = i3 va \<and> pt_index loc = i2 va \<and>
     points_to s (pd loc) (pd_entry s (i3 va)) \<and> points_to s (pt loc) (pt_entry s (i3 va) (i2 va))"

lemma reach_pd:
  assumes "kernel_tables s" "i < 512" "pe_present (pd_entry s i)"
  shows "\<exists>d. reach_entries gme kmap kmap_phys alloc_entries Kernel_Space (pdp (spaces s Kernel_Space)) i PD s = Inr (d, s) \<and>
    points_to s d (pd_entry s i)"
proof -
  have load: "load_entry (pdp (spaces s Kernel_Space)) i s = Inr (pd_entry s i)"
    using assms(1) by (simp add: kernel_tables_def load_entry_mmu pd_entry_def)
  have "reaches s PD (pd_entry s i)"
    using assms by (simp add: kernel_tables_def linked_def)
  then show ?thesis
    using assms(2,3) load
    by (auto simp: reaches_def points_to_def table_pointer_def reach_entries_def get_or_alloc_page_entries_def get_page_entries_def simp del: find_mapping.simps)
qed

lemma reach_pt:
  assumes "kernel_tables s" "i < 512" "pe_present (pd_entry s i)" "j < 512" "pe_present (pt_entry s i j)" "points_to s d (pd_entry s i)"
  shows "\<exists>t. reach_entries gme kmap kmap_phys alloc_entries Kernel_Space d j PT s = Inr (t, s) \<and> points_to s t (pt_entry s i j)"
proof -
  have load: "load_entry d j s = Inr (pt_entry s i j)"
    using assms(6) by (simp add: points_to_def load_entry_mmu pt_entry_def)
  have "reaches s PT (pt_entry s i j)"
    using assms by (simp add: kernel_tables_def linked_def)
  then show ?thesis
    using assms(2-5) load
    by (auto simp: reaches_def points_to_def table_pointer_def reach_entries_def get_or_alloc_page_entries_def get_page_entries_def simp del: find_mapping.simps)
qed

lemma populate_location:
  assumes "kernel_tables s" "has_page_table s va"
  shows "\<exists>loc. populate_page_table_location gme kmap kmap_phys Kernel_Space va alloc_entries s = Inr (loc, s) \<and> location_for s va loc"
proof -
  obtain d where d: "reach_entries gme kmap kmap_phys alloc_entries Kernel_Space (pdp (spaces s Kernel_Space)) (i3 va) PD s = Inr (d, s)"
    "points_to s d (pd_entry s (i3 va))"
    using reach_pd [OF assms(1)] assms(2) unfolding has_page_table_def by (metis index_bounds(1))
  obtain t where t: "reach_entries gme kmap kmap_phys alloc_entries Kernel_Space d (i2 va) PT s = Inr (t, s)"
    "points_to s t (pt_entry s (i3 va) (i2 va))"
    using reach_pt [OF assms(1) _ _ _ _ d(2)] assms(2) unfolding has_page_table_def by (metis index_bounds(1,2))
  show ?thesis
    using d t assms(2) by (simp add: populate_page_table_location_def location_for_def Let_def)
qed

lemma carry_mod:
  fixes n m b :: nat
  assumes "(n + m) div b \<noteq> n div b" "0 < b" "m \<le> b"
  shows "(n + m) mod b < m"
proof -
  define q r where "q = n div b" and "r = n mod b"
  have n: "n = b * q + r" "r < b"
    using assms(2) by (simp_all add: q_def r_def)
  have "\<not> r + m < b"
  proof
    assume "r + m < b"
    then have "(b * q + (r + m)) div b = q"
      using assms(2) by simp
    moreover have "n + m = b * q + (r + m)"
      using n(1) by simp
    ultimately show False
      using assms(1) by (simp only: q_def)
  qed
  then have "n + m = b * (q + 1) + (r + m - b)" "r + m - b < b"
    using n assms(3) by (auto simp: algebra_simps)
  then have "(n + m) mod b = r + m - b"
    by (metis mod_less mod_mult_self4 mult.commute)
  with n(2) assms(3) \<open>\<not> r + m < b\<close> show ?thesis
    by linarith
qed

lemma next_page_index:
  assumes "unat va + 4096 < 2 ^ 64" "i3 (va + 4096) \<noteq> i3 va"
  shows "i2 (va + 4096) = 0"
proof -
  have u: "unat (va + 4096) = unat va + 4096"
    using assms(1) by (subst unat_add_u64) simp_all
  define n where "n = unat va"
  have "(n + 4096) div 2 ^ 30 mod 512 \<noteq> n div 2 ^ 30 mod 512"
    using assms(2) by (simp add: GET_LEVEL_INDEX_eq u n_def)
  then have "(n + 4096) div 2 ^ 30 \<noteq> n div 2 ^ 30"
    by auto
  then have "(n + 4096) mod 2 ^ 30 < 4096"
    by (rule carry_mod) simp_all
  moreover define q where "q = (n + 4096) div 2 ^ 21 mod 2 ^ 9"
  moreover have "(n + 4096) mod (2 ^ 21 * 2 ^ 9) = 2 ^ 21 * q + (n + 4096) mod 2 ^ 21"
    unfolding q_def by (rule mod_mult2_eq)
  ultimately have "2 ^ 21 * q < 4096"
    by simp
  then have "(n + 4096) div 2 ^ 21 mod 2 ^ 9 = 0"
    by (simp add: q_def)
  then show ?thesis
    by (simp add: GET_LEVEL_INDEX_eq u n_def)
qed

lemma points_to_nonzero: "points_to s p e \<Longrightarrow> p \<noteq> 0"
  by (simp add: points_to_def)

lemma traverse_location:
  assumes ok: "kernel_tables s" and loc: "location_for s prev loc" and pt: "has_page_table s va"
    and near: "va = prev \<or> va = prev + 4096 \<and> unat prev + 4096 < 2 ^ 64"
  shows "\<exists>loc'. page_table_traversal_helper gme kmap kmap_phys Kernel_Space va loc alloc_entries s = Inr (loc', s) \<and> location_for s va loc'"
proof -
  have present: "pe_present (pd_entry s (i3 va))" "pe_present (pt_entry s (i3 va) (i2 va))"
    using pt by (simp_all add: has_page_table_def)
  consider (pd) "i3 va \<noteq> i3 prev" | (pt) "i3 va = i3 prev" "i2 va \<noteq> i2 prev" | (same) "i3 va = i3 prev" "i2 va = i2 prev"
    by blast
  then show ?thesis
  proof cases
    case pd
    then have zero: "i2 va = 0"
      using near next_page_index [of prev] by auto
    obtain d where d: "reach_entries gme kmap kmap_phys alloc_entries Kernel_Space (pdp (spaces s Kernel_Space)) (i3 va) PD s = Inr (d, s)"
      "points_to s d (pd_entry s (i3 va))"
      using reach_pd [OF ok _ present(1)] by (metis index_bounds(1))
    obtain t where t: "reach_entries gme kmap kmap_phys alloc_entries Kernel_Space d 0 PT s = Inr (t, s)"
      "points_to s t (pt_entry s (i3 va) 0)"
      using reach_pt [OF ok _ present(1) _ present(2) d(2)] zero by (metis index_bounds(1,2))
    show ?thesis
      using pd loc zero d t assms(3) points_to_nonzero [OF d(2)] points_to_nonzero [OF t(2)]
      by (simp add: page_table_traversal_helper_def location_for_def Let_def)
  next
    case pt
    then obtain t where t: "reach_entries gme kmap kmap_phys alloc_entries Kernel_Space (pd loc) (i2 va) PT s = Inr (t, s)"
      "points_to s t (pt_entry s (i3 va) (i2 va))"
      using reach_pt [OF ok _ present(1) _ present(2)] loc unfolding location_for_def by (metis index_bounds(1,2))
    show ?thesis
      using pt loc t assms(3) points_to_nonzero [OF t(2)] by (simp add: page_table_traversal_helper_def location_for_def Let_def)
  next
    case same
    then show ?thesis
      using loc assms(3) by (simp add: page_table_traversal_helper_def location_for_def Let_def)
  qed
qed

lemma has_page_table_slot:
  "kernel_tables s \<Longrightarrow> tables_apart s \<Longrightarrow> has_page_table s va \<Longrightarrow> page_slot s (i3 va) (i2 va) (i1 va)"
  by (simp add: has_page_table_def page_slot_def)

lemma modify_entry_slot:
  assumes "points_to s t (pt_entry s i j)"
  shows "modify_entry t k g s = Inr (set_page i j k (g (page_entry s i j k)) s)"
  using assms by (simp add: points_to_def modify_entry_def set_page_def page_entry_def Let_def)

text \<open>The invalidations do not touch the tables.\<close>

lemma invlpg_simps [simp]:
  "mmu (invlpg va s) x = mmu s x" "spaces (invlpg va s) = spaces s" "tables (invlpg va s) = tables s" "g_pml4 (invlpg va s) = g_pml4 s"
  "tlb (invlpg va s) = Invlpg va # tlb s" "g_paging_execute_disable (invlpg va s) = g_paging_execute_disable s"
  "kernel_root (invlpg va s) = kernel_root s" "pd_entry (invlpg va s) i = pd_entry s i" "pt_entry (invlpg va s) i j = pt_entry s i j"
  "page_entry (invlpg va s) i j k = page_entry s i j k"
  by (simp_all add: invlpg_def mmu_def kernel_root_def pd_entry_def pt_entry_def page_entry_def)

lemma invlpg_invariant [simp]:
  "kernel_tables (invlpg va s) = kernel_tables s" "tables_apart (invlpg va s) = tables_apart s" "location_for (invlpg va s) x loc = location_for s x loc"
  "has_page_table (invlpg va s) x = has_page_table s x" "table_pointer (invlpg va s) x = table_pointer s x"
  by (simp_all add: kernel_tables_def tables_apart_def location_for_def points_to_def table_pointer_def has_page_table_def linked_def reaches_def unreached_def
      invlpg_def mmu_def kernel_root_def pd_entry_def pt_entry_def page_entry_def del: find_mapping.simps)

definition map_entry :: "bool \<Rightarrow> u8 \<Rightarrow> u32 \<Rightarrow> u64 \<Rightarrow> u64 \<Rightarrow> u64" where
  "map_entry nx p flags phys = pe_set_user (p = 3) \<circ> pe_set_prot p \<circ> set_flags nx flags \<circ> pe_set_present True \<circ> pe_set_phys_addr (drop_bit 12 phys)"

definition map_one :: "u32 \<Rightarrow> u64 \<Rightarrow> u64 \<Rightarrow> 'a paging_state_scheme \<Rightarrow> 'a paging_state_scheme" where
  "map_one flags va phys s = invlpg va (set_page (i3 va) (i2 va) (i1 va)
     (map_entry (g_paging_execute_disable s) (prot (spaces s Kernel_Space)) flags phys (page_entry s (i3 va) (i2 va) (i1 va))) s)"

lemma map_range_helper_step:
  assumes "kernel_tables s" "location_for s prev loc" "has_page_table s va"
    and "va = prev \<or> va = prev + 4096 \<and> unat prev + 4096 < 2 ^ 64"
  shows "\<exists>loc'. map_range_helper gme kmap kmap_phys Kernel_Space va phys (Suc n) flags loc s =
      map_range_helper gme kmap kmap_phys Kernel_Space (va + 4096) (phys + 4096) n flags loc' (map_one flags va phys s) \<and> location_for s va loc'"
proof -
  obtain loc' where loc': "page_table_traversal_helper gme kmap kmap_phys Kernel_Space va loc True s = Inr (loc', s)" "location_for s va loc'"
    using traverse_location [OF assms] by blast
  then have "points_to s (pt loc') (pt_entry s (i3 va) (i2 va))"
    by (simp add: location_for_def)
  note mod = modify_entry_slot [OF this]
  show ?thesis
    using loc' by (intro exI [of _ loc']) (simp add: mod map_one_def map_entry_def PAGE_SIZE_def Let_def)
qed

lemma map_entry_present [simp]: "pe_present (map_entry nx p flags phys e)"
  by (simp add: map_entry_def set_flags_def)

lemma map_entry_frame:
  assumes "phys AND 0xfff = 0" "unat phys < 2 ^ 52"
  shows "table_frame (map_entry nx p flags phys e) = phys"
proof -
  have low: "\<not> bit phys n" if "n < 12" for n
  proof -
    have "\<not> bit (take_bit 12 phys) n"
      using assms(1) by (simp add: page_offset)
    then show ?thesis
      using that by (simp add: bit_take_bit_iff)
  qed
  have high: "\<not> bit phys n" if "52 \<le> n" for n
  proof -
    have "take_bit 52 phys = phys"
      using assms(2) by (rule take_bit_word_eq)
    then show ?thesis
      using that by (metis bit_take_bit_iff not_le)
  qed
  have frame: "table_frame (map_entry nx p flags phys e) = push_bit 12 (take_bit 40 (drop_bit 12 phys))"
    by (simp add: table_frame_def map_entry_def set_flags_def)
  show ?thesis
    unfolding frame
  proof (rule bit_word_eqI)
    fix n assume "n < LENGTH(64)"
    show "bit (push_bit 12 (take_bit 40 (drop_bit 12 phys))) n = bit phys n"
      using low [of n] high [of n] \<open>n < LENGTH(64)\<close> by (cases "12 \<le> n"; cases "n < 52") (auto simp: bit_simps)
  qed
qed

section \<open>Mapping a range\<close>

text \<open>A kernel page that has a page table and is not mapped, and the effect of mapping it.\<close>

definition free_page :: "'a paging_state_scheme \<Rightarrow> u64 \<Rightarrow> bool" where
  "free_page s va \<longleftrightarrow> has_page_table s va \<and> \<not> pe_present (page_entry s (i3 va) (i2 va) (i1 va))"

definition same_page :: "u64 \<Rightarrow> u64 \<Rightarrow> bool" where
  "same_page x va \<longleftrightarrow> i3 x = i3 va \<and> i2 x = i2 va \<and> i1 x = i1 va"

text \<open>A page that can be unmapped again: it has an entry, and no table is reached through it.\<close>

definition plain_page :: "'a paging_state_scheme \<Rightarrow> u64 \<Rightarrow> bool" where
  "plain_page s va \<longleftrightarrow> has_page_table s va \<and> (\<forall>p. table_pointer s p \<longrightarrow> \<not> same_page p va)"

text \<open>Nothing but entries of tables and the log of invalidations has changed.\<close>

definition only_tables :: "'a paging_state_scheme \<Rightarrow> 'a paging_state_scheme \<Rightarrow> bool" where
  "only_tables s s' \<longleftrightarrow> (\<exists>tb l. s' = s\<lparr>tables := tb, tlb := l\<rparr>)"

lemma only_tables_refl: "only_tables s s"
  unfolding only_tables_def by (intro exI [of _ "tables s"] exI [of _ "tlb s"]) simp

lemma only_tables_trans: "only_tables s s' \<Longrightarrow> only_tables s' s'' \<Longrightarrow> only_tables s s''"
  unfolding only_tables_def by (elim exE) (rule exI, rule exI, simp)

lemma only_tablesD:
  assumes "only_tables s s'"
  shows "nodes s' = nodes s" "pool_count s' = pool_count s" "pool_head s' = pool_head s" "spaces s' = spaces s"
  using assms by (auto simp: only_tables_def)

lemma map_one_only_tables: "only_tables s (map_one flags va phys s)"
  unfolding only_tables_def map_one_def set_page_def invlpg_def Let_def by (rule exI, rule exI) simp

lemma table_pointer_page:
  assumes "kernel_tables s" "table_pointer s p"
  shows "kernel_va p \<and> mmu s p \<noteq> None"
proof -
  have reach: "kernel_va p \<and> mmu s p \<noteq> None"
    if "linked s level e" "pe_present e" "find_mapping (Suc loop_fuel) (pe_phys_addr e) (entry_maps (spaces s Kernel_Space) level) s = Inr p" for level e
    using that by (auto simp: linked_def reaches_def simp del: find_mapping.simps)
  have tables: "linked s PD (pd_entry s i)" "pe_present (pd_entry s i) \<Longrightarrow> j < 512 \<Longrightarrow> linked s PT (pt_entry s i j)" if "i < 512" for i j
    using assms(1) that by (simp_all add: kernel_tables_def)
  have "kernel_va (pdp (spaces s Kernel_Space)) \<and> mmu s (pdp (spaces s Kernel_Space)) \<noteq> None"
    using assms(1) by (simp add: kernel_tables_def)
  then show ?thesis
    using assms(2) reach [OF tables(1)] reach [OF tables(2)] unfolding table_pointer_def by blast
qed

lemma map_one_effect:
  assumes "kernel_tables s" "tables_apart s" "free_page s va" "phys AND 0xfff = 0" "unat phys < 2 ^ 52"
  shows "kernel_tables (map_one flags va phys s)" "tables_apart (map_one flags va phys s)"
    and "kernel_va x \<Longrightarrow> mmu (map_one flags va phys s) x = (if same_page x va then Some (phys OR take_bit 12 x) else mmu s x)"
    and "location_for s y loc \<Longrightarrow> location_for (map_one flags va phys s) y loc"
    and "has_page_table (map_one flags va phys s) y = has_page_table s y"
    and "has_page_table s y \<Longrightarrow> page_entry (map_one flags va phys s) (i3 y) (i2 y) (i1 y) =
      (if same_page y va then map_entry (g_paging_execute_disable s) (prot (spaces s Kernel_Space)) flags phys (page_entry s (i3 va) (i2 va) (i1 va))
       else page_entry s (i3 y) (i2 y) (i1 y))"
    and "spaces (map_one flags va phys s) = spaces s" "g_paging_execute_disable (map_one flags va phys s) = g_paging_execute_disable s"
    and "tlb (map_one flags va phys s) = Invlpg va # tlb s"
proof -
  have slot: "page_slot s (i3 va) (i2 va) (i1 va)" and free: "\<not> pe_present (page_entry s (i3 va) (i2 va) (i1 va))"
    using assms(1-3) by (auto simp: free_page_def intro: has_page_table_slot)
  note entries = set_page_entries [OF slot]
  show "kernel_tables (map_one flags va phys s)" "tables_apart (map_one flags va phys s)"
    using set_page_invariant [OF slot free] by (simp_all add: map_one_def)
  show "mmu (map_one flags va phys s) x = (if same_page x va then Some (phys OR take_bit 12 x) else mmu s x)" if "kernel_va x"
    using that by (simp add: map_one_def set_page_mmu [OF slot] map_entry_frame [OF assms(4,5)] same_page_def)
  show "has_page_table (map_one flags va phys s) y = has_page_table s y"
    by (simp add: map_one_def has_page_table_def entries cong: conj_cong)
  have keep: "points_to s p e \<Longrightarrow> points_to (map_one flags va phys s) p e" for p e
    by (simp add: points_to_def map_one_def set_page_keeps [OF slot free] table_pointer_set_page [OF slot])
  show "location_for (map_one flags va phys s) y loc" if "location_for s y loc"
    using that keep unfolding location_for_def has_page_table_def by (simp add: map_one_def entries)
  show "page_entry (map_one flags va phys s) (i3 y) (i2 y) (i1 y) =
      (if same_page y va then map_entry (g_paging_execute_disable s) (prot (spaces s Kernel_Space)) flags phys (page_entry s (i3 va) (i2 va) (i1 va))
       else page_entry s (i3 y) (i2 y) (i1 y))" if "has_page_table s y"
    using that by (simp add: map_one_def entries same_page_def has_page_table_def)
  show "spaces (map_one flags va phys s) = spaces s" "g_paging_execute_disable (map_one flags va phys s) = g_paging_execute_disable s"
    "tlb (map_one flags va phys s) = Invlpg va # tlb s"
    by (simp_all add: map_one_def set_page_def Let_def)
qed

text \<open>Pages by number.\<close>

lemma map_one_plain:
  assumes "kernel_tables s" "tables_apart s" "free_page s va" "phys AND 0xfff = 0" "unat phys < 2 ^ 52"
  shows "plain_page (map_one flags va phys s) y = plain_page s y"
proof -
  have "page_slot s (i3 va) (i2 va) (i1 va)"
    using assms(1-3) by (auto simp: free_page_def intro: has_page_table_slot)
  then have "table_pointer (map_one flags va phys s) p = table_pointer s p" for p
    by (simp add: map_one_def table_pointer_set_page)
  then show ?thesis
    by (simp add: plain_page_def map_one_effect(5) [OF assms])
qed

text \<open>No table is reached through a page that is not mapped.\<close>

lemma free_page_plain:
  assumes "kernel_tables s" "free_page s va"
  shows "plain_page s va"
proof -
  have "\<not> same_page p va" if "table_pointer s p" for p
    using table_pointer_page [OF assms(1) that] assms(2)
    by (auto simp: free_page_def same_page_def mmu_kernel [OF assms(1)])
  then show ?thesis
    using assms(2) by (simp add: plain_page_def free_page_def)
qed

lemma GET_LEVEL_INDEX_page: "level < 4 \<Longrightarrow> GET_LEVEL_INDEX x level = unat x div 4096 div 2 ^ (9 * level) mod 512"
proof -
  have "(2 :: nat) ^ (12 + 9 * level) = 4096 * 2 ^ (9 * level)"
    by (simp add: power_add)
  then show "level < 4 \<Longrightarrow> ?thesis"
    by (simp only: GET_LEVEL_INDEX_eq div_mult2_eq)
qed

lemma same_page_number:
  assumes "unat x div 4096 = unat y div 4096"
  shows "same_page x y" "kernel_va x = kernel_va y" "has_page_table s x = has_page_table s y"
  using assms by (simp_all add: same_page_def kernel_va_def has_page_table_def GET_LEVEL_INDEX_page)

lemma four_digits:
  fixes a b :: nat
  assumes "a mod 512 = b mod 512" "a div 2 ^ 9 mod 512 = b div 2 ^ 9 mod 512" "a div 2 ^ 18 mod 512 = b div 2 ^ 18 mod 512"
    "a div 2 ^ 27 mod 512 = b div 2 ^ 27 mod 512"
  shows "a mod 2 ^ 36 = b mod 2 ^ 36"
proof -
  have step: "x mod (512 * m) = 512 * (x div 512 mod m) + x mod 512" for x m :: nat
    by (rule mod_mult2_eq)
  have split: "x mod 2 ^ 36 = 512 * (512 * (512 * (x div 2 ^ 27 mod 512) + x div 2 ^ 18 mod 512) + x div 2 ^ 9 mod 512) + x mod 512" for x :: nat
    using step [of x "512 * (512 * 512)"] step [of "x div 512" "512 * 512"] step [of "x div 512 div 512" 512]
    by (simp add: div_mult2_eq [symmetric])
  show ?thesis
    unfolding split assms ..
qed

lemma same_page_kernel:
  assumes "same_page x y" "kernel_va x" "kernel_va y"
  shows "unat x div 4096 mod 2 ^ 36 = unat y div 4096 mod 2 ^ 36"
  using assms unfolding same_page_def kernel_va_def by (intro four_digits) (simp_all add: GET_LEVEL_INDEX_page)

lemma unat_add_pages:
  fixes va :: u64
  assumes "unat va + 4096 * n \<le> 2 ^ 64" "m < n" "off < 4096"
  shows "unat (va + of_nat (4096 * m + off)) = unat va + (4096 * m + off)"
proof -
  have "4096 * m + off < 4096 * n"
    using assms(2,3) by linarith
  then have "unat va + (4096 * m + off) < 2 ^ 64"
    using assms(1) by linarith
  moreover from this have "unat (of_nat (4096 * m + off) :: u64) = 4096 * m + off"
    by (intro unat_of_nat_u64) linarith
  ultimately show ?thesis
    by (subst unat_add_u64) (simp_all only:)
qed

lemma mod_add_inj:
  fixes a b m N :: nat
  assumes "(a + m) mod N = (a + b) mod N" "m < N" "b < N"
  shows "m = b"
proof -
  have le: "x = y" if "x \<le> y" "(a + y) mod N = (a + x) mod N" "y < N" for x y
  proof (rule ccontr)
    assume "x \<noteq> y"
    then have "\<not> N dvd y - x"
      using that by (intro nat_dvd_not_less) auto
    moreover have "N dvd (a + y) - (a + x)"
      using that mod_eq_dvd_iff_nat [of "a + x" "a + y" N] by simp
    ultimately show False
      by simp
  qed
  show ?thesis
    using le [of m b] le [of b m] assms by (cases "m \<le> b") auto
qed

lemma range_pages_distinct:
  assumes "unat va + 4096 * n \<le> 2 ^ 64" "n \<le> 2 ^ 36" "m < n" "m' < n"
    and "same_page (va + of_nat (4096 * m)) (va + of_nat (4096 * m'))" "kernel_va (va + of_nat (4096 * m))" "kernel_va (va + of_nat (4096 * m'))"
  shows "m = m'"
proof -
  have u: "unat (va + of_nat (4096 * k)) div 4096 = unat va div 4096 + k" if "k < n" for k
    using unat_add_pages [OF assms(1) that, of 0] by (simp del: of_nat_mult)
  have "(unat va div 4096 + m) mod 2 ^ 36 = (unat va div 4096 + m') mod 2 ^ 36"
    using same_page_kernel [OF assms(5-7)] u assms(3,4) by (simp only:)
  moreover have "m < 2 ^ 36" "m' < 2 ^ 36"
    using assms(2-4) by linarith+
  ultimately show ?thesis
    by (rule mod_add_inj)
qed

lemma same_page_sym: "same_page x y \<Longrightarrow> same_page y x"
  by (simp add: same_page_def)

lemma same_page_trans: "same_page x y \<Longrightarrow> same_page y z \<Longrightarrow> same_page x z"
  by (simp add: same_page_def)

definition nth_page :: "u64 \<Rightarrow> nat \<Rightarrow> u64" where
  "nth_page va m = va + of_nat (4096 * m)"

lemma nth_page_simps [simp]: "nth_page va 0 = va" "nth_page (va + 4096) m = nth_page va (Suc m)"
  by (simp_all add: nth_page_def add.assoc)

definition fresh_range :: "'a paging_state_scheme \<Rightarrow> u64 \<Rightarrow> nat \<Rightarrow> bool" where
  "fresh_range s va n \<longleftrightarrow> unat va + 4096 * n \<le> 2 ^ 64 \<and> n \<le> 2 ^ 36 \<and> (\<forall>m < n. free_page s (nth_page va m))"

lemma free_page_kernel: "free_page s va \<Longrightarrow> kernel_va va"
  by (simp add: free_page_def has_page_table_def)

lemma fresh_range_distinct:
  assumes "fresh_range s va n" "m < n" "m' < n" "same_page (nth_page va m) (nth_page va m')"
  shows "m = m'"
  using assms range_pages_distinct [of va n m m'] unfolding fresh_range_def nth_page_def by (blast intro: free_page_kernel)

lemma fresh_range_next:
  assumes inv: "kernel_tables s" "tables_apart s" and fresh: "fresh_range s va (Suc n)" and phys: "phys AND 0xfff = 0" "unat phys < 2 ^ 52"
  shows "fresh_range (map_one flags va phys s) (va + 4096) n"
proof -
  have va: "free_page s va"
    using fresh by (auto simp: fresh_range_def dest: spec [of _ 0])
  have page: "free_page (map_one flags va phys s) (nth_page va (Suc m))" if "m < n" for m
  proof -
    have free: "free_page s (nth_page va (Suc m))"
      using fresh that by (simp add: fresh_range_def)
    have "\<not> same_page (nth_page va (Suc m)) va"
      using fresh_range_distinct [OF fresh, of "Suc m" 0] that by auto
    with free show ?thesis
      by (simp add: free_page_def map_one_effect [OF inv va phys])
  qed
  have "n = 0 \<or> unat (va + 4096) = unat va + 4096"
    using fresh by (cases n) (auto simp: fresh_range_def intro!: unat_add_u64 [of va 4096, simplified])
  moreover have "n = 0 \<Longrightarrow> ?thesis"
    using unat_u64_lt [of "va + 4096"] by (simp add: fresh_range_def)
  ultimately show ?thesis
    using fresh page by (auto simp: fresh_range_def)
qed

lemma aligned_next: "phys AND 0xfff = 0 \<Longrightarrow> (phys + 4096) AND 0xfff = (0 :: u64)"
proof -
  assume "phys AND 0xfff = 0"
  then have a: "take_bit 12 phys = 0"
    by (simp only: page_offset)
  have "unat (phys + 4096) mod 4096 = unat phys mod 4096"
    by (simp add: unat_word_ariths mod_mod_cancel)
  then have "unat (take_bit 12 (phys + 4096)) = unat (take_bit 12 phys)"
    by (simp add: unat_take_bit_u64)
  with a show ?thesis
    by (simp only: page_offset word_unat_eq_iff)
qed

definition range_mapped where
  "range_mapped va n phys flags (s :: 'a paging_state_scheme) (s' :: 'a paging_state_scheme) \<longleftrightarrow>
    only_tables s s' \<and> (\<forall>x. plain_page s' x = plain_page s x) \<and> kernel_tables s' \<and> tables_apart s' \<and> spaces s' = spaces s \<and>
    tlb s' = rev (map (\<lambda>m. Invlpg (nth_page va m)) [0..<n]) @ tlb s \<and>
    (\<forall>m < n. \<forall>x. kernel_va x \<and> same_page x (nth_page va m) \<longrightarrow> mmu s' x = Some (nth_page phys m OR take_bit 12 x) \<and>
      page_entry s' (i3 x) (i2 x) (i1 x) = map_entry (g_paging_execute_disable s) (prot (spaces s Kernel_Space)) flags (nth_page phys m) (page_entry s (i3 x) (i2 x) (i1 x))) \<and>
    (\<forall>x. kernel_va x \<and> (\<forall>m < n. \<not> same_page x (nth_page va m)) \<longrightarrow> mmu s' x = mmu s x \<and>
      (has_page_table s x \<longrightarrow> page_entry s' (i3 x) (i2 x) (i1 x) = page_entry s (i3 x) (i2 x) (i1 x)))"

lemma map_range:
  assumes "kernel_tables s" "tables_apart s" "location_for s prev loc" "fresh_range s va n"
    and "0 < n \<Longrightarrow> va = prev \<or> va = prev + 4096 \<and> unat prev + 4096 < 2 ^ 64"
    and "phys AND 0xfff = 0" "unat phys + 4096 * n \<le> 2 ^ 52"
  shows "\<exists>loc' s'. map_range_helper gme kmap kmap_phys Kernel_Space va phys n flags loc s = Inr (loc', s') \<and>
    range_mapped va n phys flags s s'"
  using assms
proof (induction n arbitrary: s prev loc va phys)
  case 0
  then show ?case
    by (auto simp: range_mapped_def only_tables_refl)
next
  case (Suc n)
  note inv = Suc.prems(1,2) and fresh = Suc.prems(4)
  have phys: "phys AND 0xfff = 0" "unat phys < 2 ^ 52"
    using Suc.prems(6,7) by auto
  have va: "free_page s va" "has_page_table s va" "kernel_va va"
    using fresh by (auto simp: fresh_range_def free_page_def has_page_table_def dest: spec [of _ 0])
  let ?s = "map_one flags va phys s"
  note eff = map_one_effect [OF inv va(1) phys, where flags = flags]
  obtain loc1 where step: "map_range_helper gme kmap kmap_phys Kernel_Space va phys (Suc n) flags loc s =
      map_range_helper gme kmap kmap_phys Kernel_Space (va + 4096) (phys + 4096) n flags loc1 ?s" "location_for s va loc1"
    using map_range_helper_step [OF Suc.prems(1,3) va(2)] Suc.prems(5) by blast
  have near: "va + 4096 = va \<or> va + 4096 = va + 4096 \<and> unat va + 4096 < 2 ^ 64" if "0 < n"
    using fresh that by (auto simp: fresh_range_def)
  have phys': "unat (phys + 4096) + 4096 * n \<le> 2 ^ 52"
    using Suc.prems(7) by (subst unat_add_u64) simp_all
  obtain loc' s' where rest: "map_range_helper gme kmap kmap_phys Kernel_Space (va + 4096) (phys + 4096) n flags loc1 ?s = Inr (loc', s')"
    "range_mapped (va + 4096) n (phys + 4096) flags ?s s'"
    using Suc.IH [OF eff(1,2) eff(4) [OF step(2)] fresh_range_next [OF inv fresh phys] near aligned_next [OF phys(1)] phys'] by blast
  have ih: "kernel_tables s'" "tables_apart s'" "spaces s' = spaces ?s"
    "tlb s' = rev (map (\<lambda>m. Invlpg (nth_page (va + 4096) m)) [0..<n]) @ tlb ?s"
    using rest(2) by (simp_all add: range_mapped_def)
  have ih_in: "mmu s' x = Some (nth_page (phys + 4096) m OR take_bit 12 x) \<and>
      page_entry s' (i3 x) (i2 x) (i1 x) = map_entry (g_paging_execute_disable ?s) (prot (spaces ?s Kernel_Space)) flags (nth_page (phys + 4096) m) (page_entry ?s (i3 x) (i2 x) (i1 x))"
    if "m < n" "kernel_va x" "same_page x (nth_page (va + 4096) m)" for m x
    using rest(2) that unfolding range_mapped_def by blast
  have ih_out: "mmu s' x = mmu ?s x \<and> (has_page_table ?s x \<longrightarrow> page_entry s' (i3 x) (i2 x) (i1 x) = page_entry ?s (i3 x) (i2 x) (i1 x))"
    if "kernel_va x" "\<forall>m < n. \<not> same_page x (nth_page (va + 4096) m)" for x
    using rest(2) that unfolding range_mapped_def by blast
  have up: "[0..<Suc n] = 0 # map Suc [0..<n]"
    by (simp add: upt_conv_Cons map_Suc_upt del: upt_Suc)
  have tlb: "tlb s' = rev (map (\<lambda>m. Invlpg (nth_page va m)) [0..<Suc n]) @ tlb s"
    unfolding up ih(4) eff(9) by (simp add: comp_def)
  have table: "has_page_table s x" if "kernel_va x" "same_page x (nth_page va m)" "m < Suc n" for x m
    using that fresh by (auto simp: fresh_range_def free_page_def has_page_table_def same_page_def)
  have not_va: "\<not> same_page x va" if "same_page x (nth_page va (Suc m))" "m < n" for x m
  proof
    assume "same_page x va"
    with that(1) have "same_page (nth_page va (Suc m)) (nth_page va 0)"
      by (simp add: same_page_def)
    from fresh_range_distinct [OF fresh _ _ this] that(2) show False
      by simp
  qed
  have mapped: "mmu s' x = Some (nth_page phys m OR take_bit 12 x) \<and>
      page_entry s' (i3 x) (i2 x) (i1 x) = map_entry (g_paging_execute_disable s) (prot (spaces s Kernel_Space)) flags (nth_page phys m) (page_entry s (i3 x) (i2 x) (i1 x))"
    if m: "m < Suc n" "kernel_va x" "same_page x (nth_page va m)" for m x
  proof (cases m)
    case 0
    then have same: "same_page x va"
      using m(3) by simp
    then have "\<forall>m < n. \<not> same_page x (nth_page (va + 4096) m)"
      using not_va by auto
    from ih_out [OF m(2) this] same table [OF m(2,3,1)] show ?thesis
      by (simp add: 0 nth_page_def eff(3) [OF m(2)] eff(5,6)) (simp add: same_page_def)
  next
    case (Suc m')
    then have m': "m' < n" "same_page x (nth_page (va + 4096) m')"
      using m by simp_all
    then have "\<not> same_page x va"
      using not_va by auto
    with ih_in [OF m'(1) m(2) m'(2)] table [OF m(2,3,1)] show ?thesis
      by (simp add: Suc eff(6,7,8))
  qed
  have kept: "mmu s' x = mmu s x \<and> (has_page_table s x \<longrightarrow> page_entry s' (i3 x) (i2 x) (i1 x) = page_entry s (i3 x) (i2 x) (i1 x))"
    if x: "kernel_va x" "\<forall>m < Suc n. \<not> same_page x (nth_page va m)" for x
  proof -
    have "\<not> same_page x va" "\<forall>m < n. \<not> same_page x (nth_page (va + 4096) m)"
      using x(2) by (auto dest: spec [of _ 0])
    with ih_out [OF x(1)] show ?thesis
      by (simp add: eff(3) [OF x(1)] eff(5,6))
  qed
  have more: "only_tables s s'" "\<forall>x. plain_page s' x = plain_page s x"
    using rest(2) only_tables_trans [OF map_one_only_tables] map_one_plain [OF inv va(1) phys] by (auto simp: range_mapped_def)
  show ?case
    unfolding step(1) rest(1) range_mapped_def using ih(1-3) eff(7) tlb mapped kept more
    by (intro exI [of _ loc'] exI [of _ s']) simp
qed


section \<open>Offsets into a range\<close>

lemma same_page_kernel_iff:
  assumes "kernel_va x" "kernel_va y"
  shows "same_page x y \<longleftrightarrow> unat x div 4096 mod 2 ^ 36 = unat y div 4096 mod 2 ^ 36"
proof
  assume eq: "unat x div 4096 mod 2 ^ 36 = unat y div 4096 mod 2 ^ 36"
  have digit: "n div 2 ^ k mod 512 = n mod 2 ^ 36 div 2 ^ k mod 512" if "k \<le> 27" for n k :: nat
  proof -
    have "take_bit 9 (drop_bit k (take_bit 36 n)) = take_bit 9 (drop_bit k n)"
      using that by (simp add: drop_bit_take_bit)
    then show ?thesis
      by (simp add: take_bit_eq_mod drop_bit_eq_div)
  qed
  have "unat x div 4096 div 2 ^ k mod 512 = unat y div 4096 div 2 ^ k mod 512" if "k \<le> 27" for k
    using digit [OF that, of "unat x div 4096"] digit [OF that, of "unat y div 4096"] eq by (simp only:)
  from this [of 0] this [of 9] this [of 18] show "same_page x y"
    by (simp add: same_page_def GET_LEVEL_INDEX_page)
qed (use same_page_kernel assms in blast)

text \<open>Addresses are compared modulo \<open>2 ^ 48\<close>: the processor ignores the sign extension.\<close>

definition range_offset :: "u64 \<Rightarrow> u64 \<Rightarrow> nat" where
  "range_offset va x = unat (take_bit 48 (x - va))"

lemma aligned_unat: "va AND 0xfff = (0 :: u64) \<Longrightarrow> unat va mod 4096 = 0"
proof -
  assume "va AND 0xfff = 0"
  then have "unat (take_bit 12 va) = 0"
    by (simp only: page_offset unat_0)
  then show ?thesis
    by (simp add: unat_take_bit_u64)
qed

lemma range_offset_split:
  assumes "va AND 0xfff = 0"
  shows "(unat va div 4096 + range_offset va x div 4096) mod 2 ^ 36 = unat x div 4096 mod 2 ^ 36"
    and "range_offset va x mod 4096 = unat x mod 4096"
proof -
  have off: "range_offset va x = unat (x - va) mod 2 ^ 48"
    by (simp add: range_offset_def unat_take_bit_u64)
  have "(unat va + unat (x - va)) mod 2 ^ 64 = unat x"
    using unat_word_ariths(1) [of va "x - va"] by simp
  then have "(unat va + unat (x - va)) mod 2 ^ 64 mod 2 ^ 48 = unat x mod 2 ^ 48"
    by (simp only:)
  then have sum: "(unat va + range_offset va x) mod 2 ^ 48 = unat x mod 2 ^ 48"
    unfolding off by (simp add: mod_mod_cancel mod_simps)
  have va: "unat va = 4096 * (unat va div 4096)"
    using aligned_unat [OF assms] mult_div_mod_eq [of 4096 "unat va"] by simp
  have parts: "(unat va + range_offset va x) div 4096 = unat va div 4096 + range_offset va x div 4096"
    "(unat va + range_offset va x) mod 4096 = range_offset va x mod 4096"
    by (subst va, simp)+
  have digits: "4096 * a + b mod 4096 = 4096 * c + d mod 4096 \<longleftrightarrow> a = c \<and> b mod 4096 = d mod 4096" for a b c d :: nat
  proof
    assume "4096 * a + b mod 4096 = 4096 * c + d mod 4096"
    moreover have "(4096 * q + r mod 4096) div 4096 = q" for q r :: nat
      by (subst div_mult_self4) simp_all
    ultimately have "a = c"
      by metis
    with \<open>4096 * a + b mod 4096 = 4096 * c + d mod 4096\<close> show "a = c \<and> b mod 4096 = d mod 4096"
      by simp
  qed simp
  have split: "n mod 2 ^ 48 = 4096 * (n div 4096 mod 2 ^ 36) + n mod 4096" for n :: nat
    using mod_mult2_eq [of n 4096 "2 ^ 36"] by simp
  have "4096 * ((unat va div 4096 + range_offset va x div 4096) mod 2 ^ 36) + range_offset va x mod 4096 =
      4096 * (unat x div 4096 mod 2 ^ 36) + unat x mod 4096"
    using sum unfolding split parts .
  from this [unfolded digits] show "(unat va div 4096 + range_offset va x div 4096) mod 2 ^ 36 = unat x div 4096 mod 2 ^ 36"
    and "range_offset va x mod 4096 = unat x mod 4096"
    by (simp_all add: digits)
qed

lemma same_page_offset_bounds:
  assumes "va AND 0xfff = 0" and bounds: "unat va + 4096 * n \<le> 2 ^ 64" "n \<le> 2 ^ 36" and "m < n" "kernel_va (nth_page va m)" "kernel_va x"
  shows "same_page x (nth_page va m) \<longleftrightarrow> range_offset va x div 4096 = m"
proof -
  have m: "unat (nth_page va m) div 4096 = unat va div 4096 + m"
    using unat_add_pages [OF bounds(1) assms(4), of 0] by (simp add: nth_page_def del: of_nat_mult)
  have "range_offset va x < 2 ^ 48"
    by (simp add: range_offset_def unat_take_bit_u64)
  then have "range_offset va x div 4096 < 2 ^ 36"
    by (simp add: less_mult_imp_div_less)
  moreover have "m < 2 ^ 36"
    using assms(4) bounds(2) by linarith
  ultimately show ?thesis
    unfolding same_page_kernel_iff [OF assms(6,5)] m range_offset_split(1) [OF assms(1), symmetric]
    using mod_add_inj by blast
qed

lemma same_page_offset:
  assumes "va AND 0xfff = 0" "fresh_range s va n" "m < n" "kernel_va x"
  shows "same_page x (nth_page va m) \<longleftrightarrow> range_offset va x div 4096 = m"
  using assms free_page_kernel unfolding fresh_range_def by (intro same_page_offset_bounds) blast+

lemma add_page_offset:
  fixes phys x :: u64
  assumes "phys AND 0xfff = 0"
  shows "nth_page phys m OR take_bit 12 x = phys + of_nat (4096 * m + unat x mod 4096)"
proof -
  have "unat (nth_page phys m) mod 4096 = (unat phys + 4096 * m) mod 4096"
    by (simp add: nth_page_def unat_word_ariths unat_of_nat mod_mod_cancel mod_simps)
  then have "unat (nth_page phys m) mod 4096 = 0"
    using aligned_unat [OF assms] by simp
  then have "take_bit 12 (nth_page phys m) = 0"
    by (simp add: word_unat_eq_iff unat_take_bit_u64)
  then have low: "\<not> bit (nth_page phys m) k" if "k < 12" for k
    using that by (metis bit_take_bit_iff bit_0_eq bot_apply bot_bool_def)
  have "nth_page phys m AND take_bit 12 x = 0"
    by (rule bit_word_eqI) (use low in \<open>auto simp: bit_simps\<close>)
  then have "nth_page phys m OR take_bit 12 x = nth_page phys m + take_bit 12 x"
    by (simp add: disjunctive_add_eq_or)
  moreover have "take_bit 12 x = of_nat (unat x mod 4096)"
    by (simp add: word_unat_eq_iff unat_take_bit_u64 unat_of_nat)
  ultimately show ?thesis
    by (simp add: nth_page_def add.assoc)
qed


section \<open>Taking addresses\<close>

lemma find_mapping_spaces [simp]: "find_mapping n phys m (s\<lparr>spaces := f\<rparr>) = find_mapping n phys m s"
  by (induction n phys m s rule: find_mapping.induct) (simp_all add: deref_def)

definition advance :: "u64 \<Rightarrow> 'a paging_state_scheme \<Rightarrow> 'a paging_state_scheme" where
  "advance pages s = update_space Kernel_Space (\<lambda>k. k\<lparr>current_address := current_address k + pages * PAGE_SIZE\<rparr>) s"

lemma advance_simps [simp]:
  "mmu (advance pages s) x = mmu s x" "pd_entry (advance pages s) i = pd_entry s i" "pt_entry (advance pages s) i j = pt_entry s i j"
  "page_entry (advance pages s) i j k = page_entry s i j k" "kernel_root (advance pages s) = kernel_root s" "tlb (advance pages s) = tlb s"
  "g_paging_execute_disable (advance pages s) = g_paging_execute_disable s"
  "spaces (advance pages s) = (spaces s)(Kernel_Space := (spaces s Kernel_Space)\<lparr>current_address := current_address (spaces s Kernel_Space) + pages * PAGE_SIZE\<rparr>)"
  by (simp_all add: advance_def update_space_def mmu_def kernel_root_def pd_entry_def pt_entry_def page_entry_def)

lemma advance_invariant [simp]:
  "kernel_tables (advance pages s) = kernel_tables s" "tables_apart (advance pages s) = tables_apart s"
  "has_page_table (advance pages s) x = has_page_table s x" "plain_page (advance pages s) x = plain_page s x" "fresh_range (advance pages s) va n = fresh_range s va n"
proof -
  have *: "linked (advance pages s) level e = linked s level e" for level e
    unfolding linked_def reaches_def unreached_def advance_simps by (simp add: advance_def update_space_def del: find_mapping.simps)
  show "kernel_tables (advance pages s) = kernel_tables s"
    unfolding kernel_tables_def advance_simps * by (simp add: advance_def update_space_def)
  have "table_pointer (advance pages s) p = table_pointer s p" for p
    unfolding table_pointer_def advance_simps by (simp add: advance_def update_space_def del: find_mapping.simps)
  then show "plain_page (advance pages s) x = plain_page s x"
    by (simp add: plain_page_def has_page_table_def)
qed (simp_all add: tables_apart_def has_page_table_def fresh_range_def free_page_def)

lemma alloc_addr_space_advance:
  assumes "free_list (spaces s Kernel_Space) = 0"
    and "current_address (spaces s Kernel_Space) + pages * PAGE_SIZE < of_nat (pdp_index (spaces s Kernel_Space) + 1) * PDP_MEM_RANGE"
  shows "alloc_addr_space Kernel_Space pages s = Inr (SIGN_EXT_ADDR (current_address (spaces s Kernel_Space)), advance pages s)"
  using assms by (simp add: alloc_addr_space_def advance_def update_space_def Let_def)

lemma range_mappedD:
  assumes map: "range_mapped va n phys flags s s'" and va: "va AND 0xfff = 0" and fresh: "fresh_range s va n"
    and phys: "phys AND 0xfff = 0" and x: "kernel_va x"
  shows "mmu s' x = (if range_offset va x < 4096 * n then Some (phys + of_nat (range_offset va x)) else mmu s x)"
    and "range_offset va x < 4096 * n \<Longrightarrow> \<exists>phys. page_entry s' (i3 x) (i2 x) (i1 x) =
      map_entry (g_paging_execute_disable s) (prot (spaces s Kernel_Space)) flags phys (page_entry s (i3 x) (i2 x) (i1 x))"
proof -
  note same = same_page_offset [OF va fresh _ x]
  let ?m = "range_offset va x div 4096"
  have whole: "range_offset va x = 4096 * ?m + unat x mod 4096"
    using range_offset_split(2) [OF va, of x] mult_div_mod_eq [of 4096 "range_offset va x"] by simp
  have inside: "mmu s' x = Some (nth_page phys ?m OR take_bit 12 x)"
    "page_entry s' (i3 x) (i2 x) (i1 x) = map_entry (g_paging_execute_disable s) (prot (spaces s Kernel_Space)) flags (nth_page phys ?m) (page_entry s (i3 x) (i2 x) (i1 x))"
    if "range_offset va x < 4096 * n"
  proof -
    have "?m < n"
      using that by (simp add: less_mult_imp_div_less mult.commute)
    moreover from this have "same_page x (nth_page va ?m)"
      by (simp add: same)
    ultimately show "mmu s' x = Some (nth_page phys ?m OR take_bit 12 x)"
      "page_entry s' (i3 x) (i2 x) (i1 x) = map_entry (g_paging_execute_disable s) (prot (spaces s Kernel_Space)) flags (nth_page phys ?m) (page_entry s (i3 x) (i2 x) (i1 x))"
      using map x unfolding range_mapped_def by blast+
  qed
  have outside: "mmu s' x = mmu s x" if "\<not> range_offset va x < 4096 * n"
  proof -
    have "\<not> same_page x (nth_page va m)" if "m < n" for m
      using \<open>\<not> range_offset va x < 4096 * n\<close> that by (auto simp: same)
    then show ?thesis
      using map x unfolding range_mapped_def by blast
  qed
  show "mmu s' x = (if range_offset va x < 4096 * n then Some (phys + of_nat (range_offset va x)) else mmu s x)"
    using inside(1) outside add_page_offset [OF phys, of ?m x] whole by simp
  show "range_offset va x < 4096 * n \<Longrightarrow> \<exists>phys. page_entry s' (i3 x) (i2 x) (i1 x) =
      map_entry (g_paging_execute_disable s) (prot (spaces s Kernel_Space)) flags phys (page_entry s (i3 x) (i2 x) (i1 x))"
    using inside(2) by blast
qed

text \<open>
  The attributes of an entry as the flags of paging.h and the privilege ask for: present; writable, write-through,
  cache-disable and execute-disable from the flags (1 writable, 2 executable, 4 cache-disable,
  8 write-through); user for privilege 3; the privilege in bits 59 to 62; all other bits but the frame
  as in the old entry.
\<close>

definition mapped_with :: "bool \<Rightarrow> u8 \<Rightarrow> u32 \<Rightarrow> u64 \<Rightarrow> u64 \<Rightarrow> bool" where
  "mapped_with nx p flags old e \<longleftrightarrow> bit e 0 \<and> bit e 1 = bit flags 0 \<and> bit e 2 = (p = 3) \<and>
     bit e 3 = bit flags 3 \<and> bit e 4 = bit flags 2 \<and> bit e 63 = (\<not> bit flags 1 \<and> nx) \<and>
     (\<forall>i < 4. bit e (59 + i) = bit p i) \<and> (\<forall>i \<in> {5..11} \<union> {52..58}. bit e i = bit old i)"

lemma flag_bits:
  "flags AND PAGING_WRITABLE \<noteq> 0 \<longleftrightarrow> bit flags 0" "flags AND PAGING_EXECUTABLE = 0 \<longleftrightarrow> \<not> bit flags 1"
  "flags AND PAGING_CACHE_DISABLE \<noteq> 0 \<longleftrightarrow> bit flags 2" "flags AND PAGING_WRITE_THROUGH \<noteq> 0 \<longleftrightarrow> bit flags 3"
proof -
  have m: "PAGING_WRITABLE = push_bit 0 1" "PAGING_EXECUTABLE = push_bit 1 1" "PAGING_CACHE_DISABLE = push_bit 2 1" "PAGING_WRITE_THROUGH = push_bit 3 1"
    by (simp_all add: PAGING_WRITABLE_def PAGING_EXECUTABLE_def PAGING_CACHE_DISABLE_def PAGING_WRITE_THROUGH_def One_nat_def)
  show "flags AND PAGING_WRITABLE \<noteq> 0 \<longleftrightarrow> bit flags 0" "flags AND PAGING_EXECUTABLE = 0 \<longleftrightarrow> \<not> bit flags 1"
    "flags AND PAGING_CACHE_DISABLE \<noteq> 0 \<longleftrightarrow> bit flags 2" "flags AND PAGING_WRITE_THROUGH \<noteq> 0 \<longleftrightarrow> bit flags 3"
    unfolding m bit_iff_and_push_bit_not_eq_0 by simp_all
qed

lemma mapped_with_map_entry: "mapped_with nx p flags e (map_entry nx p flags phys e)"
  unfolding mapped_with_def map_entry_def set_flags_def flag_bits by (auto simp: pe_defs bit_set_flag bit_set_field bit_simps)

section \<open>kmap_phys_range\<close>

text \<open>The pages come from the end of the address space in use, and their tables exist.\<close>

lemma kmap_phys_range_done:
  assumes "kernel_tables s" "tables_apart s"
    and space: "k = spaces s Kernel_Space" "free_list k = 0" "va = SIGN_EXT_ADDR (current_address k)"
    and room: "current_address k + pages * PAGE_SIZE < of_nat (pdp_index k + 1) * PDP_MEM_RANGE"
    and fresh: "pages \<noteq> 0" "va AND 0xfff = 0" "fresh_range s va (unat pages)"
    and phys: "phys AND 0xfff = 0" "unat phys + 4096 * unat pages \<le> 2 ^ 52"
  shows "\<exists>s'. kmap_phys_range (Suc d) phys pages flags s = Inr (va, s') \<and> kernel_tables s' \<and> tables_apart s' \<and>
    spaces s' = (spaces s)(Kernel_Space := k\<lparr>current_address := current_address k + pages * PAGE_SIZE\<rparr>) \<and>
    (\<forall>x. kernel_va x \<longrightarrow> mmu s' x = (if range_offset va x < 4096 * unat pages then Some (phys + of_nat (range_offset va x)) else mmu s x)) \<and>
    (\<forall>x. kernel_va x \<and> range_offset va x < 4096 * unat pages \<longrightarrow>
      mapped_with (g_paging_execute_disable s) (prot k) flags (page_entry s (i3 x) (i2 x) (i1 x)) (page_entry s' (i3 x) (i2 x) (i1 x))) \<and>
    tlb s' = rev (map (\<lambda>m. Invlpg (va + of_nat (4096 * m))) [0..<unat pages]) @ tlb s \<and>
    only_tables (advance pages s) s' \<and> (\<forall>x. plain_page s' x = plain_page s x)"
proof -
  let ?s = "advance pages s"
  have inv: "kernel_tables ?s" "tables_apart ?s" "fresh_range ?s va (unat pages)"
    using assms(1,2) fresh(3) by simp_all
  have "has_page_table ?s va"
  proof -
    have "0 < unat pages"
      using fresh(1) by (simp add: unat_gt_0)
    then have "free_page s (nth_page va 0)"
      using fresh(3) unfolding fresh_range_def by blast
    then show ?thesis
      by (simp add: free_page_def)
  qed
  then obtain loc where loc: "populate_page_table_location (get_memory_entry (alloc_pages d)) (kmap_allocation d) (kmap_phys_range d)
      Kernel_Space va True ?s = Inr (loc, ?s)" "location_for ?s va loc"
    using populate_location [OF inv(1)] by blast
  obtain loc' s' where map: "map_range_helper (get_memory_entry (alloc_pages d)) (kmap_allocation d) (kmap_phys_range d)
      Kernel_Space va phys (unat pages) flags loc ?s = Inr (loc', s')" "range_mapped va (unat pages) phys flags ?s s'"
    using map_range [OF inv(1,2) loc(2) inv(3) _ phys] by blast
  have run: "kmap_phys_range (Suc d) phys pages flags s = Inr (va, s')"
    using loc(1) map(1) alloc_addr_space_advance [of s pages] space room by (simp add: map_phys_range_def)
  note at = range_mappedD [OF map(2) fresh(2) inv(3) phys(1)]
  have flags: "mapped_with (g_paging_execute_disable s) (prot k) flags (page_entry s (i3 x) (i2 x) (i1 x)) (page_entry s' (i3 x) (i2 x) (i1 x))"
    if "kernel_va x" "range_offset va x < 4096 * unat pages" for x
    using at(2) [OF that] mapped_with_map_entry space(1) by auto
  have "kernel_tables s'" "tables_apart s'" "only_tables ?s s'" "\<forall>x. plain_page s' x = plain_page s x" "spaces s' = spaces ?s" "tlb s' = rev (map (\<lambda>m. Invlpg (va + of_nat (4096 * m))) [0..<unat pages]) @ tlb s"
    using map(2) by (simp_all add: range_mapped_def nth_page_def)
  with run flags at(1) show ?thesis
    by (intro exI [of _ s']) (simp add: space(1))
qed

end
