(* ===== verification/Paging_Unmapping.thy ===== *)
theory Paging_Unmapping
  imports Paging_Mapping
begin

text \<open>
  Unmapping pages of the kernel that hold no table: the step of the loop clears one entry and
  keeps the invariant, and after the loop every address of the range faults.
\<close>

definition unmap_one :: "u64 \<Rightarrow> 'a paging_state_scheme \<Rightarrow> 'a paging_state_scheme" where
  "unmap_one va s = invlpg va (set_page (i3 va) (i2 va) (i1 va) 0 s)"

lemma unmap_pages_step:
  assumes "kernel_tables s" "location_for s prev loc" "has_page_table s va"
    and "va = prev \<or> va = prev + 4096 \<and> unat prev + 4096 < 2 ^ 64"
  shows "\<exists>loc'. unmap_pages gme kmap kmap_phys Kernel_Space va (Suc n) loc s =
      unmap_pages gme kmap kmap_phys Kernel_Space (va + 4096) n loc' (unmap_one va s) \<and> location_for s va loc'"
proof -
  obtain loc' where loc': "page_table_traversal_helper gme kmap kmap_phys Kernel_Space va loc False s = Inr (loc', s)" "location_for s va loc'"
    using traverse_location [OF assms] by blast
  then have "points_to s (pt loc') (pt_entry s (i3 va) (i2 va))"
    by (simp add: location_for_def)
  note mod = modify_entry_slot [OF this]
  show ?thesis
    using loc' by (intro exI [of _ loc']) (simp add: mod unmap_one_def PAGE_SIZE_def)
qed

lemma unmap_one_effect:
  assumes "kernel_tables s" "tables_apart s" "plain_page s va"
  shows "kernel_tables (unmap_one va s)" "tables_apart (unmap_one va s)"
    and "kernel_va x \<Longrightarrow> mmu (unmap_one va s) x = (if same_page x va then None else mmu s x)"
    and "location_for s y loc \<Longrightarrow> location_for (unmap_one va s) y loc"
    and "plain_page (unmap_one va s) y = plain_page s y"
    and "spaces (unmap_one va s) = spaces s"
    and "tlb (unmap_one va s) = Invlpg va # tlb s" "only_tables s (unmap_one va s)"
proof -
  have slot: "page_slot s (i3 va) (i2 va) (i1 va)"
    using assms by (simp add: plain_page_def has_page_table_slot)
  have unused: "\<not> (i3 p = i3 va \<and> i2 p = i2 va \<and> i1 p = i1 va)" if "table_pointer s p" for p
    using assms(3) that by (simp add: plain_page_def same_page_def)
  note entries = set_page_entries [OF slot] and inv = set_page_unused_invariant [OF slot unused]
  show "kernel_tables (unmap_one va s)" "tables_apart (unmap_one va s)"
    using inv by (simp_all add: unmap_one_def)
  have mmu: "mmu (unmap_one va s) x = (if same_page x va then None else mmu s x)" if "kernel_va x" for x
    using that by (auto simp: unmap_one_def set_page_mmu [OF slot] same_page_def pe_present_def)
  then show "kernel_va x \<Longrightarrow> mmu (unmap_one va s) x = (if same_page x va then None else mmu s x)" .
  have pointer: "table_pointer (unmap_one va s) p = table_pointer s p" for p
    by (simp add: unmap_one_def table_pointer_set_page [OF slot])
  have table: "has_page_table (unmap_one va s) y = has_page_table s y" for y
    by (auto simp: has_page_table_def unmap_one_def entries)
  then show "plain_page (unmap_one va s) y = plain_page s y"
    using pointer by (simp add: plain_page_def)
  have points: "points_to s p e \<Longrightarrow> points_to (unmap_one va s) p e" for p e
    using mmu [of p] unused [of p] pointer by (auto simp: points_to_def same_page_def)
  show "location_for s y loc \<Longrightarrow> location_for (unmap_one va s) y loc"
    using points table unfolding location_for_def by (auto simp: has_page_table_def unmap_one_def entries)
  show "spaces (unmap_one va s) = spaces s" "tlb (unmap_one va s) = Invlpg va # tlb s"
    by (simp_all add: unmap_one_def entries) (simp add: set_page_def Let_def)
  show "only_tables s (unmap_one va s)"
    unfolding only_tables_def unmap_one_def set_page_def invlpg_def Let_def by (rule exI, rule exI) simp
qed

section \<open>Unmapping a range\<close>

definition plain_range :: "'a paging_state_scheme \<Rightarrow> u64 \<Rightarrow> nat \<Rightarrow> bool" where
  "plain_range s va n \<longleftrightarrow> unat va + 4096 * n \<le> 2 ^ 64 \<and> n \<le> 2 ^ 36 \<and> (\<forall>m < n. plain_page s (nth_page va m))"

definition range_unmapped where
  "range_unmapped va n (s :: 'a paging_state_scheme) (s' :: 'a paging_state_scheme) \<longleftrightarrow>
    kernel_tables s' \<and> tables_apart s' \<and> only_tables s s' \<and>
    tlb s' = rev (map (\<lambda>m. Invlpg (nth_page va m)) [0..<n]) @ tlb s \<and>
    (\<forall>x. kernel_va x \<longrightarrow> mmu s' x = (if \<exists>m < n. same_page x (nth_page va m) then None else mmu s x))"

lemma plain_range_next:
  assumes "kernel_tables s" "tables_apart s" "plain_range s va (Suc n)"
  shows "plain_range (unmap_one va s) (va + 4096) n"
proof -
  have va: "plain_page s va"
    using assms(3) by (auto simp: plain_range_def dest: spec [of _ 0])
  have "n = 0 \<or> unat (va + 4096) = unat va + 4096"
    using assms(3) by (cases n) (auto simp: plain_range_def intro!: unat_add_u64 [of va 4096, simplified])
  moreover have "n = 0 \<Longrightarrow> ?thesis"
    using unat_u64_lt [of "va + 4096"] by (simp add: plain_range_def)
  ultimately show ?thesis
    using assms(3) by (auto simp: plain_range_def unmap_one_effect(5) [OF assms(1,2) va])
qed

lemma upt_nth_pages: "map (\<lambda>m. Invlpg (nth_page va m)) [0..<Suc n] = Invlpg va # map (\<lambda>m. Invlpg (nth_page (va + 4096) m)) [0..<n]"
proof -
  have "[0..<Suc n] = 0 # map Suc [0..<n]"
    by (simp add: upt_conv_Cons map_Suc_upt del: upt_Suc)
  then show ?thesis
    by (simp add: comp_def del: upt_Suc)
qed

lemma unmap_pages_range:
  assumes "kernel_tables s" "tables_apart s" "location_for s prev loc" "plain_range s va n"
    and "0 < n \<Longrightarrow> va = prev \<or> va = prev + 4096 \<and> unat prev + 4096 < 2 ^ 64"
  shows "\<exists>s'. unmap_pages gme kmap kmap_phys Kernel_Space va n loc s = Inr s' \<and> range_unmapped va n s s'"
  using assms
proof (induction n arbitrary: s prev loc va)
  case 0
  then show ?case
    by (simp add: range_unmapped_def only_tables_refl)
next
  case (Suc n)
  note inv = Suc.prems(1,2)
  have va: "plain_page s va" "has_page_table s va"
    using Suc.prems(4) by (auto simp: plain_range_def plain_page_def dest: spec [of _ 0])
  note eff = unmap_one_effect [OF inv va(1)]
  obtain loc1 where step: "unmap_pages gme kmap kmap_phys Kernel_Space va (Suc n) loc s =
      unmap_pages gme kmap kmap_phys Kernel_Space (va + 4096) n loc1 (unmap_one va s)" "location_for s va loc1"
    using unmap_pages_step [OF Suc.prems(1,3) va(2)] Suc.prems(5) by blast
  have near: "va + 4096 = va \<or> va + 4096 = va + 4096 \<and> unat va + 4096 < 2 ^ 64" if "0 < n"
    using Suc.prems(4) that by (auto simp: plain_range_def)
  obtain s' where s': "unmap_pages gme kmap kmap_phys Kernel_Space (va + 4096) n loc1 (unmap_one va s) = Inr s'"
    "range_unmapped (va + 4096) n (unmap_one va s) s'"
    using Suc.IH [OF eff(1,2) eff(4) [OF step(2)] plain_range_next [OF inv Suc.prems(4)] near] by blast
  have split: "(\<exists>m < Suc n. same_page x (nth_page va m)) \<longleftrightarrow> same_page x va \<or> (\<exists>m < n. same_page x (nth_page (va + 4096) m))" for x
    by (auto simp: less_Suc_eq_0_disj)
  have "mmu s' x = (if \<exists>m < Suc n. same_page x (nth_page va m) then None else mmu s x)" if "kernel_va x" for x
    using s'(2) that unfolding split range_unmapped_def by (auto simp: eff(3) [OF that])
  moreover have "tlb s' = rev (map (\<lambda>m. Invlpg (nth_page va m)) [0..<Suc n]) @ tlb s"
    using s'(2) unfolding upt_nth_pages range_unmapped_def eff(7) by simp
  ultimately have "range_unmapped va (Suc n) s s'"
    using s'(2) only_tables_trans [OF eff(8)] by (simp add: range_unmapped_def)
  with s'(1) step(1) show ?case
    by (intro exI [of _ s']) simp
qed

lemma range_unmapped_offset:
  assumes "range_unmapped va n s s'" "plain_range s va n" "va AND 0xfff = 0" "kernel_va x"
  shows "mmu s' x = (if range_offset va x < 4096 * n then None else mmu s x)"
proof -
  have same: "same_page x (nth_page va m) \<longleftrightarrow> range_offset va x div 4096 = m" if "m < n" for m
  proof (rule same_page_offset_bounds [OF assms(3) _ _ that _ assms(4)])
    show "unat va + 4096 * n \<le> 2 ^ 64" "n \<le> 2 ^ 36"
      using assms(2) by (simp_all add: plain_range_def)
    show "kernel_va (nth_page va m)"
      using assms(2) that by (simp add: plain_range_def plain_page_def has_page_table_def)
  qed
  have "(\<exists>m < n. same_page x (nth_page va m)) \<longleftrightarrow> range_offset va x div 4096 < n"
    using same by auto
  moreover have "range_offset va x div 4096 < n \<longleftrightarrow> range_offset va x < 4096 * n"
    by (simp add: div_less_iff_less_mult mult.commute)
  ultimately show ?thesis
    using assms(1,4) unfolding range_unmapped_def by simp
qed


section \<open>Taking a node\<close>

text \<open>The nodes a search for a table visits.\<close>

fun mapping_nodes :: "nat \<Rightarrow> u64 \<Rightarrow> 'a paging_state_scheme \<Rightarrow> u64 list" where
  "mapping_nodes 0 p s = []"
| "mapping_nodes (Suc n) p s = (if p = 0 then [] else p # mapping_nodes n (SIGN_EXT_ADDR (me_next (nodes s p))) s)"

lemma find_mapping_nodes:
  assumes "e \<notin> set (mapping_nodes n p s)" "\<forall>q. q \<noteq> e \<longrightarrow> nodes s' q = nodes s q"
  shows "find_mapping n phys p s' = find_mapping n phys p s"
  using assms
proof (induction n p s rule: mapping_nodes.induct)
  case (2 n p s)
  show ?case
  proof (cases "p = 0")
    case False
    then have "e \<notin> set (mapping_nodes n (SIGN_EXT_ADDR (me_next (nodes s p))) s)" "nodes s' p = nodes s p"
      using 2(2,3) by auto
    with False 2(1) [OF False _ 2(3)] show ?thesis
      by simp
  qed simp
qed simp

text \<open>What the kernel's tables depend on.\<close>

lemma kernel_frame:
  assumes tabs: "tables s' = tables s" "g_pml4 s' = g_pml4 s" "own_tables s' = own_tables s"
    and space: "pdp (spaces s' Kernel_Space) = pdp (spaces s Kernel_Space)" "entry_maps (spaces s' Kernel_Space) = entry_maps (spaces s Kernel_Space)"
    and find: "\<And>level phys. find_mapping (Suc loop_fuel) phys (entry_maps (spaces s Kernel_Space) level) s' =
      find_mapping (Suc loop_fuel) phys (entry_maps (spaces s Kernel_Space) level) s"
  shows "kernel_tables s' = kernel_tables s" "tables_apart s' = tables_apart s" "mmu s' = mmu s" "plain_range s' va n = plain_range s va n"
proof -
  have entries: "kernel_root s' = kernel_root s" "pd_entry s' = pd_entry s" "pt_entry s' = pt_entry s" "page_entry s' = page_entry s"
    by (simp_all add: fun_eq_iff kernel_root_def pd_entry_def pt_entry_def page_entry_def tabs)
  show mmu: "mmu s' = mmu s"
    by (intro ext) (simp add: mmu_def tabs)
  have "linked s' level e = linked s level e" for level e
    by (simp add: linked_def reaches_def unreached_def space find mmu del: find_mapping.simps)
  then show "kernel_tables s' = kernel_tables s"
    by (simp add: kernel_tables_def entries tabs space mmu)
  show "tables_apart s' = tables_apart s"
    by (simp add: tables_apart_def entries)
  have "table_pointer s' p = table_pointer s p" for p
    by (simp add: table_pointer_def entries space find del: find_mapping.simps)
  then show "plain_range s' va n = plain_range s va n"
    by (simp add: plain_range_def plain_page_def has_page_table_def entries)
qed

lemma add_range_node:
  assumes "ENTRY_THRESHOLD \<le> pool_count s" "pool_head s \<noteq> 0"
  shows "\<exists>s'. add_range_to_free_list (get_memory_entry alloc) sp va pages s = Inr s' \<and>
    tables s' = tables s \<and> g_pml4 s' = g_pml4 s \<and> own_tables s' = own_tables s \<and> tlb s' = tlb s \<and>
    spaces s' = (spaces s)(sp := (spaces s sp)\<lparr>free_list := pool_head s\<rparr>) \<and> (\<forall>q. q \<noteq> pool_head s \<longrightarrow> nodes s' q = nodes s q) \<and>
    pool_head s' = e_next (nodes s (pool_head s)) \<and> pool_count s' = pool_count s - 1 \<and>
    fle_addr (nodes s' (pool_head s)) = take_bit 36 (drop_bit 12 va) \<and> fle_pages (nodes s' (pool_head s)) = take_bit 44 pages \<and>
    fle_next (nodes s' (pool_head s)) = take_bit 48 (free_list (spaces s sp))"
  using assms by (simp add: add_range_to_free_list_def get_memory_entry_def update_space_def linorder_not_less [symmetric] Let_def)

lemma mapping_nodes_cong: "nodes s' = nodes s \<Longrightarrow> mapping_nodes n p s' = mapping_nodes n p s"
  by (induction n p s rule: mapping_nodes.induct) simp_all

text \<open>The node of a freed range: the 48 bits of its address, its pages, and the 48 bits of the next node.\<close>

definition freed_range :: "entry \<Rightarrow> u64 \<Rightarrow> u64 \<Rightarrow> u64 \<Rightarrow> bool" where
  "freed_range e va pages next_node \<longleftrightarrow>
     push_bit 12 (fle_addr e) = take_bit 48 va \<and> fle_pages e = pages \<and> fle_next e = take_bit 48 next_node"

lemma freed_range_node:
  assumes "va AND 0xfff = 0" "unat pages \<le> 2 ^ 36" "fle_addr e = take_bit 36 (drop_bit 12 va)" "fle_pages e = take_bit 44 pages"
    "fle_next e = take_bit 48 p"
  shows "freed_range e va pages p"
proof -
  have low: "\<not> bit va n" if "n < 12" for n
  proof -
    have "(0xfff :: u64) = mask 12"
      by (simp add: mask_eq_exp_minus_1)
    then have "\<not> bit (va AND mask 12) n"
      using assms(1) by simp
    with that show ?thesis
      by (simp add: bit_and_iff bit_mask_iff)
  qed
  have "push_bit 12 (take_bit 36 (drop_bit 12 va)) = take_bit 48 va"
  proof (rule bit_word_eqI)
    fix n assume "n < LENGTH(64)"
    show "bit (push_bit 12 (take_bit 36 (drop_bit 12 va))) n = bit (take_bit 48 va) n"
    proof (cases "n < 12")
      case True
      with low [OF this] show ?thesis
        by (simp add: bit_simps)
    next
      case False
      then have "12 + (n - 12) = n" "n - 12 < 36 \<longleftrightarrow> n < 48"
        by linarith+
      with False \<open>n < LENGTH(64)\<close> show ?thesis
        by (simp add: bit_simps)
    qed
  qed
  moreover have "take_bit 44 pages = pages"
    using assms(2) by (simp add: take_bit_word_eq)
  ultimately show ?thesis
    using assms(3-5) by (simp add: freed_range_def)
qed

lemma kunmap_range_done:
  assumes "kernel_tables s" "tables_apart s"
    and range: "pages \<noteq> 0" "va AND 0xfff = 0" "plain_range s va (unat pages)"
    and pool: "ENTRY_THRESHOLD \<le> pool_count s" "pool_head s \<noteq> 0"
      "\<forall>level. pool_head s \<notin> set (mapping_nodes (Suc loop_fuel) (entry_maps (spaces s Kernel_Space) level) s)"
  shows "\<exists>s'. kunmap_range d va pages s = Inr s' \<and> kernel_tables s' \<and> tables_apart s' \<and>
    (\<forall>x. kernel_va x \<longrightarrow> mmu s' x = (if range_offset va x < 4096 * unat pages then None else mmu s x)) \<and>
    tlb s' = rev (map (\<lambda>m. Invlpg (va + of_nat (4096 * m))) [0..<unat pages]) @ tlb s \<and>
    spaces s' = (spaces s)(Kernel_Space := (spaces s Kernel_Space)\<lparr>free_list := pool_head s\<rparr>) \<and>
    freed_range (nodes s' (pool_head s)) va pages (free_list (spaces s Kernel_Space)) \<and>
    pool_head s' = e_next (nodes s (pool_head s)) \<and> pool_count s' = pool_count s - 1 \<and>
    (\<forall>q. q \<noteq> pool_head s \<longrightarrow> nodes s' q = nodes s q)"
proof -
  obtain s1 where s1: "add_range_to_free_list (memory_entry d) Kernel_Space va pages s = Inr s1"
    and kept: "tables s1 = tables s" "g_pml4 s1 = g_pml4 s" "own_tables s1 = own_tables s" "tlb s1 = tlb s"
    and spaces: "spaces s1 = (spaces s)(Kernel_Space := (spaces s Kernel_Space)\<lparr>free_list := pool_head s\<rparr>)"
    and others: "\<forall>q. q \<noteq> pool_head s \<longrightarrow> nodes s1 q = nodes s q"
    and node: "fle_addr (nodes s1 (pool_head s)) = take_bit 36 (drop_bit 12 va)" "fle_pages (nodes s1 (pool_head s)) = take_bit 44 pages"
      "fle_next (nodes s1 (pool_head s)) = take_bit 48 (free_list (spaces s Kernel_Space))"
    and taken: "pool_head s1 = e_next (nodes s (pool_head s))" "pool_count s1 = pool_count s - 1"
    using add_range_node [OF pool(1,2)] by blast
  have "unat pages \<le> 2 ^ 36"
    using range(3) by (simp add: plain_range_def)
  note freed = freed_range_node [OF range(2) this node]
  have space: "pdp (spaces s1 Kernel_Space) = pdp (spaces s Kernel_Space)" "entry_maps (spaces s1 Kernel_Space) = entry_maps (spaces s Kernel_Space)"
    by (simp_all add: spaces)
  note frame = kernel_frame [OF kept(1-3) space find_mapping_nodes [OF pool(3) [rule_format] others]]
  have inv: "kernel_tables s1" "tables_apart s1" "plain_range s1 va (unat pages)"
    using assms(1,2) range(3) frame by simp_all
  have "0 < unat pages"
    using range(1) by (simp add: unat_gt_0)
  then have "plain_page s1 (nth_page va 0)"
    using inv(3) unfolding plain_range_def by blast
  then have "has_page_table s1 va"
    by (simp add: plain_page_def)
  then obtain loc where loc: "populate_page_table_location (memory_entry d) (kmap_allocation d) (kmap_phys_range d) Kernel_Space va False s1 = Inr (loc, s1)"
    "location_for s1 va loc"
    using populate_location [OF inv(1)] by blast
  obtain s' where s': "unmap_pages (memory_entry d) (kmap_allocation d) (kmap_phys_range d) Kernel_Space va (unat pages) loc s1 = Inr s'"
    "range_unmapped va (unat pages) s1 s'"
    using unmap_pages_range [OF inv(1,2) loc(2) inv(3)] by blast
  have "kunmap_range d va pages s = Inr s'"
    using s1 loc(1) s'(1) by (simp add: kunmap_range_def unmap_range_def)
  moreover have "mmu s' x = (if range_offset va x < 4096 * unat pages then None else mmu s x)" if "kernel_va x" for x
    using range_unmapped_offset [OF s'(2) inv(3) range(2) that] by (simp add: frame(3))
  moreover have "only_tables s1 s'"
    using s'(2) by (simp add: range_unmapped_def)
  note only_tablesD [OF this]
  moreover have "kernel_tables s'" "tables_apart s'" "tlb s' = rev (map (\<lambda>m. Invlpg (va + of_nat (4096 * m))) [0..<unat pages]) @ tlb s"
    using s'(2) by (simp_all add: range_unmapped_def nth_page_def kept(4))
  ultimately show ?thesis
    using freed others taken by (intro exI [of _ s']) (simp add: spaces)
qed

end
