(* ===== verification/Paging_Properties.thy ===== *)
theory Paging_Properties
  imports Paging_Unmapping
begin

text \<open>
  What paging.c and memory.c promise: the kernel finds the address the processor would, a mapped
  range is translated to the frames given, and address spaces appear and vanish in their slot of
  the top table only.
\<close>

section \<open>The example\<close>

text \<open>
  An example: the tables at the frames \<open>0x1000\<close>, \<open>0x2000\<close> and \<open>0x3000\<close> are the first three pages
  of the kernel's range.
\<close>

definition example_entries :: "u64 \<Rightarrow> nat \<Rightarrow> u64" where
  "example_entries f i =
     (if f = 0x1000 \<and> i = 0 then 0x2003 else if f = 0x2000 \<and> i = 0 then 0x3003
      else if f = 0x3000 \<and> i = 0 then 0x1003 else if f = 0x3000 \<and> i = 1 then 0x2003
      else if f = 0x3000 \<and> i = 2 then 0x3003 else if f = 0x3000 \<and> i = 5 then 0x9003 else 0)"

definition example_mapping :: "u64 \<Rightarrow> entry" where
  "example_mapping p = (if p = 0x10 then me_set_phys_addr 2 (me_set_virt_addr 0xf00000001 \<lparr>e_next = 0, e_payload = 0\<rparr>)
     else me_set_phys_addr 3 (me_set_virt_addr 0xf00000002 \<lparr>e_next = 0, e_payload = 0\<rparr>))"

definition example_paging :: paging_state where
  "example_paging = \<lparr>nodes = example_mapping, pool_count = 30, pool_head = 0x30,
     heads = (\<lambda>_. 0), buddy_maps = (\<lambda>_ _. 0), order_sizes = (\<lambda>_. 0), buddy_base = (\<lambda>_. 0), memory_size = 0,
     tables = example_entries, g_pml4 = (\<lambda>i. if i = 480 then 0x1003 else 0), own_tables = True, g_paging_execute_disable = True,
     spaces = (\<lambda>_. \<lparr>current_address = 0x3000, pdp_index = 0, pdp = 0xfffff00000001000, prot = 3, free_list = 0, entry_maps = (\<lambda>_. 0)\<rparr>)
       (Kernel_Space := \<lparr>current_address = 0xf00000003000, pdp_index = 480, pdp = 0xfffff00000000000, prot = 0, free_list = 0,
       entry_maps = (\<lambda>level. if level = 1 then 0x10 else 0x20)\<rparr>),
     page_pool_count = 0, page_pool_head = 0, tlb = []\<rparr>"

lemma find_mapping_end: "find_mapping (Suc n) phys 0 s = Inr 0"
  by simp

lemma find_mapping_one:
  assumes "p \<noteq> 0" "SIGN_EXT_ADDR (me_next (nodes s p)) = 0"
  shows "find_mapping (Suc loop_fuel) phys p s = (if me_phys_addr (nodes s p) = phys then Inr (SIGN_EXT_ADDR (push_bit 12 (me_virt_addr (nodes s p)))) else Inr 0)"
proof -
  obtain n where "loop_fuel = Suc n"
    by (metis loop_fuel_pos gr0_implies_Suc)
  then have "find_mapping loop_fuel phys 0 s = Inr 0"
    by (metis find_mapping_end)
  with assms show ?thesis
    by simp
qed

lemma example_values:
  "table_frame 0x1003 = 0x1000" "table_frame 0x2003 = 0x2000" "table_frame 0x3003 = 0x3000"
  "pe_phys_addr 0x2003 = 2" "pe_phys_addr 0x3003 = 3" "pe_phys_addr 0 = 0"
  "table_frame 0x9003 = 0x9000" "pe_present 0x9003" "pe_present 0x1003" "pe_present 0x2003" "pe_present 0x3003" "\<not> pe_present 0"
  "\<not> pe_large 0x1003" "\<not> pe_large 0x2003" "\<not> pe_large 0x3003"
  by code_simp+

lemma example_paging_entries:
  "kernel_root example_paging = 0x1000" "pd_entry example_paging i = (if i = 0 then 0x2003 else 0)"
  "pt_entry example_paging 0 j = (if j = 0 then 0x3003 else 0)"
  "page_entry example_paging 0 0 k = example_entries 0x3000 k"
  by (simp_all add: kernel_root_def pd_entry_def pt_entry_def page_entry_def example_paging_def KERNEL_PML4_OFFSET_def
      example_values example_entries_def)

lemma example_mappings:
  "SIGN_EXT_ADDR (me_next (example_mapping p)) = 0"
  "me_phys_addr (example_mapping p) = (if p = 0x10 then 2 else 3)"
  "SIGN_EXT_ADDR (push_bit 12 (me_virt_addr (example_mapping p))) = (if p = 0x10 then 0xfffff00000001000 else 0xfffff00000002000)"
proof -
  show "SIGN_EXT_ADDR (me_next (example_mapping p)) = 0" unfolding example_mapping_def
    by (cases "p = 0x10"; simp only: if_True if_False; code_simp)
  show "me_phys_addr (example_mapping p) = (if p = 0x10 then 2 else 3)" unfolding example_mapping_def
    by (cases "p = 0x10"; simp only: if_True if_False; code_simp)
  show "SIGN_EXT_ADDR (push_bit 12 (me_virt_addr (example_mapping p))) = (if p = 0x10 then 0xfffff00000001000 else 0xfffff00000002000)"
    unfolding example_mapping_def
    by (cases "p = 0x10"; simp only: if_True if_False; code_simp)
qed

lemma example_find:
  "find_mapping (Suc loop_fuel) phys 0x10 example_paging = Inr (if phys = 2 then 0xfffff00000001000 else 0)"
  "find_mapping (Suc loop_fuel) phys 0x20 example_paging = Inr (if phys = 3 then 0xfffff00000002000 else 0)"
  by (simp_all add: find_mapping_one example_paging_def example_mappings del: find_mapping.simps)

lemma example_indices:
  "kernel_va 0xfffff00000000000" "kernel_va 0xfffff00000001000" "kernel_va 0xfffff00000002000" 
  "kernel_va 0xfffff00000003000" "kernel_va 0xfffff00000004000" 
  by (simp_all add: kernel_va_def KERNEL_PML4_OFFSET_def GET_LEVEL_INDEX_eq)

lemma example_maps:
  "spaces example_paging Kernel_Space = \<lparr>current_address = 0xf00000003000, pdp_index = 480, pdp = 0xfffff00000000000, prot = 0, free_list = 0,
     entry_maps = (\<lambda>level. if level = 1 then 0x10 else 0x20)\<rparr>"
  "own_tables example_paging" "g_pml4 example_paging 480 = 0x1003"
  by (simp_all add: example_paging_def)

lemma example_walk_ok: "walk_ok example_paging"
  by (simp add: walk_ok_def example_paging_entries example_values) (simp add: example_paging_def KERNEL_PML4_OFFSET_def example_values)

lemma example_mmu:
  "mmu example_paging 0xfffff00000000000 = Some 0x1000" "mmu example_paging 0xfffff00000001000 = Some 0x2000"
  "mmu example_paging 0xfffff00000002000 = Some 0x3000"
  by (simp_all add: mmu_walk_ok [OF example_walk_ok] example_indices GET_LEVEL_INDEX_eq example_paging_entries example_values example_entries_def One_nat_def)

lemma example_kernel_tables: "kernel_tables example_paging" "tables_apart example_paging"
proof -
  have "linked example_paging PD (pd_entry example_paging i)" for i
    by (simp add: linked_def reaches_def unreached_def example_paging_entries example_values example_maps example_find example_indices example_mmu
        del: find_mapping.simps)
  moreover have "linked example_paging PT (pt_entry example_paging 0 j)" for j
    by (simp add: linked_def reaches_def unreached_def example_paging_entries example_values example_maps example_find example_indices example_mmu
        del: find_mapping.simps)
  ultimately show "kernel_tables example_paging"
    using example_walk_ok
    by (simp add: kernel_tables_def walk_ok_def example_maps example_indices example_mmu example_paging_entries example_values)
  show "tables_apart example_paging"
    by (simp add: tables_apart_def example_paging_entries example_values)
qed

lemma example_fresh: "fresh_range example_paging 0xfffff00000003000 2"
proof -
  have "free_page example_paging (nth_page 0xfffff00000003000 m)" if "m = 0 \<or> m = 1" for m
    using that by (auto simp: free_page_def has_page_table_def nth_page_def example_indices example_paging_entries GET_LEVEL_INDEX_eq
        example_values example_entries_def)
  then show ?thesis
    unfolding fresh_range_def less_2_cases_iff by (simp add: One_nat_def)
qed

section \<open>Translation\<close>

text \<open>
  C9. While the kernel's lists name every table it uses, \<open>kvirt_to_phys_addr\<close> returns for every
  kernel address what the processor makes of it: the physical address, or nothing where the
  processor would fault.
\<close>

theorem kvirt_to_phys_addr_mmu:
  assumes "kernel_tables s" "kernel_va va"
  shows "kvirt_to_phys_addr va s = Inr (mmu s va)"
  using virt_to_phys_mmu [OF assms] by (simp add: kvirt_to_phys_addr_def)

theorem kvirt_to_phys_addr_mmu_witness:
  "kvirt_to_phys_addr 0xfffff00000002000 example_paging = Inr (Some 0x3000)"
  using kvirt_to_phys_addr_mmu [OF example_kernel_tables(1) example_indices(3)] by (simp only: example_mmu)

section \<open>Mapping a range of frames\<close>

text \<open>
  C6. Suppose the kernel's tables are in order, no freed range is to be reused and the page tables for
  the next free addresses exist, with these pages not mapped. Then \<open>kmap_phys_range\<close> returns the
  first free address and the address space moves on by the pages taken; the byte at each offset
  of the range is translated to the same offset from the frames given, and its entry has the
  writable, user and execute-disable bits that the flags and the privilege ask for; every other
  kernel address is translated as before, the tables stay in order, and each page of the range
  is invalidated once.
\<close>

theorem kmap_phys_range_maps:
  assumes "kernel_tables s" "tables_apart s"
    and space: "k = spaces s Kernel_Space" "free_list k = 0" "va = SIGN_EXT_ADDR (current_address k)"
    and room: "current_address k + pages * PAGE_SIZE < of_nat (pdp_index k + 1) * PDP_MEM_RANGE"
    and fresh: "pages \<noteq> 0" "va AND 0xfff = 0" "fresh_range s va (unat pages)"
    and phys: "phys AND 0xfff = 0" "unat phys + 4096 * unat pages \<le> 2 ^ 52"
  shows "\<exists>s'. kmap_phys_range (Suc d) phys pages flags s = Inr (va, s') \<and> kernel_tables s' \<and> tables_apart s' \<and>
    spaces s' = (spaces s)(Kernel_Space := k\<lparr>current_address := current_address k + pages * PAGE_SIZE\<rparr>) \<and>
    (\<forall>x. kernel_va x \<longrightarrow> mmu s' x = (if range_offset va x < 4096 * unat pages then Some (phys + of_nat (range_offset va x)) else mmu s x)) \<and>
    (\<forall>x. kernel_va x \<and> range_offset va x < 4096 * unat pages \<longrightarrow>
      mapped_with (g_paging_execute_disable s) (prot k) flags (page_entry s (i3 x) (i2 x) (i1 x)) (page_entry s' (i3 x) (i2 x) (i1 x))) \<and>
    tlb s' = rev (map (\<lambda>m. Invlpg (va + of_nat (4096 * m))) [0..<unat pages]) @ tlb s"
proof -
  obtain s' where "kmap_phys_range (Suc d) phys pages flags s = Inr (va, s')" "kernel_tables s'" "tables_apart s'"
    "spaces s' = (spaces s)(Kernel_Space := k\<lparr>current_address := current_address k + pages * PAGE_SIZE\<rparr>)"
    "\<forall>x. kernel_va x \<longrightarrow> mmu s' x = (if range_offset va x < 4096 * unat pages then Some (phys + of_nat (range_offset va x)) else mmu s x)"
    "\<forall>x. kernel_va x \<and> range_offset va x < 4096 * unat pages \<longrightarrow>
      mapped_with (g_paging_execute_disable s) (prot k) flags (page_entry s (i3 x) (i2 x) (i1 x)) (page_entry s' (i3 x) (i2 x) (i1 x))"
    "tlb s' = rev (map (\<lambda>m. Invlpg (va + of_nat (4096 * m))) [0..<unat pages]) @ tlb s"
    using kmap_phys_range_done [OF assms, of d flags] by blast
  then show ?thesis
    by (intro exI [of _ s'] conjI)
qed

theorem kmap_phys_range_maps_witness:
  "\<exists>s'. kmap_phys_range 1 0x5000 2 PAGING_WRITABLE example_paging = Inr (0xfffff00000003000, s') \<and>
     mmu s' 0xfffff00000004010 = Some 0x6010 \<and> mmu s' 0xfffff00000002000 = Some 0x3000"
proof -
  have va: "0xfffff00000003000 = SIGN_EXT_ADDR (current_address (spaces example_paging Kernel_Space))"
    by (simp only: example_maps) code_simp
  have k: "kernel_va 0xfffff00000004010"
    by (simp add: kernel_va_def KERNEL_PML4_OFFSET_def GET_LEVEL_INDEX_eq)
  have off: "range_offset 0xfffff00000003000 0xfffff00000004010 = 0x1010" "range_offset 0xfffff00000003000 0xfffff00000002000 = 0xfffffffff000"
    by (simp_all add: range_offset_def One_nat_def)
  obtain s' where "kmap_phys_range (Suc 0) 0x5000 2 PAGING_WRITABLE example_paging = Inr (0xfffff00000003000, s')"
    "\<And>x. kernel_va x \<Longrightarrow> mmu s' x = (if range_offset 0xfffff00000003000 x < 4096 * unat (2 :: u64) then Some (0x5000 + of_nat (range_offset 0xfffff00000003000 x)) else mmu example_paging x)"
    using kmap_phys_range_maps [OF example_kernel_tables refl _ va, where pages = 2 and phys = "0x5000" and d = 0 and flags = PAGING_WRITABLE] example_fresh
    by (auto simp: example_maps PAGE_SIZE_def PDP_MEM_RANGE_def PD_MEM_RANGE_def PT_MEM_RANGE_def)
  from this(1) this(2) [OF k] this(2) [OF example_indices(3)] show ?thesis
    by (intro exI [of _ s']) (simp add: off example_mmu One_nat_def)
qed

section \<open>Unmapping a range\<close>

text \<open>
  C7. Suppose the kernel's tables are in order, the range is aligned and no table is reached through
  its pages, and the entry pool is not running low. Then \<open>kunmap_range\<close> ends, every address of the
  range faults, every other kernel address is translated as before, the tables stay in order,
  each page is invalidated once, and the list of the freed ranges starts with a node from the pool that holds the range,
  its address and its number of pages, in front of the ranges freed before; all other nodes are as before.
\<close>

theorem kunmap_range_unmaps:
  assumes "kernel_tables s" "tables_apart s"
    and range: "pages \<noteq> 0" "va AND 0xfff = 0" "plain_range s va (unat pages)"
    and pool: "ENTRY_THRESHOLD \<le> pool_count s" "pool_head s \<noteq> 0"
      "\<forall>level. pool_head s \<notin> set (mapping_nodes (Suc loop_fuel) (entry_maps (spaces s Kernel_Space) level) s)"
  shows "\<exists>s'. kunmap_range d va pages s = Inr s' \<and> kernel_tables s' \<and> tables_apart s' \<and>
    (\<forall>x. kernel_va x \<longrightarrow> mmu s' x = (if range_offset va x < 4096 * unat pages then None else mmu s x)) \<and>
    tlb s' = rev (map (\<lambda>m. Invlpg (va + of_nat (4096 * m))) [0..<unat pages]) @ tlb s \<and>
    spaces s' = (spaces s)(Kernel_Space := (spaces s Kernel_Space)\<lparr>free_list := pool_head s\<rparr>) \<and>
    freed_range (nodes s' (pool_head s)) va pages (free_list (spaces s Kernel_Space)) \<and>
    pool_head s' = e_next (nodes s (pool_head s)) \<and> pool_count s' = pool_count s - 1 \<and>
    (\<forall>q. q \<noteq> pool_head s \<longrightarrow> nodes s' q = nodes s q)"
  by (rule kunmap_range_done [OF assms])

lemma example_pointers:
  "table_pointer example_paging p \<Longrightarrow> p = 0xfffff00000000000 \<or> p = 0xfffff00000001000 \<or> p = 0xfffff00000002000"
  by (auto simp: table_pointer_def example_maps example_paging_entries example_values example_find split: if_splits simp del: find_mapping.simps)

lemma mapping_nodes_end: "mapping_nodes n 0 s = []"
  by (cases n) simp_all

lemma example_plain: "plain_range example_paging 0xfffff00000005000 1"
proof -
  have "has_page_table example_paging 0xfffff00000005000"
    by (simp add: has_page_table_def kernel_va_def KERNEL_PML4_OFFSET_def GET_LEVEL_INDEX_eq example_paging_entries example_values)
  moreover have "\<not> same_page p 0xfffff00000005000" if "table_pointer example_paging p" for p
    using example_pointers [OF that] by (elim disjE) (simp_all add: same_page_def GET_LEVEL_INDEX_eq)
  ultimately show ?thesis
    by (simp add: plain_range_def plain_page_def nth_page_def One_nat_def)
qed

theorem kunmap_range_unmaps_witness:
  "mmu example_paging 0xfffff00000005008 = Some 0x9008 \<and>
   (\<exists>s'. kunmap_range 0 0xfffff00000005000 1 example_paging = Inr s' \<and> mmu s' 0xfffff00000005008 = None \<and> mmu s' 0xfffff00000002000 = Some 0x3000)"
proof
  have k: "kernel_va 0xfffff00000005008"
    by (simp add: kernel_va_def KERNEL_PML4_OFFSET_def GET_LEVEL_INDEX_eq)
  show "mmu example_paging 0xfffff00000005008 = Some 0x9008"
    by (simp add: mmu_walk_ok [OF example_walk_ok k] GET_LEVEL_INDEX_eq example_paging_entries example_values example_entries_def One_nat_def)
  have pool: "ENTRY_THRESHOLD \<le> pool_count example_paging" "pool_head example_paging \<noteq> 0"
    "\<forall>level. pool_head example_paging \<notin> set (mapping_nodes (Suc loop_fuel) (entry_maps (spaces example_paging Kernel_Space) level) example_paging)"
    by (simp_all add: example_maps example_paging_def ENTRY_THRESHOLD_def example_mappings mapping_nodes_end)
  have off: "range_offset 0xfffff00000005000 0xfffff00000005008 = 8" "range_offset 0xfffff00000005000 0xfffff00000002000 = 0xffffffffd000"
    by (simp_all add: range_offset_def One_nat_def)
  obtain s' where "kunmap_range 0 0xfffff00000005000 1 example_paging = Inr s'"
    "\<And>x. kernel_va x \<Longrightarrow> mmu s' x = (if range_offset 0xfffff00000005000 x < 4096 * unat (1 :: u64) then None else mmu example_paging x)"
    using kunmap_range_unmaps [OF example_kernel_tables, of 1 "0xfffff00000005000" 0] pool example_plain by auto
  from this(1) this(2) [OF k] this(2) [OF example_indices(3)]
  show "\<exists>s'. kunmap_range 0 0xfffff00000005000 1 example_paging = Inr s' \<and> mmu s' 0xfffff00000005008 = None \<and> mmu s' 0xfffff00000002000 = Some 0x3000"
    by (intro exI [of _ s']) (simp add: off example_mmu)
qed

section \<open>Address spaces\<close>

text \<open>
  C10. After \<open>map_address_space\<close> the addresses of the space's slot are translated through its
  own tables (from the frame behind \<open>pdp\<close>), with the user bit set exactly for privilege 3, and
  after \<open>unmap_address_space\<close> these addresses fault; neither changes the translation of any other
  address or the kernel's tables, and both invalidate the used part of the slot.
\<close>

theorem map_address_space_isolates:
  assumes inv: "kernel_tables s" and k: "k = spaces s space"
    and slot: "pdp_index k < KERNEL_PML4_OFFSET" "current_address k \<le> of_nat (pdp_index k + 1) * PDP_MEM_RANGE"
    and pdp: "kernel_va (pdp k)" "mmu s (pdp k) = Some frame"
  shows "\<exists>s'. map_address_space space s = Inr s' \<and> kernel_tables s' \<and> tlb s' = slot_events k @ tlb s \<and>
      (\<forall>x. mmu s' x = (if GET_LEVEL_INDEX x 3 = pdp_index k then mmu_walk (\<lambda>_. own_slot frame) (tables s) x else mmu s x)) \<and>
      (bit (g_pml4 s' (pdp_index k)) 2 \<longleftrightarrow> prot k = 3) \<and>
      (\<exists>s''. unmap_address_space space s' = Inr s'' \<and> kernel_tables s'' \<and> tlb s'' = slot_events k @ tlb s' \<and>
        (\<forall>x. mmu s'' x = (if GET_LEVEL_INDEX x 3 = pdp_index k then None else mmu s x)))"
proof -
  let ?e = "(pe_set_user (prot k = 3) \<circ> pe_set_prot (prot k) \<circ> pe_set_write True \<circ> pe_set_present True \<circ>
    pe_set_phys_addr (drop_bit 12 frame)) (g_pml4 s (pdp_index k))"
  let ?s1 = "set_slot (pdp_index k) ?e (slot_events k) s"
  let ?s2 = "set_slot (pdp_index k) 0 (slot_events k) ?s1"
  have own: "own_tables s" "own_tables ?s1" "pdp_index k \<noteq> KERNEL_PML4_OFFSET"
    using inv slot(1) by (simp_all add: kernel_tables_def)
  have map: "map_address_space space s = Inr ?s1"
    using virt_to_phys_mmu [OF inv pdp(1)] pdp(2) invalidate_slot [OF slot, of s ?e]
    by (simp add: map_address_space_def Let_def k del: invalidate_range.simps)
  have unmap: "unmap_address_space space ?s1 = Inr ?s2"
    using invalidate_slot [OF slot, of ?s1 0] by (simp add: unmap_address_space_def Let_def k del: invalidate_range.simps)
  have walk: "mmu_walk (\<lambda>_. ?e) (tables s) x = mmu_walk (\<lambda>_. own_slot frame) (tables s) x" for x
    by (rule mmu_walk_root) (simp_all add: own_slot_def)
  have mmu1: "mmu ?s1 x = (if GET_LEVEL_INDEX x 3 = pdp_index k then mmu_walk (\<lambda>_. own_slot frame) (tables s) x else mmu s x)" for x
    using set_slot_mmu [OF own(1)] walk by simp
  have mmu2: "mmu ?s2 x = (if GET_LEVEL_INDEX x 3 = pdp_index k then None else mmu s x)" for x
    using set_slot_mmu [OF own(2)] mmu1 by (simp add: mmu_walk_absent pe_present_def)
  have user: "bit (g_pml4 ?s1 (pdp_index k)) 2 \<longleftrightarrow> prot k = 3"
    by (simp add: pe_defs bit_set_flag)
  show ?thesis
    using map unmap mmu1 mmu2 user set_slot_kernel_tables [OF inv own(3)] set_slot_kernel_tables [OF set_slot_kernel_tables [OF inv own(3)] own(3)]
    by (intro exI [of _ ?s1] conjI exI [of _ ?s2]) simp_all
qed

theorem map_address_space_isolates_witness:
  "\<exists>s'. map_address_space (Process_Space 7) example_paging = Inr s' \<and> mmu s' 5 = Some 0x2005 \<and>
     mmu s' 0xfffff00000002000 = Some 0x3000 \<and>
     (\<exists>s''. unmap_address_space (Process_Space 7) s' = Inr s'' \<and> mmu s'' 5 = None)"
proof -
  have process: "pdp (spaces example_paging (Process_Space 7)) = 0xfffff00000001000" "pdp_index (spaces example_paging (Process_Space 7)) = 0"
    "current_address (spaces example_paging (Process_Space 7)) = 0x3000" "tables example_paging = example_entries"
    by (simp_all add: example_paging_def)
  have index: "GET_LEVEL_INDEX 5 level = 0" if "level < 4" for level
    using that by (simp add: GET_LEVEL_INDEX_eq power_add div_mult2_eq)
  have "pe_present (own_slot 0x2000)" "push_bit 12 (pe_phys_addr (own_slot 0x2000)) = 0x2000"
    by code_simp+
  then have walk: "mmu_walk (\<lambda>_. own_slot 0x2000) example_entries 5 = Some 0x2005"
    using example_values by (simp add: mmu_walk_def index example_entries_def table_frame_def One_nat_def)
  note iso = map_address_space_isolates [OF example_kernel_tables(1) refl, of "Process_Space 7", unfolded process, OF _ _ example_indices(2) example_mmu(2)]
  then obtain s' s'' where s: "map_address_space (Process_Space 7) example_paging = Inr s'"
    "\<And>x. mmu s' x = (if GET_LEVEL_INDEX x 3 = 0 then mmu_walk (\<lambda>_. own_slot 0x2000) example_entries x else mmu example_paging x)"
    "unmap_address_space (Process_Space 7) s' = Inr s''"
    "\<And>x. mmu s'' x = (if GET_LEVEL_INDEX x 3 = 0 then None else mmu example_paging x)"
    by (auto simp: KERNEL_PML4_OFFSET_def PDP_MEM_RANGE_def PD_MEM_RANGE_def PT_MEM_RANGE_def PAGE_SIZE_def)
  have "GET_LEVEL_INDEX 0xfffff00000002000 3 \<noteq> 0"
    using example_indices(3) by (simp add: kernel_va_def KERNEL_PML4_OFFSET_def)
  with s show ?thesis
    by (intro exI [of _ s'] conjI exI [of _ s'']) (simp_all add: index walk example_mmu)
qed

section \<open>Reusing a freed range\<close>

text \<open>
  Taking part of a freed range, \<open>alloc_addr_space\<close> adds the pages taken to the length of the rest
  instead of subtracting them, so the rest reaches past the end of the range that was freed.
\<close>

lemma alloc_addr_space_grows:
  assumes "free_list (spaces s sp) = p" "p \<noteq> 0" "pages < fle_pages (nodes s p)"
  shows "\<exists>s'. alloc_addr_space sp pages s = Inr (SIGN_EXT_ADDR (push_bit 12 (fle_addr (nodes s p))), s') \<and>
    fle_pages (nodes s' p) = take_bit 44 (fle_pages (nodes s p) + pages)"
  using assms by (simp add: alloc_addr_space_def Let_def)

end
