(* ===== verification/Contiguous_Pages.thy ===== *)
theory Contiguous_Pages
  imports Paging_Properties
begin

text \<open>
  Frames, pages and tables together: what \<open>alloc_pages_contiguous\<close> and \<open>free_pages_contiguous\<close> of
  memory.c promise the drivers, which pass the physical address of such pages to their devices.
\<close>

section \<open>The addresses of a fresh range\<close>

text \<open>An address of a fresh range is not translated before it is mapped.\<close>

lemma fresh_range_unmapped:
  assumes "kernel_tables s" "fresh_range s va n" "va AND 0xfff = 0" "kernel_va x" "range_offset va x < 4096 * n"
  shows "mmu s x = None"
proof -
  have less: "range_offset va x div 4096 < n"
    using assms(5) by (simp add: div_less_iff_less_mult mult.commute)
  then have "same_page x (nth_page va (range_offset va x div 4096))"
    using same_page_offset [OF assms(3,2) less assms(4)] by simp
  moreover have "free_page s (nth_page va (range_offset va x div 4096))"
    using assms(2) less by (simp add: fresh_range_def)
  ultimately show ?thesis
    by (simp add: free_page_def same_page_def mmu_kernel [OF assms(1,4)])
qed

text \<open>Every offset below the size of the range is one of its kernel addresses.\<close>

lemma fresh_range_address:
  assumes "va AND 0xfff = 0" "fresh_range s va n" "i < 4096 * n"
  shows "kernel_va (va + of_nat i)" "range_offset va (va + of_nat i) = i"
proof -
  have bounds: "unat va + 4096 * n \<le> 2 ^ 64" "n \<le> 2 ^ 36" and free: "i div 4096 < n \<Longrightarrow> free_page s (nth_page va (i div 4096))"
    using assms(2) by (simp_all add: fresh_range_def)
  have m: "i div 4096 < n" "i mod 4096 < 4096"
    using assms(3) by (simp_all add: div_less_iff_less_mult mult.commute)
  have "unat (va + of_nat i) = unat va + i"
    using unat_add_pages [OF bounds(1) m] by simp
  moreover have "unat (nth_page va (i div 4096)) = unat va + 4096 * (i div 4096)"
    using unat_add_pages [OF bounds(1) m(1), of 0] by (simp add: nth_page_def del: of_nat_mult)
  moreover obtain b where "unat va = 4096 * b"
    using aligned_unat [OF assms(1)] by (auto elim: dvdE simp: mod_0_imp_dvd)
  ultimately have "unat (va + of_nat i) div 4096 = unat (nth_page va (i div 4096)) div 4096"
    by (simp add: distrib_left [symmetric] del: distrib_left_numeral)
  then show "kernel_va (va + of_nat i)"
    using same_page_number(2) free_page_kernel [OF free [OF m(1)]] by blast
  show "range_offset va (va + of_nat i) = i"
    using assms(3) bounds(2) by (simp add: range_offset_def unat_take_bit_u64 unat_of_nat_u64)
qed

section \<open>Allocating and freeing\<close>

lemma free_pages_contiguous_returns:
  assumes "kernel_tables s" "tables_apart s" "kernel_va va" "mmu s va = Some phys" "kunmap_range d va pages s = Inr s2"
  shows "free_pages_contiguous d va pages s = free_frames_contiguos (memory_entry d) phys pages s2"
  using virt_to_phys_mmu [OF assms(1,3)] assms(4,5) by (simp add: free_pages_contiguous_def kvirt_to_phys_addr_def)

text \<open>
  C8. Contiguous pages over frames, pages and tables: when \<open>alloc_frames_contiguos\<close> finds a block and the
  next free addresses have their page tables, \<open>alloc_pages_contiguous\<close> returns pages whose every
  byte lies at the same offset from the block in physical memory, which is what the drivers tell
  their devices. Freeing them unmaps exactly these pages, so that the kernel's addresses are
  translated as before, and gives exactly this block back to the frame allocator.
\<close>

theorem contiguous_pages_return:
  assumes frames: "alloc_frames_contiguos (memory_entry (Suc d)) pages s = Inr (Some phys, s1)"
    and inv: "kernel_tables s1" "tables_apart s1"
    and space: "k = spaces s1 Kernel_Space" "free_list k = 0" "va = SIGN_EXT_ADDR (current_address k)"
    and room: "current_address k + pages * PAGE_SIZE < of_nat (pdp_index k + 1) * PDP_MEM_RANGE"
    and fresh: "pages \<noteq> 0" "va AND 0xfff = 0" "fresh_range s1 va (unat pages)"
    and phys: "phys AND 0xfff = 0" "unat phys + 4096 * unat pages \<le> 2 ^ 52"
    and pool: "ENTRY_THRESHOLD \<le> pool_count s1" "pool_head s1 \<noteq> 0"
      "\<forall>level. pool_head s1 \<notin> set (mapping_nodes (Suc loop_fuel) (entry_maps k level) s1)"
  shows "\<exists>s' s2. alloc_pages_contiguous (Suc d) pages flags s = Inr (va, s') \<and>
    (\<forall>i < 4096 * unat pages. kvirt_to_phys_addr (va + of_nat i) s' = Inr (Some (phys + of_nat i))) \<and>
    free_pages_contiguous d' va pages s' = free_frames_contiguos (memory_entry d') phys pages s2 \<and>
    kernel_tables s2 \<and> tables_apart s2 \<and> (\<forall>x. kernel_va x \<longrightarrow> mmu s2 x = mmu s1 x)"
proof -
  obtain s' where map: "kmap_phys_range (Suc d) phys pages flags s1 = Inr (va, s')" "kernel_tables s'" "tables_apart s'"
    and mmu: "\<And>x. kernel_va x \<Longrightarrow> mmu s' x = (if range_offset va x < 4096 * unat pages then Some (phys + of_nat (range_offset va x)) else mmu s1 x)"
    and same: "only_tables (advance pages s1) s'" "\<And>x. plain_page s' x = plain_page s1 x"
    and spaces': "spaces s' = (spaces s1)(Kernel_Space := k\<lparr>current_address := current_address k + pages * PAGE_SIZE\<rparr>)"
    using kmap_phys_range_done [OF inv space room fresh phys, of d flags] by blast
  have alloc: "alloc_pages_contiguous (Suc d) pages flags s = Inr (va, s')"
    using frames map(1) by (simp add: alloc_pages_contiguous_def)
  note address = fresh_range_address [OF fresh(2,3)]
  have translate: "kvirt_to_phys_addr (va + of_nat i) s' = Inr (Some (phys + of_nat i))" if "i < 4096 * unat pages" for i
    using virt_to_phys_mmu [OF map(2) address(1) [OF that]] mmu [OF address(1) [OF that]] address(2) [OF that] that
    by (simp add: kvirt_to_phys_addr_def)
  have plain: "plain_range s' va (unat pages)"
    using fresh(3) free_page_plain [OF inv(1)] same(2) by (simp add: plain_range_def fresh_range_def)
  have nodes: "nodes s' = nodes s1" "pool_count s' = pool_count s1" "pool_head s' = pool_head s1"
    using only_tablesD [OF same(1)] by (simp_all add: advance_def update_space_def)
  have "\<forall>level. pool_head s' \<notin> set (mapping_nodes (Suc loop_fuel) (entry_maps (spaces s' Kernel_Space) level) s')"
    using pool(3) mapping_nodes_cong [OF nodes(1)] by (simp add: nodes spaces' del: mapping_nodes.simps)
  then obtain s2 where unmap: "kunmap_range d' va pages s' = Inr s2" "kernel_tables s2" "tables_apart s2"
    "\<And>x. kernel_va x \<Longrightarrow> mmu s2 x = (if range_offset va x < 4096 * unat pages then None else mmu s' x)"
    using kunmap_range_done [OF map(2,3) fresh(1,2) plain, of d'] pool(1,2) nodes by auto
  have "0 < 4096 * unat pages"
    using fresh(1) by (simp add: unat_gt_0)
  note first = address [OF this]
  have "mmu s' va = Some phys"
    using mmu [of va] first \<open>0 < 4096 * unat pages\<close> by simp
  then have returned: "free_pages_contiguous d' va pages s' = free_frames_contiguos (memory_entry d') phys pages s2"
    using first(1) by (intro free_pages_contiguous_returns [OF map(2,3) _ _ unmap(1)]) simp_all
  have "mmu s2 x = mmu s1 x" if "kernel_va x" for x
    using unmap(4) [OF that] mmu [OF that] fresh_range_unmapped [OF inv(1) fresh(3,2) that] by (simp split: if_splits)
  with alloc translate returned unmap(2,3) show ?thesis
    by (intro exI [of _ s'] exI [of _ s2]) simp
qed

text \<open>
  The example with one free block of a page at \<open>0x5000\<close>, named by the node at \<open>0x40\<close>, and the state
  after the frame allocator has handed it out: the node is back in the pool.
\<close>

definition example_block :: paging_state where
  "example_block = example_paging\<lparr>heads := (\<lambda>order. if order = 0 then 0x40 else 0), order_sizes := (\<lambda>order. 4096 * 2 ^ order),
     nodes := example_mapping(0x40 := \<lparr>e_next = 0, e_payload = 0x5000\<rparr>)\<rparr>"

definition example_taken :: paging_state where
  "example_taken = example_block\<lparr>heads := \<lambda>_. 0, buddy_maps := (\<lambda>_ _. 0)(0 := (\<lambda>_. 0)(0 := 4)), pool_count := 31, pool_head := 0x40,
     nodes := example_mapping(0x40 := \<lparr>e_next = 0x30, e_payload = 0x5000\<rparr>)\<rparr>"

lemma example_takes:
  "alloc_frames_contiguos (memory_entry d) 1 example_block = Inr (Some 0x5000, example_taken)"
proof -
  have toggle: "toggle_buddy_bit 0x5000 0 (set_head 0 0 example_block) = Inr (set_head 0 0 example_block\<lparr>buddy_maps := (\<lambda>_ _. 0)(0 := (\<lambda>_. 0)(0 := 4))\<rparr>)"
    by (simp add: toggle_buddy_bit_def calc_buddy_index_def FRAME_ORDERS_def example_block_def example_paging_def set_head_def)
  show ?thesis
    using toggle
    by (simp add: alloc_frames_contiguos_def get_min_size_frame_order_def FRAME_ORDERS_def free_head_def example_block_def example_paging_def
        free_memory_entry_def example_taken_def set_head_def fun_eq_iff)
qed

lemma example_taken_tables:
  "kernel_tables example_taken" "tables_apart example_taken" "mmu example_taken = mmu example_paging"
  "fresh_range example_taken 0xfffff00000003000 1"
proof -
  have parts: "tables example_taken = tables example_paging" "g_pml4 example_taken = g_pml4 example_paging"
    "own_tables example_taken = own_tables example_paging" "spaces example_taken = spaces example_paging"
    "nodes example_taken = example_mapping(0x40 := \<lparr>e_next = 0x30, e_payload = 0x5000\<rparr>)" "nodes example_paging = example_mapping"
    by (simp_all add: example_taken_def example_block_def example_paging_def)
  have "find_mapping (Suc loop_fuel) phys (entry_maps (spaces example_paging Kernel_Space) level) example_taken =
      find_mapping (Suc loop_fuel) phys (entry_maps (spaces example_paging Kernel_Space) level) example_paging" for level phys
    by (simp add: example_maps find_mapping_one parts example_mappings del: find_mapping.simps)
  note frame = kernel_frame [OF parts(1-3) _ _ this]
  show "kernel_tables example_taken" "tables_apart example_taken" "mmu example_taken = mmu example_paging"
    using frame example_kernel_tables by (simp_all add: parts)
  have "free_page example_taken = free_page example_paging"
    by (simp add: fun_eq_iff free_page_def has_page_table_def kernel_root_def pd_entry_def pt_entry_def page_entry_def parts)
  then show "fresh_range example_taken 0xfffff00000003000 1"
    using example_fresh by (auto simp: fresh_range_def One_nat_def dest: spec [of _ 0])
qed

theorem contiguous_pages_return_witness:
  "\<exists>s' s2. alloc_pages_contiguous 1 1 PAGING_WRITABLE example_block = Inr (0xfffff00000003000, s') \<and>
     kvirt_to_phys_addr 0xfffff00000003008 s' = Inr (Some 0x5008) \<and>
     free_pages_contiguous 0 0xfffff00000003000 1 s' = free_frames_contiguos (memory_entry 0) 0x5000 1 s2 \<and>
     mmu s2 0xfffff00000002000 = Some 0x3000"
proof -
  have maps: "spaces example_taken Kernel_Space = spaces example_paging Kernel_Space" "pool_count example_taken = 31" "pool_head example_taken = 0x40"
    "nodes example_taken = example_mapping(0x40 := \<lparr>e_next = 0x30, e_payload = 0x5000\<rparr>)"
    by (simp_all add: example_taken_def example_block_def example_paging_def)
  have va: "0xfffff00000003000 = SIGN_EXT_ADDR (current_address (spaces example_taken Kernel_Space))"
    by (simp only: maps example_maps) code_simp
  have pool: "\<forall>level. pool_head example_taken \<notin> set (mapping_nodes (Suc loop_fuel) (entry_maps (spaces example_taken Kernel_Space) level) example_taken)"
    by (simp add: maps example_maps example_mappings mapping_nodes_end)
  obtain s' s2 where s: "alloc_pages_contiguous (Suc 0) 1 PAGING_WRITABLE example_block = Inr (0xfffff00000003000, s')"
    "\<forall>i < 4096 * unat (1 :: u64). kvirt_to_phys_addr (0xfffff00000003000 + of_nat i) s' = Inr (Some (0x5000 + of_nat i))"
    "free_pages_contiguous 0 0xfffff00000003000 1 s' = free_frames_contiguos (memory_entry 0) 0x5000 1 s2"
    "\<forall>x. kernel_va x \<longrightarrow> mmu s2 x = mmu example_taken x"
    using contiguous_pages_return [OF example_takes [of "Suc 0"] example_taken_tables(1,2) refl _ va, where flags = PAGING_WRITABLE and d' = 0] pool example_taken_tables(4)
    by (auto simp: maps example_maps ENTRY_THRESHOLD_def PAGE_SIZE_def PDP_MEM_RANGE_def PD_MEM_RANGE_def PT_MEM_RANGE_def)
  have "kvirt_to_phys_addr 0xfffff00000003008 s' = Inr (Some 0x5008)"
    using s(2) [rule_format, of 8] by simp
  moreover have "mmu s2 0xfffff00000002000 = Some 0x3000"
    using s(4) example_indices(3) by (simp add: example_taken_tables(3) example_mmu)
  ultimately show ?thesis
    using s(1,3) by (intro exI [of _ s'] exI [of _ s2]) (simp add: One_nat_def)
qed

end
