(* ===== verification/Gdt.thy ===== *)
theory Gdt
  imports Memory
begin

text \<open>
  kernel/src/gdt.c: the global descriptor table and the task state segment. The tables are
  records with the fields of the packed structs; \<open>gdt_bytes\<close> lays the entries out in memory
  order, as the processor reads them. The instructions of \<open>set_gdt_and_tss\<close> act on the segment
  registers.
\<close>

section \<open>Segments\<close>

definition GDT_KERNEL_CODE_SEGMENT :: u16 where
  "GDT_KERNEL_CODE_SEGMENT = 0x08"

definition GDT_KERNEL_DATA_SEGMENT :: u16 where
  "GDT_KERNEL_DATA_SEGMENT = 0x10"

definition GDT_USER_DATA_SEGMENT :: u16 where
  "GDT_USER_DATA_SEGMENT = 0x20"

definition GDT_USER_CODE_SEGMENT :: u16 where
  "GDT_USER_CODE_SEGMENT = 0x28"

definition GDT_TSS_SEGMENT :: u16 where
  "GDT_TSS_SEGMENT = 0x30"

definition TSS_STACK_PAGES :: u64 where
  "TSS_STACK_PAGES = 2"

record GDTEntry =
  limit_0_15 :: u16
  base_0_15 :: u16
  base_16_23 :: u8
  gdt_access :: u8
  limit_16_19_and_flags :: u8
  base_24_31 :: u8

record GDT =
  gdt_null :: GDTEntry
  kernel_code :: GDTEntry
  kernel_data :: GDTEntry
  gdt_null2 :: GDTEntry
  user_data :: GDTEntry
  user_code :: GDTEntry
  tss_low :: GDTEntry
  tss_high :: GDTEntry

definition gdt_entry :: "u8 \<Rightarrow> u8 \<Rightarrow> GDTEntry" where
  "gdt_entry acc flags = \<lparr>limit_0_15 = 0, base_0_15 = 0, base_16_23 = 0, gdt_access = acc,
     limit_16_19_and_flags = flags, base_24_31 = 0\<rparr>"

definition initial_gdt :: GDT where
  "initial_gdt = \<lparr>
     gdt_null = gdt_entry 0 0,
     kernel_code = gdt_entry 0b10011010 0b10100000,
     kernel_data = gdt_entry 0b10010010 0b10100000,
     gdt_null2 = gdt_entry 0 0,
     user_data = gdt_entry 0b11110010 0b10100000,
     user_code = gdt_entry 0b11111010 0b10100000,
     tss_low = gdt_entry 0b10001001 0b10100000,
     tss_high = gdt_entry 0 0\<rparr>"

record TSS =
  tss_rsp :: "u64 list"
  interrupt_stack_table :: "u64 list"
  iopb_offset :: u16

text \<open>\<open>g_tss = {0}\<close>; its packed size is 4 + 3 * 8 + 8 + 7 * 8 + 10 + 2, rounded up to 8.\<close>

definition initial_tss :: TSS where
  "initial_tss = \<lparr>tss_rsp = replicate 3 0, interrupt_stack_table = replicate 7 0, iopb_offset = 0\<rparr>"

definition sizeof_g_tss :: u16 where
  "sizeof_g_tss = 104"

definition sizeof_g_gdt :: u16 where
  "sizeof_g_gdt = 64"

section \<open>The processor\<close>

record segment_registers =
  cs_reg :: u16
  ds_reg :: u16
  es_reg :: u16
  fs_reg :: u16
  gs_reg :: u16
  ss_reg :: u16
  task_register :: u16
  gdtr_size :: u16
  gdtr_base :: u64
  interrupts_enabled :: bool

text \<open>The table register is loaded, then the segments; the far return loads \<open>cs\<close>.\<close>

definition set_gdt_and_tss :: "u16 \<Rightarrow> u64 \<Rightarrow> segment_registers \<Rightarrow> segment_registers" where
  "set_gdt_and_tss gdt_size gdt_base r =
     r\<lparr>interrupts_enabled := False,
       gdtr_size := gdt_size, gdtr_base := gdt_base,
       task_register := GDT_TSS_SEGMENT,
       ds_reg := GDT_KERNEL_DATA_SEGMENT, es_reg := GDT_KERNEL_DATA_SEGMENT, fs_reg := GDT_KERNEL_DATA_SEGMENT,
       gs_reg := GDT_KERNEL_DATA_SEGMENT, ss_reg := GDT_KERNEL_DATA_SEGMENT,
       cs_reg := GDT_KERNEL_CODE_SEGMENT\<rparr>"

section \<open>Setup\<close>

record 'k gdt_state =
  g_gdt :: GDT
  g_tss :: TSS
  gdt_registers :: segment_registers
  gdt_kernel :: 'k

definition set_tss_kernel_stack :: "u64 \<Rightarrow> 'k gdt_state \<Rightarrow> 'k gdt_state" where
  "set_tss_kernel_stack stack_ptr s = s\<lparr>g_tss := (g_tss s)\<lparr>tss_rsp := (tss_rsp (g_tss s))[0 := stack_ptr]\<rparr>\<rparr>"

definition set_tss_base :: "u64 \<Rightarrow> GDT \<Rightarrow> GDT" where
  "set_tss_base tss_base g =
     g\<lparr>tss_low := (tss_low g)\<lparr>limit_0_15 := sizeof_g_tss, base_0_15 := ucast (tss_base AND 0xffff),
          base_16_23 := ucast (drop_bit 16 tss_base AND 0xff), base_24_31 := ucast (drop_bit 24 tss_base AND 0xff)\<rparr>,
       tss_high := (tss_high g)\<lparr>limit_0_15 := ucast (drop_bit 32 tss_base AND 0xffff),
          base_0_15 := ucast (drop_bit 48 tss_base AND 0xffff)\<rparr>\<rparr>"

text \<open>
  The addresses of \<open>g_gdt\<close> and \<open>g_tss\<close> are those the linker gives them; \<open>ap\<close> is the kernel's
  \<open>alloc_pages\<close>.
\<close>

definition setup_gdt_and_tss ::
    "(u64 \<Rightarrow> u32 \<Rightarrow> 'k \<Rightarrow> (u64 \<times> 'k) res) \<Rightarrow> u64 \<Rightarrow> u64 \<Rightarrow> 'k gdt_state \<Rightarrow> 'k gdt_state res" where
  "setup_gdt_and_tss ap gdt_address tss_address s =
     (let s = s\<lparr>g_tss := (g_tss s)\<lparr>iopb_offset := sizeof_g_tss\<rparr>\<rparr> in
      rbind (ap TSS_STACK_PAGES PAGING_WRITABLE (gdt_kernel s)) (\<lambda>(stack, k).
      let s = s\<lparr>gdt_kernel := k, g_tss := (g_tss s)\<lparr>interrupt_stack_table :=
            (interrupt_stack_table (g_tss s))[0 := stack + TSS_STACK_PAGES * PAGE_SIZE]\<rparr>\<rparr>;
          s = s\<lparr>g_gdt := set_tss_base tss_address (g_gdt s)\<rparr>
      in Inr (s\<lparr>gdt_registers := set_gdt_and_tss (sizeof_g_gdt - 1) gdt_address (gdt_registers s)\<rparr>)))"

section \<open>What the processor reads\<close>

text \<open>The bytes of the table in memory order, and the base of the 16-byte TSS descriptor in them.\<close>

definition gdt_entry_bytes :: "GDTEntry \<Rightarrow> u8 list" where
  "gdt_entry_bytes e = [ucast (limit_0_15 e), ucast (drop_bit 8 (limit_0_15 e)), ucast (base_0_15 e),
     ucast (drop_bit 8 (base_0_15 e)), base_16_23 e, gdt_access e, limit_16_19_and_flags e, base_24_31 e]"

definition gdt_bytes :: "GDT \<Rightarrow> u8 list" where
  "gdt_bytes g = concat (map gdt_entry_bytes [gdt_null g, kernel_code g, kernel_data g, gdt_null2 g,
     user_data g, user_code g, tss_low g, tss_high g])"

definition descriptor_base :: "u8 list \<Rightarrow> u64" where
  "descriptor_base bs = (ucast (bs ! 2) OR push_bit 8 (ucast (bs ! 3)) OR push_bit 16 (ucast (bs ! 4)) OR
     push_bit 24 (ucast (bs ! 7)) OR push_bit 32 (ucast (bs ! 8)) OR push_bit 40 (ucast (bs ! 9)) OR
     push_bit 48 (ucast (bs ! 10)) OR push_bit 56 (ucast (bs ! 11)))"

text \<open>
  The attributes of the descriptor a selector names: in byte 5 the type (bits 0 to 3), the bit that
  tells code and data from system descriptors, the privilege and the present bit; in byte 6 the upper
  bits of the limit, the bits for 64-bit and for 32-bit code, and the bit that makes the limit
  count pages.
\<close>

definition segment_byte :: "u8 list \<Rightarrow> u16 \<Rightarrow> nat \<Rightarrow> u8" where
  "segment_byte bs sel i = bs ! (unat (sel AND NOT 7) + i)"

definition segment_type :: "u8 list \<Rightarrow> u16 \<Rightarrow> u8" where
  "segment_type bs sel = segment_byte bs sel 5 AND 0xf"

definition segment_is_system :: "u8 list \<Rightarrow> u16 \<Rightarrow> bool" where
  "segment_is_system bs sel \<longleftrightarrow> \<not> bit (segment_byte bs sel 5) 4"

definition segment_dpl :: "u8 list \<Rightarrow> u16 \<Rightarrow> u8" where
  "segment_dpl bs sel = drop_bit 5 (segment_byte bs sel 5) AND 3"

definition segment_present :: "u8 list \<Rightarrow> u16 \<Rightarrow> bool" where
  "segment_present bs sel \<longleftrightarrow> bit (segment_byte bs sel 5) 7"

definition segment_is_64_bit :: "u8 list \<Rightarrow> u16 \<Rightarrow> bool" where
  "segment_is_64_bit bs sel \<longleftrightarrow> bit (segment_byte bs sel 6) 5 \<and> \<not> bit (segment_byte bs sel 6) 6"

definition segment_limit :: "u8 list \<Rightarrow> u16 \<Rightarrow> u32" where
  "segment_limit bs sel =
     (let limit = ucast (segment_byte bs sel 0) OR push_bit 8 (ucast (segment_byte bs sel 1)) OR
            push_bit 16 (ucast (segment_byte bs sel 6 AND 0xf))
      in if bit (segment_byte bs sel 6) 7 then push_bit 12 limit OR 0xfff else limit)"

text \<open>A segment of the type and privilege given, present and of 64-bit mode.\<close>

definition is_segment :: "u8 list \<Rightarrow> u16 \<Rightarrow> u8 \<Rightarrow> u8 \<Rightarrow> bool" where
  "is_segment bs sel ty dpl \<longleftrightarrow> segment_present bs sel \<and> \<not> segment_is_system bs sel \<and> segment_is_64_bit bs sel \<and>
     segment_type bs sel = ty \<and> segment_dpl bs sel = dpl"

text \<open>Code that can be read, data that can be written, and an available 64-bit TSS.\<close>

abbreviation CODE_TYPE :: u8 where
  "CODE_TYPE \<equiv> 0b1010"

abbreviation DATA_TYPE :: u8 where
  "DATA_TYPE \<equiv> 0b0010"

abbreviation TSS_TYPE :: u8 where
  "TSS_TYPE \<equiv> 0b1001"

lemmas segment_defs = segment_byte_def segment_type_def segment_is_system_def segment_dpl_def segment_present_def
  segment_is_64_bit_def segment_limit_def is_segment_def

lemma join_bytes:
  fixes v :: u64
  shows "ucast (ucast (ucast (v AND 0xffff) :: u16) :: u8) OR
     (push_bit 8 (ucast (ucast (drop_bit 8 (ucast (v AND 0xffff) :: u16)) :: u8)) OR
     (push_bit 16 (ucast (ucast (drop_bit 16 v AND 0xff) :: u8)) OR
     (push_bit 24 (ucast (ucast (drop_bit 24 v AND 0xff) :: u8)) OR
     (push_bit 32 (ucast (ucast (ucast (drop_bit 32 v AND 0xffff) :: u16) :: u8)) OR
     (push_bit 40 (ucast (ucast (drop_bit 8 (ucast (drop_bit 32 v AND 0xffff) :: u16)) :: u8)) OR
     (push_bit 48 (ucast (ucast (ucast (drop_bit 48 v AND 0xffff) :: u16) :: u8)) OR
     push_bit 56 (ucast (ucast (drop_bit 8 (ucast (drop_bit 48 v AND 0xffff) :: u16)) :: u8)))))))) = v"
proof -
  have m: "(0xffff :: u64) = mask 16" "(0xff :: u64) = mask 8"
    by (simp_all add: mask_eq_exp_minus_1)
  have sub: "i - n < j \<longleftrightarrow> i < n + j" if "0 < j" for i n j :: nat
    using that by linarith
  show ?thesis
    unfolding m
  proof (rule bit_word_eqI)
    fix k assume "k < LENGTH(64)"
    then consider "k < 8" | "8 \<le> k" "k < 16" | "16 \<le> k" "k < 24" | "24 \<le> k" "k < 32" | "32 \<le> k" "k < 40"
      | "40 \<le> k" "k < 48" | "48 \<le> k" "k < 56" | "56 \<le> k" "k < 64"
      by fastforce
    then show "bit ((ucast (ucast (ucast (v AND mask 16) :: u16) :: u8) :: u64) OR
     (push_bit 8 (ucast (ucast (drop_bit 8 (ucast (v AND mask 16) :: u16)) :: u8)) OR
     (push_bit 16 (ucast (ucast (drop_bit 16 v AND mask 8) :: u8)) OR
     (push_bit 24 (ucast (ucast (drop_bit 24 v AND mask 8) :: u8)) OR
     (push_bit 32 (ucast (ucast (ucast (drop_bit 32 v AND mask 16) :: u16) :: u8)) OR
     (push_bit 40 (ucast (ucast (drop_bit 8 (ucast (drop_bit 32 v AND mask 16) :: u16)) :: u8)) OR
     (push_bit 48 (ucast (ucast (ucast (drop_bit 48 v AND mask 16) :: u16) :: u8)) OR
     push_bit 56 (ucast (ucast (drop_bit 8 (ucast (drop_bit 48 v AND mask 16) :: u16)) :: u8))))))))) k \<longleftrightarrow> bit v k"
      by cases (simp_all add: bit_simps sub)
  qed
qed



end
