(* ===== verification/Idt.thy ===== *)
theory Idt
  imports Gdt
begin

text \<open>
  kernel/src/idt.c: the interrupt descriptor table, a function from the vector to its gate.
  \<open>gate_handler\<close> and \<open>gate_privilege\<close> are what the processor takes from a gate.
\<close>

definition INTERRUPT_GATE :: u8 where
  "INTERRUPT_GATE = 14"

definition TRAP_GATE :: u8 where
  "TRAP_GATE = 15"

record IDTEntry =
  offset_0_15 :: u16
  gate_selector :: u16
  gate_ist :: u8
  type_attr :: u8
  offset_16_31 :: u16
  offset_32_63 :: u32
  gate_reserved :: u32

type_synonym IDT = "u8 \<Rightarrow> IDTEntry"

definition zero_gate :: IDTEntry where
  "zero_gate = \<lparr>offset_0_15 = 0, gate_selector = 0, gate_ist = 0, type_attr = 0, offset_16_31 = 0, offset_32_63 = 0,
     gate_reserved = 0\<rparr>"

definition initial_idt :: IDT where
  "initial_idt = (\<lambda>_. zero_gate)"

record idt_registers =
  idtr_size :: u16
  idtr_base :: u64
  interrupt_flag :: bool

text \<open>A gate has 16 bytes and the table 256 gates.\<close>

definition setup_idt :: "u64 \<Rightarrow> idt_registers \<Rightarrow> idt_registers" where
  "setup_idt idt_address r = r\<lparr>idtr_size := 256 * 16 - 1, idtr_base := idt_address, interrupt_flag := True\<rparr>"

definition set_idt_gate :: "u8 \<Rightarrow> u8 \<Rightarrow> u64 \<Rightarrow> u16 \<Rightarrow> u8 \<Rightarrow> u8 \<Rightarrow> IDT \<Rightarrow> IDT" where
  "set_idt_gate irq type handler_address segment_selector ist privilege idt =
     idt(irq := (idt irq)\<lparr>
       offset_0_15 := ucast (handler_address AND 0xffff),
       gate_selector := segment_selector,
       gate_ist := ist,
       type_attr := 0b10000000 OR push_bit 6 (privilege AND 0b11) OR type,
       offset_16_31 := ucast (drop_bit 16 handler_address AND 0xffff),
       offset_32_63 := ucast (drop_bit 32 handler_address AND 0xffffffff)\<rparr>)"

definition register_interrupt :: "u8 \<Rightarrow> u8 \<Rightarrow> bool \<Rightarrow> u64 \<Rightarrow> IDT \<Rightarrow> IDT" where
  "register_interrupt irq type ist handler =
     set_idt_gate irq type handler GDT_KERNEL_CODE_SEGMENT (if ist then 1 else 0) 0"

definition unregister_interrupt :: "u8 \<Rightarrow> IDT \<Rightarrow> IDT" where
  "unregister_interrupt irq idt = idt(irq := zero_gate)"

section \<open>What the processor reads\<close>

definition gate_handler :: "IDTEntry \<Rightarrow> u64" where
  "gate_handler e = ucast (offset_0_15 e) OR push_bit 16 (ucast (offset_16_31 e)) OR push_bit 32 (ucast (offset_32_63 e))"

definition gate_present :: "IDTEntry \<Rightarrow> bool" where
  "gate_present e \<longleftrightarrow> bit (type_attr e) 7"

definition gate_privilege :: "IDTEntry \<Rightarrow> u8" where
  "gate_privilege e = drop_bit 5 (type_attr e) AND 3"

definition gate_type :: "IDTEntry \<Rightarrow> u8" where
  "gate_type e = type_attr e AND 0xf"

lemma join_handler:
  fixes v :: u64
  shows "ucast (ucast (v AND 0xffff) :: u16) OR (push_bit 16 (ucast (ucast (drop_bit 16 v AND 0xffff) :: u16)) OR
     push_bit 32 (ucast (ucast (drop_bit 32 v AND 0xffffffff) :: u32))) = v"
proof -
  have m: "(0xffff :: u64) = mask 16" "(0xffffffff :: u64) = mask 32"
    by (simp_all add: mask_eq_exp_minus_1)
  have sub: "i - n < j \<longleftrightarrow> i < n + j" if "0 < j" for i n j :: nat
    using that by linarith
  show ?thesis
    unfolding m
  proof (rule bit_word_eqI)
    fix k assume "k < LENGTH(64)"
    then consider "k < 16" | "16 \<le> k" "k < 32" | "32 \<le> k" "k < 64"
      by fastforce
    then show "bit ((ucast (ucast (v AND mask 16) :: u16) :: u64) OR (push_bit 16 (ucast (ucast (drop_bit 16 v AND mask 16) :: u16)) OR
     push_bit 32 (ucast (ucast (drop_bit 32 v AND mask 32) :: u32)))) k \<longleftrightarrow> bit v k"
      by cases (simp_all add: bit_simps sub)
  qed
qed

text \<open>
  C28. A registered interrupt has the gate the processor expects: present, of the type given,
  reachable by hardware and privilege 0 only, in the kernel's code segment, and with the
  handler's address put together from its three parts. No other vector changes, and
  unregistering makes the gate not present.
\<close>

theorem register_interrupt_gate:
  assumes "type \<in> {INTERRUPT_GATE, TRAP_GATE}"
  shows "let e = register_interrupt irq type ist handler idt irq in
      gate_handler e = handler \<and> gate_present e \<and> gate_privilege e = 0 \<and> gate_type e = type \<and>
      gate_selector e = GDT_KERNEL_CODE_SEGMENT \<and> gate_ist e = (if ist then 1 else 0) \<and>
      (\<forall>v. v \<noteq> irq \<longrightarrow> register_interrupt irq type ist handler idt v = idt v) \<and>
      \<not> gate_present (unregister_interrupt irq (register_interrupt irq type ist handler idt) irq)"
  using assms
  by (auto simp: Let_def register_interrupt_def set_idt_gate_def gate_handler_def join_handler gate_present_def
      gate_privilege_def gate_type_def INTERRUPT_GATE_def TRAP_GATE_def unregister_interrupt_def zero_gate_def)

theorem register_interrupt_gate_witness:
  "gate_handler (register_interrupt 14 INTERRUPT_GATE False 0xffff8000deadbeef initial_idt 14) = 0xffff8000deadbeef"
  using register_interrupt_gate [of INTERRUPT_GATE 14 False "0xffff8000deadbeef" initial_idt] by (simp add: Let_def)

text \<open>
  The privilege is stored one bit too far to the left: of the two bits of \<open>privilege\<close> the
  processor sees only the low one, as the high bit of the gate's privilege. A gate registered
  with privilege 3 gets 2, one with privilege 2 gets 0.
\<close>

theorem set_idt_gate_privilege:
  assumes "type \<in> {INTERRUPT_GATE, TRAP_GATE}"
  shows "gate_privilege (set_idt_gate irq type handler selector ist privilege idt irq) = push_bit 1 (privilege AND 1)"
proof -
  have "drop_bit 5 (0b10000000 OR push_bit 6 (privilege AND 0b11) OR t) AND 3 = push_bit 1 (privilege AND 1)"
    if "t AND 0xf = t" for t :: u8
  proof -
    have t: "\<not> bit t k" if "4 \<le> k" for k
    proof -
      have "(0xf :: u8) = mask 4"
        by (simp add: mask_eq_exp_minus_1)
      with \<open>t AND 0xf = t\<close> that show ?thesis
        by (metis bit_and_iff bit_mask_iff not_less)
    qed
    have m: "(3 :: u8) = mask 2" "(1 :: u8) = mask 1" "(0b10000000 :: u8) = push_bit 7 1"
      by (simp_all add: mask_eq_exp_minus_1)
    have double: "bit (x * 2) (Suc 0) \<longleftrightarrow> bit x 0" for x :: u8
      by (subst mult.commute) (simp add: bit_double_iff)
    show ?thesis
    proof (rule bit_word_eqI)
      fix k assume "k < LENGTH(8)"
      then have "k \<in> {0, 1, 2, 3, 4, 5, 6, 7}"
        by auto
      then show "bit (drop_bit 5 (0b10000000 OR push_bit 6 (privilege AND 0b11) OR t) AND 3) k \<longleftrightarrow> bit (push_bit 1 (privilege AND 1)) k"
        unfolding m by (elim insertE emptyE) (simp_all add: bit_simps t double)
    qed
  qed
  from this [of type] assms show ?thesis
    by (auto simp: set_idt_gate_def gate_privilege_def INTERRUPT_GATE_def TRAP_GATE_def)
qed

theorem set_idt_gate_privilege_witness:
  "gate_privilege (set_idt_gate 0x80 INTERRUPT_GATE 0 8 0 3 initial_idt 0x80) = 2"
  using set_idt_gate_privilege [of INTERRUPT_GATE "0x80" 0 8 0 3 initial_idt] by simp

end
