(* ===== verification/Rendering.thy ===== *)
theory Rendering
  imports Font Paging_Entries
begin

text \<open>
  kernel/src/rendering.c: text and numbers on the frame buffer. The frame buffer is the 32-bit
  cells at the addresses \<open>put_pixel\<close> writes, \<open>pixels\<close>; all of them are 4 bytes apart, so no
  two cells overlap in part. A string is the list of its characters up to the NUL.
\<close>

section \<open>State\<close>

datatype FBFormat = e_RGB8 | e_BGR8 | e_BitMask | e_BltOnly | e_FBFormatMax

record Framebuffer =
  fb_address :: u64
  fb_width :: u64
  fb_height :: u64
  fb_pixels_per_scanline :: u64
  fb_format :: FBFormat

record screen =
  frame_buffer :: Framebuffer
  bg_color :: u32
  fg_color :: u32
  pixels :: "u64 \<Rightarrow> u32"

definition initial_colors :: "screen \<Rightarrow> screen" where
  "initial_colors s = s\<lparr>bg_color := 0x00000000, fg_color := 0xffee2a7a\<rparr>"

text \<open>The characters of a string literal.\<close>

definition lit :: "string \<Rightarrow> u8 list" where
  "lit = map of_char"

section \<open>Pixels and characters\<close>

text \<open>The pages are mapped by \<open>kmap\<close>, the paging code's \<open>kmap_phys_range\<close>.\<close>

definition framebuffer_pages :: "Framebuffer \<Rightarrow> u64" where
  "framebuffer_pages fb = round_up_to_multiple (fb_width fb * fb_height fb * 4) PAGE_SIZE div PAGE_SIZE"

definition remap_framebuffer :: "(u64 \<Rightarrow> u64 \<Rightarrow> u32 \<Rightarrow> 'k \<Rightarrow> (u64 \<times> 'k) res) \<Rightarrow> 'k \<times> screen \<Rightarrow> ('k \<times> screen) res" where
  "remap_framebuffer kmap = (\<lambda>(k, s).
     rbind (kmap (fb_address (frame_buffer s)) (framebuffer_pages (frame_buffer s))
       (PAGING_WRITABLE OR PAGING_CACHE_DISABLE) k) (\<lambda>(virt, k).
       Inr (k, s\<lparr>frame_buffer := (frame_buffer s)\<lparr>fb_address := virt\<rparr>\<rparr>)))"

definition pixel_address :: "Framebuffer \<Rightarrow> u64 \<Rightarrow> u64 \<Rightarrow> u64" where
  "pixel_address fb x y = fb_address fb + 4 * fb_pixels_per_scanline fb * y + 4 * x"

definition put_pixel :: "u64 \<Rightarrow> u64 \<Rightarrow> u32 \<Rightarrow> screen \<Rightarrow> screen" where
  "put_pixel x y color s = s\<lparr>pixels := (pixels s)(pixel_address (frame_buffer s) x y := color)\<rparr>"

definition clear_screen :: "u32 \<Rightarrow> screen \<Rightarrow> screen" where
  "clear_screen color s =
     fold (\<lambda>x. fold (\<lambda>y. put_pixel (of_nat x) (of_nat y) color) [0..<unat (fb_height (frame_buffer s))])
       [0..<unat (fb_width (frame_buffer s))] s"

text \<open>Row \<open>cy\<close> of the glyph at offset \<open>glyph\<close> of the font; \<open>mask[cx]\<close> selects a pixel of it.\<close>

definition glyph_mask :: "nat \<Rightarrow> u8" where
  "glyph_mask cx = [128, 64, 32, 16, 8, 4, 2, 1] ! cx"

definition put_glyph :: "nat \<Rightarrow> u64 \<Rightarrow> u64 \<Rightarrow> u32 \<Rightarrow> u32 \<Rightarrow> screen \<Rightarrow> screen" where
  "put_glyph glyph x y fg bg =
     fold (\<lambda>cy. fold (\<lambda>cx. put_pixel (of_nat cx + x * 8) (of_nat cy + y * 16)
         (if font ! (glyph + cy) AND glyph_mask cx \<noteq> 0 then fg else bg)) [0..<8]) [0..<16]"

definition put_char :: "u8 \<Rightarrow> u64 \<Rightarrow> u64 \<Rightarrow> u32 \<Rightarrow> u32 \<Rightarrow> screen \<Rightarrow> screen res" where
  "put_char c x y fg bg s =
     (let glyph = (sint c - 31) * 16 in
      if 0 \<le> glyph \<and> glyph + 16 \<le> 1536 then Inr (put_glyph (nat glyph) x y fg bg s) else Inl Out_of_bounds)"

section \<open>Strings\<close>

text \<open>\<open>'!'\<close> is 33 and \<open>'~'\<close> is 126. The result is the number of characters.\<close>

fun put_string_loop :: "u8 list \<Rightarrow> u64 \<Rightarrow> u64 \<Rightarrow> u64 \<Rightarrow> screen \<Rightarrow> (u64 \<times> screen) res" where
  "put_string_loop [] i x y s = Inr (i, s)"
| "put_string_loop (c # str) i x y s =
     (if c = 0 then Inr (i, s)
      else
        rbind (if 33 \<le> sint c \<and> sint c < 126 then put_char c (x + i) y (fg_color s) (bg_color s) s else Inr s) (\<lambda>s.
          put_string_loop str (i + 1) x y s))"

definition put_string :: "u8 list \<Rightarrow> u64 \<Rightarrow> u64 \<Rightarrow> screen \<Rightarrow> (u64 \<times> screen) res" where
  "put_string str x y s = put_string_loop str 0 x y s"

section \<open>Numbers\<close>

text \<open>\<open>'0'\<close> is 48, \<open>'A'\<close> is 65, \<open>'x'\<close> is 120 and \<open>'-'\<close> is 45.\<close>

fun put_bits :: "u64 \<Rightarrow> u64 \<Rightarrow> u64 \<Rightarrow> u8 \<Rightarrow> nat list \<Rightarrow> screen \<Rightarrow> screen res" where
  "put_bits value x y bits [] s = Inr s"
| "put_bits value x y bits (i # is) s =
     (let k = unat bits - i - 1 in
      if 64 \<le> k then Inl Undefined_arith
      else
        rbind (put_char (48 + ucast (drop_bit k value AND 1)) (x + 2 + of_nat i) y (fg_color s) (bg_color s) s)
          (put_bits value x y bits is))"

definition put_binary_len :: "u64 \<Rightarrow> u64 \<Rightarrow> u64 \<Rightarrow> u8 \<Rightarrow> screen \<Rightarrow> screen res" where
  "put_binary_len value x y bits s =
     rbind (put_string (lit ''0b'') x y s) (\<lambda>(_, s). put_bits value x y bits [0..<unat bits] s)"

text \<open>\<open>clzll\<close> is \<open>__builtin_clzll\<close>.\<close>

definition put_binary :: "u64 \<Rightarrow> u64 \<Rightarrow> u64 \<Rightarrow> screen \<Rightarrow> (u64 \<times> screen) res" where
  "put_binary value x y s =
     (if value = 0 then rbind (put_string (lit ''0b0'') x y s) (\<lambda>(_, s). Inr (3, s))
      else
        let leading_zeroes = clzll value in
        rbind (put_binary_len value x y (of_nat (64 - leading_zeroes)) s) (\<lambda>s.
          Inr (of_nat (2 + 64 - leading_zeroes), s)))"

definition put_binary_32 :: "u64 \<Rightarrow> u64 \<Rightarrow> u64 \<Rightarrow> screen \<Rightarrow> screen res" where
  "put_binary_32 value x y = put_binary_len value x y 32"

definition put_binary_64 :: "u64 \<Rightarrow> u64 \<Rightarrow> u64 \<Rightarrow> screen \<Rightarrow> screen res" where
  "put_binary_64 value x y = put_binary_len value x y 64"

text \<open>
  \<open>put_uint\<close> writes the digits from the last to the first into \<open>buf\<close>, which has 21 characters,
  and reverses them in place. The buffer is not initialized in C; nothing is read from it
  before it is written.
\<close>

function write_digits :: "u64 \<Rightarrow> u8 list \<Rightarrow> nat \<Rightarrow> (u8 list \<times> nat) res" where
  "write_digits value buf p =
     (if value = 0 then Inr (buf, p)
      else if p < length buf then write_digits (value div 10) (buf[p := 48 + ucast (value mod 10)]) (p + 1)
      else Inl Out_of_bounds)"
  by pat_completeness auto

termination
  by (relation "measure (\<lambda>(value, _, _). unat value)") (auto simp: unat_div word_greater_zero_iff [symmetric] word_less_nat_alt)

function reverse_digits :: "u8 list \<Rightarrow> nat \<Rightarrow> nat \<Rightarrow> u8 list" where
  "reverse_digits buf begin_ptr end_ptr =
     (if begin_ptr < end_ptr
      then reverse_digits (buf[begin_ptr := buf ! end_ptr, end_ptr := buf ! begin_ptr]) (begin_ptr + 1) (end_ptr - 1)
      else buf)"
  by pat_completeness auto

termination
  by (relation "measure (\<lambda>(_, b, e). e - b)") auto

definition put_uint :: "u64 \<Rightarrow> u64 \<Rightarrow> u64 \<Rightarrow> screen \<Rightarrow> (u64 \<times> screen) res" where
  "put_uint value x y s =
     (if value = 0 then rbind (put_char 48 x y (fg_color s) (bg_color s) s) (\<lambda>s. Inr (1, s))
      else
        rbind (write_digits value (replicate 21 0) 0) (\<lambda>(buf, p).
        if p < length buf then
          let buf = reverse_digits (buf[p := 0]) 0 (p - 1) in
          rbind (put_string buf x y s) (\<lambda>(_, s). Inr (of_nat p, s))
        else Inl Out_of_bounds))"

text \<open>\<open>-value\<close> overflows for the least \<open>int64_t\<close>.\<close>

definition put_int :: "u64 \<Rightarrow> u64 \<Rightarrow> u64 \<Rightarrow> screen \<Rightarrow> (u64 \<times> screen) res" where
  "put_int value x y s =
     (if sint value < 0 then
        rbind (put_char 45 x y (fg_color s) (bg_color s) s) (\<lambda>s.
        if sint value = - (2 ^ 63) then Inl Undefined_arith
        else rbind (put_uint (- value) (x + 1) y s) (\<lambda>(n, s). Inr (n + 1, s)))
      else put_uint value x y s)"

definition hex_digit :: "u8 \<Rightarrow> u8" where
  "hex_digit num = (if num \<ge> 10 then 65 + num - 10 else 48 + num)"

fun put_nibbles :: "u64 \<Rightarrow> u64 \<Rightarrow> u64 \<Rightarrow> u64 \<Rightarrow> nat list \<Rightarrow> screen \<Rightarrow> screen res" where
  "put_nibbles value x y nibbles [] s = Inr s"
| "put_nibbles value x y nibbles (i # is) s =
     (let k = (unat nibbles - 1 - i) * 4 in
      if 64 \<le> k then Inl Undefined_arith
      else
        let num = ucast (drop_bit k (value AND push_bit k 0xF)) in
        rbind (put_char (hex_digit num) (x + 2 + of_nat i) y (fg_color s) (bg_color s) s)
          (put_nibbles value x y nibbles is))"

definition put_hex_len :: "u64 \<Rightarrow> u64 \<Rightarrow> u64 \<Rightarrow> u64 \<Rightarrow> screen \<Rightarrow> screen res" where
  "put_hex_len value x y nibbles s =
     rbind (put_char 48 x y (fg_color s) (bg_color s) s) (\<lambda>s.
     rbind (put_char 120 (x + 1) y (fg_color s) (bg_color s) s) (\<lambda>s.
       put_nibbles value x y nibbles [0..<unat nibbles] s))"

text \<open>The loop decrements \<open>nibbles\<close> in its condition.\<close>

fun hex_nibbles :: "nat \<Rightarrow> u64 \<Rightarrow> nat" where
  "hex_nibbles 0 value = 0"
| "hex_nibbles (Suc n) value =
     (if Suc n > 2 then if value AND push_bit (4 * n) 0xF = 0 then hex_nibbles n value else n else Suc n)"

definition put_hex :: "u64 \<Rightarrow> u64 \<Rightarrow> u64 \<Rightarrow> screen \<Rightarrow> (u64 \<times> screen) res" where
  "put_hex value x y s =
     (let nibbles = of_nat (hex_nibbles 16 value + 1) in
      rbind (put_hex_len value x y nibbles s) (\<lambda>s. Inr (nibbles + 2, s)))"

definition put_hex_32 :: "u64 \<Rightarrow> u64 \<Rightarrow> u64 \<Rightarrow> screen \<Rightarrow> screen res" where
  "put_hex_32 value x y = put_hex_len value x y 8"

definition put_hex_64 :: "u64 \<Rightarrow> u64 \<Rightarrow> u64 \<Rightarrow> screen \<Rightarrow> screen res" where
  "put_hex_64 value x y = put_hex_len value x y 16"

end
