(* ===== verification/Rendering_Properties.thy ===== *)
theory Rendering_Properties
  imports Rendering
begin

text \<open>
  What the drawing routines of kernel/src/rendering.c put on the screen: pixels, glyphs, and the
  texts of numbers.
\<close>

section \<open>Sequences of pixels\<close>

lemma put_pixel_fields [simp]:
  "frame_buffer (put_pixel x y c s) = frame_buffer s" "fg_color (put_pixel x y c s) = fg_color s"
  "bg_color (put_pixel x y c s) = bg_color s"
  by (simp_all add: put_pixel_def)

lemma fold_put_pixel_fields [simp]:
  "frame_buffer (fold (\<lambda>p. put_pixel (X p) (Y p) (C p)) ps s) = frame_buffer s"
  "fg_color (fold (\<lambda>p. put_pixel (X p) (Y p) (C p)) ps s) = fg_color s"
  "bg_color (fold (\<lambda>p. put_pixel (X p) (Y p) (C p)) ps s) = bg_color s"
  by (induction ps arbitrary: s) simp_all

lemma fold_product:
  "fold (\<lambda>x. fold (\<lambda>y. g x y) ys) xs s = fold (\<lambda>p. g (fst p) (snd p)) (List.product xs ys) s"
  by (induction xs arbitrary: s) (simp_all add: fold_map comp_def)

lemma fold_pixels_other:
  "a \<notin> (\<lambda>p. pixel_address (frame_buffer s) (X p) (Y p)) ` set ps \<Longrightarrow>
     pixels (fold (\<lambda>p. put_pixel (X p) (Y p) (C p)) ps s) a = pixels s a"
  by (induction ps arbitrary: s) (auto simp: put_pixel_def)

lemma fold_pixels_at:
  "inj_on (\<lambda>p. pixel_address (frame_buffer s) (X p) (Y p)) (set ps) \<Longrightarrow> p \<in> set ps \<Longrightarrow>
     pixels (fold (\<lambda>p. put_pixel (X p) (Y p) (C p)) ps s) (pixel_address (frame_buffer s) (X p) (Y p)) = C p"
proof (induction ps arbitrary: s)
  case (Cons q qs)
  let ?s = "put_pixel (X q) (Y q) (C q) s" and ?f = "\<lambda>p. pixel_address (frame_buffer s) (X p) (Y p)"
  show ?case
  proof (cases "p \<in> set qs")
    case True
    with Cons.prems Cons.IH [of ?s] show ?thesis
      by (simp add: comp_def)
  next
    case False
    then have pq: "p = q" "?f q \<notin> ?f ` set qs"
      using Cons.prems by auto
    have "pixels ?s (?f q) = C q"
      by (simp add: put_pixel_def)
    with pq show ?thesis
      using fold_pixels_other [of "?f q" ?s X Y qs C] by simp
  qed
qed simp

text \<open>The addresses of the pixels of the screen.\<close>

definition screen_area :: "Framebuffer \<Rightarrow> u64 set" where
  "screen_area fb = {pixel_address fb x y | x y. x < fb_width fb \<and> y < fb_height fb}"

lemma fold_same_color:
  "pixels (fold (\<lambda>p. put_pixel (X p) (Y p) c) ps s) a =
     (if a \<in> (\<lambda>p. pixel_address (frame_buffer s) (X p) (Y p)) ` set ps then c else pixels s a)"
  by (induction ps arbitrary: s) (auto simp: put_pixel_def)

text \<open>
  \<open>clear_screen\<close> gives every pixel of the screen the color and changes nothing else.
\<close>

theorem clear_screen_fills:
  "clear_screen color s = s\<lparr>pixels := \<lambda>a. if a \<in> screen_area (frame_buffer s) then color else pixels s a\<rparr>"
proof -
  let ?w = "fb_width (frame_buffer s)" and ?h = "fb_height (frame_buffer s)"
  let ?X = "\<lambda>p. of_nat (fst p) :: u64" and ?Y = "\<lambda>p. of_nat (snd p) :: u64"
  have "(\<lambda>p. pixel_address (frame_buffer s) (?X p) (?Y p)) ` set (List.product [0..<unat ?w] [0..<unat ?h]) =
      screen_area (frame_buffer s)" (is "?L = ?R")
  proof (intro equalityI subsetI)
    fix a assume "a \<in> ?L"
    then obtain i j where ij: "a = pixel_address (frame_buffer s) (of_nat i) (of_nat j)" "i < unat ?w" "j < unat ?h"
      by auto
    then have "(of_nat i :: u64) < ?w" "(of_nat j :: u64) < ?h"
      by (simp_all add: of_nat_less_u64)
    with ij show "a \<in> ?R"
      by (auto simp: screen_area_def)
  next
    fix a assume "a \<in> ?R"
    then obtain x y where "a = pixel_address (frame_buffer s) x y" "unat x < unat ?w" "unat y < unat ?h"
      by (auto simp: screen_area_def word_less_nat_alt)
    then show "a \<in> ?L"
      by (intro image_eqI [of _ _ "(unat x, unat y)"]) auto
  qed
  then show ?thesis
    unfolding clear_screen_def fold_product
    by (intro screen.equality ext) (simp_all add: fold_same_color)
qed

text \<open>
  A frame buffer whose rows do not overlap and which does not wrap around the address space.
\<close>

definition fb_ok :: "Framebuffer \<Rightarrow> bool" where
  "fb_ok fb \<longleftrightarrow> fb_width fb \<le> fb_pixels_per_scanline fb \<and>
     4 * unat (fb_pixels_per_scanline fb) * unat (fb_height fb) < 2 ^ 64"

lemma pixel_address_inj:
  assumes "fb_ok fb" "x < fb_width fb" "y < fb_height fb" "x' < fb_width fb" "y' < fb_height fb"
    "pixel_address fb x y = pixel_address fb x' y'"
  shows "x = x' \<and> y = y'"
proof -
  let ?P = "unat (fb_pixels_per_scanline fb)"
  have offset: "unat (4 * fb_pixels_per_scanline fb * y + 4 * x) = 4 * (?P * unat y + unat x)"
    if "x < fb_width fb" "y < fb_height fb" for x y
  proof -
    have x: "unat x < ?P" and y: "unat y < unat (fb_height fb)"
      using that assms(1) by (auto simp: fb_ok_def word_less_nat_alt word_le_nat_alt)
    have "?P * unat y + unat x < ?P * (unat y + 1)"
      using x by simp
    also have "\<dots> \<le> ?P * unat (fb_height fb)"
      using y by (intro mult_le_mono2) simp
    finally have "4 * (?P * unat y + unat x) < 4 * (?P * unat (fb_height fb))"
      by simp
    also have "\<dots> < 2 ^ 64"
      using assms(1) unfolding fb_ok_def by (simp only: mult.assoc)
    finally have lt: "4 * (?P * unat y + unat x) < 2 ^ 64" .
    have "4 * fb_pixels_per_scanline fb * y + 4 * x = of_nat (4 * (?P * unat y + unat x))"
      by (simp add: algebra_simps)
    then show ?thesis
      using lt by (simp only: unat_of_nat_u64)
  qed
  have "4 * fb_pixels_per_scanline fb * y + 4 * x = 4 * fb_pixels_per_scanline fb * y' + 4 * x'"
    using assms(6) by (simp add: pixel_address_def)
  then have eq: "?P * unat y + unat x = ?P * unat y' + unat x'"
    using offset [OF assms(2,3)] offset [OF assms(4,5)] by simp
  have lt: "unat x < ?P" "unat x' < ?P"
    using assms by (auto simp: fb_ok_def word_less_nat_alt word_le_nat_alt)
  have "unat y = unat y'"
    using arg_cong [OF eq, of "\<lambda>n. n div ?P"] lt by (simp add: div_mult_self4 add.commute)
  with eq have "unat x = unat x'"
    by simp
  with \<open>unat y = unat y'\<close> show ?thesis
    by (simp add: word_unat_eq_iff)
qed

lemma put_char_effect:
  assumes "fb_ok (frame_buffer s)" and "\<forall>cx < 8. \<forall>cy < 16. of_nat cx + x * 8 < fb_width (frame_buffer s) \<and>
      of_nat cy + y * 16 < fb_height (frame_buffer s)"
  shows "if 31 \<le> sint c \<and> sint c < 127 then
      \<exists>s'. put_char c x y fg bg s = Inr s' \<and> frame_buffer s' = frame_buffer s \<and>
        (\<forall>cx < 8. \<forall>cy < 16. pixels s' (pixel_address (frame_buffer s) (of_nat cx + x * 8) (of_nat cy + y * 16)) =
           (if bit (font ! (nat (sint c - 31) * 16 + cy)) (7 - cx) then fg else bg)) \<and>
        (\<forall>a. (\<forall>cx < 8. \<forall>cy < 16. a \<noteq> pixel_address (frame_buffer s) (of_nat cx + x * 8) (of_nat cy + y * 16)) \<longrightarrow>
           pixels s' a = pixels s a)
    else put_char c x y fg bg s = Inl Out_of_bounds"
proof (cases "31 \<le> sint c \<and> sint c < 127")
  case False
  then show ?thesis
    by (auto simp: put_char_def Let_def)
next
  case True
  let ?g = "nat (sint c - 31) * 16" and ?fb = "frame_buffer s"
  let ?X = "\<lambda>p. of_nat (snd p) + x * 8 :: u64" and ?Y = "\<lambda>p. of_nat (fst p) + y * 16 :: u64"
  let ?C = "\<lambda>p. if font ! (?g + fst p) AND glyph_mask (snd p) \<noteq> 0 then fg else bg"
  let ?ps = "List.product [0..<16] [0..<8]"
  let ?s' = "fold (\<lambda>p. put_pixel (?X p) (?Y p) (?C p)) ?ps s"
  have run: "put_char c x y fg bg s = Inr ?s'"
  proof -
    have "nat ((sint c - 31) * 16) = ?g"
      using True by (simp add: nat_mult_distrib)
    then have "put_glyph (nat ((sint c - 31) * 16)) x y fg bg s = ?s'"
      by (simp only: put_glyph_def fold_product)
    with True show ?thesis
      by (simp add: put_char_def Let_def)
  qed
  have inj: "inj_on (\<lambda>p. pixel_address ?fb (?X p) (?Y p)) (set ?ps)"
  proof (intro inj_onI)
    fix p q assume pq: "p \<in> set ?ps" "q \<in> set ?ps" "pixel_address ?fb (?X p) (?Y p) = pixel_address ?fb (?X q) (?Y q)"
    then have b: "fst p < 16" "snd p < 8" "fst q < 16" "snd q < 8"
      by auto
    have "?X p = ?X q \<and> ?Y p = ?Y q"
      using assms(2) b by (intro pixel_address_inj [OF assms(1) _ _ _ _ pq(3)]) auto
    then have "(of_nat (snd p) :: u64) = of_nat (snd q)" "(of_nat (fst p) :: u64) = of_nat (fst q)"
      by simp_all
    then have "snd p = snd q" "fst p = fst q"
      using b by (simp_all add: of_nat_u64_eq_iff)
    then show "p = q"
      by (simp add: prod_eq_iff)
  qed
  have mask: "f AND glyph_mask cx \<noteq> 0 \<longleftrightarrow> bit f (7 - cx)" if "cx < 8" for f cx
  proof -
    have "cx \<in> {0, 1, 2, 3, 4, 5, 6, 7}"
      using that by auto
    then have "glyph_mask cx = push_bit (7 - cx) 1"
      unfolding glyph_mask_def by auto
    then show ?thesis
      by (simp add: and_exp_eq_0_iff_not_bit push_bit_eq_mult)
  qed
  have "pixels ?s' (pixel_address ?fb (of_nat cx + x * 8) (of_nat cy + y * 16)) =
      (if bit (font ! (?g + cy)) (7 - cx) then fg else bg)" if "cx < 8" "cy < 16" for cx cy
    using fold_pixels_at [where X = ?X and Y = ?Y and C = ?C, OF inj, of "(cy, cx)"] that mask [OF that(1)] by simp
  moreover have "pixels ?s' a = pixels s a"
    if "\<forall>cx < 8. \<forall>cy < 16. a \<noteq> pixel_address ?fb (of_nat cx + x * 8) (of_nat cy + y * 16)" for a
  proof (intro fold_pixels_other notI)
    assume "a \<in> (\<lambda>p. pixel_address ?fb (?X p) (?Y p)) ` set ?ps"
    then obtain p where "a = pixel_address ?fb (?X p) (?Y p)" "snd p < 8" "fst p < 16"
      by auto
    with that show False
      by blast
  qed
  ultimately show ?thesis
    using True run by (simp del: set_product)
qed

text \<open>
  C26. \<open>put_char\<close> of a character from 31 to 126 draws its glyph: the pixel in column \<open>cx\<close> and row
  \<open>cy\<close> of the cell has the foreground color exactly where the bit of the font is set, and no
  pixel outside the cell changes. Other characters index outside the font.
\<close>

theorem put_char_draws:
  assumes "fb_ok (frame_buffer s)" and "\<forall>cx < 8. \<forall>cy < 16. of_nat cx + x * 8 < fb_width (frame_buffer s) \<and>
      of_nat cy + y * 16 < fb_height (frame_buffer s)"
  shows "if 31 \<le> sint c \<and> sint c < 127 then
      \<exists>s'. put_char c x y fg bg s = Inr s' \<and> frame_buffer s' = frame_buffer s \<and>
        (\<forall>cx < 8. \<forall>cy < 16. pixels s' (pixel_address (frame_buffer s) (of_nat cx + x * 8) (of_nat cy + y * 16)) =
           (if bit (font ! (nat (sint c - 31) * 16 + cy)) (7 - cx) then fg else bg)) \<and>
        (\<forall>a. (\<forall>cx < 8. \<forall>cy < 16. a \<noteq> pixel_address (frame_buffer s) (of_nat cx + x * 8) (of_nat cy + y * 16)) \<longrightarrow>
           pixels s' a = pixels s a)
    else put_char c x y fg bg s = Inl Out_of_bounds"
  by (rule put_char_effect [OF assms])

section \<open>Texts\<close>

definition printable :: "u8 \<Rightarrow> bool" where
  "printable c \<longleftrightarrow> 33 \<le> sint c \<and> sint c < 126"

lemma put_char_printable: "printable c \<Longrightarrow> \<exists>s'. put_char c x y fg bg s = Inr s'"
  by (simp add: printable_def put_char_def Let_def)

lemma put_char_colors: "put_char c x y fg bg s = Inr s' \<Longrightarrow> fg_color s' = fg_color s \<and> bg_color s' = bg_color s"
  by (auto simp: put_char_def Let_def put_glyph_def fold_product split: if_splits)

lemma put_string_loop_total: "\<exists>s'. put_string_loop cs i x y s = Inr (i + of_nat (length (takeWhile (\<lambda>c. c \<noteq> 0) cs)), s')"
proof (induction cs arbitrary: i s)
  case (Cons c cs)
  show ?case
  proof (cases "c \<noteq> 0 \<and> printable c")
    case True
    with put_char_printable obtain s1 where "put_char c (x + i) y (fg_color s) (bg_color s) s = Inr s1"
      by blast
    with True Cons [of "i + 1" s1] show ?thesis
      by (simp add: printable_def add.assoc)
  next
    case False
    with Cons [of "i + 1" s] show ?thesis
      by (auto simp: printable_def add.assoc)
  qed
qed simp

text \<open>
  \<open>put_string\<close> never indexes outside the font and returns the length of the string.
\<close>

lemma put_string_total: "\<exists>s'. put_string cs x y s = Inr (of_nat (length (takeWhile (\<lambda>c. c \<noteq> 0) cs)), s')"
  using put_string_loop_total [of cs 0 x y s] by (simp add: put_string_def)

lemma put_string_loop_nul: "put_string_loop (cs @ 0 # rest) i x y s = put_string_loop cs i x y s"
proof (induction cs arbitrary: i s)
  case (Cons c cs)
  have "put_string_loop (cs @ 0 # rest) j x y = put_string_loop cs j x y" for j
    using Cons by (intro ext)
  then show ?case
    by simp
qed simp

lemma put_string_loop_append:
  "0 \<notin> set cs \<Longrightarrow> put_string_loop (cs @ ds) i x y s =
     rbind (put_string_loop cs i x y s) (\<lambda>(i, s). put_string_loop ds i x y s)"
proof (induction cs arbitrary: i s)
  case (Cons c cs)
  have "put_string_loop (cs @ ds) j x y = (\<lambda>s. rbind (put_string_loop cs j x y s) (\<lambda>(i, s). put_string_loop ds i x y s))" for j
    using Cons by (intro ext) simp
  then show ?case
    using Cons.prems by (simp add: rbind_assoc)
qed simp

section \<open>Decimal numbers\<close>

text \<open>The reference: the digits of a number, the first one first.\<close>

fun decimal_digits :: "nat \<Rightarrow> nat list" where
  "decimal_digits n = (if n < 10 then [n] else decimal_digits (n div 10) @ [n mod 10])"

declare decimal_digits.simps [simp del] write_digits.simps [simp del] reverse_digits.simps [simp del]

definition decimal_text :: "nat \<Rightarrow> u8 list" where
  "decimal_text n = map (\<lambda>d. 48 + of_nat d) (decimal_digits n)"

lemma decimal_digits_lt: "d \<in> set (decimal_digits n) \<Longrightarrow> d < 10"
  by (induction n rule: decimal_digits.induct) (subst (asm) (2) decimal_digits.simps, auto split: if_splits)

lemma decimal_digits_length: "n < 10 ^ Suc k \<Longrightarrow> length (decimal_digits n) \<le> Suc k"
proof (induction k arbitrary: n)
  case 0
  then show ?case
    by (simp add: decimal_digits.simps)
next
  case (Suc k)
  then have "n div 10 < 10 ^ Suc k"
    by (simp add: div_less_iff_less_mult mult.commute)
  from Suc.IH [OF this] show ?case
    by (subst decimal_digits.simps) simp
qed

lemma decimal_text_chars: "c \<in> set (decimal_text n) \<Longrightarrow> c \<noteq> 0 \<and> printable c"
proof -
  assume "c \<in> set (decimal_text n)"
  then obtain d where "c = 48 + of_nat d" "d < 10"
    using decimal_digits_lt by (auto simp: decimal_text_def)
  moreover from this have "d \<in> {0, 1, 2, 3, 4, 5, 6, 7, 8, 9}"
    by auto
  ultimately show ?thesis
    by (auto simp: printable_def)
qed

lemma write_digits_0 [simp]: "write_digits 0 buf p = Inr (buf, p)"
  by (subst write_digits.simps) simp

lemma write_digits_ok:
  assumes "v \<noteq> 0" "p + length (decimal_digits (unat v)) \<le> length buf"
  shows "\<exists>buf'. write_digits v buf p = Inr (buf', p + length (decimal_digits (unat v))) \<and> length buf' = length buf \<and>
    take (p + length (decimal_digits (unat v))) buf' = take p buf @ rev (decimal_text (unat v))"
  using assms
proof (induction "unat v" arbitrary: v buf p rule: decimal_digits.induct)
  case 1
  let ?n = "unat v" and ?buf = "buf[p := 48 + ucast (v mod 10)]"
  have digit: "ucast (v mod 10) = (of_nat (?n mod 10) :: u8)"
  proof -
    have "?n mod 10 = unat (v mod 10)"
      by (simp add: unat_mod)
    then show ?thesis
      by (simp only: of_nat_unat)
  qed
  have p: "p < length buf"
    using 1 by (subst (asm) decimal_digits.simps) (auto split: if_splits)
  have step: "write_digits v buf p = write_digits (v div 10) ?buf (p + 1)"
    using 1 p by (subst write_digits.simps) simp
  show ?case
  proof (cases "?n < 10")
    case True
    then have "v div 10 = 0"
      by (simp add: word_unat_eq_iff unat_div)
    moreover have "take (p + 1) ?buf = take p buf @ [48 + of_nat (?n mod 10)]"
      using p digit by (simp add: take_Suc_conv_app_nth)
    ultimately show ?thesis
      using True step p by (simp add: decimal_digits.simps decimal_text_def)
  next
    case False
    have q: "unat (v div 10) = ?n div 10"
      by (simp add: unat_div)
    then have "v div 10 \<noteq> 0"
      using False by (auto simp: word_unat_eq_iff)
    moreover have "p + 1 + length (decimal_digits (?n div 10)) \<le> length ?buf"
      using 1(3) False by (subst (asm) decimal_digits.simps) simp
    ultimately obtain buf' where b: "write_digits (v div 10) ?buf (p + 1) = Inr (buf', p + 1 + length (decimal_digits (?n div 10)))"
      "length buf' = length ?buf"
      "take (p + 1 + length (decimal_digits (?n div 10))) buf' = take (p + 1) ?buf @ rev (decimal_text (?n div 10))"
      using 1(1) [OF False, of "v div 10" "p + 1" ?buf] q by auto
    have "decimal_digits ?n = decimal_digits (?n div 10) @ [?n mod 10]"
      using False by (subst decimal_digits.simps) simp
    moreover have "take (p + 1) ?buf = take p buf @ [48 + of_nat (?n mod 10)]"
      using p digit by (simp add: take_Suc_conv_app_nth)
    ultimately show ?thesis
      using step b by (auto simp: decimal_text_def)
  qed
qed

lemma reverse_digits_nth:
  "e < length buf \<Longrightarrow> length (reverse_digits buf b e) = length buf \<and>
    (\<forall>i < length buf. reverse_digits buf b e ! i = (if b \<le> i \<and> i \<le> e then buf ! (b + e - i) else buf ! i))"
proof (induction buf b e rule: reverse_digits.induct)
  case (1 buf b e)
  show ?case
  proof (cases "b < e")
    case True
    let ?buf = "buf[b := buf ! e, e := buf ! b]"
    have IH: "length (reverse_digits ?buf (b + 1) (e - 1)) = length buf"
      "\<forall>i < length buf. reverse_digits ?buf (b + 1) (e - 1) ! i =
        (if b + 1 \<le> i \<and> i \<le> e - 1 then ?buf ! (b + 1 + (e - 1) - i) else ?buf ! i)"
      using 1 True by simp_all
    have step: "reverse_digits buf b e = reverse_digits ?buf (b + 1) (e - 1)"
      using True by (subst reverse_digits.simps) simp
    have "reverse_digits buf b e ! i = (if b \<le> i \<and> i \<le> e then buf ! (b + e - i) else buf ! i)" if "i < length buf" for i
    proof -
      consider "i = b" | "i = e" | "b < i" "i < e" | "i < b" | "e < i"
        by linarith
      then show ?thesis
        using IH(2) [rule_format, OF that] True 1(2) that unfolding step by cases auto
    qed
    with IH(1) step show ?thesis
      by simp
  next
    case False
    then have "reverse_digits buf b e = buf"
      by (subst reverse_digits.simps) simp
    moreover have "b + e - i = i" if "b \<le> i" "i \<le> e" for i
      using that False by linarith
    ultimately show ?thesis
      by simp
  qed
qed

lemma reverse_digits_rev: "0 < p \<Longrightarrow> p \<le> length buf \<Longrightarrow> reverse_digits buf 0 (p - 1) = rev (take p buf) @ drop p buf"
  using reverse_digits_nth [of "p - 1" buf 0]
  by (intro nth_equalityI) (auto simp: nth_append rev_nth min_def simp del: reverse_digits.simps)

text \<open>
  C25. \<open>put_uint\<close> draws the decimal digits of the value, without leading zeros, and returns how
  many; they are 20 at most, so that the writes to the buffer of 21 characters and its NUL stay
  inside it.
\<close>

theorem put_uint_decimal:
  "put_uint v x y s = rbind (put_string (decimal_text (unat v)) x y s) (\<lambda>(_, s).
     Inr (of_nat (length (decimal_text (unat v))), s)) \<and>
   length (decimal_text (unat v)) \<le> 20 \<and> (\<exists>r. put_uint v x y s = Inr r)"
proof -
  let ?t = "decimal_text (unat v)" and ?n = "length (decimal_text (unat v))"
  have "unat v < 10 ^ Suc 19"
    using unat_u64_lt [of v] by simp
  from decimal_digits_length [OF this] have len: "?n \<le> 20"
    by (simp add: decimal_text_def)
  have eq: "put_uint v x y s = rbind (put_string ?t x y s) (\<lambda>(_, s). Inr (of_nat ?n, s))"
  proof (cases "v = 0")
    case True
    then have "?t = [48]"
      by (simp add: decimal_text_def decimal_digits.simps)
    with True show ?thesis
      by (simp add: put_uint_def put_string_def rbind_assoc)
  next
    case False
    have "0 + length (decimal_digits (unat v)) \<le> length (replicate 21 (0 :: u8))"
      using len by (simp add: decimal_text_def)
    from write_digits_ok [OF False this] obtain buf where b: "write_digits v (replicate 21 0) 0 = Inr (buf, ?n)"
      "length buf = 21" "take ?n buf = rev ?t"
      by (auto simp: decimal_text_def)
    have n: "0 < ?n" "?n < length buf"
      using len b(2) by (auto simp: decimal_text_def decimal_digits.simps)
    have "reverse_digits (buf[?n := 0]) 0 (?n - 1) = ?t @ 0 # drop (Suc ?n) buf"
      using n b(3) by (subst reverse_digits_rev) (simp_all add: drop_update_swap Cons_nth_drop_Suc [symmetric])
    with False b(1) n show ?thesis
      by (simp add: put_uint_def Let_def put_string_def put_string_loop_nul)
  qed
  obtain s' where "put_string ?t x y s = Inr (of_nat (length (takeWhile (\<lambda>c. c \<noteq> 0) ?t)), s')"
    using put_string_total by blast
  with eq len show ?thesis
    by simp
qed

section \<open>Hexadecimal numbers\<close>

definition nibble :: "u64 \<Rightarrow> nat \<Rightarrow> u8" where
  "nibble v i = of_nat (unat v div 16 ^ i mod 16)"

lemma nibble_mask: "drop_bit (i * 4) (v AND push_bit (i * 4) 0xF) = (of_nat (unat v div 16 ^ i mod 16) :: u64)"
proof -
  have "drop_bit (i * 4) (v AND push_bit (i * 4) 0xF) = take_bit 4 (drop_bit (i * 4) v)" if "i * 4 + 4 \<le> 64"
  proof -
    have m: "(0xF :: u64) = mask 4"
      by (simp add: mask_eq_exp_minus_1)
    show ?thesis
      unfolding m using that by (intro bit_word_eqI) (auto simp: bit_simps)
  qed
  moreover have "drop_bit (i * 4) (v AND push_bit (i * 4) 0xF) = 0" "drop_bit (i * 4) v = 0" if "64 \<le> i * 4"
    using that by (auto intro!: bit_word_eqI simp: bit_simps dest: bit_imp_le_length)
  moreover have "unat (take_bit 4 (drop_bit (i * 4) v)) = unat v div 16 ^ i mod 16"
    by (simp add: unat_take_bit_u64 unat_drop_bit_u64 mult.commute [of i] power_mult)
  moreover have "i * 4 + 4 \<le> 64 \<or> 64 \<le> i * 4"
    by presburger
  ultimately show ?thesis
    by (metis of_nat_unat take_bit_of_0 ucast_id)
qed

lemma hex_digit_char: "hex_digit (nibble v i) \<noteq> 0 \<and> printable (hex_digit (nibble v i))"
proof -
  have "\<forall>d \<in> set [0..<16]. hex_digit (of_nat d) \<noteq> 0 \<and> printable (hex_digit (of_nat d))"
    by code_simp
  moreover have "unat v div 16 ^ i mod 16 \<in> set [0..<16]"
    by simp
  ultimately show ?thesis
    unfolding nibble_def by blast
qed

lemma drop_masked_0: "drop_bit k (v AND push_bit k m) = 0 \<longleftrightarrow> v AND push_bit k m = (0 :: u64)"
proof
  assume drop: "drop_bit k (v AND push_bit k m) = 0"
  have "\<not> bit (v AND push_bit k m) i" for i
  proof
    assume i: "bit (v AND push_bit k m) i"
    then have "bit (drop_bit k (v AND push_bit k m)) (i - k)"
      by (auto simp: bit_simps)
    with drop show False
      by simp
  qed
  then show "v AND push_bit k m = 0"
    by (intro bit_word_eqI) simp
qed simp

lemma top_nibble_0:
  assumes "unat (v :: u64) < 16 ^ Suc k"
  shows "v AND push_bit (4 * k) 0xF = 0 \<longleftrightarrow> unat v < 16 ^ k"
proof -
  have lt: "unat v div 16 ^ k < 16"
    using assms by (simp add: less_mult_imp_div_less)
  have "v AND push_bit (4 * k) 0xF = 0 \<longleftrightarrow> (of_nat (unat v div 16 ^ k mod 16) :: u64) = 0"
    using drop_masked_0 [of "k * 4" v "0xF"] unfolding nibble_mask by (simp only: mult.commute)
  also have "\<dots> \<longleftrightarrow> unat v div 16 ^ k = 0"
    using lt of_nat_u64_eq_iff [of "unat v div 16 ^ k" 0] by simp
  also have "\<dots> \<longleftrightarrow> unat v < 16 ^ k"
    by (simp add: div_eq_0_iff)
  finally show ?thesis .
qed

lemma hex_nibbles_spec:
  "2 \<le> n \<Longrightarrow> unat v < 16 ^ Suc n \<Longrightarrow>
     2 \<le> hex_nibbles (Suc n) v \<and> unat v < 16 ^ Suc (hex_nibbles (Suc n) v) \<and>
     hex_nibbles (Suc n) v \<le> n \<and> (hex_nibbles (Suc n) v = 2 \<or> 16 ^ hex_nibbles (Suc n) v \<le> unat v)"
proof (induction n rule: nat_induct_at_least)
  case base
  have "hex_nibbles (Suc 2) v = 2"
    by (simp add: numeral_2_eq_2)
  with base show ?case
    by simp
next
  case (Suc n)
  show ?case
  proof (cases "unat v < 16 ^ Suc n")
    case True
    then have "hex_nibbles (Suc (Suc n)) v = hex_nibbles (Suc n) v"
      using top_nibble_0 [OF Suc.prems] Suc.hyps by (subst hex_nibbles.simps) (simp del: power_Suc mult_Suc_right hex_nibbles.simps)
    with Suc.IH [OF True] show ?thesis
      by (simp del: hex_nibbles.simps)
  next
    case False
    then have "hex_nibbles (Suc (Suc n)) v = Suc n"
      using top_nibble_0 [OF Suc.prems] Suc.hyps by (subst hex_nibbles.simps) (simp del: power_Suc mult_Suc_right hex_nibbles.simps)
    with False Suc show ?thesis
      by (simp del: hex_nibbles.simps)
  qed
qed

text \<open>The reference: the digits of the value, three at least.\<close>

definition hex_length :: "u64 \<Rightarrow> nat" where
  "hex_length v = (LEAST n. 3 \<le> n \<and> unat v < 16 ^ n)"

definition hex_text :: "u64 \<Rightarrow> u8 list" where
  "hex_text v = lit ''0x'' @ map (\<lambda>i. hex_digit (nibble v (hex_length v - 1 - i))) [0..<hex_length v]"

lemma hex_length_nibbles: "hex_nibbles 16 v + 1 = hex_length v" "3 \<le> hex_length v" "hex_length v \<le> 16"
proof -
  have "unat v < 16 ^ Suc 15"
    using unat_u64_lt [of v] by simp
  from hex_nibbles_spec [OF _ this] have h: "2 \<le> hex_nibbles 16 v" "unat v < 16 ^ Suc (hex_nibbles 16 v)"
    "hex_nibbles 16 v \<le> 15" "hex_nibbles 16 v = 2 \<or> 16 ^ hex_nibbles 16 v \<le> unat v"
    by (simp_all add: eval_nat_numeral)
  show eq: "hex_nibbles 16 v + 1 = hex_length v"
    unfolding hex_length_def
  proof (rule Least_equality [symmetric])
    show "3 \<le> hex_nibbles 16 v + 1 \<and> unat v < 16 ^ (hex_nibbles 16 v + 1)"
      using h by simp
    fix n assume n: "3 \<le> n \<and> unat v < 16 ^ n"
    show "hex_nibbles 16 v + 1 \<le> n"
    proof (rule ccontr)
      assume "\<not> hex_nibbles 16 v + 1 \<le> n"
      then have "(16 :: nat) ^ n \<le> 16 ^ hex_nibbles 16 v" "n \<le> hex_nibbles 16 v"
        by (simp_all add: power_increasing)
      with h(4) n show False
        by linarith
    qed
  qed
  show "3 \<le> hex_length v" "hex_length v \<le> 16"
    using h eq by simp_all
qed

lemma put_nibbles_text:
  assumes "n \<le> 16"
  shows "k \<le> n \<Longrightarrow> put_string_loop (map (\<lambda>i. hex_digit (nibble v (n - 1 - i))) [n - k..<n]) (2 + of_nat (n - k)) x y s =
    rbind (put_nibbles v x y (of_nat n) [n - k..<n] s) (\<lambda>s. Inr (2 + of_nat n, s))"
proof (induction k arbitrary: s)
  case (Suc k)
  let ?i = "n - Suc k"
  have i: "[?i..<n] = ?i # [n - k..<n]"
    using Suc.prems by (simp add: upt_conv_Cons Suc_diff_Suc)
  have n: "unat (of_nat n :: u64) = n"
    using assms by (intro unat_of_nat_u64) simp
  let ?c = "hex_digit (nibble v (n - 1 - ?i))"
  have c: "?c \<noteq> 0" "33 \<le> sint ?c \<and> sint ?c < 126"
    using hex_digit_char [of v "n - 1 - ?i"] unfolding printable_def by blast+
  have num: "(ucast (drop_bit ((n - 1 - ?i) * 4) (v AND push_bit ((n - 1 - ?i) * 4) 0xF)) :: u8) = nibble v (n - 1 - ?i)"
    unfolding nibble_mask nibble_def unsigned_of_nat by (subst take_bit_nat_eq_self) (simp_all add: order_less_trans [OF mod_less_divisor])
  have next_pos: "2 + of_nat ?i + 1 = (2 + of_nat (n - k) :: u64)"
  proof -
    have "n - k = Suc ?i"
      using Suc.prems by simp
    then show ?thesis
      by simp
  qed
  have IH: "put_string_loop (map (\<lambda>i. hex_digit (nibble v (n - 1 - i))) [n - k..<n]) (2 + of_nat (n - k)) x y =
      (\<lambda>s. rbind (put_nibbles v x y (of_nat n) [n - k..<n] s) (\<lambda>s. Inr (2 + of_nat n, s)))"
    using Suc by (intro ext) simp
  have "\<not> 64 \<le> (n - 1 - ?i) * 4"
    using assms by simp
  then show ?case
    unfolding i list.map put_string_loop.simps put_nibbles.simps n Let_def num next_pos IH
    using c by (simp only: if_False if_True rbind_assoc simp_thms) (simp add: add.assoc)
qed simp

lemma put_hex_text:
  "put_hex v x y s = put_string (hex_text v) x y s \<and> (\<exists>s'. put_hex v x y s = Inr (of_nat (2 + hex_length v), s'))"
proof -
  let ?n = "hex_length v"
  let ?ds = "map (\<lambda>i. hex_digit (nibble v (?n - 1 - i))) [0..<?n]"
  have n: "unat (of_nat ?n :: u64) = ?n"
    using hex_length_nibbles(3) [of v] by (intro unat_of_nat_u64) simp
  have digits: "put_string_loop ?ds 2 x y = (\<lambda>s. rbind (put_nibbles v x y (of_nat ?n) [0..<?n] s) (\<lambda>s. Inr (2 + of_nat ?n, s)))"
    using put_nibbles_text [OF hex_length_nibbles(3) [of v] order_refl, where v = v and x = x and y = y] by (intro ext) simp
  have x: "put_string_loop (120 # ds) 1 x y =
      (\<lambda>s. rbind (put_char 120 (x + 1) y (fg_color s) (bg_color s) s) (put_string_loop ds 2 x y))" for ds
    by (intro ext) simp
  have "put_string (hex_text v) x y s = rbind (put_char 48 x y (fg_color s) (bg_color s) s) (\<lambda>s.
      rbind (put_char 120 (x + 1) y (fg_color s) (bg_color s) s) (put_string_loop ?ds 2 x y))"
    using x by (simp add: put_string_def hex_text_def lit_def)
  also have "\<dots> = put_hex v x y s"
    unfolding put_hex_def put_hex_len_def hex_length_nibbles(1) Let_def digits n
    by (simp add: rbind_assoc add.commute)
  finally have eq: "put_hex v x y s = put_string (hex_text v) x y s" ..
  have "takeWhile (\<lambda>c. c \<noteq> 0) (hex_text v) = hex_text v"
    using hex_digit_char by (subst takeWhile_eq_all_conv) (auto simp: hex_text_def lit_def)
  moreover have "length (hex_text v) = 2 + ?n"
    by (simp add: hex_text_def lit_def)
  ultimately show ?thesis
    using put_string_total [of "hex_text v" x y s] unfolding eq by (simp only: simp_thms)
qed

text \<open>
  \<open>put_hex\<close> draws \<open>0x\<close> and the hexadecimal digits of the value, padded to three digits and
  otherwise without leading zeros, and returns the number of characters.
\<close>

theorem put_hex_digits:
  "put_hex v x y s = put_string (hex_text v) x y s \<and> (\<exists>s'. put_hex v x y s = Inr (of_nat (2 + hex_length v), s'))"
  by (rule put_hex_text)

theorem put_char_draws_witness:
  "\<exists>s'. put_char 65 0 0 1 0 \<lparr>frame_buffer = \<lparr>fb_address = 0x1000, fb_width = 16, fb_height = 16, fb_pixels_per_scanline = 16,
      fb_format = e_RGB8\<rparr>, bg_color = 0, fg_color = 1, pixels = \<lambda>_. 7\<rparr> = Inr s' \<and>
     pixels s' (0x1000 + 4 * 16 * 2 + 4 * 3) = 1 \<and> pixels s' 0 = 7"
proof -
  let ?fb = "\<lparr>fb_address = 0x1000, fb_width = 16, fb_height = 16, fb_pixels_per_scanline = 16, fb_format = e_RGB8\<rparr>"
  let ?s = "\<lparr>frame_buffer = ?fb, bg_color = 0, fg_color = 1, pixels = \<lambda>_. 7\<rparr>"
  have "fb_ok (frame_buffer ?s)"
    by (simp add: fb_ok_def)
  moreover have "\<forall>cx < 8. \<forall>cy < 16. of_nat cx + 0 * 8 < fb_width (frame_buffer ?s) \<and>
      of_nat cy + 0 * 16 < fb_height (frame_buffer ?s)"
    by (auto simp: word_less_nat_alt)
  moreover have "31 \<le> sint (65 :: u8) \<and> sint (65 :: u8) < 127"
    by simp
  ultimately obtain s' where s': "put_char 65 0 0 1 0 ?s = Inr s'"
    "\<forall>cx < 8. \<forall>cy < 16. pixels s' (pixel_address ?fb (of_nat cx + 0 * 8) (of_nat cy + 0 * 16)) =
       (if bit (font ! (nat (sint (65 :: u8) - 31) * 16 + cy)) (7 - cx) then 1 else 0)"
    "\<forall>a. (\<forall>cx < 8. \<forall>cy < 16. a \<noteq> pixel_address ?fb (of_nat cx + 0 * 8) (of_nat cy + 0 * 16)) \<longrightarrow> pixels s' a = 7"
    using put_char_draws [of ?s 0 0 65 1 0] by (auto simp: simp_thms)
  have "bit (font ! 546) 4"
    by code_simp
  then have "pixels s' (0x1000 + 4 * 16 * 2 + 4 * 3) = 1"
    using s'(2) [rule_format, of 3 2] by (simp add: pixel_address_def)
  moreover have "pixels s' 0 = 7"
  proof (intro s'(3) [rule_format] notI)
    fix cx cy :: nat assume c: "cx < 8" "cy < 16" "0 = pixel_address ?fb (of_nat cx + 0 * 8) (of_nat cy + 0 * 16)"
    then have "(of_nat (0x1000 + 64 * cy + 4 * cx) :: u64) = of_nat 0"
      by (simp add: pixel_address_def)
    then show False
      using c by (subst (asm) of_nat_u64_eq_iff) auto
  qed
  ultimately show ?thesis
    using s'(1) by blast
qed

end
