(* ===== verification/Text_Screen.thy ===== *)
theory Text_Screen
  imports Rendering_Properties
begin

text \<open>
  Lines of text on the screen: what a sequence of calls of \<open>put_string\<close> shows, cell by cell.
\<close>

section \<open>Lines\<close>

text \<open>A line of text starts in a column and a row of cells, which are 8 pixels wide and 16 high.\<close>

type_synonym text_line = "nat \<times> nat \<times> u8 list"

fun covers :: "nat \<Rightarrow> nat \<Rightarrow> text_line \<Rightarrow> bool" where
  "covers col row (x, y, t) \<longleftrightarrow> row = y \<and> x \<le> col \<and> col < x + length t \<and> printable (t ! (col - x))"

fun line_char :: "nat \<Rightarrow> text_line \<Rightarrow> u8" where
  "line_char col (x, y, t) = t ! (col - x)"

text \<open>The character in a cell is that of the last line that has one there.\<close>

definition cell_char :: "text_line list \<Rightarrow> nat \<Rightarrow> nat \<Rightarrow> u8 option" where
  "cell_char ls col row = map_option (line_char col) (find (covers col row) (rev ls))"

definition glyph_bit :: "u8 \<Rightarrow> nat \<Rightarrow> nat \<Rightarrow> bool" where
  "glyph_bit c cx cy \<longleftrightarrow> bit (font ! (nat (sint c - 31) * 16 + cy)) (7 - cx)"

definition fits :: "Framebuffer \<Rightarrow> text_line \<Rightarrow> bool" where
  "fits fb = (\<lambda>(x, y, t). (x + length t) * 8 \<le> unat (fb_width fb) \<and> (y + 1) * 16 \<le> unat (fb_height fb))"

definition pixel_at :: "screen \<Rightarrow> nat \<Rightarrow> nat \<Rightarrow> u32" where
  "pixel_at s px py = pixels s (pixel_address (frame_buffer s) (of_nat px) (of_nat py))"

text \<open>\<open>s'\<close> is \<open>s\<close> with the lines drawn over it.\<close>

definition drawn :: "text_line list \<Rightarrow> screen \<Rightarrow> screen \<Rightarrow> bool" where
  "drawn ls s s' \<longleftrightarrow> frame_buffer s' = frame_buffer s \<and> fg_color s' = fg_color s \<and> bg_color s' = bg_color s \<and>
     (\<forall>px < unat (fb_width (frame_buffer s)). \<forall>py < unat (fb_height (frame_buffer s)).
        pixel_at s' px py = (case cell_char ls (px div 8) (py div 16) of
            None \<Rightarrow> pixel_at s px py
          | Some c \<Rightarrow> if glyph_bit c (px mod 8) (py mod 16) then fg_color s else bg_color s)) \<and>
     (\<forall>a. a \<notin> screen_area (frame_buffer s) \<longrightarrow> pixels s' a = pixels s a)"

lemma drawn_nothing: "drawn [] s s"
  by (simp add: drawn_def cell_char_def)

lemma cell_char_append: "cell_char (ls @ ms) col row = (case cell_char ms col row of None \<Rightarrow> cell_char ls col row | Some c \<Rightarrow> Some c)"
  by (simp add: cell_char_def find_append split: option.splits)

lemma drawn_append:
  assumes "drawn ls s s1" "drawn ms s1 s2"
  shows "drawn (ls @ ms) s s2"
  using assms by (simp add: drawn_def cell_char_append split: option.splits)

lemma drawn_cong: "cell_char ls = cell_char ms \<Longrightarrow> drawn ls s s' = drawn ms s s'"
  by (simp add: drawn_def)

section \<open>Characters\<close>

lemma pixel_below: "px < unat (w :: u64) \<Longrightarrow> (of_nat px :: u64) < w"
  by (rule of_nat_less_u64)

lemma put_char_drawn:
  assumes fb: "fb_ok (frame_buffer s)" and c: "printable c" and fit: "fits (frame_buffer s) (x, y, [c])"
  shows "\<exists>s'. put_char c (of_nat x) (of_nat y) (fg_color s) (bg_color s) s = Inr s' \<and> drawn [(x, y, [c])] s s'"
proof -
  let ?fb = "frame_buffer s" and ?A = "pixel_address (frame_buffer s)"
  have cell: "of_nat cx + of_nat x * 8 = (of_nat (8 * x + cx) :: u64)" "of_nat cy + of_nat y * 16 = (of_nat (16 * y + cy) :: u64)" for cx cy
    by simp_all
  have inside: "8 * x + cx < unat (fb_width ?fb)" "16 * y + cy < unat (fb_height ?fb)" if "cx < 8" "cy < 16" for cx cy
    using fit that by (auto simp: fits_def)
  have room: "\<forall>cx < 8. \<forall>cy < 16. of_nat cx + of_nat x * 8 < fb_width ?fb \<and> of_nat cy + of_nat y * 16 < fb_height ?fb"
    unfolding cell using inside pixel_below by blast
  have range: "31 \<le> sint c \<and> sint c < 127"
    using c by (simp add: printable_def)
  obtain s' where run: "put_char c (of_nat x) (of_nat y) (fg_color s) (bg_color s) s = Inr s'" "frame_buffer s' = ?fb"
    and glyph: "\<forall>cx < 8. \<forall>cy < 16. pixels s' (?A (of_nat (8 * x + cx)) (of_nat (16 * y + cy))) =
      (if bit (font ! (nat (sint c - 31) * 16 + cy)) (7 - cx) then fg_color s else bg_color s)"
    and other: "\<forall>a. (\<forall>cx < 8. \<forall>cy < 16. a \<noteq> ?A (of_nat (8 * x + cx)) (of_nat (16 * y + cy))) \<longrightarrow> pixels s' a = pixels s a"
    using put_char_effect [OF fb room, of c "fg_color s" "bg_color s"] range unfolding cell by (auto simp del: of_nat_add of_nat_mult)
  have at: "pixel_at s' px py = (case cell_char [(x, y, [c])] (px div 8) (py div 16) of
            None \<Rightarrow> pixel_at s px py
          | Some c \<Rightarrow> if glyph_bit c (px mod 8) (py mod 16) then fg_color s else bg_color s)"
    if p: "px < unat (fb_width ?fb)" "py < unat (fb_height ?fb)" for px py
  proof (cases "px div 8 = x \<and> py div 16 = y")
    case True
    then have "px = 8 * x + px mod 8" "py = 16 * y + py mod 16"
      by auto
    then have "pixel_at s' px py = pixels s' (?A (of_nat (8 * x + px mod 8)) (of_nat (16 * y + py mod 16)))"
      unfolding pixel_at_def run(2) by simp
    moreover have "cell_char [(x, y, [c])] (px div 8) (py div 16) = Some c"
      using True c by (simp add: cell_char_def)
    ultimately show ?thesis
      using glyph by (simp add: glyph_bit_def)
  next
    case False
    have "?A (of_nat px) (of_nat py) \<noteq> ?A (of_nat (8 * x + cx)) (of_nat (16 * y + cy))" if cc: "cx < 8" "cy < 16" for cx cy
    proof
      assume "?A (of_nat px) (of_nat py) = ?A (of_nat (8 * x + cx)) (of_nat (16 * y + cy))"
      then have eq: "(of_nat px :: u64) = of_nat (8 * x + cx)" "(of_nat py :: u64) = of_nat (16 * y + cy)"
        using pixel_address_inj [OF fb] p inside [OF cc] pixel_below by blast+
      have "px < 2 ^ 64" "py < 2 ^ 64" "8 * x + cx < 2 ^ 64" "16 * y + cy < 2 ^ 64"
        using p inside [OF cc] unat_u64_lt [of "fb_width ?fb"] unat_u64_lt [of "fb_height ?fb"] by linarith+
      with eq have "px = 8 * x + cx" "py = 16 * y + cy"
        by (metis of_nat_u64_eq_iff)+
      with cc False show False
        by simp
    qed
    then have "pixel_at s' px py = pixel_at s px py"
      using other run(2) by (simp add: pixel_at_def del: of_nat_add of_nat_mult)
    moreover have "cell_char [(x, y, [c])] (px div 8) (py div 16) = None"
      using False by (auto simp: cell_char_def)
    ultimately show ?thesis
      by simp
  qed
  moreover have "pixels s' a = pixels s a" if "a \<notin> screen_area ?fb" for a
  proof -
    have "a \<noteq> ?A (of_nat (8 * x + cx)) (of_nat (16 * y + cy))" if "cx < 8" "cy < 16" for cx cy
      using \<open>a \<notin> screen_area ?fb\<close> pixel_below inside [OF that] unfolding screen_area_def by blast
    with other show ?thesis
      by blast
  qed
  ultimately show ?thesis
    using run put_char_colors [OF run(1)] by (intro exI [of _ s']) (simp add: drawn_def)
qed

section \<open>Strings\<close>

lemma cell_char_Cons:
  "cell_char [(x, y, c # cs)] = cell_char (if printable c then [(x, y, [c]), (x + 1, y, cs)] else [(x + 1, y, cs)])"
  by (intro ext) (auto simp: cell_char_def nth_Cons' less_Suc_eq_le)

lemma put_string_loop_drawn:
  assumes "fb_ok (frame_buffer s)" "fits (frame_buffer s) (x + i, y, cs)" "0 \<notin> set cs"
  shows "\<exists>s'. put_string_loop cs (of_nat i) (of_nat x) (of_nat y) s = Inr (of_nat (i + length cs), s') \<and> drawn [(x + i, y, cs)] s s'"
  using assms
proof (induction cs arbitrary: i s)
  case Nil
  have "cell_char [(x + i, y, [])] = cell_char []"
    by (intro ext) (simp add: cell_char_def)
  then have "drawn [(x + i, y, [])] s s"
    using drawn_nothing drawn_cong by blast
  then show ?case
    by simp
next
  case (Cons c cs)
  have next_pos: "of_nat i + 1 = (of_nat (Suc i) :: u64)" "of_nat x + of_nat i = (of_nat (x + i) :: u64)"
    by simp_all
  have fit: "fits (frame_buffer s) (x + i, y, [c])" "fits (frame_buffer s) (x + Suc i, y, cs)"
    using Cons.prems(2) by (auto simp: fits_def)
  obtain s1 where s1: "(if 33 \<le> sint c \<and> sint c < 126 then put_char c (of_nat (x + i)) (of_nat y) (fg_color s) (bg_color s) s else Inr s) = Inr s1"
    "drawn (if printable c then [(x + i, y, [c])] else []) s s1"
  proof (cases "printable c")
    case True
    with that put_char_drawn [OF Cons.prems(1) True fit(1)] show ?thesis
      by (auto simp: printable_def)
  next
    case False
    with that [of s] drawn_nothing show ?thesis
      by (auto simp: printable_def)
  qed
  have "frame_buffer s1 = frame_buffer s"
    using s1(2) by (simp add: drawn_def)
  then obtain s' where s': "put_string_loop cs (of_nat (Suc i)) (of_nat x) (of_nat y) s1 = Inr (of_nat (Suc i + length cs), s')"
    "drawn [(x + Suc i, y, cs)] s1 s'"
    using Cons.IH [of s1 "Suc i"] Cons.prems fit(2) by auto
  have "drawn ((if printable c then [(x + i, y, [c])] else []) @ [(x + Suc i, y, cs)]) s s'"
    by (rule drawn_append [OF s1(2) s'(2)])
  moreover have "cell_char ((if printable c then [(x + i, y, [c])] else []) @ [(x + Suc i, y, cs)]) = cell_char [(x + i, y, c # cs)]"
    by (simp add: cell_char_Cons)
  ultimately have "drawn [(x + i, y, c # cs)] s s'"
    using drawn_cong by blast
  moreover have "put_string_loop (c # cs) (of_nat i) (of_nat x) (of_nat y) s = Inr (of_nat (i + length (c # cs)), s')"
    using Cons.prems(3) s1(1) s'(1) unfolding put_string_loop.simps next_pos by simp
  ultimately show ?case
    by blast
qed

lemma put_string_drawn:
  assumes "fb_ok (frame_buffer s)" "fits (frame_buffer s) (x, y, cs)" "0 \<notin> set cs"
  shows "\<exists>s'. put_string cs (of_nat x) (of_nat y) s = Inr (of_nat (length cs), s') \<and> drawn [(x, y, cs)] s s'"
  using put_string_loop_drawn [of s x 0 y cs] assms by (simp add: put_string_def)

end
