(* ===== verification/Exceptions.thy ===== *)
theory Exceptions
  imports Idt Text_Screen
begin

text \<open>
  kernel/src/exceptions.c and the failure screen of \<open>KERNEL_ASSERT\<close> (kernel/include/kassert.h).
  The handlers draw their report and loop for ever; their models are what is drawn before the
  loop. The addresses of the handlers are those the linker gives them.
\<close>

section \<open>Frames\<close>

record InterruptFrame =
  frame_rip :: u64
  frame_cs :: u64
  frame_flags :: u64
  frame_rsp :: u64
  frame_ss :: u64

record ErrorCodeInterruptFrame = InterruptFrame +
  frame_err :: u64

section \<open>Reports\<close>

definition start_report :: "screen \<Rightarrow> screen" where
  "start_report s = (clear_screen 0 s)\<lparr>fg_color := 0xff0000\<rparr>"

text \<open>\<open>x += put_string(label, x, y); x += put_hex(v, x, y); x = 10;\<close>\<close>

definition put_hex_line :: "string \<Rightarrow> u64 \<Rightarrow> u64 \<Rightarrow> screen \<Rightarrow> screen res" where
  "put_hex_line label v y s =
     rbind (put_string (lit label) 10 y s) (\<lambda>(n, s). rbind (put_hex v (10 + n) y s) (\<lambda>(_, s). Inr s))"

definition put_line :: "string \<Rightarrow> u64 \<Rightarrow> screen \<Rightarrow> screen res" where
  "put_line text y s = rbind (put_string (lit text) 10 y s) (\<lambda>(_, s). Inr s)"

definition unimplemented_exception :: "'f InterruptFrame_scheme \<Rightarrow> screen \<Rightarrow> screen res" where
  "unimplemented_exception frame s =
     rbind (put_line ''UNIMPLEMENTED EXCEPTION'' 10 (start_report s)) (\<lambda>s.
     rbind (put_hex_line ''Instruction   (RIP): '' (frame_rip frame) 11 s) (\<lambda>s.
       put_hex_line ''Stack pointer (RSP): '' (frame_rsp frame) 12 s))"

text \<open>\<open>y++\<close> after the stack pointer leaves an empty line.\<close>

definition general_protection_fault :: "ErrorCodeInterruptFrame \<Rightarrow> screen \<Rightarrow> screen res" where
  "general_protection_fault frame s =
     rbind (put_line ''GP'' 10 (start_report s)) (\<lambda>s.
     rbind (put_hex_line ''Instruction   (RIP): '' (frame_rip frame) 11 s) (\<lambda>s.
     rbind (put_hex_line ''Stack pointer (RSP): '' (frame_rsp frame) 12 s) (\<lambda>s.
     rbind (put_string (lit ''err: '') 10 14 s) (\<lambda>(n, s).
     rbind (put_binary (drop_bit 1 (frame_err frame) AND 3) (10 + n) 14 s) (\<lambda>(_, s).
       put_hex_line ''selector index: '' (drop_bit 4 (frame_err frame) AND (2 ^ 13 - 1)) 15 s)))))"

definition page_fault :: "u64 \<Rightarrow> ErrorCodeInterruptFrame \<Rightarrow> screen \<Rightarrow> screen res" where
  "page_fault cr2 frame s =
     (let err = frame_err frame in
      rbind (put_line ''PAGE FAULT'' 10 (start_report s)) (\<lambda>s.
      rbind (put_hex_line ''Instruction   (RIP): '' (frame_rip frame) 11 s) (\<lambda>s.
      rbind (put_hex_line ''Stack pointer (RSP): '' (frame_rsp frame) 12 s) (\<lambda>s.
      rbind (put_hex_line ''Page fault address: '' cr2 13 s) (\<lambda>s.
      rbind (put_line ''Page fault info: '' 15 s) (\<lambda>s.
      rbind (put_line (if err AND 1 \<noteq> 0 then ''page-protection violation'' else ''non-present page'') 16 s) (\<lambda>s.
      rbind (put_line (if err AND 2 \<noteq> 0 then ''while writing'' else ''while reading'') 17 s) (\<lambda>s.
      let y = 17 :: u64;
          y1 = (if err AND 4 \<noteq> 0 then y + 1 else y);
          y2 = (if err AND 8 \<noteq> 0 then y1 + 1 else y1) in
      rbind (if err AND 4 \<noteq> 0 then put_line ''user bit'' y1 s else Inr s) (\<lambda>s.
      rbind (if err AND 8 \<noteq> 0 then put_line ''reserved bit'' y2 s else Inr s) (\<lambda>s.
        put_line (if err AND 16 \<noteq> 0 then ''during an instruction fetch'' else '''') (y2 + 1) s))))))))))"

text \<open>\<open>file\<close>, \<open>func\<close> and \<open>line\<close> are the \<open>__FILE__\<close>, \<open>__func__\<close> and \<open>__LINE__\<close> of the assertion.\<close>

definition assert_screen :: "string \<Rightarrow> string \<Rightarrow> string \<Rightarrow> string \<Rightarrow> screen \<Rightarrow> screen res" where
  "assert_screen msg file func line s =
     rbind (put_string (lit msg) 0 0 (start_report s)) (\<lambda>(_, s).
     rbind (put_string (lit (file @ '':'')) 0 1 s) (\<lambda>(x, s).
     rbind (put_string (lit func) x 1 s) (\<lambda>(n, s).
     rbind (put_string (lit ('':L'' @ line)) (x + n) 1 s) (\<lambda>(_, s). Inr s))))"

section \<open>Registration\<close>

definition PAGE_FAULT :: u8 where
  "PAGE_FAULT = 14"

definition GENERAL_PROTECTION_FAULT :: u8 where
  "GENERAL_PROTECTION_FAULT = 13"

definition register_exception_interrupts :: "u64 \<Rightarrow> u64 \<Rightarrow> u64 \<Rightarrow> IDT \<Rightarrow> IDT" where
  "register_exception_interrupts unimplemented_address page_fault_address gp_address idt =
     (let idt = fold (\<lambda>i. register_interrupt (of_nat i) INTERRUPT_GATE False unimplemented_address) [0..<0x20] idt;
          idt = register_interrupt PAGE_FAULT INTERRUPT_GATE False page_fault_address idt
      in register_interrupt GENERAL_PROTECTION_FAULT INTERRUPT_GATE False gp_address idt)"

section \<open>What the reports show\<close>

text \<open>
  The lines of the reports, as cells of the screen: the texts at column 10 from row 10 on, the
  registers in hexadecimal, and the bits of the error code in words.
\<close>

definition register_lines :: "string \<Rightarrow> 'f InterruptFrame_scheme \<Rightarrow> text_line list" where
  "register_lines title frame =
     [(10, 10, lit title), (10, 11, lit ''Instruction   (RIP): '' @ hex_text (frame_rip frame)),
      (10, 12, lit ''Stack pointer (RSP): '' @ hex_text (frame_rsp frame))]"

definition two_bit_text :: "u64 \<Rightarrow> u8 list" where
  "two_bit_text v = lit (if v = 0 then ''0b0'' else if v = 1 then ''0b1'' else if v = 2 then ''0b10'' else ''0b11'')"

definition protection_report :: "ErrorCodeInterruptFrame \<Rightarrow> text_line list" where
  "protection_report frame = register_lines ''GP'' frame @
     [(10, 14, lit ''err: '' @ two_bit_text (take_bit 2 (drop_bit 1 (frame_err frame)))),
      (10, 15, lit ''selector index: '' @ hex_text (take_bit 13 (drop_bit 4 (frame_err frame))))]"

definition error_texts :: "u64 \<Rightarrow> string list" where
  "error_texts err =
     (if bit err 0 then ''page-protection violation'' else ''non-present page'') #
     (if bit err 1 then ''while writing'' else ''while reading'') #
     (if bit err 2 then [''user bit''] else []) @ (if bit err 3 then [''reserved bit''] else []) @
     (if bit err 4 then [''during an instruction fetch''] else [])"

definition page_fault_report :: "u64 \<Rightarrow> ErrorCodeInterruptFrame \<Rightarrow> text_line list" where
  "page_fault_report cr2 frame = register_lines ''PAGE FAULT'' frame @
     [(10, 13, lit ''Page fault address: '' @ hex_text cr2), (10, 15, lit ''Page fault info: '')] @
     map (\<lambda>(i, text). (10, 16 + i, lit text)) (enumerate 0 (error_texts (frame_err frame)))"

definition assert_report :: "string \<Rightarrow> string \<Rightarrow> string \<Rightarrow> string \<Rightarrow> text_line list" where
  "assert_report msg file func line = [(0, 0, lit msg), (0, 1, lit (file @ '':'' @ func @ '':L'' @ line))]"

text \<open>
  The screen shows the lines in red on black and nothing else: every pixel is that of the glyph in its
  cell, drawn on the background color in use, or black where no character is. Nothing outside the
  screen has changed.
\<close>

definition report_shown :: "text_line list \<Rightarrow> screen \<Rightarrow> screen \<Rightarrow> bool" where
  "report_shown ls s s' \<longleftrightarrow>
     (\<forall>px < unat (fb_width (frame_buffer s)). \<forall>py < unat (fb_height (frame_buffer s)).
        pixels s' (pixel_address (frame_buffer s) (of_nat px) (of_nat py)) =
          (case cell_char ls (px div 8) (py div 16) of None \<Rightarrow> 0
           | Some c \<Rightarrow> if glyph_bit c (px mod 8) (py mod 16) then 0xff0000 else bg_color s)) \<and>
     (\<forall>a. a \<notin> screen_area (frame_buffer s) \<longrightarrow> pixels s' a = pixels s a)"

section \<open>The reports are drawn\<close>

lemma report_start:
  assumes "drawn ls (start_report s) s'"
  shows "report_shown ls s s'"
proof -
  let ?fb = "frame_buffer s"
  have start: "frame_buffer (start_report s) = ?fb" "fg_color (start_report s) = 0xff0000" "bg_color (start_report s) = bg_color s"
    "pixels (start_report s) a = (if a \<in> screen_area ?fb then 0 else pixels s a)" for a
    by (simp_all add: start_report_def clear_screen_fills)
  have zero: "pixel_at (start_report s) px py = 0" if "px < unat (fb_width ?fb)" "py < unat (fb_height ?fb)" for px py
  proof -
    have "pixel_address ?fb (of_nat px) (of_nat py) \<in> screen_area ?fb"
      using that pixel_below unfolding screen_area_def by blast
    then show ?thesis
      by (simp add: pixel_at_def start)
  qed
  have "frame_buffer s' = ?fb"
    using assms by (simp add: drawn_def start)
  then have at: "pixels s' (pixel_address ?fb (of_nat px) (of_nat py)) = pixel_at s' px py" for px py
    by (simp add: pixel_at_def)
  show ?thesis
    using assms zero unfolding drawn_def report_shown_def at start by (simp cong: option.case_cong)
qed

lemma report_step:
  assumes "\<exists>s1. m = Inr s1 \<and> drawn ls s s1"
    and "\<And>s1. frame_buffer s1 = frame_buffer s \<Longrightarrow> \<exists>s2. f s1 = Inr s2 \<and> drawn ms s1 s2"
  shows "\<exists>s2. rbind m f = Inr s2 \<and> drawn (ls @ ms) s s2"
proof -
  obtain s1 where s1: "m = Inr s1" "drawn ls s s1"
    using assms(1) by blast
  then have "frame_buffer s1 = frame_buffer s"
    by (simp add: drawn_def)
  then obtain s2 where "f s1 = Inr s2" "drawn ms s1 s2"
    using assms(2) by blast
  with s1 show ?thesis
    using drawn_append by auto
qed

text \<open>A screen with room for the reports: 50 columns and 21 rows.\<close>

definition report_screen :: "Framebuffer \<Rightarrow> bool" where
  "report_screen fb \<longleftrightarrow> fb_ok fb \<and> 400 \<le> unat (fb_width fb) \<and> 336 \<le> unat (fb_height fb)"

lemma report_fits: "report_screen fb \<Longrightarrow> length t \<le> 40 \<Longrightarrow> y \<le> 20 \<Longrightarrow> fits fb (10, y, t)"
  by (simp add: report_screen_def fits_def)

lemma hex_text_chars: "length (hex_text v) \<le> 18" "0 \<notin> set (hex_text v)"
  using hex_length_nibbles(3) [of v] hex_digit_char by (force simp: hex_text_def lit_def)+

lemma put_line_drawn:
  assumes "report_screen (frame_buffer s)" "0 \<notin> set (lit text)" "length text \<le> 40" "y \<le> 20"
  shows "\<exists>s'. put_line text (of_nat y) s = Inr s' \<and> drawn [(10, y, lit text)] s s'"
proof -
  have "fits (frame_buffer s) (10, y, lit text)"
    using assms by (intro report_fits) (simp_all add: lit_def)
  with put_string_drawn [of s 10 y "lit text"] assms(1,2) show ?thesis
    by (auto simp: put_line_def report_screen_def)
qed

lemma cell_char_line: "cell_char ([(x, y, as)] @ [(x + length as, y, bs)]) = cell_char [(x, y, as @ bs)]"
  by (intro ext) (auto simp: cell_char_def nth_append)

lemma two_strings_drawn:
  assumes "fb_ok (frame_buffer s)" "fits (frame_buffer s) (x, y, as @ bs)" "0 \<notin> set as" "0 \<notin> set bs"
  shows "\<exists>s1 s'. put_string as (of_nat x) (of_nat y) s = Inr (of_nat (length as), s1) \<and>
    put_string bs (of_nat x + of_nat (length as)) (of_nat y) s1 = Inr (of_nat (length bs), s') \<and> drawn [(x, y, as @ bs)] s s'"
proof -
  have fit: "fits (frame_buffer s) (x, y, as)" "fits (frame_buffer s) (x + length as, y, bs)"
    using assms(2) by (auto simp: fits_def)
  obtain s1 where s1: "put_string as (of_nat x) (of_nat y) s = Inr (of_nat (length as), s1)" "drawn [(x, y, as)] s s1"
    using put_string_drawn [OF assms(1) fit(1) assms(3)] by blast
  then have "frame_buffer s1 = frame_buffer s"
    by (simp add: drawn_def)
  with put_string_drawn [of s1 "x + length as" y bs] assms(1,4) fit(2) obtain s' where
    s': "put_string bs (of_nat x + of_nat (length as)) (of_nat y) s1 = Inr (of_nat (length bs), s')" "drawn [(x + length as, y, bs)] s1 s'"
    by auto
  have "drawn ([(x, y, as)] @ [(x + length as, y, bs)]) s s'"
    by (rule drawn_append [OF s1(2) s'(2)])
  then have "drawn [(x, y, as @ bs)] s s'"
    using cell_char_line drawn_cong by blast
  with s1(1) s'(1) show ?thesis
    by blast
qed

lemma put_hex_line_drawn:
  assumes "report_screen (frame_buffer s)" "0 \<notin> set (lit label)" "length label \<le> 22" "y \<le> 20"
  shows "\<exists>s'. put_hex_line label v (of_nat y) s = Inr s' \<and> drawn [(10, y, lit label @ hex_text v)] s s'"
proof -
  have "fits (frame_buffer s) (10, y, lit label @ hex_text v)"
    using assms hex_text_chars(1) [of v] by (intro report_fits) (simp_all add: lit_def)
  with two_strings_drawn [of s 10 y "lit label" "hex_text v"] assms(1,2) hex_text_chars(2) show ?thesis
    by (auto simp: put_hex_line_def put_hex_text report_screen_def)
qed

lemma put_two_bits: "put_binary (take_bit 2 v) x y s = put_string (two_bit_text (take_bit 2 v)) x y s"
proof -
  have "take_bit 2 v \<in> {0, 1, 2, 3 :: u64}"
  proof -
    have "unat (take_bit 2 v) < 4"
      by (simp add: unat_take_bit_u64)
    then have "unat (take_bit 2 v) \<in> {unat (0 :: u64), unat (1 :: u64), unat (2 :: u64), unat (3 :: u64)}"
      by auto
    then show ?thesis
      by (auto simp: word_unat_eq_iff)
  qed
  moreover have "clzll 1 = 63" "clzll 2 = 62" "clzll 3 = 62"
    by code_simp+
  moreover have loop: "put_string_loop (c # cs) i x y = (\<lambda>s. if c = 0 then Inr (i, s) else
      rbind (if 33 \<le> sint c \<and> sint c < 126 then put_char c (x + i) y (fg_color s) (bg_color s) s else Inr s) (put_string_loop cs (i + 1) x y))"
    "put_string_loop [] i x y = (\<lambda>s. Inr (i, s))" for c cs i
    by (intro ext, simp)+
  ultimately show ?thesis
    by (auto simp: loop put_binary_def put_binary_len_def two_bit_text_def put_string_def lit_def rbind_assoc Let_def upt_rec add.commute [of 3])
qed

lemma start_report_buffer [simp]: "frame_buffer (start_report s) = frame_buffer s"
  by (simp add: start_report_def clear_screen_fills)

lemma put_error_line_drawn:
  assumes "report_screen (frame_buffer s)"
  shows "\<exists>s'. rbind (put_string (lit ''err: '') 10 14 s) (\<lambda>(n, s). rbind (put_binary (drop_bit 1 err AND 3) (10 + n) 14 s) (\<lambda>(_, s). Inr s)) = Inr s' \<and>
    drawn [(10, 14, lit ''err: '' @ two_bit_text (take_bit 2 (drop_bit 1 err)))] s s'"
proof -
  let ?t = "two_bit_text (take_bit 2 (drop_bit 1 err))"
  have t: "length ?t \<le> 4" "0 \<notin> set ?t"
    by (auto simp: two_bit_text_def lit_def)
  have "fits (frame_buffer s) (10, 14, lit ''err: '' @ ?t)"
    using assms t by (intro report_fits) (simp_all add: lit_def)
  moreover have "drop_bit 1 err AND 3 = take_bit 2 (drop_bit 1 err)"
    by (simp add: take_bit_eq_mask mask_eq_exp_minus_1)
  moreover have "0 \<notin> set (lit ''err: '')"
    by (simp add: lit_def)
  ultimately show ?thesis
    using two_strings_drawn [of s 10 14 "lit ''err: ''" ?t] assms t(2) by (auto simp: put_two_bits report_screen_def)
qed

lemmas report_rows = put_line_drawn [where y = 10, simplified] put_line_drawn [where y = 15, simplified] put_line_drawn [where y = 16, simplified]
  put_line_drawn [where y = 17, simplified] put_line_drawn [where y = 18, simplified] put_line_drawn [where y = 19, simplified] put_line_drawn [where y = 20, simplified]
  put_hex_line_drawn [where y = 11, simplified] put_hex_line_drawn [where y = 12, simplified] put_hex_line_drawn [where y = 13, simplified] put_hex_line_drawn [where y = 15, simplified]

lemma report_labels:
  "0 \<notin> set (lit ''Instruction   (RIP): '')" "0 \<notin> set (lit ''Stack pointer (RSP): '')" "0 \<notin> set (lit ''Page fault address: '')"
  "0 \<notin> set (lit ''selector index: '')" "0 \<notin> set (lit ''Page fault info: '')" "0 \<notin> set (lit ''page-protection violation'')"
  "0 \<notin> set (lit ''non-present page'')" "0 \<notin> set (lit ''while writing'')" "0 \<notin> set (lit ''while reading'')" "0 \<notin> set (lit ''user bit'')"
  "0 \<notin> set (lit ''reserved bit'')" "0 \<notin> set (lit ''during an instruction fetch'')" "0 \<notin> set (lit '''')" "0 \<notin> set (lit ''GP'')"
  "0 \<notin> set (lit ''PAGE FAULT'')" "0 \<notin> set (lit ''UNIMPLEMENTED EXCEPTION'')"
  by (simp_all add: lit_def)

lemma registers_drawn:
  assumes fb: "report_screen (frame_buffer s)" and title: "0 \<notin> set (lit title)" "length title \<le> 40"
    and rest: "\<And>s1. frame_buffer s1 = frame_buffer s \<Longrightarrow> \<exists>s2. f s1 = Inr s2 \<and> drawn ls s1 s2"
  shows "\<exists>s'. rbind (put_line title 10 (start_report s)) (\<lambda>s. rbind (put_hex_line ''Instruction   (RIP): '' (frame_rip frame) 11 s) (\<lambda>s.
      rbind (put_hex_line ''Stack pointer (RSP): '' (frame_rsp frame) 12 s) f)) = Inr s' \<and> report_shown (register_lines title frame @ ls) s s'"
proof -
  have "\<exists>s'. rbind (put_line title 10 (start_report s)) (\<lambda>s. rbind (put_hex_line ''Instruction   (RIP): '' (frame_rip frame) 11 s) (\<lambda>s.
      rbind (put_hex_line ''Stack pointer (RSP): '' (frame_rsp frame) 12 s) f)) = Inr s' \<and>
    drawn ([(10, 10, lit title)] @ [(10, 11, lit ''Instruction   (RIP): '' @ hex_text (frame_rip frame))] @
      [(10, 12, lit ''Stack pointer (RSP): '' @ hex_text (frame_rsp frame))] @ ls) (start_report s) s'"
    by (intro report_step report_rows rest report_labels) (use fb title in simp_all)
  then show ?thesis
    using report_start by (auto simp: register_lines_def)
qed

text \<open>The last lines of the page fault's report, whose rows depend on the bits before.\<close>

lemma drawn_blank: "drawn [(x, y, [])] s s' \<Longrightarrow> drawn [] s s'"
proof -
  have "cell_char [(x, y, [])] = cell_char []"
    by (intro ext) (simp add: cell_char_def)
  then show "drawn [(x, y, [])] s s' \<Longrightarrow> drawn [] s s'"
    using drawn_cong by blast
qed

lemma fetch_line_drawn:
  assumes "report_screen (frame_buffer s)" "k \<le> 20"
  shows "\<exists>s'. put_line (if b then ''during an instruction fetch'' else '''') (of_nat k) s = Inr s' \<and>
    drawn (if b then [(10, k, lit ''during an instruction fetch'')] else []) s s'"
proof -
  have "\<exists>s'. put_line (if b then ''during an instruction fetch'' else '''') (of_nat k) s = Inr s' \<and>
      drawn [(10, k, lit (if b then ''during an instruction fetch'' else ''''))] s s'"
    using assms report_labels by (intro put_line_drawn) simp_all
  moreover have "lit '''' = []"
    by (simp add: lit_def)
  ultimately show ?thesis
    using drawn_blank by (cases b) auto
qed

lemma error_lines_drawn:
  assumes fb: "report_screen (frame_buffer s)"
  shows "\<exists>s'. (let y = 17 :: u64; y1 = (if b2 then y + 1 else y); y2 = (if b3 then y1 + 1 else y1) in
      rbind (if b2 then put_line ''user bit'' y1 s else Inr s) (\<lambda>s.
      rbind (if b3 then put_line ''reserved bit'' y2 s else Inr s) (\<lambda>s.
        put_line (if b4 then ''during an instruction fetch'' else '''') (y2 + 1) s))) = Inr s' \<and>
    drawn (map (\<lambda>(i, text). (10, 18 + i, lit text)) (enumerate 0 ((if b2 then [''user bit''] else []) @ (if b3 then [''reserved bit''] else []) @
      (if b4 then [''during an instruction fetch''] else [])))) s s'"
proof -
  let ?fetch = "if b4 then ''during an instruction fetch'' else ''''"
    and ?line = "\<lambda>k. if b4 then [(10, k, lit ''during an instruction fetch'')] else [] :: text_line list"
  note fetch = fetch_line_drawn [where k = 18, simplified] fetch_line_drawn [where k = 19, simplified] fetch_line_drawn [where k = 20, simplified]
  have both: "\<exists>s'. rbind (put_line ''user bit'' 18 s) (\<lambda>s. rbind (put_line ''reserved bit'' 19 s) (put_line ?fetch 20)) = Inr s' \<and>
      drawn ([(10, 18, lit ''user bit'')] @ [(10, 19, lit ''reserved bit'')] @ ?line 20) s s'"
    by (intro report_step report_rows fetch report_labels) (use fb in simp_all)
  have one: "\<exists>s'. rbind (put_line t 18 s) (put_line ?fetch 19) = Inr s' \<and> drawn ([(10, 18, lit t)] @ ?line 19) s s'"
    if "0 \<notin> set (lit t)" "length t \<le> 40" for t
    by (intro report_step report_rows fetch that) (use fb in simp_all)
  have none: "\<exists>s'. put_line ?fetch 18 s = Inr s' \<and> drawn (?line 18) s s'"
    by (intro fetch fb)
  show ?thesis
  proof (cases b2)
    case True
    then show ?thesis
      using both one [OF report_labels(10)] by (cases b3; cases b4; simp)
  next
    case False
    then show ?thesis
      using none one [OF report_labels(11)] by (cases b3; cases b4; simp)
  qed
qed

lemma error_bits:
  "err AND 1 \<noteq> 0 \<longleftrightarrow> bit err 0" "err AND 2 \<noteq> 0 \<longleftrightarrow> bit err 1" "err AND 4 \<noteq> 0 \<longleftrightarrow> bit err 2"
  "err AND 8 \<noteq> 0 \<longleftrightarrow> bit err 3" "err AND 16 \<noteq> 0 \<longleftrightarrow> bit err 4" for err :: u64
proof -
  have m: "(1 :: u64) = push_bit 0 1" "(2 :: u64) = push_bit 1 1" "(4 :: u64) = push_bit 2 1" "(8 :: u64) = push_bit 3 1" "(16 :: u64) = push_bit 4 1"
    by simp_all
  show "err AND 1 \<noteq> 0 \<longleftrightarrow> bit err 0"
    by (simp add: and_one_eq bit_0 odd_iff_mod_2_eq_one)
  show "err AND 2 \<noteq> 0 \<longleftrightarrow> bit err 1" "err AND 4 \<noteq> 0 \<longleftrightarrow> bit err 2"
    "err AND 8 \<noteq> 0 \<longleftrightarrow> bit err 3" "err AND 16 \<noteq> 0 \<longleftrightarrow> bit err 4"
    unfolding m(2-5) bit_iff_and_push_bit_not_eq_0 by (rule refl)+
qed

lemma report_done: "\<exists>s'. Inr s = Inr s' \<and> drawn [] s s'"
  using drawn_nothing by blast

lemma protection_report_drawn:
  assumes fb: "report_screen (frame_buffer s)"
  shows "\<exists>s'. general_protection_fault frame s = Inr s' \<and> report_shown (protection_report frame) s s'"
proof -
  let ?err = "frame_err frame"
  let ?error = "\<lambda>s. rbind (put_string (lit ''err: '') 10 14 s) (\<lambda>(n, s). rbind (put_binary (drop_bit 1 ?err AND 3) (10 + n) 14 s) (\<lambda>(_, s). Inr s))"
  have len: "length ''GP'' \<le> 40"
    by simp
  have "\<exists>s2. rbind (?error s1) (put_hex_line ''selector index: '' (take_bit 13 (drop_bit 4 ?err)) 15) = Inr s2 \<and>
      drawn ([(10, 14, lit ''err: '' @ two_bit_text (take_bit 2 (drop_bit 1 ?err)))] @
        [(10, 15, lit ''selector index: '' @ hex_text (take_bit 13 (drop_bit 4 ?err)))]) s1 s2" if "frame_buffer s1 = frame_buffer s" for s1
    by (intro report_step put_error_line_drawn report_rows report_labels) (use fb that in simp_all)
  note shown = registers_drawn [OF fb report_labels(14) len this]
  have run: "general_protection_fault frame s = rbind (put_line ''GP'' 10 (start_report s)) (\<lambda>s.
      rbind (put_hex_line ''Instruction   (RIP): '' (frame_rip frame) 11 s) (\<lambda>s.
      rbind (put_hex_line ''Stack pointer (RSP): '' (frame_rsp frame) 12 s) (\<lambda>s.
        rbind (?error s) (put_hex_line ''selector index: '' (take_bit 13 (drop_bit 4 ?err)) 15))))"
    by (simp add: general_protection_fault_def rbind_assoc split_def take_bit_eq_mask mask_eq_exp_minus_1)
  show ?thesis
    unfolding run protection_report_def by (rule shown [unfolded append_Cons append_Nil])
qed

lemma page_fault_report_drawn:
  assumes fb: "report_screen (frame_buffer s)"
  shows "\<exists>s'. page_fault cr2 frame s = Inr s' \<and> report_shown (page_fault_report cr2 frame) s s'"
proof -
  let ?err = "frame_err frame"
  let ?words = "\<lambda>s. (let y = 17 :: u64; y1 = (if bit ?err 2 then y + 1 else y); y2 = (if bit ?err 3 then y1 + 1 else y1) in
      rbind (if bit ?err 2 then put_line ''user bit'' y1 s else Inr s) (\<lambda>s.
      rbind (if bit ?err 3 then put_line ''reserved bit'' y2 s else Inr s) (\<lambda>s.
        put_line (if bit ?err 4 then ''during an instruction fetch'' else '''') (y2 + 1) s)))"
  let ?cause = "if bit ?err 0 then ''page-protection violation'' else ''non-present page''"
    and ?access = "if bit ?err 1 then ''while writing'' else ''while reading''"
    and ?more = "(if bit ?err 2 then [''user bit''] else []) @ (if bit ?err 3 then [''reserved bit''] else []) @
          (if bit ?err 4 then [''during an instruction fetch''] else [])"
  have labels: "0 \<notin> set (lit ?cause)" "0 \<notin> set (lit ?access)" "length ?cause \<le> 40" "length ?access \<le> 40" "length ''PAGE FAULT'' \<le> 40"
    using report_labels by simp_all
  have "\<exists>s2. rbind (put_hex_line ''Page fault address: '' cr2 13 s1) (\<lambda>s. rbind (put_line ''Page fault info: '' 15 s) (\<lambda>s.
        rbind (put_line ?cause 16 s) (\<lambda>s. rbind (put_line ?access 17 s) ?words))) = Inr s2 \<and>
      drawn ([(10, 13, lit ''Page fault address: '' @ hex_text cr2)] @ [(10, 15, lit ''Page fault info: '')] @ [(10, 16, lit ?cause)] @
        [(10, 17, lit ?access)] @ map (\<lambda>(i, text). (10, 18 + i, lit text)) (enumerate 0 ?more)) s1 s2"
    if "frame_buffer s1 = frame_buffer s" for s1
    by (intro report_step report_rows report_labels labels error_lines_drawn) (use fb that in simp_all)
  note shown = registers_drawn [OF fb report_labels(15) labels(5) this]
  have run: "page_fault cr2 frame s = rbind (put_line ''PAGE FAULT'' 10 (start_report s)) (\<lambda>s.
      rbind (put_hex_line ''Instruction   (RIP): '' (frame_rip frame) 11 s) (\<lambda>s.
      rbind (put_hex_line ''Stack pointer (RSP): '' (frame_rsp frame) 12 s) (\<lambda>s.
      rbind (put_hex_line ''Page fault address: '' cr2 13 s) (\<lambda>s. rbind (put_line ''Page fault info: '' 15 s) (\<lambda>s.
        rbind (put_line ?cause 16 s) (\<lambda>s. rbind (put_line ?access 17 s) ?words))))))"
    unfolding page_fault_def Let_def error_bits ..
  have lines: "[(10, 13, lit ''Page fault address: '' @ hex_text cr2)] @ [(10, 15, lit ''Page fault info: '')] @
      [(10, 16, lit ?cause)] @ [(10, 17, lit ?access)] @ map (\<lambda>(i, text). (10, 18 + i, lit text)) (enumerate 0 ?more) =
    [(10, 13, lit ''Page fault address: '' @ hex_text cr2), (10, 15, lit ''Page fault info: '')] @
      map (\<lambda>(i, text). (10, 16 + i, lit text)) (enumerate 0 (?cause # ?access # ?more))"
    by (simp add: enumerate_Suc_eq comp_def split_def)
  show ?thesis
    unfolding run page_fault_report_def error_texts_def by (rule shown [unfolded lines])
qed

lemma assert_report_drawn:
  assumes fb: "fb_ok (frame_buffer s)"
    and fit: "\<forall>l \<in> set (assert_report msg file func line). fits (frame_buffer s) l \<and> 0 \<notin> set (snd (snd l))"
  shows "\<exists>s'. assert_screen msg file func line s = Inr s' \<and> report_shown (assert_report msg file func line) s s'"
proof -
  let ?place = "lit (file @ '':'')" and ?rest = "lit ('':L'' @ line)"
  have all: "lit (file @ '':'' @ func @ '':L'' @ line) = ?place @ lit func @ ?rest"
    by (simp add: lit_def)
  have parts: "fits (frame_buffer s) (0, 0, lit msg)" "0 \<notin> set (lit msg)" "fits (frame_buffer s) (0, 1, ?place)" "0 \<notin> set ?place"
    "fits (frame_buffer s) (length ?place, 1, lit func @ ?rest)" "0 \<notin> set (lit func)" "0 \<notin> set ?rest"
    using fit unfolding assert_report_def all by (auto simp: fits_def)
  obtain s1 where s1: "put_string (lit msg) 0 0 (start_report s) = Inr (of_nat (length (lit msg)), s1)" "drawn [(0, 0, lit msg)] (start_report s) s1"
    using put_string_drawn [of "start_report s" 0 0 "lit msg"] fb parts(1,2) by auto
  then have b1: "frame_buffer s1 = frame_buffer s"
    by (simp add: drawn_def)
  obtain s2 where s2: "put_string ?place 0 1 s1 = Inr (of_nat (length ?place), s2)" "drawn [(0, 1, ?place)] s1 s2"
    using put_string_drawn [of s1 0 1 ?place] fb parts(3,4) b1 by auto
  then have b2: "frame_buffer s2 = frame_buffer s"
    using b1 by (simp add: drawn_def)
  obtain s3 s4 where s4: "put_string (lit func) (of_nat (length ?place)) 1 s2 = Inr (of_nat (length (lit func)), s3)"
    "put_string ?rest (of_nat (length ?place) + of_nat (length (lit func))) 1 s3 = Inr (of_nat (length ?rest), s4)"
    "drawn [(length ?place, 1, lit func @ ?rest)] s2 s4"
    using two_strings_drawn [of s2 "length ?place" 1 "lit func" ?rest] fb parts(5-7) b2 by auto
  have "drawn ([(0, 1, ?place)] @ [(0 + length ?place, 1, lit func @ ?rest)]) s1 s4"
    using drawn_append [OF s2(2) s4(3)] by simp
  then have "drawn [(0, 1, ?place @ lit func @ ?rest)] s1 s4"
    using drawn_cong [OF cell_char_line] by blast
  from drawn_append [OF s1(2) this] have "report_shown (assert_report msg file func line) s s4"
    unfolding assert_report_def all by (intro report_start) simp
  moreover have "assert_screen msg file func line s = Inr s4"
    unfolding assert_screen_def by (simp only: s1(1) s2(1) s4(1,2) rbind_simps prod.case)
  ultimately show ?thesis
    by blast
qed

text \<open>
  C29. On a screen with room for them (at least 400 by 336 pixels), the handlers of exceptions reach their final
  loop with their report on the screen, red on black: the title, the instruction and stack pointers and, for a
  page fault, the address and each bit of the error code in words, one below the other, for a protection fault the
  bits of the error code. A failed assertion shows its message and, below it, the place, when they fit.
  Every pixel is that of the glyph in its cell, or black, and nothing outside the screen changes.
\<close>

theorem reports_shown:
  assumes "report_screen (frame_buffer s)"
  shows "(\<exists>s'. unimplemented_exception frame s = Inr s' \<and> report_shown (register_lines ''UNIMPLEMENTED EXCEPTION'' frame) s s') \<and>
    (\<exists>s'. general_protection_fault eframe s = Inr s' \<and> report_shown (protection_report eframe) s s') \<and>
    (\<exists>s'. page_fault cr2 eframe s = Inr s' \<and> report_shown (page_fault_report cr2 eframe) s s') \<and>
    ((\<forall>l \<in> set (assert_report msg file func line). fits (frame_buffer s) l \<and> 0 \<notin> set (snd (snd l))) \<longrightarrow>
      (\<exists>s'. assert_screen msg file func line s = Inr s' \<and> report_shown (assert_report msg file func line) s s'))"
proof (intro conjI impI)
  have id: "rbind m Inr = m" for m :: "screen res"
    by (cases m) simp_all
  show "\<exists>s'. unimplemented_exception frame s = Inr s' \<and> report_shown (register_lines ''UNIMPLEMENTED EXCEPTION'' frame) s s'"
    using registers_drawn [of s "''UNIMPLEMENTED EXCEPTION''" Inr "[]" frame, OF assms report_labels(16) _ report_done]
    by (simp add: unimplemented_exception_def id)
  show "\<exists>s'. general_protection_fault eframe s = Inr s' \<and> report_shown (protection_report eframe) s s'"
    by (rule protection_report_drawn [OF assms])
  show "\<exists>s'. page_fault cr2 eframe s = Inr s' \<and> report_shown (page_fault_report cr2 eframe) s s'"
    by (rule page_fault_report_drawn [OF assms])
  show "\<exists>s'. assert_screen msg file func line s = Inr s' \<and> report_shown (assert_report msg file func line) s s'"
    if "\<forall>l \<in> set (assert_report msg file func line). fits (frame_buffer s) l \<and> 0 \<notin> set (snd (snd l))"
    using assms that by (intro assert_report_drawn) (simp_all add: report_screen_def)
qed

theorem reports_shown_witness:
  "\<exists>s'. page_fault 0x10 \<lparr>frame_rip = 1, frame_cs = 8, frame_flags = 0, frame_rsp = 2, frame_ss = 16, frame_err = 2\<rparr>
       \<lparr>frame_buffer = \<lparr>fb_address = 0x100000, fb_width = 400, fb_height = 336, fb_pixels_per_scanline = 512, fb_format = e_RGB8\<rparr>,
         bg_color = 5, fg_color = 1, pixels = \<lambda>_. 7\<rparr> = Inr s' \<and>
     pixels s' (0x100000 + 4 * 512 * 163 + 4 * 81) = 0xff0000 \<and> pixels s' (0x100000 + 4 * 512 * 163 + 4 * 80) = 5 \<and>
     pixels s' 0x100000 = 0 \<and> pixels s' 0 = 7"
proof -
  let ?fb = "\<lparr>fb_address = 0x100000, fb_width = 400, fb_height = 336, fb_pixels_per_scanline = 512, fb_format = e_RGB8\<rparr>"
  let ?s = "\<lparr>frame_buffer = ?fb, bg_color = 5, fg_color = 1, pixels = \<lambda>_. 7\<rparr>"
  let ?frame = "\<lparr>frame_rip = 1, frame_cs = 8, frame_flags = 0, frame_rsp = 2, frame_ss = 16, frame_err = 2\<rparr>"
  have "report_screen (frame_buffer ?s)"
    by (simp add: report_screen_def fb_ok_def)
  then obtain s' where s': "page_fault 0x10 ?frame ?s = Inr s'" "report_shown (page_fault_report 0x10 ?frame) ?s s'"
    using reports_shown [of ?s "?frame" ?frame "0x10"] by blast
  have cells: "cell_char (page_fault_report 0x10 ?frame) 10 10 = Some 80" "cell_char (page_fault_report 0x10 ?frame) 0 0 = None"
    by (simp_all add: page_fault_report_def register_lines_def error_texts_def cell_char_def lit_def printable_def)
  have glyph: "glyph_bit 80 1 3" "\<not> glyph_bit 80 0 3"
    unfolding glyph_bit_def by code_simp+
  have show_at: "pixels s' (pixel_address ?fb (of_nat px) (of_nat py)) = (case cell_char (page_fault_report 0x10 ?frame) (px div 8) (py div 16) of
      None \<Rightarrow> 0 | Some c \<Rightarrow> if glyph_bit c (px mod 8) (py mod 16) then 0xff0000 else 5)" if "px < 400" "py < 336" for px py
    using s'(2) that unfolding report_shown_def by (simp cong: option.case_cong if_cong)
  have "0 \<notin> screen_area ?fb"
    unfolding screen_area_def
  proof clarify
    fix x y assume xy: "x < fb_width ?fb" "y < fb_height ?fb" "0 = pixel_address ?fb x y"
    then have "unat x < 400" "unat y < 336"
      by (simp_all add: word_less_nat_alt)
    then have "unat (pixel_address ?fb x y) = 0x100000 + 2048 * unat y + 4 * unat x"
      by (simp add: pixel_address_def unat_word_ariths)
    with xy(3) show False
      by simp
  qed
  then have "pixels s' 0 = 7"
    using s'(2) by (simp add: report_shown_def)
  then show ?thesis
    using s'(1) show_at [of 81 163] show_at [of 80 163] show_at [of 0 0] cells glyph by (simp add: pixel_address_def)
qed

section \<open>The registered handlers\<close>

lemma register_all:
  "fold (\<lambda>i. register_interrupt (of_nat i) INTERRUPT_GATE False h) [0..<n] idt v =
     (if v \<in> of_nat ` {..<n} then register_interrupt v INTERRUPT_GATE False h idt v else idt v)"
proof (induction n)
  case (Suc n)
  then show ?case
    by (auto simp: lessThan_Suc register_interrupt_def set_idt_gate_def)
qed simp

text \<open>
  After \<open>register_exception_interrupts\<close> the page fault and the general protection fault
  have their handlers, the other vectors below 32 the default one, and no vector from 32 on has
  changed.
\<close>

theorem exception_handlers:
  "(let idt' = register_exception_interrupts u p g idt in
     gate_handler (idt' PAGE_FAULT) = p \<and> gate_handler (idt' GENERAL_PROTECTION_FAULT) = g \<and>
     (\<forall>v. gate_present (idt' v) \<and> gate_type (idt' v) = INTERRUPT_GATE \<or> 32 \<le> unat v) \<and>
     (\<forall>v. gate_handler (idt' v) = u \<or> v = PAGE_FAULT \<or> v = GENERAL_PROTECTION_FAULT \<or> 32 \<le> unat v) \<and>
     (\<forall>v. idt' v = idt v \<or> unat v < 32))"
proof -
  have low: "v \<in> of_nat ` {..<32 :: nat} \<longleftrightarrow> unat v < 32" for v :: u8
  proof
    assume "unat v < 32"
    then show "v \<in> of_nat ` {..<32 :: nat}"
      by (intro image_eqI [of _ _ "unat v"]) auto
  next
    assume "v \<in> of_nat ` {..<32 :: nat}"
    then show "unat v < 32"
      by (auto simp: unat_of_nat take_bit_nat_def)
  qed
  have gate: "gate_handler (register_interrupt v INTERRUPT_GATE False h idt v) = h"
    "gate_present (register_interrupt v INTERRUPT_GATE False h idt v)"
    "gate_type (register_interrupt v INTERRUPT_GATE False h idt v) = INTERRUPT_GATE"
    "w \<noteq> v \<Longrightarrow> register_interrupt v INTERRUPT_GATE False h idt w = idt w" for v w h and idt :: IDT
    by (simp_all add: register_interrupt_def set_idt_gate_def gate_handler_def join_handler gate_present_def gate_type_def
        INTERRUPT_GATE_def)
  let ?idt = "register_exception_interrupts u p g idt"
  have at: "?idt v = (if v = GENERAL_PROTECTION_FAULT then register_interrupt v INTERRUPT_GATE False g
        (register_interrupt PAGE_FAULT INTERRUPT_GATE False p (fold (\<lambda>i. register_interrupt (of_nat i) INTERRUPT_GATE False u) [0..<0x20] idt)) v
      else if v = PAGE_FAULT then register_interrupt v INTERRUPT_GATE False p
        (fold (\<lambda>i. register_interrupt (of_nat i) INTERRUPT_GATE False u) [0..<0x20] idt) v
      else if unat v < 32 then register_interrupt v INTERRUPT_GATE False u idt v else idt v)" for v
    unfolding register_exception_interrupts_def Let_def
    using low [of v] register_all [of u 32 idt v] by (auto simp: gate(4) simp del: upt.simps)
  have vec: "unat PAGE_FAULT < 32" "unat GENERAL_PROTECTION_FAULT < 32" "PAGE_FAULT \<noteq> GENERAL_PROTECTION_FAULT"
    by (simp_all add: PAGE_FAULT_def GENERAL_PROTECTION_FAULT_def)
  show ?thesis
    unfolding Let_def at using vec gate(1-3) by (auto simp: not_less)
qed

end
