(* ===== verification/Buddy_Spec.thy ===== *)
theory Buddy_Spec
  imports Main
begin

text \<open>
  What a buddy allocator promises, without lists, bitmaps or addresses: a block is a pair of
  an order and an index and stands for the \<open>2 ^ order\<close> pages from \<open>index * 2 ^ order\<close>; the
  state is the set of the free blocks. Splitting and merging keep the free pages, taking a
  block removes its pages, giving one back adds them.
\<close>

section \<open>Blocks and the pages they stand for\<close>

type_synonym block = "nat \<times> nat"

definition block_pages :: "block \<Rightarrow> nat set" where
  "block_pages b = {snd b * 2 ^ fst b ..< (snd b + 1) * 2 ^ fst b}"

definition free_pages :: "block set \<Rightarrow> nat set" where
  "free_pages S = (\<Union>b \<in> S. block_pages b)"

definition blocks_disjoint :: "block set \<Rightarrow> bool" where
  "blocks_disjoint S \<longleftrightarrow> (\<forall>b \<in> S. \<forall>c \<in> S. b \<noteq> c \<longrightarrow> block_pages b \<inter> block_pages c = {})"

lemma block_pages_iff: "p \<in> block_pages (k, i) \<longleftrightarrow> p div 2 ^ k = i"
  by (auto simp: block_pages_def div_nat_eqI dividend_less_times_div mult.commute
      intro!: div_nat_eqI [symmetric])

lemma block_pages_nonempty [simp]: "block_pages b \<noteq> {}"
  by (cases b) (auto simp: block_pages_def)

lemma card_block_pages: "card (block_pages (k, i)) = 2 ^ k"
  by (simp add: block_pages_def algebra_simps)

lemma finite_block_pages [simp]: "finite (block_pages b)"
  by (simp add: block_pages_def)

lemma block_pages_halves:
  "block_pages (Suc k, i) = block_pages (k, 2 * i) \<union> block_pages (k, Suc (2 * i))"
  by (auto simp: block_pages_def algebra_simps)

lemma block_halves_disjoint: "block_pages (k, 2 * i) \<inter> block_pages (k, Suc (2 * i)) = {}"
  by (auto simp: block_pages_def algebra_simps)

lemma block_pages_same_order: "i \<noteq> j \<Longrightarrow> block_pages (k, i) \<inter> block_pages (k, j) = {}"
  by (auto simp: block_pages_iff)

text \<open>Two blocks that share a page are nested; with equal orders they are equal.\<close>

lemma block_pages_meet:
  assumes "k \<le> l" and "block_pages (k, i) \<inter> block_pages (l, j) \<noteq> {}"
  shows "block_pages (k, i) \<subseteq> block_pages (l, j)"
proof -
  obtain p where "p \<in> block_pages (k, i)" "p \<in> block_pages (l, j)"
    using assms(2) by blast
  then have p: "p div 2 ^ k = i" "p div 2 ^ l = j"
    by (simp_all add: block_pages_iff)
  have pow: "(2 :: nat) ^ l = 2 ^ k * 2 ^ (l - k)"
    using assms(1) by (simp flip: power_add)
  have "q div 2 ^ l = j" if "q div 2 ^ k = i" for q
    using p that by (simp add: pow div_mult2_eq)
  then show ?thesis
    by (auto simp: block_pages_iff)
qed

section \<open>Operations on the set of free blocks\<close>

definition split_block :: "block \<Rightarrow> block set \<Rightarrow> block set" where
  "split_block b S = insert (fst b - 1, 2 * snd b) (insert (fst b - 1, Suc (2 * snd b)) (S - {b}))"

definition merge_buddies :: "block \<Rightarrow> block set \<Rightarrow> block set" where
  "merge_buddies b S =
     insert (fst b + 1, snd b div 2)
       (S - {(fst b, 2 * (snd b div 2)), (fst b, Suc (2 * (snd b div 2)))})"

lemma free_pages_simps [simp]:
  "free_pages {} = {}"
  "free_pages (insert b S) = block_pages b \<union> free_pages S"
  "free_pages (S \<union> T) = free_pages S \<union> free_pages T"
  by (auto simp: free_pages_def)

lemma finite_free_pages: "finite S \<Longrightarrow> finite (free_pages S)"
  by (simp add: free_pages_def)

lemma blocks_disjointD:
  "blocks_disjoint S \<Longrightarrow> b \<in> S \<Longrightarrow> c \<in> S \<Longrightarrow> b \<noteq> c \<Longrightarrow> block_pages b \<inter> block_pages c = {}"
  by (auto simp: blocks_disjoint_def)

lemma blocks_disjoint_subset: "blocks_disjoint S \<Longrightarrow> T \<subseteq> S \<Longrightarrow> blocks_disjoint T"
  unfolding blocks_disjoint_def by blast

lemma free_pages_remove:
  assumes "blocks_disjoint S" "b \<in> S"
  shows "free_pages (S - {b}) = free_pages S - block_pages b"
  using assms by (auto simp: free_pages_def dest: blocks_disjointD)

lemma blocks_disjoint_insert:
  "b \<notin> S \<Longrightarrow> blocks_disjoint (insert b S) \<longleftrightarrow>
     blocks_disjoint S \<and> block_pages b \<inter> free_pages S = {}"
  by (fastforce simp: blocks_disjoint_def free_pages_def)

lemma not_free_not_in:
  "block_pages b \<inter> free_pages S = {} \<Longrightarrow> b \<notin> S"
  using block_pages_nonempty [of b] unfolding free_pages_def by blast

lemma blocks_disjoint_add:
  "blocks_disjoint S \<Longrightarrow> block_pages b \<inter> free_pages S = {} \<Longrightarrow> blocks_disjoint (insert b S)"
  by (simp add: blocks_disjoint_insert not_free_not_in)

lemma split_block_pages:
  assumes "blocks_disjoint S" "(Suc k, i) \<in> S"
  shows "free_pages (split_block (Suc k, i) S) = free_pages S"
proof -
  have "free_pages S = block_pages (Suc k, i) \<union> free_pages (S - {(Suc k, i)})"
    using assms(2) by (metis free_pages_simps(2) insert_Diff)
  then show ?thesis
    by (auto simp: split_block_def block_pages_halves)
qed

lemma split_block_disjoint:
  assumes dis: "blocks_disjoint S" and b: "(Suc k, i) \<in> S"
  shows "blocks_disjoint (split_block (Suc k, i) S)"
proof -
  let ?R = "S - {(Suc k, i)}"
  have rest: "free_pages ?R \<inter> block_pages (Suc k, i) = {}"
    using free_pages_remove [OF dis b] by auto
  have "blocks_disjoint ?R"
    using dis by (rule blocks_disjoint_subset) auto
  moreover have "block_pages (k, Suc (2 * i)) \<inter> free_pages ?R = {}"
    using rest by (auto simp: block_pages_halves)
  ultimately have "blocks_disjoint (insert (k, Suc (2 * i)) ?R)"
    by (rule blocks_disjoint_add)
  moreover have "block_pages (k, 2 * i) \<inter> free_pages (insert (k, Suc (2 * i)) ?R) = {}"
    using rest block_halves_disjoint [of k i] by (auto simp: block_pages_halves)
  ultimately have "blocks_disjoint (insert (k, 2 * i) (insert (k, Suc (2 * i)) ?R))"
    by (rule blocks_disjoint_add)
  then show ?thesis
    by (simp add: split_block_def)
qed

lemma merge_buddies_pages:
  assumes "(k, 2 * j) \<in> S" "(k, Suc (2 * j)) \<in> S"
    and "i div 2 = j"
  shows "free_pages (merge_buddies (k, i) S) = free_pages S"
proof -
  have "S = insert (k, 2 * j) (insert (k, Suc (2 * j)) (S - {(k, 2 * j), (k, Suc (2 * j))}))"
    using assms by auto
  then have "free_pages S = block_pages (k, 2 * j) \<union> (block_pages (k, Suc (2 * j)) \<union>
      free_pages (S - {(k, 2 * j), (k, Suc (2 * j))}))"
    by (metis free_pages_simps(2))
  then show ?thesis
    using assms(3) by (simp add: merge_buddies_def block_pages_halves Un_assoc)
qed

lemma merge_buddies_disjoint:
  assumes dis: "blocks_disjoint S" and l: "(k, 2 * j) \<in> S" and r: "(k, Suc (2 * j)) \<in> S"
    and "i div 2 = j"
  shows "blocks_disjoint (merge_buddies (k, i) S)"
proof -
  let ?R = "S - {(k, 2 * j)} - {(k, Suc (2 * j))}"
  have dis': "blocks_disjoint (S - {(k, 2 * j)})"
    using dis by (rule blocks_disjoint_subset) auto
  have "free_pages ?R = free_pages S - block_pages (k, 2 * j) - block_pages (k, Suc (2 * j))"
    using free_pages_remove [OF dis l] free_pages_remove [OF dis', of "(k, Suc (2 * j))"] r by auto
  then have "block_pages (Suc k, j) \<inter> free_pages ?R = {}"
    by (auto simp: block_pages_halves)
  moreover have "blocks_disjoint ?R"
    using dis by (rule blocks_disjoint_subset) auto
  ultimately have "blocks_disjoint (insert (Suc k, j) ?R)"
    by (intro blocks_disjoint_add)
  moreover have "S - {(k, 2 * j), (k, Suc (2 * j))} = ?R"
    by auto
  ultimately show ?thesis
    using assms(4) by (simp add: merge_buddies_def)
qed

section \<open>The bit of a pair of buddies\<close>

text \<open>The bit of a pair is set when exactly one of the two buddies is a free block.\<close>

definition pair_bit :: "block set \<Rightarrow> nat \<Rightarrow> nat \<Rightarrow> bool" where
  "pair_bit S k j \<longleftrightarrow> ((k, 2 * j) \<in> S) \<noteq> ((k, Suc (2 * j)) \<in> S)"

lemma pair_bit_insert:
  assumes "(k, i) \<notin> S"
  shows "pair_bit (insert (k, i) S) l j = (if l = k \<and> j = i div 2 then \<not> pair_bit S l j else pair_bit S l j)"
proof (cases "even i")
  case True
  then obtain m where "i = 2 * m"
    by (auto elim: evenE)
  with assms show ?thesis
    by (auto simp: pair_bit_def)
next
  case False
  then obtain m where "i = 2 * m + 1"
    by (auto elim: oddE)
  with assms show ?thesis
    by (auto simp: pair_bit_def)
qed

lemma pair_bit_remove:
  assumes "(k, i) \<in> S"
  shows "pair_bit (S - {(k, i)}) l j = (if l = k \<and> j = i div 2 then \<not> pair_bit S l j else pair_bit S l j)"
  using pair_bit_insert [of k i "S - {(k, i)}" l j] assms by (auto simp: insert_absorb)

text \<open>Splitting flips the bit of the split block only: the two halves are free together.\<close>

lemma pair_bit_split:
  assumes "(Suc k, i) \<in> S" "(k, 2 * i) \<notin> S" "(k, Suc (2 * i)) \<notin> S"
  shows "pair_bit (split_block (Suc k, i) S) l j =
    (if l = Suc k \<and> j = i div 2 then \<not> pair_bit S l j else pair_bit S l j)"
proof -
  let ?R = "S - {(Suc k, i)}"
  have "(k, Suc (2 * i)) \<notin> ?R" and "(k, 2 * i) \<notin> insert (k, Suc (2 * i)) ?R"
    using assms by auto
  then show ?thesis
    using pair_bit_insert [of k "Suc (2 * i)" ?R l j]
      pair_bit_insert [of k "2 * i" "insert (k, Suc (2 * i)) ?R" l j]
      pair_bit_remove [OF assms(1), of l j]
    by (auto simp: split_block_def split: if_splits)
qed

end
