(* ===== verification/Frame_Lists.thy ===== *)
theory Frame_Lists
  imports Frame_Allocator Buddy_Spec
begin

text \<open>
  The free lists of the frame allocator as lists: which pointers form the pool and the eight
  free lists, that no node belongs to two of them, and what each elementary step of the code
  (taking the first node of a list, pushing a node, unlinking a node, searching, taking a node
  from the pool and giving it back) does to them.
\<close>

section \<open>The shape of the heap\<close>

abbreviation ptrs :: "(u64 \<times> 'b) list \<Rightarrow> u64 set" where
  "ptrs xs \<equiv> fst ` set xs"

type_synonym free_lists = "nat \<Rightarrow> (u64 \<times> u64) list"

definition wf_lists :: "'a frame_state_scheme \<Rightarrow> u64 list \<Rightarrow> free_lists \<Rightarrow> bool" where
  "wf_lists s ps fl \<longleftrightarrow>
     pool_at s ps \<and>
     (\<forall>k < FRAME_ORDERS. entries_at (nodes s) (heads s k) (fl k)) \<and>
     (\<forall>k < FRAME_ORDERS. set ps \<inter> ptrs (fl k) = {}) \<and>
     (\<forall>k < FRAME_ORDERS. \<forall>l < FRAME_ORDERS. k \<noteq> l \<longrightarrow> ptrs (fl k) \<inter> ptrs (fl l) = {})"

text \<open>A node that the caller holds: it is in no list.\<close>

definition fresh :: "u64 \<Rightarrow> u64 list \<Rightarrow> free_lists \<Rightarrow> bool" where
  "fresh p ps fl \<longleftrightarrow> p \<noteq> 0 \<and> p \<notin> set ps \<and> (\<forall>k < FRAME_ORDERS. p \<notin> ptrs (fl k))"

text \<open>
  The parts of the state the lists do not use: what only initialization sets, and with the
  bitmaps.
\<close>

definition same_rest :: "'a frame_state_scheme \<Rightarrow> 'a frame_state_scheme \<Rightarrow> bool" where
  "same_rest s s' \<longleftrightarrow> order_sizes s' = order_sizes s \<and> buddy_base s' = buddy_base s \<and>
     memory_size s' = memory_size s \<and> frame_state.more s' = frame_state.more s"

definition same_maps :: "'a frame_state_scheme \<Rightarrow> 'a frame_state_scheme \<Rightarrow> bool" where
  "same_maps s s' \<longleftrightarrow> buddy_maps s' = buddy_maps s \<and> same_rest s s'"

lemma same_rest_refl [simp]: "same_rest s s"
  by (simp add: same_rest_def)

lemma same_rest_trans [trans]: "same_rest s t \<Longrightarrow> same_rest t u \<Longrightarrow> same_rest s u"
  by (simp add: same_rest_def)

lemma same_maps_rest: "same_maps s t \<Longrightarrow> same_rest s t"
  by (simp add: same_maps_def)

lemma same_maps_refl [simp]: "same_maps s s"
  by (simp add: same_maps_def)

lemma same_maps_trans: "same_maps s t \<Longrightarrow> same_maps t u \<Longrightarrow> same_maps s u"
  by (auto simp: same_maps_def intro: same_rest_trans)

lemma wf_lists_pool: "wf_lists s ps fl \<Longrightarrow> pool_at s ps"
  by (simp add: wf_lists_def)

lemma wf_lists_entries:
  "wf_lists s ps fl \<Longrightarrow> k < FRAME_ORDERS \<Longrightarrow> entries_at (nodes s) (heads s k) (fl k)"
  by (simp add: wf_lists_def)

lemma wf_lists_not_pool:
  "wf_lists s ps fl \<Longrightarrow> k < FRAME_ORDERS \<Longrightarrow> p \<in> ptrs (fl k) \<Longrightarrow> p \<notin> set ps"
  by (auto simp: wf_lists_def)

lemma wf_lists_not_other:
  "wf_lists s ps fl \<Longrightarrow> k < FRAME_ORDERS \<Longrightarrow> l < FRAME_ORDERS \<Longrightarrow> k \<noteq> l \<Longrightarrow> p \<in> ptrs (fl k) \<Longrightarrow>
     p \<notin> ptrs (fl l)"
  unfolding wf_lists_def by blast

lemma wf_lists_head_NULL:
  "wf_lists s ps fl \<Longrightarrow> k < FRAME_ORDERS \<Longrightarrow> heads s k = 0 \<longleftrightarrow> fl k = []"
  using wf_lists_entries [of s ps fl k] by (cases "fl k") auto

lemma wf_lists_head:
  assumes "wf_lists s ps fl" "k < FRAME_ORDERS" "fl k = (p, a) # xs"
  shows "heads s k = p" "p \<noteq> 0" "e_payload (nodes s p) = a"
  using wf_lists_entries [OF assms(1,2)] assms(3) by auto

lemma wf_lists_distinct: "wf_lists s ps fl \<Longrightarrow> k < FRAME_ORDERS \<Longrightarrow> distinct (map fst (fl k))"
  by (rule entries_at_distinct [OF wf_lists_entries])

lemma wf_lists_payload:
  "wf_lists s ps fl \<Longrightarrow> k < FRAME_ORDERS \<Longrightarrow> (p, a) \<in> set (fl k) \<Longrightarrow>
     p \<noteq> 0 \<and> e_payload (nodes s p) = a"
  using wf_lists_entries [of s ps fl k] entries_at_nonzero [of "nodes s" "heads s k" "fl k"]
  by (auto simp: entries_at_def rev_image_eqI)

lemma freshD:
  "fresh p ps fl \<Longrightarrow> p \<noteq> 0" "fresh p ps fl \<Longrightarrow> p \<notin> set ps"
  "fresh p ps fl \<Longrightarrow> k < FRAME_ORDERS \<Longrightarrow> p \<notin> ptrs (fl k)"
  by (simp_all add: fresh_def)

section \<open>Elementary steps\<close>

text \<open>Writes to a node that is in no list, and to the bitmaps.\<close>

lemma wf_lists_upd_fresh:
  "wf_lists s ps fl \<Longrightarrow> fresh p ps fl \<Longrightarrow> wf_lists (s\<lparr>nodes := (nodes s)(p := e)\<rparr>) ps fl"
  by (auto simp: wf_lists_def fresh_def intro: pool_at_upd_outside)

lemma wf_lists_buddy_maps [simp]: "wf_lists (s\<lparr>buddy_maps := m\<rparr>) ps fl = wf_lists s ps fl"
  by (simp add: wf_lists_def pool_at_def)

text \<open>A list may lose nodes.\<close>

lemma wf_lists_shrink:
  assumes wf: "wf_lists s ps fl" and k: "k < FRAME_ORDERS" and sub: "ptrs xs \<subseteq> ptrs (fl k)"
    and ent: "entries_at (nodes s') (heads s' k) xs"
    and others: "\<And>j. j < FRAME_ORDERS \<Longrightarrow> j \<noteq> k \<Longrightarrow> entries_at (nodes s') (heads s' j) (fl j)"
    and pool: "pool_at s' ps"
  shows "wf_lists s' ps (fl(k := xs))"
proof -
  have "ptrs ((fl(k := xs)) i) \<subseteq> ptrs (fl i)" for i
    using sub by simp
  moreover have "set ps \<inter> ptrs (fl i) = {}" if "i < FRAME_ORDERS" for i
    using wf that by (simp add: wf_lists_def)
  moreover have "ptrs (fl i) \<inter> ptrs (fl j) = {}" if "i < FRAME_ORDERS" "j < FRAME_ORDERS" "i \<noteq> j" for i j
    using wf that by (simp add: wf_lists_def)
  ultimately have
    "\<And>i. i < FRAME_ORDERS \<Longrightarrow> set ps \<inter> ptrs ((fl(k := xs)) i) = {}"
    "\<And>i j. i < FRAME_ORDERS \<Longrightarrow> j < FRAME_ORDERS \<Longrightarrow> i \<noteq> j \<Longrightarrow>
       ptrs ((fl(k := xs)) i) \<inter> ptrs ((fl(k := xs)) j) = {}"
    by (meson disjoint_iff subsetD)+
  then show ?thesis
    using ent others pool by (simp add: wf_lists_def)
qed

text \<open>Taking the first node of a list.\<close>

lemma wf_lists_pop:
  assumes wf: "wf_lists s ps fl" and k: "k < FRAME_ORDERS" and fl: "fl k = (p, a) # xs"
  shows "wf_lists (set_head k (e_next (nodes s p)) s) ps (fl(k := xs))"
    and "fresh p ps (fl(k := xs))"
proof -
  have ent: "entries_at (nodes s) (heads s k) ((p, a) # xs)"
    using wf_lists_entries [OF wf k] fl by simp
  then have "p \<notin> ptrs xs"
    using entries_at_distinct [OF ent] by simp
  then show "fresh p ps (fl(k := xs))"
    using wf_lists_not_pool [OF wf k, of p] wf_lists_not_other [OF wf k, of _ p] ent fl
    by (auto simp: fresh_def)
  show "wf_lists (set_head k (e_next (nodes s p)) s) ps (fl(k := xs))"
    using ent fl wf_lists_pool [OF wf] wf_lists_entries [OF wf]
    by (intro wf_lists_shrink [OF wf k]) (auto simp: set_head_def pool_at_def)
qed

text \<open>Pushing a node in front of a list.\<close>

lemma wf_lists_push:
  assumes wf: "wf_lists s ps fl" and k: "k < FRAME_ORDERS" and fresh: "fresh p ps fl"
    and "e_next (nodes s p) = heads s k" "e_payload (nodes s p) = a"
  shows "wf_lists (set_head k p s) ps (fl(k := (p, a) # fl k))"
proof -
  have "entries_at (nodes s) p ((p, a) # fl k)"
    using assms(4,5) freshD(1) [OF fresh] wf_lists_entries [OF wf k] by simp
  moreover have "set ps \<inter> ptrs ((p, a) # fl k) = {}"
    using freshD(2) [OF fresh] wf_lists_not_pool [OF wf k] by auto
  moreover have "ptrs (fl j) \<inter> ptrs ((p, a) # fl k) = {}" if "j < FRAME_ORDERS" "j \<noteq> k" for j
    using freshD(3) [OF fresh that(1)] wf_lists_not_other [OF wf that(1) k that(2)] by auto
  ultimately show ?thesis
    using wf k unfolding wf_lists_def set_head_def pool_at_def by (simp add: Int_commute)
qed

text \<open>Taking a node from the pool and giving one back.\<close>

lemma wf_lists_get:
  assumes wf: "wf_lists s (r # ps) fl"
    and h: "\<forall>q. q \<noteq> r \<longrightarrow> h q = nodes s q" "list_at h pd ps" "unat c = length ps"
  shows "wf_lists (s\<lparr>nodes := h, pool_head := pd, pool_count := c\<rparr>) ps fl" and "fresh r ps fl"
proof -
  have r: "r \<notin> set ps" "r \<noteq> 0"
    using pool_at_distinct [OF wf_lists_pool [OF wf]] pool_at_nonzero [OF wf_lists_pool [OF wf]]
    by auto
  have out: "r \<notin> ptrs (fl k)" if "k < FRAME_ORDERS" for k
    using wf_lists_not_pool [OF wf that, of r] by auto
  then show "fresh r ps fl"
    using r by (auto simp: fresh_def)
  have "entries_at h (heads s k) (fl k)" if "k < FRAME_ORDERS" for k
    using wf_lists_entries [OF wf that] out [OF that] h(1)
    by (subst entries_at_cong [of _ h "nodes s"]) (blast intro: h(1)[rule_format])+
  then show "wf_lists (s\<lparr>nodes := h, pool_head := pd, pool_count := c\<rparr>) ps fl"
    using wf h(2,3) by (auto simp: wf_lists_def pool_at_def)
qed

lemma wf_lists_free_memory_entry:
  assumes wf: "wf_lists s ps fl" and fresh: "fresh p ps fl"
    and room: "length ps + 1 < 2 ^ 64"
  obtains s' where "free_memory_entry p s = Inr s'" "wf_lists s' (p # ps) fl" "same_maps s s'"
    "heads s' = heads s" "\<And>q. q \<noteq> p \<Longrightarrow> nodes s' q = nodes s q"
proof -
  obtain h pd c where h: "free_memory_entry p s = Inr (s\<lparr>nodes := h, pool_head := pd, pool_count := c\<rparr>)"
      "\<forall>q. q \<noteq> p \<longrightarrow> h q = nodes s q" "list_at h pd (p # ps)" "unat c = length (p # ps)"
    using free_memory_entry_pool [OF wf_lists_pool [OF wf] freshD(1,2) [OF fresh] room]
      freshD(1,2) [OF fresh] by blast
  have "entries_at h (heads s k) (fl k)" if "k < FRAME_ORDERS" for k
    using wf_lists_entries [OF wf that] freshD(3) [OF fresh that] h(2)
    by (subst entries_at_cong [of _ h "nodes s"]) metis+
  then have "wf_lists (s\<lparr>nodes := h, pool_head := pd, pool_count := c\<rparr>) (p # ps) fl"
    using wf fresh h(3,4) by (auto simp: wf_lists_def pool_at_def fresh_def)
  then show ?thesis
    using h by (intro that [of "s\<lparr>nodes := h, pool_head := pd, pool_count := c\<rparr>"])
      (auto simp: same_maps_def same_rest_def)
qed

text \<open>The search for a node.\<close>

lemma find_entry_none:
  assumes "entries_at (nodes s) p xs" "length xs < n" "\<forall>(q, a) \<in> set xs. \<not> P a"
  shows "\<exists>prev'. find_entry P n p prev s = Inr (0, prev')"
  using assms
proof (induction xs arbitrary: n p prev)
  case Nil
  then show ?case
    by (cases n) auto
next
  case (Cons x xs)
  obtain q a where x: "x = (q, a)"
    by (cases x)
  obtain m where "n = Suc m"
    using Cons.prems(2) by (cases n) auto
  then show ?case
    using Cons x by auto
qed

lemma find_entry_some:
  assumes "entries_at (nodes s) p (xs @ (q, a) # ys)" "length xs < n"
    "\<forall>(r, b) \<in> set xs. \<not> P b" "P a"
  shows "find_entry P n p prev s = Inr (q, if xs = [] then prev else fst (last xs))"
  using assms
proof (induction xs arbitrary: n p prev)
  case Nil
  then show ?case
    by (cases n) auto
next
  case (Cons x xs)
  obtain r b where x: "x = (r, b)"
    by (cases x)
  obtain m where "n = Suc m"
    using Cons.prems(2) by (cases n) auto
  then show ?case
    using Cons x by auto
qed

lemma first_satisfying:
  assumes "\<exists>(q, a) \<in> set xs. P a"
  obtains ys q a zs where "xs = ys @ (q, a) # zs" "\<forall>(r, b) \<in> set ys. \<not> P b" "P a"
  using split_list_first_prop [of xs "\<lambda>(q, a). P a"] assms by (auto simp: case_prod_beta)

text \<open>Taking a node out of the middle of a list.\<close>

lemma entries_at_unlink:
  assumes ent: "entries_at h p (xs @ (l, b) # (q, a) # ys)"
  shows "entries_at (h(l := (h l)\<lparr>e_next := e_next (h q)\<rparr>)) p (xs @ (l, b) # ys)"
proof (rule entries_atI)
  show "list_at (h(l := (h l)\<lparr>e_next := e_next (h q)\<rparr>)) p (map fst (xs @ (l, b) # ys))"
    using entries_at_list_at [OF ent] list_at_unlink [of h p "map fst xs" l q "map fst ys"] by simp
  show "e_payload ((h(l := (h l)\<lparr>e_next := e_next (h q)\<rparr>)) r) = c"
    if "(r, c) \<in> set (xs @ (l, b) # ys)" for r c
    using entries_at_payload [OF ent, of r c] that by auto
qed

lemma wf_lists_unlink:
  assumes wf: "wf_lists s ps fl" and k: "k < FRAME_ORDERS" and fl: "fl k = xs @ (q, a) # ys"
  obtains s' where
    "unlink_entry k q (if xs = [] then prev else fst (last xs)) s = Inr s'"
    "wf_lists s' ps (fl(k := xs @ ys))" "fresh q ps (fl(k := xs @ ys))" "same_maps s s'"
    "nodes s' q = nodes s q" "\<And>p. e_payload (nodes s' p) = e_payload (nodes s p)"
    "\<And>p. p \<notin> ptrs (fl k) \<Longrightarrow> nodes s' p = nodes s p"
proof -
  have ent: "entries_at (nodes s) (heads s k) (xs @ (q, a) # ys)"
    using wf_lists_entries [OF wf k] fl by simp
  have dist: "distinct (map fst (xs @ (q, a) # ys))"
    by (rule entries_at_distinct [OF ent])
  have q0: "q \<noteq> 0"
    using entries_at_nonzero [OF ent] by auto
  have fresh: "fresh q ps (fl(k := xs @ ys))"
    using dist q0 wf_lists_not_pool [OF wf k, of q] wf_lists_not_other [OF wf k, of _ q] fl
    by (auto simp: fresh_def)
  show ?thesis
  proof (cases xs rule: rev_cases)
    case Nil
    then have "wf_lists (set_head k (e_next (nodes s q)) s) ps (fl(k := xs @ ys))"
      using wf_lists_pop(1) [OF wf k, of q a ys] fl by simp
    moreover have "unlink_entry k q prev s = Inr (set_head k (e_next (nodes s q)) s)"
      using wf_lists_head [OF wf k, of q a ys] Nil fl k by (simp add: unlink_entry_def free_head_def)
    ultimately show ?thesis
      using Nil fresh
      by (intro that [of "set_head k (e_next (nodes s q)) s"]) (auto simp: set_head_def same_maps_def same_rest_def)
  next
    case (snoc zs x)
    obtain l b where x: "x = (l, b)"
      by (cases x)
    have l: "l \<noteq> 0" "l \<noteq> q" "l \<in> ptrs (fl k)"
      using entries_at_nonzero [OF ent] dist fl snoc x by auto
    let ?h = "(nodes s)(l := (nodes s l)\<lparr>e_next := e_next (nodes s q)\<rparr>)"
    have "heads s k \<noteq> q"
      using ent dist snoc x by (cases zs) auto
    then have run: "unlink_entry k q l s = Inr (s\<lparr>nodes := ?h\<rparr>)"
      using k q0 l(1) by (simp add: unlink_entry_def free_head_def)
    have "entries_at ?h (heads s k) (xs @ ys)"
      using entries_at_unlink [of "nodes s" "heads s k" zs l b q a ys] ent snoc x by simp
    moreover have "entries_at ?h (heads s j) (fl j)" if "j < FRAME_ORDERS" "j \<noteq> k" for j
      using wf_lists_entries [OF wf that(1)] wf_lists_not_other [OF wf k that(1), of l] that(2) l(3)
      by simp
    moreover have "list_at ?h (pool_head s) ps"
      using wf_lists_pool [OF wf] wf_lists_not_pool [OF wf k l(3)] by (simp add: pool_at_def)
    ultimately have "wf_lists (s\<lparr>nodes := ?h\<rparr>) ps (fl(k := xs @ ys))"
      using wf_lists_pool [OF wf] fl
      by (intro wf_lists_shrink [OF wf k]) (auto simp: pool_at_def simp del: fun_upd_apply)
    then show ?thesis
      using run fresh snoc x l by (intro that [of "s\<lparr>nodes := ?h\<rparr>"]) (auto simp: same_maps_def same_rest_def)
  qed
qed

end
