(* ===== verification/Frame_Bits.thy ===== *)
theory Frame_Bits
  imports Frame_Lists
begin

text \<open>
  The bitmaps of the frame allocator: which bit of which word belongs to a pair of buddies,
  what reading and toggling it do, and the relation between addresses of blocks and their
  indices.
\<close>

section \<open>Sizes and addresses of blocks\<close>

definition order_bytes :: "nat \<Rightarrow> nat" where
  "order_bytes k = 2 ^ (12 + k)"

definition sizes_ok :: "'a frame_state_scheme \<Rightarrow> bool" where
  "sizes_ok s \<longleftrightarrow> (\<forall>k < FRAME_ORDERS. order_sizes s k = 2 ^ (12 + k))"

text \<open>An address of a block of order \<open>k\<close>: aligned, and the block ends within 57 bits.\<close>

definition valid_addr :: "nat \<Rightarrow> u64 \<Rightarrow> bool" where
  "valid_addr k a \<longleftrightarrow> order_bytes k dvd unat a \<and> unat a + order_bytes k \<le> 2 ^ 57"

definition block_of :: "nat \<Rightarrow> u64 \<Rightarrow> block" where
  "block_of k a = (k, unat a div order_bytes k)"

lemma order_bytes_pos [simp]: "0 < order_bytes k" "order_bytes k \<noteq> 0"
  by (simp_all add: order_bytes_def)

lemma order_bytes_Suc: "order_bytes (Suc k) = 2 * order_bytes k"
  unfolding order_bytes_def by (simp only: add_Suc_right power_Suc)

lemma order_bytes_less: "k < FRAME_ORDERS \<Longrightarrow> order_bytes k \<le> 2 ^ 19"
  unfolding order_bytes_def FRAME_ORDERS_def by (rule power_increasing) auto

lemma sizes_okD: "sizes_ok s \<Longrightarrow> k < FRAME_ORDERS \<Longrightarrow> order_sizes s k = 2 ^ (12 + k)"
  by (simp add: sizes_ok_def)

lemma unat_order_size: "k < FRAME_ORDERS \<Longrightarrow> unat (2 ^ (12 + k) :: u64) = order_bytes k"
  unfolding order_bytes_def by (rule unat_2_power_u64) (simp add: FRAME_ORDERS_def)

lemma unat_order_sizes: "sizes_ok s \<Longrightarrow> k < FRAME_ORDERS \<Longrightarrow> unat (order_sizes s k) = order_bytes k"
  by (simp only: sizes_okD unat_order_size)

lemma sizes_ok_rest: "same_rest s s' \<Longrightarrow> sizes_ok s' = sizes_ok s"
  by (simp add: same_rest_def sizes_ok_def)

lemma fst_block_of [simp]: "fst (block_of k a) = k"
  by (simp add: block_of_def)

lemma valid_addr_unat: "valid_addr k a \<Longrightarrow> unat a = snd (block_of k a) * order_bytes k"
  by (simp add: valid_addr_def block_of_def)

lemma block_of_inj: "valid_addr k a \<Longrightarrow> valid_addr k b \<Longrightarrow> block_of k a = block_of k b \<Longrightarrow> a = b"
  by (metis valid_addr_unat word_unat_eq_iff)

text \<open>The buddy pair of a block.\<close>

definition pair_of :: "nat \<Rightarrow> u64 \<Rightarrow> nat" where
  "pair_of k a = unat a div order_bytes (Suc k)"

lemma pair_of_block_of: "pair_of k a = snd (block_of k a) div 2"
  by (simp add: pair_of_def block_of_def order_bytes_Suc div_mult2_eq mult.commute)

lemma snd_block_of_Suc: "snd (block_of (Suc k) a) = pair_of k a"
  by (simp add: pair_of_def block_of_def)

lemma pair_of_bound: "pair_of k a < 2 ^ 51"
proof -
  have "unat a < 2 ^ 64"
    by (rule unat_u64_lt)
  moreover have "(2 :: nat) ^ 13 \<le> order_bytes (Suc k)"
    unfolding order_bytes_def by (rule power_increasing) auto
  then have "unat a div order_bytes (Suc k) \<le> unat a div 2 ^ 13"
    by (rule div_le_mono2 [rotated]) simp
  ultimately show ?thesis
    unfolding pair_of_def by simp
qed

section \<open>The bit of a pair\<close>

definition pair_bit_at :: "'a frame_state_scheme \<Rightarrow> nat \<Rightarrow> nat \<Rightarrow> bool" where
  "pair_bit_at s k j = bit (buddy_maps s k (of_nat (j div 64))) (j mod 64)"

lemma calc_buddy_index_eq:
  assumes sizes: "sizes_ok s" and k: "k < FRAME_ORDERS - 1"
  shows "calc_buddy_index a k s = Inr (of_nat (pair_of k a div 64), pair_of k a mod 64)"
proof -
  have k8: "k < FRAME_ORDERS"
    using k by simp
  let ?i = "a div order_sizes s k"
  have i: "unat ?i = unat a div order_bytes k"
    by (simp add: unat_div unat_order_sizes [OF sizes k8])
  have "unat (?i mod 2) = unat ?i mod 2"
    by (simp add: unat_mod)
  moreover have "unat (?i mod 2) \<le> unat ?i"
    by (simp add: unat_mod)
  ultimately have even: "unat (?i - ?i mod 2) = unat ?i - unat ?i mod 2"
    by (subst unat_sub_u64) (auto simp: word_le_nat_alt)
  have j: "unat ((?i - ?i mod 2) div 2) = pair_of k a"
    unfolding unat_div even i pair_of_def order_bytes_Suc
    by (simp add: unat_order_sizes [OF sizes k8] mult.commute minus_mod_eq_div_mult
        flip: div_mult2_eq)
  let ?j = "(?i - ?i mod 2) div 2"
  have bit_index: "unat (?j AND 0b111111) = pair_of k a mod 64"
    using unat_and_mask_u64 [of ?j 6] j by (simp add: mask_eq_exp_minus_1)
  have "unat ((?j AND NOT 0b111111) div 64) = pair_of k a div 64"
  proof -
    have "(?j AND NOT 0b111111) div 64 = drop_bit 6 (?j AND NOT (mask 6))"
      by (simp add: drop_bit_eq_div mask_eq_exp_minus_1)
    also have "\<dots> = drop_bit 6 ?j"
      by (rule bit_eqI) (auto simp: bit_simps dest: bit_imp_le_length)
    finally show ?thesis
      by (simp only: unat_drop_bit_u64 j) simp
  qed
  then have "(?j AND NOT 0b111111) div 64 = of_nat (pair_of k a div 64)"
    by (metis of_nat_unat ucast_id)
  then show ?thesis
    using k bit_index unfolding calc_buddy_index_def by (simp add: Let_def)
qed

lemma get_buddy_bit_eq:
  assumes "sizes_ok s" "k < FRAME_ORDERS - 1"
  shows "get_buddy_bit a k s = Inr (pair_bit_at s k (pair_of k a))"
  by (simp add: get_buddy_bit_def calc_buddy_index_eq [OF assms] pair_bit_at_def
      and_one_eq bit_drop_bit_eq odd_iff_mod_2_eq_one [symmetric] flip: bit_iff_odd_drop_bit)

text \<open>Toggling flips the bit of the pair and no other; the last order has no bits.\<close>

lemma toggle_buddy_bit_eq:
  assumes sizes: "sizes_ok s" and k: "k < FRAME_ORDERS"
  obtains m where "toggle_buddy_bit a k s = Inr (s\<lparr>buddy_maps := m\<rparr>)"
    "\<And>l j. j < 2 ^ 51 \<Longrightarrow> l < FRAME_ORDERS - 1 \<Longrightarrow> pair_bit_at (s\<lparr>buddy_maps := m\<rparr>) l j =
       (if l = k \<and> j = pair_of k a then \<not> pair_bit_at s l j else pair_bit_at s l j)"
proof (cases "k = FRAME_ORDERS - 1")
  case True
  then show ?thesis
    by (intro that [of "buddy_maps s"]) (auto simp: toggle_buddy_bit_def)
next
  case False
  then have k7: "k < FRAME_ORDERS - 1"
    using k by simp
  let ?j = "pair_of k a"
  let ?w = "of_nat (?j div 64) :: u64"
  let ?m = "(buddy_maps s)(k := (buddy_maps s k)(?w := buddy_maps s k ?w XOR push_bit (?j mod 64) 1))"
  show ?thesis
  proof (rule that [of ?m])
    show "toggle_buddy_bit a k s = Inr (s\<lparr>buddy_maps := ?m\<rparr>)"
      using False by (simp add: toggle_buddy_bit_def calc_buddy_index_eq [OF sizes k7])
  next
    fix l j :: nat
    assume j: "j < 2 ^ 51"
    have "unat (of_nat (i div 64) :: u64) = i div 64" if "i < 2 ^ 51" for i
      using that by (simp add: unat_of_nat)
    then have word: "(of_nat (j div 64) :: u64) = ?w \<longleftrightarrow> j div 64 = ?j div 64"
      using j pair_of_bound [of k a] by metis
    have same: "j = ?j \<longleftrightarrow> j div 64 = ?j div 64 \<and> j mod 64 = ?j mod 64"
      by (metis div_mult_mod_eq)
    have "?j mod 64 < 64" "j mod 64 < 64"
      by simp_all
    then have "bit (push_bit (?j mod 64) 1 :: u64) (j mod 64) \<longleftrightarrow> j mod 64 = ?j mod 64"
      by (auto simp: bit_simps)
    then show "pair_bit_at (s\<lparr>buddy_maps := ?m\<rparr>) l j =
       (if l = k \<and> j = ?j then \<not> pair_bit_at s l j else pair_bit_at s l j)"
      unfolding pair_bit_at_def by (auto simp: word same bit_xor_iff)
  qed
qed

end
