(* ===== verification/Frame_Orders.thy ===== *)
theory Frame_Orders
  imports Frame_Bits
begin

text \<open>
  The choice of orders: the smallest order that holds a number of pages, and the biggest order
  that fits into a number of bytes.
\<close>

section \<open>The smallest order for a number of pages\<close>

lemma bit_length_pred_le:
  assumes "0 < n"
  shows "bit_length (n - 1) \<le> k \<longleftrightarrow> n \<le> 2 ^ k"
  using assms by (auto simp: bit_length_le_iff)

text \<open>
  \<open>get_min_size_frame_order\<close> fails its assertion on 0 pages and otherwise returns the
  smallest order whose blocks hold that many pages, capped at \<open>FRAME_ORDERS\<close> (which is not an
  order: the callers assert on it).
\<close>

theorem get_min_size_frame_order_least:
  "get_min_size_frame_order pages =
     (if pages = 0 then Inl (Assert_failed ''Can't have a zero sized allocation'')
      else Inr (min (LEAST k. unat pages \<le> 2 ^ k) FRAME_ORDERS))"
proof (cases "pages = 0 \<or> pages = 1")
  case True
  then show ?thesis
    by (auto simp: get_min_size_frame_order_def)
next
  case False
  then have pos: "0 < unat pages"
    by (simp add: unat_gt_0)
  have "(LEAST k. unat pages \<le> 2 ^ k) = bit_length (unat pages - 1)"
    by (rule Least_equality) (simp_all flip: bit_length_pred_le [OF pos])
  with False show ?thesis
    by (simp add: get_min_size_frame_order_def sixty_four_minus_clzll unat_minus_one)
qed

end
