(* ===== verification/Frame_Invariant.thy ===== *)
theory Frame_Invariant
  imports Frame_Orders
begin

text \<open>
  The invariant of the frame allocator: the lists hold aligned blocks, no page is in two
  blocks, and the bit of a pair of buddies is set exactly when one of the two is free. The
  elementary steps of the code (a block leaves a list, a block joins a list) at the level of
  the set of free blocks of Buddy_Spec.
\<close>

section \<open>The set of free blocks\<close>

definition blocks :: "free_lists \<Rightarrow> block set" where
  "blocks fl = (\<Union>k < FRAME_ORDERS. (\<lambda>(q, a). block_of k a) ` set (fl k))"

definition good_lists :: "free_lists \<Rightarrow> bool" where
  "good_lists fl \<longleftrightarrow>
     (\<forall>k < FRAME_ORDERS. (\<forall>(q, a) \<in> set (fl k). valid_addr k a) \<and> distinct (map snd (fl k))) \<and>
     blocks_disjoint (blocks fl)"

definition bits_ok :: "'a frame_state_scheme \<Rightarrow> block set \<Rightarrow> bool" where
  "bits_ok s B \<longleftrightarrow>
     (\<forall>k < FRAME_ORDERS - 1. \<forall>j < 2 ^ 51. pair_bit_at s k j = pair_bit B k j)"

definition frames_ok :: "'a frame_state_scheme \<Rightarrow> u64 list \<Rightarrow> free_lists \<Rightarrow> bool" where
  "frames_ok s ps fl \<longleftrightarrow>
     wf_lists s ps fl \<and> sizes_ok s \<and> good_lists fl \<and> bits_ok s (blocks fl)"

lemma blocks_iff:
  "b \<in> blocks fl \<longleftrightarrow> (\<exists>k q a. k < FRAME_ORDERS \<and> (q, a) \<in> set (fl k) \<and> b = block_of k a)"
  unfolding blocks_def by fastforce

lemma blocks_iff_fst:
  "b \<in> blocks fl \<longleftrightarrow> fst b < FRAME_ORDERS \<and> b \<in> (\<lambda>(q, a). block_of (fst b) a) ` set (fl (fst b))"
  unfolding blocks_iff by (auto simp: image_iff case_prod_beta) (metis fst_block_of snd_conv)+

lemma blocks_member: "k < FRAME_ORDERS \<Longrightarrow> (q, a) \<in> set (fl k) \<Longrightarrow> block_of k a \<in> blocks fl"
  by (auto simp: blocks_iff)

lemma finite_blocks [simp]: "finite (blocks fl)"
  by (simp add: blocks_def)

lemma good_lists_valid: "good_lists fl \<Longrightarrow> k < FRAME_ORDERS \<Longrightarrow> (q, a) \<in> set (fl k) \<Longrightarrow> valid_addr k a"
  by (auto simp: good_lists_def)

lemma good_lists_distinct: "good_lists fl \<Longrightarrow> k < FRAME_ORDERS \<Longrightarrow> distinct (map snd (fl k))"
  by (simp add: good_lists_def)

lemma good_lists_disjoint: "good_lists fl \<Longrightarrow> blocks_disjoint (blocks fl)"
  by (simp add: good_lists_def)

lemma blocks_block_of:
  assumes good: "good_lists fl" and k: "k < FRAME_ORDERS" and a: "valid_addr k a"
  shows "block_of k a \<in> blocks fl \<longleftrightarrow> (\<exists>q. (q, a) \<in> set (fl k))"
proof
  assume "block_of k a \<in> blocks fl"
  then obtain l q b where l: "l < FRAME_ORDERS" "(q, b) \<in> set (fl l)" "block_of k a = block_of l b"
    by (auto simp: blocks_iff)
  then have "l = k"
    by (metis fst_block_of)
  then have "a = b"
    using l good_lists_valid [OF good l(1,2)] block_of_inj [OF a] by simp
  with l \<open>l = k\<close> show "\<exists>q. (q, a) \<in> set (fl k)"
    by auto
qed (use k blocks_member in blast)

section \<open>A block leaves or joins a list\<close>

lemma blocks_upd:
  assumes "k < FRAME_ORDERS"
  shows "blocks (fl(k := xs)) =
    (\<lambda>(q, a). block_of k a) ` set xs \<union> {b \<in> blocks fl. fst b \<noteq> k}"
proof (rule set_eqI)
  fix b
  have "fst b = k" if "b \<in> (\<lambda>(q, a). block_of k a) ` set xs"
    using that by auto
  then show "b \<in> blocks (fl(k := xs)) \<longleftrightarrow>
      b \<in> (\<lambda>(q, a). block_of k a) ` set xs \<union> {b \<in> blocks fl. fst b \<noteq> k}"
    using assms unfolding blocks_iff_fst [of b fl] blocks_iff_fst [of b "fl(k := xs)"] Un_iff mem_Collect_eq
    by (cases "fst b = k") (simp_all, blast)
qed

lemma blocks_remove:
  assumes good: "good_lists fl" and k: "k < FRAME_ORDERS" and fl: "fl k = xs @ (q, a) # ys"
  shows "blocks (fl(k := xs @ ys)) = blocks fl - {block_of k a}"
proof -
  have val: "valid_addr k b" if "(r, b) \<in> set (fl k)" for r b
    using good_lists_valid [OF good k that] .
  have dist: "distinct (map snd (xs @ (q, a) # ys))"
    using good_lists_distinct [OF good k] fl by simp
  have ne: "block_of k b \<noteq> block_of k a" if "(r, b) \<in> set (xs @ ys)" for r b
  proof
    assume "block_of k b = block_of k a"
    then have "b = a"
      using val [of r b] val [of q a] that fl by (intro block_of_inj [of k]) auto
    then have "a \<in> snd ` set (xs @ ys)"
      using that by force
    then show False
      using dist by auto
  qed
  have "blocks fl = blocks (fl(k := fl k))"
    by simp
  also have "\<dots> = insert (block_of k a) ((\<lambda>(q, a). block_of k a) ` set (xs @ ys)) \<union> {b \<in> blocks fl. fst b \<noteq> k}"
    unfolding blocks_upd [OF k] by (simp add: fl)
  finally have eq: "blocks fl = insert (block_of k a) (blocks (fl(k := xs @ ys)))"
    unfolding blocks_upd [OF k] by simp
  have "block_of k a \<notin> blocks (fl(k := xs @ ys))"
    unfolding blocks_upd [OF k] using ne by (auto simp del: set_append) metis
  then show ?thesis
    by (simp add: eq)
qed

lemma blocks_insert:
  assumes k: "k < FRAME_ORDERS"
  shows "blocks (fl(k := (q, a) # fl k)) = insert (block_of k a) (blocks fl)"
proof -
  have "blocks fl = blocks (fl(k := fl k))"
    by simp
  then show ?thesis
    unfolding blocks_upd [OF k] by auto
qed

lemma good_lists_remove:
  assumes good: "good_lists fl" and k: "k < FRAME_ORDERS" and fl: "fl k = xs @ (q, a) # ys"
  shows "good_lists (fl(k := xs @ ys))"
proof -
  have "blocks_disjoint (blocks (fl(k := xs @ ys)))"
    unfolding blocks_remove [OF assms]
    by (rule blocks_disjoint_subset [OF good_lists_disjoint [OF good]]) auto
  moreover have "(\<forall>(r, b) \<in> set (xs @ ys). valid_addr k b) \<and> distinct (map snd (xs @ ys))"
    using good_lists_distinct [OF good k] good_lists_valid [OF good k] fl by auto
  ultimately show ?thesis
    using good by (simp add: good_lists_def)
qed

lemma good_lists_insert:
  assumes good: "good_lists fl" and k: "k < FRAME_ORDERS" and a: "valid_addr k a"
    and free: "block_pages (block_of k a) \<inter> free_pages (blocks fl) = {}"
  shows "good_lists (fl(k := (q, a) # fl k))"
proof -
  have "blocks_disjoint (blocks (fl(k := (q, a) # fl k)))"
    unfolding blocks_insert [OF k]
    by (rule blocks_disjoint_add [OF good_lists_disjoint [OF good] free])
  moreover have "a \<notin> snd ` set (fl k)"
    using not_free_not_in [OF free] blocks_member [OF k, of _ a fl] by auto
  ultimately show ?thesis
    using good a by (simp add: good_lists_def)
qed

section \<open>Bits\<close>

lemma bits_okD:
  "bits_ok s B \<Longrightarrow> k < FRAME_ORDERS - 1 \<Longrightarrow> pair_bit_at s k (pair_of k a) = pair_bit B k (pair_of k a)"
  using pair_of_bound by (simp add: bits_ok_def)

lemma bits_ok_cong:
  "buddy_maps s' = buddy_maps s \<Longrightarrow> bits_ok s' B = bits_ok s B"
  by (simp add: bits_ok_def pair_bit_at_def)

lemma pair_bit_flip:
  assumes "C = insert (block_of k a) B" "block_of k a \<notin> B"
  shows "pair_bit C l j = (if l = k \<and> j = pair_of k a then \<not> pair_bit B l j else pair_bit B l j)"
    and "pair_bit B l j = (if l = k \<and> j = pair_of k a then \<not> pair_bit C l j else pair_bit C l j)"
proof -
  have "block_of k a = (k, snd (block_of k a))"
    by (metis fst_block_of prod.collapse)
  then show flip: "pair_bit C l j = (if l = k \<and> j = pair_of k a then \<not> pair_bit B l j else pair_bit B l j)"
    using pair_bit_insert [of k "snd (block_of k a)" B l j] assms by (simp add: pair_of_block_of)
  show "pair_bit B l j = (if l = k \<and> j = pair_of k a then \<not> pair_bit C l j else pair_bit C l j)"
    using flip by auto
qed

lemma toggle_bits:
  assumes sizes: "sizes_ok s" and k: "k < FRAME_ORDERS" and bits: "bits_ok s B"
    and flip: "\<And>l j. pair_bit C l j =
      (if l = k \<and> j = pair_of k a then \<not> pair_bit B l j else pair_bit B l j)"
  obtains m where "toggle_buddy_bit a k s = Inr (s\<lparr>buddy_maps := m\<rparr>)"
    "bits_ok (s\<lparr>buddy_maps := m\<rparr>) C"
proof -
  obtain m where m: "toggle_buddy_bit a k s = Inr (s\<lparr>buddy_maps := m\<rparr>)"
    "\<And>l j. j < 2 ^ 51 \<Longrightarrow> l < FRAME_ORDERS - 1 \<Longrightarrow> pair_bit_at (s\<lparr>buddy_maps := m\<rparr>) l j =
       (if l = k \<and> j = pair_of k a then \<not> pair_bit_at s l j else pair_bit_at s l j)"
    using toggle_buddy_bit_eq [OF sizes k] by blast
  then have "bits_ok (s\<lparr>buddy_maps := m\<rparr>) C"
    using bits flip by (simp add: bits_ok_def)
  with m(1) show ?thesis
    by (rule that)
qed

section \<open>The invariant\<close>

lemma frames_okD:
  assumes "frames_ok s ps fl"
  shows "wf_lists s ps fl" "sizes_ok s" "good_lists fl" "bits_ok s (blocks fl)"
  using assms by (simp_all add: frames_ok_def)

lemma frames_okI:
  "wf_lists s ps fl \<Longrightarrow> sizes_ok s \<Longrightarrow> good_lists fl \<Longrightarrow> bits_ok s (blocks fl) \<Longrightarrow> frames_ok s ps fl"
  by (simp add: frames_ok_def)

text \<open>The nodes the allocator owns: of the pool and of the lists.\<close>

definition own_nodes :: "u64 list \<Rightarrow> free_lists \<Rightarrow> u64 set" where
  "own_nodes ps fl = set ps \<union> (\<Union>k < FRAME_ORDERS. ptrs (fl k))"

lemma fresh_iff: "fresh p ps fl \<longleftrightarrow> p \<noteq> 0 \<and> p \<notin> own_nodes ps fl"
  unfolding fresh_def own_nodes_def by auto

lemma own_nodes_upd:
  assumes "k < FRAME_ORDERS"
  shows "own_nodes ps (fl(k := xs)) \<union> ptrs (fl k) = own_nodes ps fl \<union> ptrs xs"
  unfolding own_nodes_def using assms by (fastforce split: if_splits)

lemma own_nodes_push:
  assumes "k < FRAME_ORDERS"
  shows "own_nodes ps (fl(k := (p, a) # fl k)) = insert p (own_nodes ps fl)"
  unfolding own_nodes_def using assms by (fastforce split: if_splits)

lemma own_nodes_remove:
  assumes wf: "wf_lists s ps fl" and k: "k < FRAME_ORDERS" and fl: "fl k = xs @ (q, a) # ys"
  shows "own_nodes ps (fl(k := xs @ ys)) = own_nodes ps fl - {q}"
proof -
  have "q \<notin> ptrs (xs @ ys)"
    using wf_lists_distinct [OF wf k] fl by auto
  moreover have "q \<notin> set ps" "\<And>j. j < FRAME_ORDERS \<Longrightarrow> j \<noteq> k \<Longrightarrow> q \<notin> ptrs (fl j)"
    using wf_lists_not_pool [OF wf k, of q] wf_lists_not_other [OF wf k, of _ q] fl by auto
  ultimately have "q \<notin> own_nodes ps (fl(k := xs @ ys))"
    by (auto simp: own_nodes_def)
  moreover have "own_nodes ps fl = insert q (own_nodes ps (fl(k := xs @ ys)))"
    unfolding own_nodes_def using k fl by (fastforce split: if_splits)
  ultimately show ?thesis
    by simp
qed

lemma own_nodes_Cons: "own_nodes (p # ps) fl = insert p (own_nodes ps fl)"
  by (simp add: own_nodes_def)

end
