(* ===== verification/Frame_Free.thy ===== *)
theory Frame_Free
  imports Frame_Invariant
begin

text \<open>
  Freeing: \<open>free_frames\<close> and the merging of buddies. The buddy that the bitmap announces is
  always found in its list, the free pages grow by exactly the pages given back, and merging
  goes as far up as it can.
\<close>

section \<open>Exhaustive merging\<close>

definition coalesced :: "block set \<Rightarrow> bool" where
  "coalesced B \<longleftrightarrow> (\<forall>k < FRAME_ORDERS - 1. \<forall>j. \<not> ((k, 2 * j) \<in> B \<and> (k, Suc (2 * j)) \<in> B))"

definition coalesced_but :: "block set \<Rightarrow> block \<Rightarrow> bool" where
  "coalesced_but B b \<longleftrightarrow>
     (\<forall>k < FRAME_ORDERS - 1. \<forall>j. (k, 2 * j) \<in> B \<and> (k, Suc (2 * j)) \<in> B \<longrightarrow>
        k = fst b \<and> j = snd b div 2)"

lemma coalesced_but_insert: "coalesced B \<Longrightarrow> coalesced_but (insert b B) b"
  by (auto simp: coalesced_def coalesced_but_def)

lemma coalesced_but_merge:
  "coalesced_but B b \<Longrightarrow> coalesced_but (merge_buddies b B) (fst b + 1, snd b div 2)"
proof (unfold coalesced_but_def, intro allI impI, elim conjE)
  fix k j
  assume c: "\<forall>k < FRAME_ORDERS - 1. \<forall>j. (k, 2 * j) \<in> B \<and> (k, Suc (2 * j)) \<in> B \<longrightarrow>
      k = fst b \<and> j = snd b div 2"
    and k: "k < FRAME_ORDERS - 1"
    and m: "(k, 2 * j) \<in> merge_buddies b B" "(k, Suc (2 * j)) \<in> merge_buddies b B"
  let ?m = "(fst b + 1, snd b div 2)"
  show "k = fst (fst b + 1, snd b div 2) \<and> j = snd (fst b + 1, snd b div 2) div 2"
  proof (cases "(k, 2 * j) = ?m \<or> (k, Suc (2 * j)) = ?m")
    case True
    then show ?thesis
      by (metis Suc_eq_plus1 even_Suc_div_two even_two_times_div_two dvd_triv_left fst_conv
          nonzero_mult_div_cancel_left snd_conv zero_neq_numeral)
  next
    case False
    then have "(k, 2 * j) \<in> B" "(k, Suc (2 * j)) \<in> B" "k = fst b \<longrightarrow> j \<noteq> snd b div 2"
      using m by (auto simp: merge_buddies_def)
    then show ?thesis
      using c k by blast
  qed
qed

lemma coalesced_but_pair_bit:
  "coalesced_but B b \<Longrightarrow> pair_bit B (fst b) (snd b div 2) \<Longrightarrow> coalesced B"
  unfolding coalesced_def coalesced_but_def pair_bit_def by blast

lemma coalesced_but_last:
  "coalesced_but B b \<Longrightarrow> \<not> fst b < FRAME_ORDERS - 1 \<Longrightarrow> coalesced B"
  unfolding coalesced_def coalesced_but_def by blast

section \<open>The buddy of a block\<close>

definition buddy_addr :: "nat \<Rightarrow> u64 \<Rightarrow> u64" where
  "buddy_addr k a =
     (if a mod 2 ^ (12 + (k + 1)) = 0 then a + 2 ^ (12 + k) else a - 2 ^ (12 + k))"

lemma buddy_addr_cases:
  assumes k: "k < FRAME_ORDERS - 1" and a: "valid_addr k a"
    and b: "valid_addr k b" and nb: "block_of k b \<noteq> block_of k a" "pair_of k b = pair_of k a"
  shows "buddy_addr k a = b"
    and "valid_addr (Suc k) (if b < a then b else a)"
    and "block_of (Suc k) (if b < a then b else a) = (Suc k, pair_of k a)"
proof -
  let ?o = "order_bytes k"
  define i j where "i = snd (block_of k a)" and "j = snd (block_of k b)"
  have ua: "unat a = i * ?o" and ub: "unat b = j * ?o"
    using a b by (simp_all add: i_def j_def valid_addr_unat)
  have ij: "i \<noteq> j" "i div 2 = j div 2"
    using nb by (auto simp: i_def j_def pair_of_block_of block_of_def)
  have unat_o: "unat (2 ^ (12 + k) :: u64) = ?o" "unat (2 ^ (12 + (k + 1)) :: u64) = 2 * ?o"
    using k unat_order_size [of k] unat_order_size [of "k + 1"] by (simp_all add: order_bytes_Suc)
  have "unat (a mod 2 ^ (12 + (k + 1))) = unat a mod unat (2 ^ (12 + (k + 1)) :: u64)"
    by (rule unat_mod)
  also have "\<dots> = (i mod 2) * ?o"
    unfolding unat_o ua by (simp add: mult_mod_left)
  finally have umod: "unat (a mod 2 ^ (12 + (k + 1))) = (i mod 2) * ?o" .
  have parity: "a mod 2 ^ (12 + (k + 1)) = 0 \<longleftrightarrow> even i"
  proof -
    have "a mod 2 ^ (12 + (k + 1)) = 0 \<longleftrightarrow> unat (a mod 2 ^ (12 + (k + 1))) = 0"
      by (simp only: unat_eq_0)
    then show ?thesis
      unfolding umod by (simp add: even_iff_mod_2_eq_zero)
  qed
  have bound: "unat a + ?o \<le> 2 ^ 57" "unat b + ?o \<le> 2 ^ 57"
    using a b by (simp_all add: valid_addr_def)
  have less: "b < a \<longleftrightarrow> j < i"
    by (simp add: word_less_nat_alt ua ub)
  have pair: "pair_of k a = i div 2"
    by (simp add: i_def pair_of_block_of)
  consider (left) "even i" "j = Suc i" | (right) "even j" "i = Suc j"
    using ij by (metis add.commute div2_Suc_Suc even_Suc even_two_times_div_two odd_two_times_div_two_succ plus_1_eq_Suc)
  note cases = this
  show "buddy_addr k a = b"
  proof (cases rule: cases)
    case left
    have "unat (a + 2 ^ (12 + k)) = unat a + ?o"
      using bound unat_o by (subst unat_add_u64) auto
    then have "unat (a + 2 ^ (12 + k)) = unat b"
      using left by (simp add: ua ub)
    then show ?thesis
      using left parity by (simp add: buddy_addr_def word_unat_eq_iff del: unat_eq_0)
  next
    case right
    have "unat (a - 2 ^ (12 + k)) = unat a - ?o"
      using right unat_o ua by (subst unat_sub_u64) (auto simp: word_le_nat_alt)
    then have "unat (a - 2 ^ (12 + k)) = unat b"
      using right by (simp add: ua ub)
    then show ?thesis
      using right parity by (simp add: buddy_addr_def word_unat_eq_iff del: unat_eq_0)
  qed
  have *: "order_bytes (Suc k) dvd unat (if b < a then b else a) \<and>
      unat (if b < a then b else a) + order_bytes (Suc k) \<le> 2 ^ 57 \<and>
      unat (if b < a then b else a) div order_bytes (Suc k) = i div 2"
  proof (cases rule: cases)
    case left
    then obtain m where "i = 2 * m"
      by (auto elim: evenE)
    with left bound show ?thesis
      by (simp add: less ua ub order_bytes_Suc mult.assoc)
  next
    case right
    then obtain m where "j = 2 * m"
      by (auto elim: evenE)
    with right bound show ?thesis
      by (simp add: less ua ub order_bytes_Suc mult.assoc)
  qed
  then show "valid_addr (Suc k) (if b < a then b else a)"
    by (simp add: valid_addr_def)
  show "block_of (Suc k) (if b < a then b else a) = (Suc k, pair_of k a)"
    using * by (simp add: block_of_def pair)
qed

section \<open>What an operation may change\<close>

definition only_own :: "u64 set \<Rightarrow> 'a frame_state_scheme \<Rightarrow> 'a frame_state_scheme \<Rightarrow> bool" where
  "only_own X s s' \<longleftrightarrow> same_rest s s' \<and> (\<forall>r. r \<notin> X \<longrightarrow> nodes s' r = nodes s r)"

lemma only_own_refl [simp]: "only_own X s s"
  by (simp add: only_own_def)

lemma only_own_trans [trans]: "only_own X s t \<Longrightarrow> only_own X t u \<Longrightarrow> only_own X s u"
  by (auto simp: only_own_def intro: same_rest_trans)

lemma only_own_mono: "only_own X s t \<Longrightarrow> X \<subseteq> Y \<Longrightarrow> only_own Y s t"
  by (auto simp: only_own_def)

lemma only_own_rest: "only_own X s t \<Longrightarrow> same_rest s t"
  by (simp add: only_own_def)

lemma only_own_nodes: "only_own X s t \<Longrightarrow> r \<notin> X \<Longrightarrow> nodes t r = nodes s r"
  by (simp add: only_own_def)

lemma only_own_updates [simp]:
  "only_own X s (t\<lparr>buddy_maps := m\<rparr>) = only_own X s t"
  "only_own X s (set_head k p t) = only_own X s t"
  by (simp_all add: only_own_def same_rest_def set_head_def)

lemma only_own_node: "only_own X s t \<Longrightarrow> p \<in> X \<Longrightarrow> only_own X s (t\<lparr>nodes := (nodes t)(p := e)\<rparr>)"
  by (auto simp: only_own_def same_rest_def)

text \<open>There is always room to count one node more: the nodes are distinct pointers.\<close>

lemma fresh_room:
  assumes wf: "wf_lists s ps fl" and p: "fresh p ps fl"
  shows "length ps + 1 < 2 ^ 64"
proof -
  have "distinct (0 # p # ps)"
    using pool_at_distinct [OF wf_lists_pool [OF wf]] pool_at_nonzero [OF wf_lists_pool [OF wf]]
      freshD(1,2) [OF p] by auto
  from distinct_u64_length [OF this] show ?thesis
    by (simp add: loop_fuel_def)
qed

section \<open>One step of merging\<close>

lemma fresh_subset: "fresh p ps fl \<Longrightarrow> own_nodes ps' fl' \<subseteq> own_nodes ps fl \<Longrightarrow> fresh p ps' fl'"
  by (auto simp: fresh_iff)

lemma own_nodes_list: "k < FRAME_ORDERS \<Longrightarrow> ptrs (fl k) \<subseteq> own_nodes ps fl"
  by (auto simp: own_nodes_def)

text \<open>Both buddies are in the list when the bit of the pair is clear.\<close>

lemma buddy_in_list:
  assumes ok: "frames_ok s ps fl" and k: "k < FRAME_ORDERS - 1" and fl: "fl k = (p, a) # xs"
    and bit: "\<not> pair_bit_at s k (pair_of k a)"
  obtains ys q b zs where "xs = ys @ (q, b) # zs" "\<forall>(r, c) \<in> set ys. c \<noteq> b" "valid_addr k a"
    "valid_addr k b" "block_of k b \<noteq> block_of k a" "pair_of k b = pair_of k a"
proof -
  have k8: "k < FRAME_ORDERS"
    using k by simp
  note good = frames_okD(3) [OF ok]
  have a: "valid_addr k a" "block_of k a \<in> blocks fl"
    using good_lists_valid [OF good k8, of p a] blocks_member [OF k8, of p a fl] fl by simp_all
  let ?j = "pair_of k a"
  have "\<not> pair_bit (blocks fl) k ?j"
    using bits_okD [OF frames_okD(4) [OF ok] k, of a] bit by simp
  moreover have "block_of k a = (k, 2 * ?j) \<or> block_of k a = (k, Suc (2 * ?j))"
    unfolding pair_of_block_of by (metis bit_eq_rec even_two_times_div_two fst_block_of odd_two_times_div_two_succ
        plus_1_eq_Suc add.commute prod.collapse)
  ultimately obtain c where c: "c \<in> blocks fl" "c \<noteq> block_of k a" "fst c = k" "snd c div 2 = ?j"
    using a(2) unfolding pair_bit_def by (metis Suc_n_not_n div2_Suc_Suc fst_conv snd_conv prod.inject
        even_Suc_div_two dvd_triv_left nonzero_mult_div_cancel_left zero_neq_numeral)
  then obtain q b where qb: "(q, b) \<in> set (fl k)" "c = block_of k b"
    using blocks_iff_fst [of c fl] by auto
  have b: "valid_addr k b"
    by (rule good_lists_valid [OF good k8 qb(1)])
  have "(q, b) \<in> set xs"
    using qb c(2) fl by auto
  then have "\<exists>(q, c) \<in> set xs. c = b"
    by auto
  then obtain ys r d zs where split: "xs = ys @ (r, d) # zs" "\<forall>(r, c) \<in> set ys. c \<noteq> b" "d = b"
    by (rule first_satisfying)
  show ?thesis
    using split a b qb c by (intro that [of ys r b zs]) (simp_all add: pair_of_block_of)
qed

lemma two_buddies:
  assumes "block_of k b \<noteq> block_of k a" "pair_of k b = pair_of k a"
  shows "{block_of k a, block_of k b} = {(k, 2 * pair_of k a), (k, Suc (2 * pair_of k a))}"
proof -
  obtain i j where ij: "block_of k a = (k, i)" "block_of k b = (k, j)"
    by (simp add: block_of_def)
  then have "i div 2 = pair_of k a" "j div 2 = pair_of k a" "i \<noteq> j"
    using assms by (auto simp: pair_of_block_of)
  then have "i = 2 * pair_of k a \<and> j = Suc (2 * pair_of k a) \<or>
      j = 2 * pair_of k a \<and> i = Suc (2 * pair_of k a)"
    by linarith
  then show ?thesis
    unfolding ij by auto
qed

text \<open>
  The loop body on the lists: both buddies leave the list of order \<open>k\<close> and the left address
  joins the list of order \<open>k + 1\<close>.
\<close>

lemma merge_lists:
  assumes good: "good_lists fl" and k: "k < FRAME_ORDERS - 1" and fl: "fl k = (p, a) # ys @ (q, b) # zs"
    and nb: "block_of k b \<noteq> block_of k a" "pair_of k b = pair_of k a"
  defines "left \<equiv> if b < a then b else a" and "fl2 \<equiv> fl(k := ys @ zs)"
  shows "block_of (k + 1) left = (k + 1, snd (block_of k a) div 2)"
    and "good_lists (fl2(k + 1 := (r, left) # fl2 (k + 1)))"
    and "blocks (fl2(k + 1 := (r, left) # fl2 (k + 1))) = insert (block_of (k + 1) left) (blocks fl2)"
    and "block_of (k + 1) left \<notin> blocks fl2"
    and "(k, 2 * pair_of k a) \<in> blocks fl" "(k, Suc (2 * pair_of k a)) \<in> blocks fl"
    and "blocks fl2 = blocks fl - {(k, 2 * pair_of k a), (k, Suc (2 * pair_of k a))}"
proof -
  have k8: "k < FRAME_ORDERS" "k + 1 < FRAME_ORDERS"
    using k by simp_all
  have ab: "valid_addr k a" "valid_addr k b"
    using good_lists_valid [OF good k8(1)] fl by auto
  note buddy = buddy_addr_cases [OF k ab nb] and two = two_buddies [OF nb]
  let ?fl1 = "fl(k := ys @ (q, b) # zs)"
  have good1: "good_lists ?fl1" and B1: "blocks ?fl1 = blocks fl - {block_of k a}"
    using good_lists_remove [OF good k8(1), of "[]" p a] blocks_remove [OF good k8(1), of "[]" p a] fl
    by simp_all
  have good2: "good_lists fl2" and B2: "blocks fl2 = blocks fl - {block_of k a} - {block_of k b}"
    using good_lists_remove [OF good1 k8(1), of ys q b zs] blocks_remove [OF good1 k8(1), of ys q b zs] B1
    by (simp_all add: fl2_def)
  have mem: "block_of k a \<in> blocks fl" "block_of k b \<in> blocks fl"
    using blocks_member [OF k8(1), of _ _ fl] fl by auto
  then have "{block_of k a, block_of k b} \<subseteq> blocks fl"
    by simp
  then show "(k, 2 * pair_of k a) \<in> blocks fl" "(k, Suc (2 * pair_of k a)) \<in> blocks fl"
    unfolding two by simp_all
  show left: "block_of (k + 1) left = (k + 1, snd (block_of k a) div 2)"
    using buddy(3) by (simp add: left_def pair_of_block_of)
  show "blocks fl2 = blocks fl - {(k, 2 * pair_of k a), (k, Suc (2 * pair_of k a))}"
    unfolding B2 using two by blast
  have "free_pages (blocks fl2) =
      free_pages (blocks fl) - block_pages (block_of k a) - block_pages (block_of k b)"
    unfolding B2 using mem nb(1) good_lists_disjoint [OF good]
    by (simp add: free_pages_remove blocks_disjoint_subset [of "blocks fl" "blocks fl - {block_of k a}"])
  moreover have "block_pages (block_of (k + 1) left) = block_pages (block_of k a) \<union> block_pages (block_of k b)"
  proof -
    have "block_pages (block_of k a) \<union> block_pages (block_of k b) =
        \<Union> (block_pages ` {block_of k a, block_of k b})"
      by simp
    then show ?thesis
      using block_pages_halves [of k "pair_of k a"] unfolding two left pair_of_block_of [symmetric]
      by simp
  qed
  ultimately have free: "block_pages (block_of (k + 1) left) \<inter> free_pages (blocks fl2) = {}"
    by blast
  then show "block_of (k + 1) left \<notin> blocks fl2"
    by (rule not_free_not_in)
  have "valid_addr (k + 1) left"
    using buddy(2) by (simp add: left_def)
  from good_lists_insert [OF good2 k8(2) this free] blocks_insert [OF k8(2)]
  show "good_lists (fl2(k + 1 := (r, left) # fl2 (k + 1)))"
      "blocks (fl2(k + 1 := (r, left) # fl2 (k + 1))) = insert (block_of (k + 1) left) (blocks fl2)"
    by simp_all
qed

text \<open>The loop body on the heap, up to the point where both buddies are out of their list.\<close>

lemma unlink_buddies:
  assumes wf: "wf_lists s ps fl" and k: "k < FRAME_ORDERS" and fl: "fl k = (p, a) # ys @ (q, b) # zs"
    and first: "\<forall>(r, c) \<in> set ys. c \<noteq> b"
  defines "s1 \<equiv> set_head k (e_next (nodes s p)) s" and "fl2 \<equiv> fl(k := ys @ zs)"
  obtains s2 l where
    "find_entry (\<lambda>x. x = b) (Suc loop_fuel) (heads s1 k) 0 s1 = Inr (q, l)"
    "unlink_entry k q l s1 = Inr s2"
    "wf_lists s2 ps fl2" "fresh p ps fl2" "fresh q ps fl2" "p \<noteq> q" "same_maps s s2"
    "e_payload (nodes s2 p) = a" "e_payload (nodes s2 q) = b"
    "only_own (own_nodes ps fl) s s2" "own_nodes ps fl = insert p (insert q (own_nodes ps fl2))"
proof -
  define fl1 where "fl1 = fl(k := ys @ (q, b) # zs)"
  have wf1: "wf_lists s1 ps fl1" and p1: "fresh p ps fl1"
    using wf_lists_pop [OF wf k fl] by (simp_all add: s1_def fl1_def)
  have fl1k: "fl1 k = ys @ (q, b) # zs" and fl12: "fl1(k := ys @ zs) = fl2"
    by (simp_all add: fl1_def fl2_def)
  have ent1: "entries_at (nodes s1) (heads s1 k) (ys @ (q, b) # zs)"
    using wf_lists_entries [OF wf1 k] by (simp add: fl1k)
  have "length ys < Suc loop_fuel"
    using entries_at_length [OF ent1] by simp
  then have found: "find_entry (\<lambda>x. x = b) (Suc loop_fuel) (heads s1 k) 0 s1 =
      Inr (q, if ys = [] then 0 else fst (last ys))"
    using find_entry_some [OF ent1, of "Suc loop_fuel" "\<lambda>x. x = b"] first by blast
  obtain s2 where s2: "unlink_entry k q (if ys = [] then 0 else fst (last ys)) s1 = Inr s2"
      "wf_lists s2 ps fl2" "fresh q ps fl2" "same_maps s1 s2"
      "\<And>r. e_payload (nodes s2 r) = e_payload (nodes s1 r)"
      "\<And>r. r \<notin> ptrs (fl1 k) \<Longrightarrow> nodes s2 r = nodes s1 r"
    using wf_lists_unlink [OF wf1 k fl1k, where prev = 0] unfolding fl12 by metis
  have own1: "own_nodes ps fl1 = own_nodes ps fl - {p}"
    using own_nodes_remove [OF wf k, of "[]" p a] fl by (simp add: fl1_def)
  have own2: "own_nodes ps fl2 = own_nodes ps fl1 - {q}"
    using own_nodes_remove [OF wf1 k fl1k] by (simp only: fl12)
  have pq: "p \<in> own_nodes ps fl" "q \<in> own_nodes ps fl"
    using own_nodes_list [OF k, of fl ps] fl by auto
  have ne: "p \<noteq> q"
    using freshD(3) [OF p1 k] fl1k by auto
  have "fresh p ps fl2"
    using fresh_subset [OF p1] own2 by blast
  moreover have "same_maps s s2"
    using s2(4) by (simp add: s1_def same_maps_def same_rest_def set_head_def)
  moreover have "e_payload (nodes s2 p) = a" "e_payload (nodes s2 q) = b"
    using s2(5) wf_lists_payload [OF wf k, of p a] wf_lists_payload [OF wf k, of q b] fl
    by (simp_all add: s1_def set_head_def)
  moreover have "only_own (own_nodes ps fl) s s2"
  proof -
    have "ptrs (fl1 k) \<subseteq> own_nodes ps fl"
      using own_nodes_list [OF k, of fl ps] fl fl1k by auto
    then have "nodes s2 r = nodes s r" if "r \<notin> own_nodes ps fl" for r
      using that s2(6) [of r] by (auto simp: s1_def set_head_def)
    then show ?thesis
      using same_maps_rest [OF \<open>same_maps s s2\<close>] by (simp add: only_own_def)
  qed
  moreover have "own_nodes ps fl = insert p (insert q (own_nodes ps fl2))"
    using own1 own2 pq ne by auto
  ultimately show ?thesis
    using that [OF found s2(1,2) _ s2(3) ne] by blast
qed

text \<open>The rest of it: one node returns to the pool, the other becomes the head of the next list.\<close>

lemma relink_merged:
  assumes wf: "wf_lists s ps fl" and k: "k < FRAME_ORDERS"
    and keep: "fresh keep ps fl" and gone: "fresh gone ps fl" and ne: "keep \<noteq> gone"
    and pay: "e_payload (nodes s keep) = a"
  obtains s3 s4 where "free_memory_entry gone s = Inr s3" "set_next keep (heads s3 k) s3 = Inr s4"
    "wf_lists (set_head k keep s4) (gone # ps) (fl(k := (keep, a) # fl k))"
    "e_payload (nodes s4 keep) = a" "same_maps s s4"
    "only_own (insert keep (insert gone (own_nodes ps fl))) s s4"
proof -
  obtain s3 where s3: "free_memory_entry gone s = Inr s3" "wf_lists s3 (gone # ps) fl"
      "same_maps s s3" "heads s3 = heads s" "\<And>r. r \<noteq> gone \<Longrightarrow> nodes s3 r = nodes s r"
    using wf_lists_free_memory_entry [OF wf gone fresh_room [OF wf gone]] by blast
  have keep3: "fresh keep (gone # ps) fl"
    using keep ne by (simp add: fresh_iff own_nodes_Cons)
  define s4 where "s4 = s3\<lparr>nodes := (nodes s3)(keep := (nodes s3 keep)\<lparr>e_next := heads s3 k\<rparr>)\<rparr>"
  have s4: "set_next keep (heads s3 k) s3 = Inr s4" "wf_lists s4 (gone # ps) fl"
    "e_next (nodes s4 keep) = heads s4 k" "e_payload (nodes s4 keep) = a"
    using freshD(1) [OF keep] wf_lists_upd_fresh [OF s3(2) keep3] s3(5) [OF ne] pay
    by (simp_all add: s4_def)
  moreover have "same_maps s s4"
    using s3(3) by (simp add: s4_def same_maps_def same_rest_def)
  moreover have "only_own (insert keep (insert gone (own_nodes ps fl))) s s4"
    using s3(5) same_maps_rest [OF \<open>same_maps s s4\<close>] by (auto simp: only_own_def s4_def)
  ultimately show ?thesis
    using that [OF s3(1)] wf_lists_push [OF s4(2) k keep3 s4(3,4)] by blast
qed

lemma merge_step:
  assumes ok: "frames_ok s ps fl" and k: "k < FRAME_ORDERS - 1" and fl: "fl k = (p, a) # xs"
    and bit: "\<not> pair_bit_at s k (pair_of k a)"
  obtains s' p' a' ps' fl' ys' where
    "merge_blocks (Suc n) p k s = merge_blocks n p' (k + 1) s'" "frames_ok s' ps' fl'"
    "fl' (k + 1) = (p', a') # ys'" "blocks fl' = merge_buddies (block_of k a) (blocks fl)"
    "block_of (k + 1) a' = (k + 1, snd (block_of k a) div 2)"
    "own_nodes ps' fl' = own_nodes ps fl" "only_own (own_nodes ps fl) s s'"
    "(k, 2 * pair_of k a) \<in> blocks fl" "(k, Suc (2 * pair_of k a)) \<in> blocks fl"
proof -
  have k8: "k < FRAME_ORDERS" "k + 1 < FRAME_ORDERS"
    using k by simp_all
  note wf = frames_okD(1) [OF ok] and sizes = frames_okD(2) [OF ok] and good = frames_okD(3) [OF ok]
  obtain ys q b zs where xs: "xs = ys @ (q, b) # zs" "\<forall>(r, c) \<in> set ys. c \<noteq> b"
    and ab: "valid_addr k a" "valid_addr k b" "block_of k b \<noteq> block_of k a" "pair_of k b = pair_of k a"
    by (rule buddy_in_list [OF ok k fl bit])
  define left where "left = (if b < a then b else a)"
  define keep where "keep = (if b < a then q else p)"
  define gone where "gone = (if b < a then p else q)"
  define fl2 where "fl2 = fl(k := ys @ zs)"
  define fl4 where "fl4 = fl2(k + 1 := (keep, left) # fl2 (k + 1))"
  note flx = fl [unfolded xs]
  note L = merge_lists [OF good k flx ab(3,4), folded left_def fl2_def]
  have L4: "good_lists fl4" "blocks fl4 = insert (block_of (k + 1) left) (blocks fl2)"
    using L(2,3) by (simp_all add: fl4_def)
  obtain s2 l where s2:
    "find_entry (\<lambda>x. x = b) (Suc loop_fuel) (heads (set_head k (e_next (nodes s p)) s) k) 0
       (set_head k (e_next (nodes s p)) s) = Inr (q, l)"
    "unlink_entry k q l (set_head k (e_next (nodes s p)) s) = Inr s2"
    "wf_lists s2 ps fl2" "fresh p ps fl2" "fresh q ps fl2" "p \<noteq> q" "same_maps s s2"
    "e_payload (nodes s2 p) = a" "e_payload (nodes s2 q) = b"
    "only_own (own_nodes ps fl) s s2" "own_nodes ps fl = insert p (insert q (own_nodes ps fl2))"
    by (rule unlink_buddies [OF wf k8(1) flx xs(2), folded fl2_def])
  have kd: "fresh keep ps fl2" "fresh gone ps fl2" "keep \<noteq> gone" "e_payload (nodes s2 keep) = left"
    using s2(4,5,6,8,9) by (simp_all add: keep_def gone_def left_def)
  obtain s3 s4 where s4: "free_memory_entry gone s2 = Inr s3"
    "set_next keep (heads s3 (k + 1)) s3 = Inr s4"
    "wf_lists (set_head (k + 1) keep s4) (gone # ps) fl4"
    "e_payload (nodes s4 keep) = left" "same_maps s2 s4"
    "only_own (insert keep (insert gone (own_nodes ps fl2))) s2 s4"
    by (rule relink_merged [OF s2(3) k8(2) kd, folded fl4_def])
  have maps: "same_maps s s4"
    by (rule same_maps_trans [OF s2(7) s4(5)])
  let ?s4 = "set_head (k + 1) keep s4"
  have sizes4: "sizes_ok ?s4"
    using sizes maps by (simp add: sizes_ok_def set_head_def same_maps_def same_rest_def)
  have "pair_bit (blocks fl2) l j = pair_bit (blocks fl) l j" for l j
    unfolding L(7) pair_bit_def using L(5,6) by (auto; presburger)
  then have bits4: "bits_ok ?s4 (blocks fl2)"
    using frames_okD(4) [OF ok] maps
    by (simp add: bits_ok_def pair_bit_at_def set_head_def same_maps_def)
  obtain m where m: "toggle_buddy_bit left (k + 1) ?s4 = Inr (?s4\<lparr>buddy_maps := m\<rparr>)"
      "bits_ok (?s4\<lparr>buddy_maps := m\<rparr>) (blocks fl4)"
    using toggle_bits [OF sizes4 k8(2) bits4 pair_bit_flip(1) [OF L4(2) L(4)]] by blast
  have run: "merge_blocks (Suc n) p k s = merge_blocks n keep (k + 1) (?s4\<lparr>buddy_maps := m\<rparr>)"
  proof -
    note head = wf_lists_head [OF wf k8(1) fl]
    have other: "(if a mod order_sizes s (k + 1) = 0 then a + order_sizes s k else a - order_sizes s k) = b"
      using buddy_addr_cases(1) [OF k ab] sizes_okD [OF sizes k8(1)] sizes_okD [OF sizes k8(2)]
      by (simp only: buddy_addr_def)
    have "get_buddy_bit (e_payload (nodes s p)) k s = Inr False"
      using get_buddy_bit_eq [OF sizes k] bit head(3) by simp
    moreover have "(if b < a then (p, q) else (q, p)) = (gone, keep)"
      by (simp add: keep_def gone_def)
    moreover have "keep \<noteq> 0" "q \<noteq> 0"
      using freshD(1) kd(1) s2(5) by blast+
    ultimately show ?thesis
      using k k8 head(2,3) other s2(1,2) s4(1,2,4) m(1)
      by (simp add: Let_def free_head_def set_head_def del: find_entry.simps modify_node_simps cong: if_cong)
  qed
  have ok': "frames_ok (?s4\<lparr>buddy_maps := m\<rparr>) (gone # ps) fl4"
    using s4(3) sizes4 L4(1) m(2) by (intro frames_okI) (simp_all add: sizes_ok_def)
  have own: "own_nodes (gone # ps) fl4 = own_nodes ps fl"
    using own_nodes_push [OF k8(2), of "gone # ps" fl2 keep left] s2(11)
    unfolding fl4_def [symmetric] own_nodes_Cons by (auto simp: keep_def gone_def)
  have "insert keep (insert gone (own_nodes ps fl2)) = own_nodes ps fl"
    using s2(11) by (auto simp: keep_def gone_def)
  then have only: "only_own (own_nodes ps fl) s (?s4\<lparr>buddy_maps := m\<rparr>)"
    using only_own_trans [OF s2(10), of s4] s4(6) by simp
  have "blocks fl4 = merge_buddies (block_of k a) (blocks fl)"
    unfolding L4(2) L(1) L(7) by (simp add: merge_buddies_def pair_of_block_of)
  then show ?thesis
    using that [OF run ok' _ _ L(1) own only L(5,6), of "fl2 (k + 1)"] by (simp add: fl4_def)
qed

section \<open>The merge loop\<close>

text \<open>
  What every way of giving blocks back or splitting them keeps: the invariant, the constant
  parts of the state, and the nodes of other owners.
\<close>

lemma merge_blocks_ok:
  assumes "frames_ok s ps fl" "k < FRAME_ORDERS" "fl k = (p, a) # xs" "FRAME_ORDERS \<le> n + k"
  shows "\<exists>s' ps' fl'. merge_blocks n p k s = Inr s' \<and> frames_ok s' ps' fl' \<and>
    free_pages (blocks fl') = free_pages (blocks fl) \<and> own_nodes ps' fl' = own_nodes ps fl \<and>
    only_own (own_nodes ps fl) s s' \<and>
    (coalesced_but (blocks fl) (block_of k a) \<longrightarrow> coalesced (blocks fl'))"
  using assms
proof (induction n arbitrary: s ps fl k p a xs)
  case 0
  then show ?case
    by simp
next
  case (Suc n)
  note ok = Suc.prems(1) and k = Suc.prems(2) and fl = Suc.prems(3)
  note head = wf_lists_head [OF frames_okD(1) [OF ok] k fl]
  show ?case
  proof (cases "k < FRAME_ORDERS - 1 \<and> \<not> pair_bit_at s k (pair_of k a)")
    case False
    have run: "merge_blocks (Suc n) p k s = Inr s"
      using False get_buddy_bit_eq [OF frames_okD(2) [OF ok], of k a] head by auto
    have "coalesced (blocks fl)" if c: "coalesced_but (blocks fl) (block_of k a)"
    proof (cases "k < FRAME_ORDERS - 1")
      case True
      then have "pair_bit (blocks fl) k (pair_of k a)"
        using False bits_okD [OF frames_okD(4) [OF ok] True] by simp
      then show ?thesis
        using coalesced_but_pair_bit [OF c] by (simp add: pair_of_block_of)
    next
      case False
      then show ?thesis
        using coalesced_but_last [OF c] by simp
    qed
    with run ok show ?thesis
      by (intro exI [of _ s] exI [of _ ps] exI [of _ fl]) simp
  next
    case True
    then obtain s' p' a' ps' fl' ys' where step:
      "merge_blocks (Suc n) p k s = merge_blocks n p' (k + 1) s'" "frames_ok s' ps' fl'"
      "fl' (k + 1) = (p', a') # ys'" "blocks fl' = merge_buddies (block_of k a) (blocks fl)"
      "block_of (k + 1) a' = (k + 1, snd (block_of k a) div 2)"
      "own_nodes ps' fl' = own_nodes ps fl" "only_own (own_nodes ps fl) s s'"
      "(k, 2 * pair_of k a) \<in> blocks fl" "(k, Suc (2 * pair_of k a)) \<in> blocks fl"
      using merge_step [OF ok _ fl] by metis
    have k1: "k + 1 < FRAME_ORDERS" "FRAME_ORDERS \<le> n + (k + 1)"
      using True Suc.prems(4) by linarith+
    obtain s'' ps'' fl'' where rec: "merge_blocks n p' (k + 1) s' = Inr s''" "frames_ok s'' ps'' fl''"
      "free_pages (blocks fl'') = free_pages (blocks fl')" "own_nodes ps'' fl'' = own_nodes ps' fl'"
      "only_own (own_nodes ps' fl') s' s''"
      "coalesced_but (blocks fl') (block_of (k + 1) a') \<longrightarrow> coalesced (blocks fl'')"
      using Suc.IH [OF step(2) k1(1) step(3) k1(2)] by blast
    have ba: "block_of k a = (k, snd (block_of k a))"
      by (simp add: block_of_def)
    have "free_pages (blocks fl') = free_pages (blocks fl)"
      using merge_buddies_pages [OF step(8,9) pair_of_block_of [symmetric]] step(4) ba by simp
    moreover have "coalesced (blocks fl'')" if "coalesced_but (blocks fl) (block_of k a)"
      using coalesced_but_merge [OF that] rec(6) unfolding step(4) step(5) by simp
    ultimately show ?thesis
      using rec(1-5) step(1,6,7) only_own_trans
      by (intro exI [of _ s''] exI [of _ ps''] exI [of _ fl'']) auto
  qed
qed

section \<open>Allocation lists\<close>

text \<open>
  A list of \<open>PageFrameAllocation\<close> structs in the store: for each its pointer, order and
  address. The blocks of a list that its holder may give back are disjoint from each other and
  from the pages \<open>S\<close> that are free already.
\<close>

type_synonym alloc = "u64 \<times> nat \<times> u64"

definition allocs_at :: "(u64 \<Rightarrow> entry) \<Rightarrow> u64 \<Rightarrow> alloc list \<Rightarrow> bool" where
  "allocs_at h p als \<longleftrightarrow> list_at h p (map fst als) \<and>
     (\<forall>(q, k, a) \<in> set als. pfa_order (h q) = k \<and> pfa_addr (h q) = a)"

definition alloc_pages_of :: "alloc list \<Rightarrow> nat set" where
  "alloc_pages_of als = (\<Union>(q, k, a) \<in> set als. block_pages (block_of k a))"

fun disjoint_allocs :: "nat set \<Rightarrow> alloc list \<Rightarrow> bool" where
  "disjoint_allocs S [] \<longleftrightarrow> True"
| "disjoint_allocs S ((q, k, a) # als) \<longleftrightarrow>
     k < FRAME_ORDERS \<and> valid_addr k a \<and> block_pages (block_of k a) \<inter> S = {} \<and>
     disjoint_allocs (S \<union> block_pages (block_of k a)) als"

lemma allocs_at_simps [simp]:
  "allocs_at h p [] \<longleftrightarrow> p = 0"
  "allocs_at h p ((q, k, a) # als) \<longleftrightarrow>
     p = q \<and> q \<noteq> 0 \<and> pfa_order (h q) = k \<and> pfa_addr (h q) = a \<and> allocs_at h (e_next (h q)) als"
  by (auto simp: allocs_at_def)

lemma alloc_pages_of_simps [simp]:
  "alloc_pages_of [] = {}"
  "alloc_pages_of ((q, k, a) # als) = block_pages (block_of k a) \<union> alloc_pages_of als"
  "alloc_pages_of (als @ bls) = alloc_pages_of als \<union> alloc_pages_of bls"
  by (auto simp: alloc_pages_of_def)

lemma allocs_at_cong:
  "(\<And>q. q \<in> fst ` set als \<Longrightarrow> h q = h' q) \<Longrightarrow> allocs_at h p als = allocs_at h' p als"
  by (induction als arbitrary: p) auto

lemma allocs_at_distinct: "allocs_at h p als \<Longrightarrow> distinct (map fst als)"
  by (auto simp: allocs_at_def dest: list_at_distinct)

lemma allocs_at_length: "allocs_at h p als \<Longrightarrow> length als \<le> loop_fuel"
  using distinct_u64_length [of "map fst als"] by (simp add: allocs_at_distinct)

section \<open>free_frames\<close>

text \<open>One allocation becomes the first entry of its list.\<close>

lemma return_block:
  assumes ok: "frames_ok s ps fl" and p: "fresh p ps fl" and k: "k < FRAME_ORDERS" and a: "valid_addr k a"
    and free: "block_pages (block_of k a) \<inter> free_pages (blocks fl) = {}"
  defines "s1 \<equiv> s\<lparr>nodes := (nodes s)(p := (nodes s p)\<lparr>e_payload := a\<rparr>)\<rparr>"
  obtains m s3 where "toggle_buddy_bit a k s1 = Inr (s1\<lparr>buddy_maps := m\<rparr>)"
    "set_next p (heads s k) (s1\<lparr>buddy_maps := m\<rparr>) = Inr s3"
    "frames_ok (set_head k p s3) ps (fl(k := (p, a) # fl k))"
    "only_own {p} s (set_head k p s3)"
proof -
  have sizes1: "sizes_ok s1" and bits1: "bits_ok s1 (blocks fl)"
    using frames_okD(2,4) [OF ok] bits_ok_cong [of s1 s] by (simp_all add: s1_def sizes_ok_def)
  obtain m where m: "toggle_buddy_bit a k s1 = Inr (s1\<lparr>buddy_maps := m\<rparr>)"
      "bits_ok (s1\<lparr>buddy_maps := m\<rparr>) (blocks (fl(k := (p, a) # fl k)))"
    using toggle_bits [OF sizes1 k bits1 pair_bit_flip(1) [OF blocks_insert [OF k] not_free_not_in [OF free]]]
    by blast
  define s3 where "s3 = s1\<lparr>buddy_maps := m,
    nodes := (nodes s1)(p := (nodes s1 p)\<lparr>e_next := heads s k\<rparr>)\<rparr>"
  have p0: "p \<noteq> 0"
    by (rule freshD(1) [OF p])
  have run: "set_next p (heads s k) (s1\<lparr>buddy_maps := m\<rparr>) = Inr s3"
    using p0 by (simp add: s3_def)
  have "wf_lists s1 ps fl"
    using wf_lists_upd_fresh [OF frames_okD(1) [OF ok] p] by (simp add: s1_def)
  then have "wf_lists (s1\<lparr>buddy_maps := m\<rparr>) ps fl"
    by simp
  from wf_lists_upd_fresh [OF this p] have wf3: "wf_lists s3 ps fl"
    by (simp add: s3_def)
  have "wf_lists (set_head k p s3) ps (fl(k := (p, a) # fl k))"
    by (rule wf_lists_push [OF wf3 k p]) (simp_all add: s3_def s1_def)
  moreover have "sizes_ok (set_head k p s3)" "bits_ok (set_head k p s3) (blocks (fl(k := (p, a) # fl k)))"
    using sizes1 m(2) by (simp_all add: s3_def set_head_def sizes_ok_def bits_ok_def pair_bit_at_def)
  ultimately have "frames_ok (set_head k p s3) ps (fl(k := (p, a) # fl k))"
    using good_lists_insert [OF frames_okD(3) [OF ok] k a free] by (intro frames_okI)
  moreover have "only_own {p} s (set_head k p s3)"
    by (auto simp: only_own_def same_rest_def s3_def s1_def set_head_def)
  ultimately show ?thesis
    using that [OF m(1) run] by blast
qed

lemma free_frames_loop_ok:
  assumes "frames_ok s ps fl" "allocs_at (nodes s) p als" "length als < n"
    "\<forall>q \<in> fst ` set als. fresh q ps fl" "disjoint_allocs (free_pages (blocks fl)) als"
  shows "\<exists>s' ps' fl'. free_frames_loop n p s = Inr s' \<and> frames_ok s' ps' fl' \<and>
    free_pages (blocks fl') = free_pages (blocks fl) \<union> alloc_pages_of als \<and>
    own_nodes ps' fl' = own_nodes ps fl \<union> fst ` set als \<and>
    only_own (own_nodes ps fl \<union> fst ` set als) s s' \<and>
    (coalesced (blocks fl) \<longrightarrow> coalesced (blocks fl'))"
  using assms
proof (induction als arbitrary: s ps fl p n)
  case Nil
  then obtain m where "n = Suc m"
    by (cases n) auto
  with Nil show ?case
    by (intro exI [of _ s] exI [of _ ps] exI [of _ fl]) simp
next
  case (Cons al als)
  obtain q k a where al: "al = (q, k, a)"
    by (cases al)
  obtain m where n: "n = Suc m" "length als < m"
    using Cons.prems(3) by (cases n) auto
  note ok = Cons.prems(1)
  have q: "p = q" "q \<noteq> 0" "pfa_order (nodes s q) = k" "pfa_addr (nodes s q) = a"
      "allocs_at (nodes s) (e_next (nodes s q)) als"
    using Cons.prems(2) al by auto
  have qf: "fresh q ps fl" and k: "k < FRAME_ORDERS" and a: "valid_addr k a"
      and free: "block_pages (block_of k a) \<inter> free_pages (blocks fl) = {}"
      and rest: "disjoint_allocs (free_pages (blocks fl) \<union> block_pages (block_of k a)) als"
    using Cons.prems(4,5) al by auto
  obtain bm s3 where s3:
    "toggle_buddy_bit a k (s\<lparr>nodes := (nodes s)(q := (nodes s q)\<lparr>e_payload := a\<rparr>)\<rparr>) =
       Inr (s\<lparr>nodes := (nodes s)(q := (nodes s q)\<lparr>e_payload := a\<rparr>)\<rparr>\<lparr>buddy_maps := bm\<rparr>)"
    "set_next q (heads s k) (s\<lparr>nodes := (nodes s)(q := (nodes s q)\<lparr>e_payload := a\<rparr>)\<rparr>\<lparr>buddy_maps := bm\<rparr>) = Inr s3"
    "frames_ok (set_head k q s3) ps (fl(k := (q, a) # fl k))" "only_own {q} s (set_head k q s3)"
    by (rule return_block [OF ok qf k a free])
  let ?fl1 = "fl(k := (q, a) # fl k)"
  have B1: "blocks ?fl1 = insert (block_of k a) (blocks fl)" and own1: "own_nodes ps ?fl1 = insert q (own_nodes ps fl)"
    using blocks_insert [OF k] own_nodes_push [OF k] by blast+
  obtain s4 ps4 fl4 where s4: "merge_blocks (Suc loop_fuel) q k (set_head k q s3) = Inr s4"
    "frames_ok s4 ps4 fl4" "free_pages (blocks fl4) = free_pages (blocks ?fl1)"
    "own_nodes ps4 fl4 = own_nodes ps ?fl1" "only_own (own_nodes ps ?fl1) (set_head k q s3) s4"
    "coalesced_but (blocks ?fl1) (block_of k a) \<longrightarrow> coalesced (blocks fl4)"
    using merge_blocks_ok [OF s3(3) k, of q a "fl k" "Suc loop_fuel"] by (auto simp: FRAME_ORDERS_def loop_fuel_def)
  have only4: "only_own (insert q (own_nodes ps fl)) s s4"
    using only_own_trans [OF only_own_mono [OF s3(4)] s4(5)] own1 by simp
  have out: "r \<notin> insert q (own_nodes ps fl)" "fresh r ps4 fl4" if "r \<in> fst ` set als" for r
  proof -
    show "r \<notin> insert q (own_nodes ps fl)"
      using that Cons.prems(4) allocs_at_distinct [OF Cons.prems(2)] al by (auto simp: fresh_iff)
    then show "fresh r ps4 fl4"
      using that Cons.prems(4) al s4(4) own1 by (auto simp: fresh_iff)
  qed
  have at4: "allocs_at (nodes s4) (e_next (nodes s q)) als"
    using q(5) allocs_at_cong [of als "nodes s4" "nodes s"] only_own_nodes [OF only4 out(1)] by blast
  have dis4: "disjoint_allocs (free_pages (blocks fl4)) als"
    using rest s4(3) B1 by (simp add: Un_commute)
  have fresh4: "\<forall>r \<in> fst ` set als. fresh r ps4 fl4"
    using out(2) by blast
  obtain s5 ps5 fl5 where s5: "free_frames_loop m (e_next (nodes s q)) s4 = Inr s5"
    "frames_ok s5 ps5 fl5" "free_pages (blocks fl5) = free_pages (blocks fl4) \<union> alloc_pages_of als"
    "own_nodes ps5 fl5 = own_nodes ps4 fl4 \<union> fst ` set als"
    "only_own (own_nodes ps4 fl4 \<union> fst ` set als) s4 s5" "coalesced (blocks fl4) \<longrightarrow> coalesced (blocks fl5)"
    using Cons.IH [OF s4(2) at4 n(2) fresh4 dis4] by blast
  have "set_payload q a s = Inr (s\<lparr>nodes := (nodes s)(q := (nodes s q)\<lparr>e_payload := a\<rparr>)\<rparr>)"
    using q(2) by simp
  then have "free_frames_loop n p s = Inr s5"
    using q(1-4) k n(1) s3(1,2) s4(1) s5(1)
    by (simp add: Let_def free_head_def del: merge_blocks.simps modify_node_simps)
  moreover have "only_own (own_nodes ps fl \<union> fst ` set (al # als)) s s5"
    using only_own_trans [OF only_own_mono [OF only4] only_own_mono [OF s5(5)]] s4(4) own1 al by auto
  moreover have "coalesced (blocks fl) \<longrightarrow> coalesced (blocks fl5)"
    using coalesced_but_insert [of "blocks fl" "block_of k a"] s4(6) s5(6) B1 by simp
  ultimately show ?case
    using s5(2,3,4) s4(3,4) B1 own1 al
    by (intro exI [of _ s5] exI [of _ ps5] exI [of _ fl5]) auto
qed

lemma free_frames_ok:
  assumes "frames_ok s ps fl" "allocs_at (nodes s) p als"
    "\<forall>q \<in> fst ` set als. fresh q ps fl" "disjoint_allocs (free_pages (blocks fl)) als"
  shows "\<exists>s' ps' fl'. free_frames p s = Inr s' \<and> frames_ok s' ps' fl' \<and>
    free_pages (blocks fl') = free_pages (blocks fl) \<union> alloc_pages_of als \<and>
    own_nodes ps' fl' = own_nodes ps fl \<union> fst ` set als \<and>
    only_own (own_nodes ps fl \<union> fst ` set als) s s' \<and>
    (coalesced (blocks fl) \<longrightarrow> coalesced (blocks fl'))"
  unfolding free_frames_def
  using allocs_at_length [OF assms(2)] by (intro free_frames_loop_ok assms) simp

end
