(* ===== verification/Frame_Split.thy ===== *)
theory Frame_Split
  imports Frame_Free
begin

text \<open>
  Taking blocks out of the free lists and splitting them: what \<open>split_entry\<close> does to the set
  of free blocks, proved once for every source of nodes that satisfies the pool's interface.
\<close>

section \<open>A block between two lists\<close>

text \<open>
  The state after a block has left its list and before its bit is toggled: the bits still
  count it as free.
\<close>

definition frames_but :: "'a frame_state_scheme \<Rightarrow> u64 list \<Rightarrow> free_lists \<Rightarrow> nat \<Rightarrow> u64 \<Rightarrow> bool" where
  "frames_but s ps fl k a \<longleftrightarrow>
     wf_lists s ps fl \<and> sizes_ok s \<and> good_lists fl \<and> bits_ok s (insert (block_of k a) (blocks fl)) \<and>
     valid_addr k a \<and> block_pages (block_of k a) \<inter> free_pages (blocks fl) = {}"

lemma frames_butD:
  assumes "frames_but s ps fl k a"
  shows "wf_lists s ps fl" "sizes_ok s" "good_lists fl" "bits_ok s (insert (block_of k a) (blocks fl))"
    "valid_addr k a" "block_pages (block_of k a) \<inter> free_pages (blocks fl) = {}"
  using assms by (simp_all add: frames_but_def)

lemma taken_block:
  assumes good: "good_lists fl" and k: "k < FRAME_ORDERS" and fl: "fl k = xs @ (q, a) # ys"
  shows "good_lists (fl(k := xs @ ys))" "valid_addr k a"
    "blocks fl = insert (block_of k a) (blocks (fl(k := xs @ ys)))"
    "block_pages (block_of k a) \<inter> free_pages (blocks (fl(k := xs @ ys))) = {}"
proof -
  have mem: "block_of k a \<in> blocks fl"
    using blocks_member [OF k, of q a fl] fl by simp
  show "good_lists (fl(k := xs @ ys))"
    by (rule good_lists_remove [OF assms])
  show "valid_addr k a"
    using good_lists_valid [OF good k, of q a] fl by simp
  show "blocks fl = insert (block_of k a) (blocks (fl(k := xs @ ys)))"
    unfolding blocks_remove [OF assms] using mem by auto
  show "block_pages (block_of k a) \<inter> free_pages (blocks (fl(k := xs @ ys))) = {}"
    unfolding blocks_remove [OF assms] free_pages_remove [OF good_lists_disjoint [OF good] mem] by auto
qed

lemma pop_block:
  assumes ok: "frames_ok s ps fl" and k: "k < FRAME_ORDERS" and fl: "fl k = (p, a) # xs"
  defines "s1 \<equiv> set_head k (e_next (nodes s p)) s"
  shows "frames_but s1 ps (fl(k := xs)) k a" "fresh p ps (fl(k := xs))"
    "blocks fl = insert (block_of k a) (blocks (fl(k := xs)))"
    "own_nodes ps fl = insert p (own_nodes ps (fl(k := xs)))" "only_own {} s s1"
proof -
  note t = taken_block [OF frames_okD(3) [OF ok] k, of "[]" p a xs]
  show "frames_but s1 ps (fl(k := xs)) k a"
    using wf_lists_pop(1) [OF frames_okD(1) [OF ok] k fl] t fl frames_okD(2,4) [OF ok]
    by (simp add: frames_but_def s1_def set_head_def sizes_ok_def bits_ok_def pair_bit_at_def)
  show "fresh p ps (fl(k := xs))"
    by (rule wf_lists_pop(2) [OF frames_okD(1) [OF ok] k fl])
  show "blocks fl = insert (block_of k a) (blocks (fl(k := xs)))"
    using t fl by simp
  have "own_nodes ps (fl(k := xs)) = own_nodes ps fl - {p}" "p \<in> own_nodes ps fl"
    using own_nodes_remove [OF frames_okD(1) [OF ok] k, of "[]" p a xs] own_nodes_list [OF k, of fl ps] fl
    by auto
  then show "own_nodes ps fl = insert p (own_nodes ps (fl(k := xs)))"
    by auto
qed (simp add: s1_def)

lemma unlink_block:
  assumes ok: "frames_ok s ps fl" and k: "k < FRAME_ORDERS" and fl: "fl k = xs @ (q, a) # ys"
  obtains s1 where "unlink_entry k q (if xs = [] then prev else fst (last xs)) s = Inr s1"
    "frames_but s1 ps (fl(k := xs @ ys)) k a" "fresh q ps (fl(k := xs @ ys))"
    "blocks fl = insert (block_of k a) (blocks (fl(k := xs @ ys)))"
    "own_nodes ps fl = insert q (own_nodes ps (fl(k := xs @ ys)))" "only_own (own_nodes ps fl) s s1"
    "e_payload (nodes s1 q) = a"
proof -
  note wf = frames_okD(1) [OF ok] and t = taken_block [OF frames_okD(3) [OF ok] k fl]
  obtain s1 where s1: "unlink_entry k q (if xs = [] then prev else fst (last xs)) s = Inr s1"
      "wf_lists s1 ps (fl(k := xs @ ys))" "fresh q ps (fl(k := xs @ ys))" "same_maps s s1"
      "nodes s1 q = nodes s q" "\<And>p. p \<notin> ptrs (fl k) \<Longrightarrow> nodes s1 p = nodes s p"
    by (rule wf_lists_unlink [OF wf k fl, where prev = prev]) blast
  have "frames_but s1 ps (fl(k := xs @ ys)) k a"
    using s1(2,4) t frames_okD(2,4) [OF ok]
    by (simp add: frames_but_def sizes_ok_def same_maps_def same_rest_def bits_ok_def pair_bit_at_def)
  moreover have "own_nodes ps fl = insert q (own_nodes ps (fl(k := xs @ ys)))"
    using own_nodes_remove [OF wf k fl] own_nodes_list [OF k, of fl ps] fl by auto
  moreover have "only_own (own_nodes ps fl) s s1"
    using s1(6) same_maps_rest [OF s1(4)] own_nodes_list [OF k, of fl ps] unfolding only_own_def by blast
  moreover have "e_payload (nodes s1 q) = a"
    using s1(5) wf_lists_payload [OF wf k, of q a] fl by simp
  ultimately show ?thesis
    using that [OF s1(1) _ s1(3) t(3)] by blast
qed

text \<open>Toggling the bit completes the allocation of the block.\<close>

lemma toggle_taken:
  assumes but: "frames_but s ps fl k a" and k: "k < FRAME_ORDERS"
  obtains m where "toggle_buddy_bit a k s = Inr (s\<lparr>buddy_maps := m\<rparr>)"
    "frames_ok (s\<lparr>buddy_maps := m\<rparr>) ps fl"
proof -
  note b = frames_butD [OF but]
  obtain m where m: "toggle_buddy_bit a k s = Inr (s\<lparr>buddy_maps := m\<rparr>)"
      "bits_ok (s\<lparr>buddy_maps := m\<rparr>) (blocks fl)"
    using toggle_bits [OF b(2) k b(4) pair_bit_flip(2) [OF refl not_free_not_in [OF b(6)]]] by blast
  moreover have "frames_ok (s\<lparr>buddy_maps := m\<rparr>) ps fl"
    using b m(2) by (intro frames_okI) (simp_all add: sizes_ok_def)
  ultimately show ?thesis
    using that by blast
qed

section \<open>The halves of a block\<close>

lemma halves:
  assumes k: "Suc k < FRAME_ORDERS" and a: "valid_addr (Suc k) a"
  defines "i \<equiv> snd (block_of (Suc k) a)"
  shows "valid_addr k a" "block_of k a = (k, 2 * i)"
    "valid_addr k (a + 2 ^ (12 + k))" "block_of k (a + 2 ^ (12 + k)) = (k, Suc (2 * i))"
proof -
  have u: "unat a = i * (2 * order_bytes k)" "unat a + 2 * order_bytes k \<le> 2 ^ 57"
    using valid_addr_unat [OF a] a by (simp_all add: i_def valid_addr_def order_bytes_Suc)
  moreover have "unat (2 ^ (12 + k) :: u64) = order_bytes k"
    using unat_order_size [of k] k by simp
  ultimately have r: "unat (a + 2 ^ (12 + k)) = unat a + order_bytes k"
    by (subst unat_add_u64) auto
  show "valid_addr k a" "block_of k a = (k, 2 * i)"
    using u by (auto simp: valid_addr_def block_of_def)
  show "valid_addr k (a + 2 ^ (12 + k))"
    using u by (simp add: valid_addr_def r)
  have "(unat a + order_bytes k) div order_bytes k = Suc (2 * i)"
    using u(1) by (simp add: algebra_simps)
  then show "block_of k (a + 2 ^ (12 + k)) = (k, Suc (2 * i))"
    by (simp add: block_of_def r)
qed

lemma split_lists:
  fixes p r :: u64
  assumes good: "good_lists fl" and k: "Suc k < FRAME_ORDERS" and a: "valid_addr (Suc k) a"
    and free: "block_pages (block_of (Suc k) a) \<inter> free_pages (blocks fl) = {}"
  defines "fl' \<equiv> fl(k := (p, a) # (r, a + 2 ^ (12 + k)) # fl k)"
  shows "good_lists fl'"
    "free_pages (blocks fl') = block_pages (block_of (Suc k) a) \<union> free_pages (blocks fl)"
    "pair_bit (blocks fl') l j = pair_bit (blocks fl) l j"
proof -
  note h = halves [OF k a]
  define i where "i = snd (block_of (Suc k) a)"
  have k8: "k < FRAME_ORDERS"
    using k by simp
  have ba: "block_of (Suc k) a = (Suc k, i)"
    by (simp add: i_def block_of_def)
  note pages = block_pages_halves [of k i, folded ba] and h' = h(2,4) [folded i_def]
  let ?fl1 = "fl(k := (r, a + 2 ^ (12 + k)) # fl k)"
  have B1: "blocks ?fl1 = insert (k, Suc (2 * i)) (blocks fl)"
    using blocks_insert [OF k8] h' by simp
  have n1: "(k, Suc (2 * i)) \<notin> blocks fl"
    using free pages by (intro not_free_not_in) auto
  have good1: "good_lists ?fl1"
    using free pages h' by (intro good_lists_insert good k8 h(3)) auto
  have free1: "block_pages (block_of k a) \<inter> free_pages (blocks ?fl1) = {}"
    using free pages h' block_halves_disjoint [of k i] unfolding B1 by auto
  have fl': "fl' = ?fl1(k := (p, a) # ?fl1 k)"
    by (simp add: fl'_def)
  have n2: "(k, 2 * i) \<notin> blocks ?fl1"
    using not_free_not_in [OF free1] h' by simp
  have B2: "blocks fl' = insert (k, 2 * i) (blocks ?fl1)"
    unfolding fl' blocks_insert [OF k8] h'(1) ..
  show "good_lists fl'"
    unfolding fl' by (rule good_lists_insert [OF good1 k8 h(1) free1])
  show "free_pages (blocks fl') = block_pages (block_of (Suc k) a) \<union> free_pages (blocks fl)"
    unfolding B2 B1 pages by (simp add: Un_assoc)
  show "pair_bit (blocks fl') l j = pair_bit (blocks fl) l j"
    using pair_bit_insert [OF n2, of l j] pair_bit_insert [OF n1, of l j]
    unfolding B2 B1 by (cases "l = k \<and> j = i") auto
qed

section \<open>Splitting\<close>

locale frame_entry_source = entry_source gme for gme :: "'a entry_getter"
begin

text \<open>Taking a node while lists are in place.\<close>

lemma take_node:
  assumes "wf_lists s (r # ps) fl" "20 \<le> length (r # ps)"
  obtains s' where "gme s = Inr (r, s')" "wf_lists s' ps fl" "fresh r ps fl" "same_maps s s'"
    "heads s' = heads s" "\<And>q. q \<noteq> r \<Longrightarrow> nodes s' q = nodes s q"
proof -
  obtain h pd c where g: "gme s = Inr (r, s\<lparr>nodes := h, pool_head := pd, pool_count := c\<rparr>)"
      "\<forall>q. q \<noteq> r \<longrightarrow> h q = nodes s q" "list_at h pd ps" "unat c = length ps"
    using get [OF wf_lists_pool [OF assms(1)] assms(2)] by blast
  let ?s' = "s\<lparr>nodes := h, pool_head := pd, pool_count := c\<rparr>"
  have "same_maps s ?s'" "heads ?s' = heads s" "\<And>q. q \<noteq> r \<Longrightarrow> nodes ?s' q = nodes s q"
    using g(2) by (simp_all add: same_maps_def same_rest_def)
  with wf_lists_get [OF assms(1) g(2,3,4)] g(1) show ?thesis
    using that by blast
qed

lemma split_taken:
  assumes but: "frames_but s (r # ps) fl (Suc k) a" and k: "Suc k < FRAME_ORDERS"
    and p: "fresh p (r # ps) fl" and pay: "e_payload (nodes s p) = a"
    and stock: "20 \<le> length (r # ps)"
  obtains s' where "split_entry gme p (Suc k) s = Inr s'"
    "frames_ok s' ps (fl(k := (p, a) # (r, a + 2 ^ (12 + k)) # fl k))"
    "only_own (insert p (own_nodes (r # ps) fl)) s s'"
    "own_nodes ps (fl(k := (p, a) # (r, a + 2 ^ (12 + k)) # fl k)) = insert p (own_nodes (r # ps) fl)"
proof -
  note b = frames_butD [OF but]
  have k8: "k < FRAME_ORDERS"
    using k by simp
  obtain m where m: "toggle_buddy_bit a (Suc k) s = Inr (s\<lparr>buddy_maps := m\<rparr>)"
      "frames_ok (s\<lparr>buddy_maps := m\<rparr>) (r # ps) fl"
    by (rule toggle_taken [OF but k])
  obtain s2 where s2: "gme (s\<lparr>buddy_maps := m\<rparr>) = Inr (r, s2)" "wf_lists s2 ps fl" "fresh r ps fl"
      "same_maps (s\<lparr>buddy_maps := m\<rparr>) s2" "heads s2 = heads s" "\<And>q. q \<noteq> r \<Longrightarrow> nodes s2 q = nodes s q"
    by (rule take_node [OF frames_okD(1) [OF m(2)] stock]) simp
  have pr: "p \<noteq> r" "p \<noteq> 0" "r \<noteq> 0" "fresh p ps fl"
    using p s2(3) by (auto simp: fresh_iff own_nodes_Cons)
  define s3 where "s3 = s2\<lparr>nodes := (nodes s2)
    (r := (nodes s2 r)\<lparr>e_payload := a + 2 ^ (12 + k), e_next := heads s k\<rparr>)\<rparr>"
  have "wf_lists s3 ps fl"
    using wf_lists_upd_fresh [OF s2(2,3)] by (simp add: s3_def)
  from wf_lists_push [OF this k8 s2(3), of "a + 2 ^ (12 + k)"]
  have wf3: "wf_lists (set_head k r s3) ps (fl(k := (r, a + 2 ^ (12 + k)) # fl k))"
    using s2(5) by (simp add: s3_def)
  have p3: "fresh p ps (fl(k := (r, a + 2 ^ (12 + k)) # fl k))"
    using pr by (simp add: fresh_iff own_nodes_push [OF k8])
  define s4 where "s4 = s3\<lparr>nodes := (nodes s3)(p := (nodes s3 p)\<lparr>e_next := r\<rparr>)\<rparr>"
  have pay4: "e_payload (nodes s4 p) = a"
    using s2(6) [OF pr(1)] pay pr(1) by (simp add: s4_def s3_def)
  have "set_head k r s4 = (set_head k r s3)\<lparr>nodes := (nodes (set_head k r s3))
      (p := (nodes s3 p)\<lparr>e_next := r\<rparr>)\<rparr>"
    by (simp add: s4_def set_head_def)
  then have "wf_lists (set_head k r s4) ps (fl(k := (r, a + 2 ^ (12 + k)) # fl k))"
    using wf_lists_upd_fresh [OF wf3 p3] by simp
  from wf_lists_push [OF this k8 p3, of a]
  have wf5: "wf_lists (set_head k p s4) ps (fl(k := (p, a) # (r, a + 2 ^ (12 + k)) # fl k))"
    using pay4 by (simp add: set_head_def s4_def)
  have maps: "order_sizes s2 = order_sizes s" "buddy_maps s2 = m"
    using s2(4) by (simp_all add: same_maps_def same_rest_def)
  have size_k: "order_sizes s k = 2 ^ (12 + k)"
    by (rule sizes_okD [OF b(2) k8])
  define s2' where "s2' = s2\<lparr>nodes := (nodes s2)(r := (nodes s2 r)\<lparr>e_payload := a + 2 ^ (12 + k)\<rparr>)\<rparr>"
  have "set_payload r (a + 2 ^ (12 + k)) s2 = Inr s2'" "set_next r (heads s k) s2' = Inr s3"
      "set_next p r s3 = Inr s4" "heads s2' = heads s"
    using pr s2(5) by (simp_all add: s2'_def s3_def s4_def)
  then have run: "split_entry gme p (Suc k) s = Inr (set_head k p s4)"
    using pr pay m(1) s2(1,5) s2(6) [OF pr(1)] maps size_k k8
    by (simp add: split_entry_def Let_def free_head_def del: modify_node_simps)
  note L = split_lists [OF b(3) k b(5,6), of p r]
  have "sizes_ok (set_head k p s4)" "bits_ok (set_head k p s4) (blocks (fl(k := (p, a) # (r, a + 2 ^ (12 + k)) # fl k)))"
    using frames_okD(2,4) [OF m(2)] maps
    by (simp_all add: s4_def s3_def set_head_def sizes_ok_def bits_ok_def pair_bit_at_def L(3))
  then have "frames_ok (set_head k p s4) ps (fl(k := (p, a) # (r, a + 2 ^ (12 + k)) # fl k))"
    using wf5 L(1) by (intro frames_okI)
  moreover have "only_own (insert p (own_nodes (r # ps) fl)) s (set_head k p s4)"
    using s2(6) same_maps_rest [OF s2(4)]
    by (auto simp: only_own_def s4_def s3_def own_nodes_Cons same_rest_def set_head_def)
  moreover have "own_nodes ps (fl(k := (p, a) # (r, a + 2 ^ (12 + k)) # fl k)) = insert p (own_nodes (r # ps) fl)"
    using own_nodes_push [OF k8, of ps "fl(k := (r, a + 2 ^ (12 + k)) # fl k)" p a]
    by (simp add: own_nodes_push [OF k8] own_nodes_Cons)
  ultimately show ?thesis
    using that [OF run] by blast
qed

end

interpretation frame_pool: frame_entry_source "get_memory_entry alloc_pages" for alloc_pages ..

end
