(* ===== verification/Frame_Alloc.thy ===== *)
theory Frame_Alloc
  imports Frame_Split
begin

text \<open>
  Allocation: \<open>alloc_frames\<close> hands out exactly the pages asked for, as disjoint blocks taken
  from the free ones, or returns NULL with the free pages as they were, and it returns NULL only
  when fewer pages are free than were asked for.
\<close>

section \<open>The orders the code picks\<close>

lemma fit_order_spec:
  assumes sizes: "sizes_ok s" and "n + order = FRAME_ORDERS"
  shows "order \<le> fit_order sz order s \<and> fit_order sz order s \<le> FRAME_ORDERS \<and>
    (\<forall>l. order \<le> l \<and> l < fit_order sz order s \<longrightarrow> order_bytes l \<le> unat sz) \<and>
    (fit_order sz order s < FRAME_ORDERS \<longrightarrow> unat sz < order_bytes (fit_order sz order s))"
  using assms(2)
proof (induction n arbitrary: order)
  case 0
  then show ?case
    by (simp add: fit_order.simps)
next
  case (Suc n)
  then have o: "order < FRAME_ORDERS"
    by simp
  show ?case
  proof (cases "sz < order_sizes s order")
    case True
    then have "fit_order sz order s = order" "unat sz < order_bytes order"
      using unat_order_sizes [OF sizes o] by (simp_all add: fit_order.simps word_less_nat_alt)
    then show ?thesis
      using o by simp
  next
    case False
    then have eq: "fit_order sz order s = fit_order sz (order + 1) s" and le: "order_bytes order \<le> unat sz"
      using o unat_order_sizes [OF sizes o] by (simp_all add: fit_order.simps [of sz order] word_less_nat_alt)
    have "order_bytes l \<le> unat sz" if "order \<le> l" "l < fit_order sz (order + 1) s" for l
      using that le Suc.IH [of "order + 1"] Suc.prems by (cases "l = order") auto
    then show ?thesis
      using Suc.IH [of "order + 1"] Suc.prems unfolding eq by auto
  qed
qed

text \<open>At least a page is wanted: the order picked is the biggest that fits, capped at the last.\<close>

lemma fit_order_page:
  assumes sizes: "sizes_ok s" and "unat sz = 4096 * w" "w \<noteq> 0"
  obtains k where "fit_order sz 0 s = Suc k" "k < FRAME_ORDERS" "2 ^ k \<le> w"
    "k < FRAME_ORDERS - 1 \<longrightarrow> w < 2 ^ Suc k"
proof -
  have ob: "order_bytes l \<le> unat sz \<longleftrightarrow> 2 ^ l \<le> w" for l
    using assms(2) by (simp add: order_bytes_def power_add)
  note f = fit_order_spec [OF sizes, of FRAME_ORDERS 0 sz]
  have "fit_order sz 0 s \<noteq> 0"
  proof
    assume "fit_order sz 0 s = 0"
    then have "unat sz < order_bytes 0"
      using f by (simp add: FRAME_ORDERS_def)
    then show False
      using assms by (simp add: order_bytes_def)
  qed
  then obtain k where k: "fit_order sz 0 s = Suc k"
    by (cases "fit_order sz 0 s") auto
  show ?thesis
  proof (rule that [OF k])
    show "k < FRAME_ORDERS" "2 ^ k \<le> w"
      using f k ob by auto
    show "k < FRAME_ORDERS - 1 \<longrightarrow> w < 2 ^ Suc k"
      using f k ob [of "Suc k"] by auto
  qed
qed

lemma lower_order_None: "wf_lists s ps fl \<Longrightarrow> order \<le> FRAME_ORDERS \<Longrightarrow>
    lower_order order s = None \<longleftrightarrow> (\<forall>k < order. fl k = [])"
  by (induction order) (auto simp: wf_lists_head_NULL less_Suc_eq)

lemma lower_order_Some: "wf_lists s ps fl \<Longrightarrow> order \<le> FRAME_ORDERS \<Longrightarrow>
    lower_order order s = Some k \<Longrightarrow> k < order \<and> fl k \<noteq> []"
  by (induction order) (auto simp: wf_lists_head_NULL split: if_splits)

section \<open>Splitting down and scanning up\<close>

context frame_entry_source
begin

text \<open>The head of a non-empty list is split; both halves are in the list below.\<close>

lemma split_head:
  assumes ok: "frames_ok s (r # ps) fl" and k: "Suc k < FRAME_ORDERS" and fl: "fl (Suc k) = (p, a) # xs"
    and stock: "20 \<le> length (r # ps)"
  obtains s' fl' where "split_entry gme p (Suc k) (set_head (Suc k) (e_next (nodes s p)) s) = Inr s'"
    "frames_ok s' ps fl'" "fl' k \<noteq> []" "free_pages (blocks fl') = free_pages (blocks fl)"
    "own_nodes ps fl' = own_nodes (r # ps) fl" "only_own (own_nodes (r # ps) fl) s s'"
proof -
  note pop = pop_block [OF ok k fl]
  have pay: "e_payload (nodes (set_head (Suc k) (e_next (nodes s p)) s) p) = a"
    using wf_lists_head(3) [OF frames_okD(1) [OF ok] k fl] by (simp add: set_head_def)
  let ?fl1 = "fl(Suc k := xs)"
  obtain s' where s': "split_entry gme p (Suc k) (set_head (Suc k) (e_next (nodes s p)) s) = Inr s'"
    "frames_ok s' ps (?fl1(k := (p, a) # (r, a + 2 ^ (12 + k)) # ?fl1 k))"
    "only_own (insert p (own_nodes (r # ps) ?fl1)) (set_head (Suc k) (e_next (nodes s p)) s) s'"
    "own_nodes ps (?fl1(k := (p, a) # (r, a + 2 ^ (12 + k)) # ?fl1 k)) = insert p (own_nodes (r # ps) ?fl1)"
    by (rule split_taken [OF pop(1) k pop(2) pay stock])
  have "free_pages (blocks (?fl1(k := (p, a) # (r, a + 2 ^ (12 + k)) # ?fl1 k))) = free_pages (blocks fl)"
    using split_lists(2) [OF frames_butD(3) [OF pop(1)] k frames_butD(5,6) [OF pop(1)]] pop(3) by simp
  moreover have "only_own (own_nodes (r # ps) fl) s s'"
    using only_own_trans [OF only_own_mono [OF pop(5)] s'(3)] pop(4) by simp
  ultimately show ?thesis
    using that [OF s'(1,2)] s'(4) pop(4) by simp
qed

lemma split_down:
  assumes "frames_ok s ps fl" "d + k = order" "order < FRAME_ORDERS" "fl order \<noteq> []"
    "20 + d \<le> length ps" "d < n"
  shows "\<exists>s' ps' fl'. split_or_fall_back gme n k order s = Inr (Some k, s') \<and>
    split_contiguos gme n k order s = Inr (True, s') \<and> frames_ok s' ps' fl' \<and>
    fl' k \<noteq> [] \<and> free_pages (blocks fl') = free_pages (blocks fl) \<and>
    own_nodes ps' fl' = own_nodes ps fl \<and> only_own (own_nodes ps fl) s s' \<and> length ps \<le> length ps' + d"
  using assms
proof (induction d arbitrary: s ps fl order n)
  case 0
  obtain m where "n = Suc m"
    using 0 by (cases n) auto
  then show ?case
    using 0 wf_lists_head_NULL [OF frames_okD(1) [OF 0(1)], of k]
    by (intro exI [of _ s] exI [of _ ps] exI [of _ fl]) (simp add: free_head_def)
next
  case (Suc d)
  note ok = Suc.prems(1)
  obtain m where n: "n = Suc m"
    using Suc.prems by (cases n) auto
  have k8: "k < FRAME_ORDERS" "order < FRAME_ORDERS" "d + k < FRAME_ORDERS"
    using Suc.prems by auto
  obtain j where j: "order = Suc j" "d + k = j"
    using Suc.prems(2) by auto
  show ?case
  proof (cases "fl k = []")
    case False
    then show ?thesis
      using n k8 wf_lists_head_NULL [OF frames_okD(1) [OF ok] k8(1)] ok
      by (intro exI [of _ s] exI [of _ ps] exI [of _ fl]) (simp add: free_head_def)
  next
    case True
    obtain p a xs where fl: "fl order = (p, a) # xs"
      using Suc.prems(4) by (cases "fl order") auto
    obtain r ps1 where ps: "ps = r # ps1"
      using Suc.prems(5) by (cases ps) auto
    obtain s1 fl1 where s1: "split_entry gme p (Suc j) (set_head (Suc j) (e_next (nodes s p)) s) = Inr s1"
      "frames_ok s1 ps1 fl1" "fl1 j \<noteq> []" "free_pages (blocks fl1) = free_pages (blocks fl)"
      "own_nodes ps1 fl1 = own_nodes ps fl" "only_own (own_nodes ps fl) s s1"
      using split_head [of s r ps1 fl j p a xs] ok k8 j fl ps Suc.prems(5) by auto
    obtain s2 ps2 fl2 where s2: "split_or_fall_back gme m k j s1 = Inr (Some k, s2)" "frames_ok s2 ps2 fl2"
      "split_contiguos gme m k j s1 = Inr (True, s2)"
      "fl2 k \<noteq> []" "free_pages (blocks fl2) = free_pages (blocks fl1)"
      "own_nodes ps2 fl2 = own_nodes ps1 fl1" "only_own (own_nodes ps1 fl1) s1 s2" "length ps1 \<le> length ps2 + d"
      using Suc.IH [OF s1(2) j(2), of m] k8 j s1(3) Suc.prems(5,6) ps n by auto
    have "split_or_fall_back gme n k order s = Inr (Some k, s2)" "split_contiguos gme n k order s = Inr (True, s2)"
      using n k8 True wf_lists_head_NULL [OF frames_okD(1) [OF ok] k8(1)]
        wf_lists_head [OF frames_okD(1) [OF ok] k8(2) fl] s1(1) s2(1,3) j(1)
      by (simp_all add: free_head_def)
    then show ?thesis
      using s1(4-6) s2(2-8) ps only_own_trans [OF s1(6)]
      by (intro exI [of _ s2] exI [of _ ps2] exI [of _ fl2]) auto
  qed
qed

text \<open>The scan finds a block whenever there is one.\<close>

lemma split_or_fall_back_ok:
  assumes "frames_ok s ps fl" "k < order" "order < FRAME_ORDERS" "\<forall>l. k < l \<and> l < order \<longrightarrow> fl l = []"
    "27 \<le> length ps" "2 * FRAME_ORDERS \<le> n + order"
  shows "\<exists>found s' ps' fl'. split_or_fall_back gme n k order s = Inr (found, s') \<and> frames_ok s' ps' fl' \<and>
    (case found of None \<Rightarrow> blocks fl' = {} | Some l \<Rightarrow> l \<le> k \<and> fl' l \<noteq> []) \<and>
    free_pages (blocks fl') = free_pages (blocks fl) \<and>
    own_nodes ps' fl' = own_nodes ps fl \<and> only_own (own_nodes ps fl) s s' \<and> length ps \<le> length ps' + 7"
  using assms
proof (induction n arbitrary: order)
  case 0
  then show ?case
    by (simp add: FRAME_ORDERS_def)
next
  case (Suc n)
  note ok = Suc.prems(1)
  note NULL = wf_lists_head_NULL [OF frames_okD(1) [OF ok]]
  have k8: "k < FRAME_ORDERS"
    using Suc.prems by simp
  consider (here) "fl k \<noteq> []" | (split) "fl k = []" "fl order \<noteq> []"
    | (up) "fl k = []" "fl order = []" "order + 1 < FRAME_ORDERS"
    | (top) "fl k = []" "fl order = []" "\<not> order + 1 < FRAME_ORDERS"
    by blast
  then show ?case
  proof cases
    case here
    then show ?thesis
      using NULL [OF k8] ok k8
      by (intro exI [of _ "Some k"] exI [of _ s] exI [of _ ps] exI [of _ fl]) (simp add: free_head_def)
  next
    case split
    have d: "order - k + k = order" "order - k \<le> 7"
      using Suc.prems(2,3) by (auto simp: FRAME_ORDERS_def)
    have "20 + (order - k) \<le> length ps" "order - k < Suc n"
      using d Suc.prems(3,5,6) by (auto simp: FRAME_ORDERS_def)
    from split_down [OF ok d(1) Suc.prems(3) split(2) this] d(2) show ?thesis
      by fastforce
  next
    case up
    then have "\<forall>l. k < l \<and> l < order + 1 \<longrightarrow> fl l = []"
      using Suc.prems(4) by (auto simp: less_Suc_eq)
    from Suc.IH [OF ok _ up(3) this Suc.prems(5)] Suc.prems(2,3,6) up show ?thesis
      using NULL [OF k8] NULL [OF Suc.prems(3)] k8 by (simp add: free_head_def)
  next
    case top
    have run: "split_or_fall_back gme (Suc n) k order s = Inr (lower_order k s, s)"
      using top NULL [OF k8] NULL [OF Suc.prems(3)] k8 Suc.prems(3) by (simp add: free_head_def)
    have "blocks fl = {}" if "lower_order k s = None"
    proof -
      have "fl l = []" if "l < FRAME_ORDERS" for l
        using that top Suc.prems(2,3,4) \<open>lower_order k s = None\<close>
          lower_order_None [OF frames_okD(1) [OF ok], of k] k8 by (cases l k rule: linorder_cases; cases l order rule: linorder_cases) auto
      then show ?thesis
        by (simp add: blocks_def)
    qed
    moreover have "l < k \<and> fl l \<noteq> []" if "lower_order k s = Some l" for l
      using lower_order_Some [OF frames_okD(1) [OF ok] _ that] k8 by simp
    ultimately show ?thesis
      using run ok
      by (intro exI [of _ "lower_order k s"] exI [of _ s] exI [of _ ps] exI [of _ fl])
        (auto split: option.splits dest: less_imp_le)
  qed
qed

end
section \<open>Appending to the allocation list\<close>

lemma pfa_cong: "e_payload e = e_payload e' \<Longrightarrow> pfa_order e = pfa_order e' \<and> pfa_addr e = pfa_addr e'"
  by (simp add: pfa_order_def pfa_addr_def)

lemma allocs_at_snoc:
  assumes "allocs_at h f als" "als \<noteq> []" "p \<noteq> 0"
    "\<And>q. q \<in> fst ` set als \<Longrightarrow> q \<noteq> fst (last als) \<Longrightarrow> h' q = h q"
    "e_next (h' (fst (last als))) = p" "e_payload (h' (fst (last als))) = e_payload (h (fst (last als)))"
    "e_next (h' p) = 0" "pfa_order (h' p) = k" "pfa_addr (h' p) = a"
  shows "allocs_at h' f (als @ [(p, k, a)])"
  using assms
proof (induction als arbitrary: f)
  case (Cons al als)
  obtain q l b where al: "al = (q, l, b)"
    by (cases al)
  show ?case
  proof (cases "als = []")
    case True
    then show ?thesis
      using Cons.prems al pfa_cong [of "h' q" "h q"] by auto
  next
    case False
    have "q \<noteq> fst (last als)"
      using allocs_at_distinct [OF Cons.prems(1)] False al by (metis distinct.simps(2) fst_conv
          image_eqI last_in_set list.simps(9) set_map)
    then have "h' q = h q"
      using Cons.prems(4) [of q] False al by auto
    moreover have "allocs_at h' (e_next (h q)) (als @ [(p, k, a)])"
      using Cons.prems False al by (intro Cons.IH) auto
    ultimately show ?thesis
      using Cons.prems(1) al by auto
  qed
qed simp

lemma disjoint_allocs_mono: "disjoint_allocs S als \<Longrightarrow> T \<subseteq> S \<Longrightarrow> disjoint_allocs T als"
proof (induction S als arbitrary: T rule: disjoint_allocs.induct)
  case (2 S q k a als)
  then show ?case
    by (auto intro!: "2.IH" [of "T \<union> block_pages (block_of k a)"])
qed simp

lemma disjoint_allocs_pages: "disjoint_allocs S als \<Longrightarrow> alloc_pages_of als \<inter> S = {}"
proof (induction S als rule: disjoint_allocs.induct)
  case (2 S q k a als)
  then show ?case
    by auto
qed simp

lemma disjoint_allocs_snoc:
  "disjoint_allocs S (als @ [(p, k, a)]) \<longleftrightarrow> disjoint_allocs S als \<and> k < FRAME_ORDERS \<and> valid_addr k a \<and>
     block_pages (block_of k a) \<inter> (S \<union> alloc_pages_of als) = {}"
  by (induction S als rule: disjoint_allocs.induct) auto

text \<open>The pages an allocation list stands for, counted block by block.\<close>

definition alloc_size :: "alloc list \<Rightarrow> nat" where
  "alloc_size als = (\<Sum>(q, k, a) \<leftarrow> als. 2 ^ k)"

lemma alloc_size_simps [simp]:
  "alloc_size [] = 0" "alloc_size ((q, k, a) # als) = 2 ^ k + alloc_size als"
  "alloc_size (als @ bls) = alloc_size als + alloc_size bls"
  by (simp_all add: alloc_size_def)

lemma pfa_written:
  assumes a: "valid_addr k a" and k: "k < FRAME_ORDERS"
  shows "pfa_addr (pfa_set_order k (pfa_set_addr a e)\<lparr>e_next := v\<rparr>) = a"
    "pfa_order (pfa_set_order k (pfa_set_addr a e)\<lparr>e_next := v\<rparr>) = k"
proof -
  have "unat a < 2 ^ 57"
    using a order_bytes_pos(1) [of k] unfolding valid_addr_def by linarith
  then have "take_bit 57 a = a"
    by (simp add: word_unat_eq_iff unat_take_bit_u64 del: take_bit_eq_self_iff_drop_bit_eq_0)
  then have "pfa_addr (pfa_set_order k (pfa_set_addr a e)) = a"
    by simp
  moreover have "pfa_order (pfa_set_order k (pfa_set_addr a e)) = k"
    using k by (intro pfa_order_set_order) (simp add: FRAME_ORDERS_def)
  ultimately show "pfa_addr (pfa_set_order k (pfa_set_addr a e)\<lparr>e_next := v\<rparr>) = a"
    "pfa_order (pfa_set_order k (pfa_set_addr a e)\<lparr>e_next := v\<rparr>) = k"
    by (simp_all add: pfa_addr_def pfa_order_def)
qed

text \<open>Taking the first block of a list and appending it to the allocation.\<close>

lemma append_block:
  assumes ok: "frames_ok s ps fl" and k: "k < FRAME_ORDERS" and fl: "fl k = (p, a) # xs"
    and at: "allocs_at (nodes s) front als" and bk: "als \<noteq> [] \<longrightarrow> back = fst (last als)"
    and out: "\<forall>q \<in> fst ` set als. fresh q ps fl"
  obtains s2 s3 s4 s5 s6 front' where
    "toggle_buddy_bit a k (set_head k (e_next (nodes s p)) s) = Inr s2"
    "(if front = 0 then Inr (p, s2) else rbind (set_next back p s2) (\<lambda>s. Inr (front, s))) = Inr (front', s3)"
    "modify_node p (pfa_set_addr a) s3 = Inr s4" "modify_node p (pfa_set_order k) s4 = Inr s5"
    "set_next p 0 s5 = Inr s6" "frames_ok s6 ps (fl(k := xs))"
    "allocs_at (nodes s6) front' (als @ [(p, k, a)])" "fresh p ps (fl(k := xs))"
    "only_own (own_nodes ps fl \<union> fst ` set als) s s6"
    "blocks fl = insert (block_of k a) (blocks (fl(k := xs)))"
    "block_pages (block_of k a) \<inter> free_pages (blocks (fl(k := xs))) = {}" "valid_addr k a"
    "own_nodes ps fl = insert p (own_nodes ps (fl(k := xs)))"
proof -
  note pop = pop_block [OF ok k fl] and but = frames_butD [OF pop_block(1) [OF ok k fl]]
  let ?s1 = "set_head k (e_next (nodes s p)) s" and ?fl1 = "fl(k := xs)"
  obtain m where m: "toggle_buddy_bit a k ?s1 = Inr (?s1\<lparr>buddy_maps := m\<rparr>)" "frames_ok (?s1\<lparr>buddy_maps := m\<rparr>) ps ?fl1"
    by (rule toggle_taken [OF pop(1) k])
  let ?s2 = "?s1\<lparr>buddy_maps := m\<rparr>"
  have n2: "nodes ?s2 = nodes s"
    by (simp add: set_head_def)
  have p0: "p \<noteq> 0" and pout: "p \<notin> fst ` set als"
    using freshD(1) [OF pop(2)] out pop(4) by (auto simp: fresh_iff)
  define h where "h = (if als = [] then nodes s else (nodes s)(back := (nodes s back)\<lparr>e_next := p\<rparr>))"
  define e where "e = pfa_set_order k (pfa_set_addr a (h p))\<lparr>e_next := 0\<rparr>"
  have front0: "front = 0 \<longleftrightarrow> als = []"
    using at by (cases als) auto
  have back0: "back \<noteq> 0" if "als \<noteq> []"
    using bk out that freshD(1) by (metis image_eqI last_in_set)
  have r3: "(if front = 0 then Inr (p, ?s2) else rbind (set_next back p ?s2) (\<lambda>s. Inr (front, s))) =
      Inr (if als = [] then p else front, ?s2\<lparr>nodes := h\<rparr>)"
    using back0 front0 n2 by (auto simp: h_def)
  let ?s6 = "?s2\<lparr>nodes := h(p := e)\<rparr>"
  have out1: "fresh q ps ?fl1" if "q \<in> fst ` set als" for q
    using out that pop(4) by (auto simp: fresh_iff)
  have "wf_lists (?s2\<lparr>nodes := h\<rparr>) ps ?fl1"
  proof (cases "als = []")
    case False
    then have "fresh back ps ?fl1"
      using bk by (simp add: out1)
    from wf_lists_upd_fresh [OF frames_okD(1) [OF m(2)] this] show ?thesis
      using False n2 by (simp add: h_def)
  qed (use frames_okD(1) [OF m(2)] n2 in \<open>simp add: h_def set_head_def\<close>)
  from wf_lists_upd_fresh [OF this pop(2), of e] have "frames_ok ?s6 ps ?fl1"
    using frames_okD(2-4) [OF m(2)]
    by (intro frames_okI) (simp_all add: sizes_ok_def bits_ok_def pair_bit_at_def)
  moreover have "modify_node p (pfa_set_addr a) (?s2\<lparr>nodes := h\<rparr>) = Inr (?s2\<lparr>nodes := h(p := pfa_set_addr a (h p))\<rparr>)"
    "modify_node p (pfa_set_order k) (?s2\<lparr>nodes := h(p := pfa_set_addr a (h p))\<rparr>) =
       Inr (?s2\<lparr>nodes := h(p := pfa_set_order k (pfa_set_addr a (h p)))\<rparr>)"
    "set_next p 0 (?s2\<lparr>nodes := h(p := pfa_set_order k (pfa_set_addr a (h p)))\<rparr>) = Inr ?s6"
    using p0 by (simp_all add: e_def)
  moreover have "allocs_at (nodes ?s6) (if als = [] then p else front) (als @ [(p, k, a)])"
  proof (cases "als = []")
    case True
    then show ?thesis
      using p0 pfa_written [OF but(5) k] by (simp add: e_def)
  next
    case False
    then have ne: "fst (last als) \<noteq> p"
      using pout by (metis image_eqI last_in_set)
    have "allocs_at (h(p := e)) front (als @ [(p, k, a)])"
      using at False p0 ne pout bk pfa_written [OF but(5) k]
      by (intro allocs_at_snoc [of "nodes s"]) (auto simp: h_def e_def)
    with False show ?thesis
      by simp
  qed
  moreover have "only_own (own_nodes ps fl \<union> fst ` set als) s ?s6"
  proof -
    have "p \<in> own_nodes ps fl" "als \<noteq> [] \<longrightarrow> back \<in> fst ` set als"
      using pop(4) bk by auto
    then show ?thesis
      by (auto simp: only_own_def same_rest_def set_head_def h_def)
  qed
  ultimately show ?thesis
    using that [OF m(1) r3, of _ _ ?s6] pop(2-4) but(5,6) by blast
qed
section \<open>alloc_frames\<close>

text \<open>
  What an allocation of \<open>w\<close> more pages leaves behind: the allocator with the rest of the pages
  and the allocation list, which together own the same pages and nodes as before.
\<close>

definition allocated :: "'a frame_state_scheme \<Rightarrow> u64 list \<Rightarrow> free_lists \<Rightarrow> alloc list \<Rightarrow> u64 \<Rightarrow> bool" where
  "allocated s ps fl als p \<longleftrightarrow> frames_ok s ps fl \<and> allocs_at (nodes s) p als \<and>
     (\<forall>q \<in> fst ` set als. fresh q ps fl) \<and> disjoint_allocs (free_pages (blocks fl)) als"

lemma allocatedD:
  assumes "allocated s ps fl als p"
  shows "frames_ok s ps fl" "allocs_at (nodes s) p als" "\<forall>q \<in> fst ` set als. fresh q ps fl"
    "disjoint_allocs (free_pages (blocks fl)) als"
  using assms by (simp_all add: allocated_def)

lemma allocated_frame:
  assumes al: "allocated s ps fl als p" and ok: "frames_ok s' ps' fl'"
    and "free_pages (blocks fl') = free_pages (blocks fl)" "own_nodes ps' fl' = own_nodes ps fl"
    and only: "only_own (own_nodes ps fl) s s'"
  shows "allocated s' ps' fl' als p"
proof -
  have "nodes s' q = nodes s q" if "q \<in> fst ` set als" for q
    using that allocatedD(3) [OF al] only_own_nodes [OF only] by (auto simp: fresh_iff)
  then have "allocs_at (nodes s') p als"
    using allocatedD(2) [OF al] allocs_at_cong [of als "nodes s'" "nodes s"] by blast
  then show ?thesis
    using ok assms(3,4) allocatedD(3,4) [OF al] by (simp add: allocated_def fresh_iff)
qed

lemma allocated_snoc:
  assumes al: "allocated s ps fl als p" and ok: "frames_ok s' ps fl'"
    and "blocks fl = insert (block_of k a) (blocks fl')" "own_nodes ps fl = insert q (own_nodes ps fl')"
    and "block_pages (block_of k a) \<inter> free_pages (blocks fl') = {}" "valid_addr k a" "k < FRAME_ORDERS"
    and "allocs_at (nodes s') p' (als @ [(q, k, a)])" "fresh q ps fl'"
  shows "allocated s' ps fl' (als @ [(q, k, a)]) p'"
proof -
  have pages: "free_pages (blocks fl) = block_pages (block_of k a) \<union> free_pages (blocks fl')"
    using assms(3) by simp
  have "disjoint_allocs (free_pages (blocks fl')) als"
    using disjoint_allocs_mono [OF allocatedD(4) [OF al]] pages by blast
  moreover have "block_pages (block_of k a) \<inter> alloc_pages_of als = {}"
    using disjoint_allocs_pages [OF allocatedD(4) [OF al]] pages by blast
  ultimately have "disjoint_allocs (free_pages (blocks fl')) (als @ [(q, k, a)])"
    using assms(5-7) by (simp add: disjoint_allocs_snoc Int_Un_distrib)
  moreover have "\<forall>r \<in> fst ` set (als @ [(q, k, a)]). fresh r ps fl'"
    using allocatedD(3) [OF al] assms(4,9) by (auto simp: fresh_iff)
  ultimately show ?thesis
    using ok assms(8) by (simp add: allocated_def)
qed

lemma card_free_take:
  assumes "B = insert (block_of k a) C" "block_pages (block_of k a) \<inter> free_pages C = {}" "finite C"
  shows "card (free_pages B) = 2 ^ k + card (free_pages C)"
  using assms card_block_pages [of k] by (simp add: card_Un_disjoint finite_free_pages block_of_def)

lemma free_pages_empty: "card (free_pages B) = 0 \<Longrightarrow> finite B \<Longrightarrow> B = {}"
  by (auto simp: free_pages_def)

context frame_entry_source
begin

text \<open>The inner loop; with a block of the last order at hand it changes nothing.\<close>

lemma pick_block:
  assumes ok: "frames_ok s ps fl" and k: "k < FRAME_ORDERS" and "27 \<le> length ps"
    and seven: "k = 7 \<longrightarrow> fl 7 \<noteq> []"
  obtains found s1 ps1 fl1 where
    "split_or_fall_back gme (Suc loop_fuel) k (k + 1) s = Inr (found, s1)" "frames_ok s1 ps1 fl1"
    "case found of None \<Rightarrow> blocks fl1 = {} | Some l \<Rightarrow> l \<le> k \<and> fl1 l \<noteq> []"
    "free_pages (blocks fl1) = free_pages (blocks fl)" "own_nodes ps1 fl1 = own_nodes ps fl"
    "only_own (own_nodes ps fl) s s1" "length ps \<le> length ps1 + 7"
    "k = 7 \<longrightarrow> found = Some 7 \<and> fl1 = fl"
  proof (cases "k = 7")
    case True
    then have "fl 7 \<noteq> []"
      using seven by simp
    then have "split_or_fall_back gme (Suc loop_fuel) k (k + 1) s = Inr (Some 7, s)"
      using True wf_lists_head_NULL [OF frames_okD(1) [OF ok], of 7] by (simp add: free_head_def FRAME_ORDERS_def)
    with True \<open>fl 7 \<noteq> []\<close> ok show ?thesis
      by (intro that [of "Some 7" s ps fl]) simp_all
  next
    case False
    have pre: "k < k + 1" "k + 1 < FRAME_ORDERS" "\<forall>l. k < l \<and> l < k + 1 \<longrightarrow> fl l = []"
        "27 \<le> length ps" "2 * FRAME_ORDERS \<le> Suc loop_fuel + (k + 1)"
      using assms(3) False k by (auto simp: FRAME_ORDERS_def loop_fuel_def)
    obtain found s1 ps1 fl1 where "split_or_fall_back gme (Suc loop_fuel) k (k + 1) s = Inr (found, s1)"
      "frames_ok s1 ps1 fl1" "case found of None \<Rightarrow> blocks fl1 = {} | Some l \<Rightarrow> l \<le> k \<and> fl1 l \<noteq> []"
      "free_pages (blocks fl1) = free_pages (blocks fl)" "own_nodes ps1 fl1 = own_nodes ps fl"
      "only_own (own_nodes ps fl) s s1" "length ps \<le> length ps1 + 7"
      using split_or_fall_back_ok [OF ok pre] by (elim exE conjE)
    then show ?thesis
      using False by (intro that) simp_all
  qed

lemma alloc_frames_loop_ok:
  assumes "allocated s ps fl als front" "als \<noteq> [] \<longrightarrow> rear = fst (last als)"
    "unat sz = 4096 * w" "w < n" "20 + 7 * w \<le> length ps" "w div 128 \<le> length (fl 7)"
  shows "\<exists>p s' ps' fl' als'. alloc_frames_loop gme n sz front rear s = Inr (p, s') \<and>
    allocated s' ps' fl' als' p \<and> only_own (own_nodes ps fl \<union> fst ` set als) s s' \<and>
    own_nodes ps' fl' \<union> fst ` set als' = own_nodes ps fl \<union> fst ` set als \<and>
    free_pages (blocks fl') \<union> alloc_pages_of als' = free_pages (blocks fl) \<union> alloc_pages_of als \<and>
    (if w \<le> card (free_pages (blocks fl)) then alloc_size als' = alloc_size als + w else als' = [])"
  using assms
proof (induction n arbitrary: s ps fl als front rear sz w)
  case 0
  then show ?case
    by simp
next
  case (Suc n)
  note ok = allocatedD(1) [OF Suc.prems(1)]
  show ?case
  proof (cases "w = 0")
    case True
    then have "sz = 0"
      using Suc.prems(3) by (simp add: unat_eq_0)
    with True Suc.prems(1) show ?thesis
      by (intro exI [of _ "front"] exI [of _ s] exI [of _ ps] exI [of _ fl] exI [of _ als]) simp
  next
    case False
    then have sz0: "sz \<noteq> 0"
      using Suc.prems(3) by auto
    obtain k where k: "fit_order sz 0 s = Suc k" "k < FRAME_ORDERS" "2 ^ k \<le> w"
        "k < FRAME_ORDERS - 1 \<longrightarrow> w < 2 ^ Suc k"
      by (rule fit_order_page [OF frames_okD(2) [OF ok] Suc.prems(3) False])
    have stock0: "27 \<le> length ps" and seven0: "k = 7 \<longrightarrow> fl 7 \<noteq> []"
      using Suc.prems(5,6) False k(3) by (auto simp: div_greater_zero_iff)
    obtain found s1 ps1 fl1 where s1:
      "split_or_fall_back gme (Suc loop_fuel) k (k + 1) s = Inr (found, s1)" "frames_ok s1 ps1 fl1"
      "case found of None \<Rightarrow> blocks fl1 = {} | Some l \<Rightarrow> l \<le> k \<and> fl1 l \<noteq> []"
      "free_pages (blocks fl1) = free_pages (blocks fl)" "own_nodes ps1 fl1 = own_nodes ps fl"
      "only_own (own_nodes ps fl) s s1" "length ps \<le> length ps1 + 7"
      "k = 7 \<longrightarrow> found = Some 7 \<and> fl1 = fl"
      by (rule pick_block [OF ok k(2) stock0 seven0])
    note al1 = allocated_frame [OF Suc.prems(1) s1(2,4,5,6)]
    show ?thesis
    proof (cases found)
      case None
      then have empty: "free_pages (blocks fl) = {}"
        using s1(3,4) by simp
      obtain s2 ps2 fl2 where s2: "free_frames front s1 = Inr s2" "frames_ok s2 ps2 fl2"
        "free_pages (blocks fl2) = free_pages (blocks fl1) \<union> alloc_pages_of als"
        "own_nodes ps2 fl2 = own_nodes ps1 fl1 \<union> fst ` set als"
        "only_own (own_nodes ps1 fl1 \<union> fst ` set als) s1 s2"
        using free_frames_ok [OF allocatedD [OF al1]] by blast
      have "alloc_frames_loop gme (Suc n) sz front rear s = Inr (0, s2)"
        using sz0 k(1) s1(1) s2(1) None by (simp add: Let_def del: split_or_fall_back.simps)
      moreover have "allocated s2 ps2 fl2 [] 0"
        using s2(2) by (simp add: allocated_def)
      moreover have "only_own (own_nodes ps fl \<union> fst ` set als) s s2"
        using only_own_trans [OF only_own_mono [OF s1(6)] s2(5)] s1(5) by auto
      ultimately show ?thesis
        using s2(3,4) s1(4,5) empty \<open>w \<noteq> 0\<close>
        by (intro exI [of _ "0 :: u64"] exI [of _ s2] exI [of _ ps2] exI [of _ fl2] exI [of _ "[]"]) simp
    next
      case (Some l)
      have l: "l \<le> k" "l < FRAME_ORDERS" "fl1 l \<noteq> []"
        using s1(3) k(2) Some by auto
      then obtain p a xs where fl: "fl1 l = (p, a) # xs"
        by (cases "fl1 l") auto
      obtain s2 s3 s4 s5 s6 front' where ap:
        "toggle_buddy_bit a l (set_head l (e_next (nodes s1 p)) s1) = Inr s2"
        "(if front = 0 then Inr (p, s2) else rbind (set_next rear p s2) (\<lambda>s. Inr (front, s))) = Inr (front', s3)"
        "modify_node p (pfa_set_addr a) s3 = Inr s4" "modify_node p (pfa_set_order l) s4 = Inr s5"
        "set_next p 0 s5 = Inr s6" "frames_ok s6 ps1 (fl1(l := xs))"
        "allocs_at (nodes s6) front' (als @ [(p, l, a)])" "fresh p ps1 (fl1(l := xs))"
        "only_own (own_nodes ps1 fl1 \<union> fst ` set als) s1 s6"
        "blocks fl1 = insert (block_of l a) (blocks (fl1(l := xs)))"
        "block_pages (block_of l a) \<inter> free_pages (blocks (fl1(l := xs))) = {}" "valid_addr l a"
        "own_nodes ps1 fl1 = insert p (own_nodes ps1 (fl1(l := xs)))"
        by (rule append_block [OF s1(2) l(2) fl allocatedD(2) [OF al1] Suc.prems(2) allocatedD(3) [OF al1]])
      let ?als = "als @ [(p, l, a)]" and ?fl = "fl1(l := xs)"
      have pages: "free_pages (blocks fl1) = block_pages (block_of l a) \<union> free_pages (blocks ?fl)"
        using ap(10) by simp
      note all6 = allocated_snoc [OF al1 ap(6,10,13,11,12) l(2) ap(7,8)]
      have le: "2 ^ l \<le> w"
        using k(3) power_increasing [OF l(1), of "2 :: nat"] by linarith
      have size_l: "unat (order_sizes s6 l) = 4096 * 2 ^ l" "order_sizes s6 = order_sizes s1"
        using unat_order_sizes [OF frames_okD(2) [OF ap(6)] l(2)] only_own_rest [OF ap(9)]
        by (simp_all add: order_bytes_def power_add same_rest_def)
      have sz': "unat (sz - order_sizes s6 l) = 4096 * (w - 2 ^ l)"
        using size_l(1) Suc.prems(3) le by (subst unat_sub_u64) (auto simp: word_le_nat_alt algebra_simps)
      have pow: "(1 :: nat) \<le> 2 ^ l"
        by simp
      have stock: "w - 2 ^ l < n" "20 + 7 * (w - 2 ^ l) \<le> length ps1"
        using Suc.prems(4,5) s1(7) le pow by linarith+
      have seven: "(w - 2 ^ l) div 128 \<le> length (?fl 7)"
      proof (cases "k = 7")
        case True
        then have "l = 7" "fl 7 = (p, a) # xs"
          using s1(8) Some fl by auto
        with Suc.prems(6) le show ?thesis
          by (simp add: le_div_geq)
      next
        case False
        then have "k \<le> 6" "w < 2 ^ Suc k"
          using k(2,4) by (auto simp: FRAME_ORDERS_def)
        then have "w < 2 ^ 7"
          using power_increasing [of "Suc k" 7 "2 :: nat"] by simp
        then show ?thesis
          by simp
      qed
      have last6: "?als \<noteq> [] \<longrightarrow> p = fst (last ?als)"
        by simp
      obtain p' s' ps' fl' als' where rec: "alloc_frames_loop gme n (sz - order_sizes s6 l) front' p s6 = Inr (p', s')"
        "allocated s' ps' fl' als' p'" "only_own (own_nodes ps1 ?fl \<union> fst ` set ?als) s6 s'"
        "own_nodes ps' fl' \<union> fst ` set als' = own_nodes ps1 ?fl \<union> fst ` set ?als"
        "free_pages (blocks fl') \<union> alloc_pages_of als' = free_pages (blocks ?fl) \<union> alloc_pages_of ?als"
        "if w - 2 ^ l \<le> card (free_pages (blocks ?fl)) then alloc_size als' = alloc_size ?als + (w - 2 ^ l) else als' = []"
        using Suc.IH [OF all6 last6 sz' stock seven] by (elim exE conjE)
      have head: "heads s1 l = p" "p \<noteq> 0" "e_payload (nodes s1 p) = a"
        using wf_lists_head [OF frames_okD(1) [OF s1(2)] l(2) fl] by auto
      have run: "alloc_frames_loop gme (Suc n) sz front rear s = Inr (p', s')"
        using sz0 k(1) s1(1) Some l(2) head ap(1-5) rec(1)
        by (cases "front = 0") (simp_all add: Let_def free_head_def del: split_or_fall_back.simps modify_node_simps)
      have owned: "own_nodes ps1 ?fl \<union> fst ` set ?als = own_nodes ps fl \<union> fst ` set als"
        using ap(13) s1(5) by auto
      have "only_own (own_nodes ps fl \<union> fst ` set als) s s'"
        using only_own_trans [OF only_own_mono [OF s1(6)] only_own_trans [OF ap(9) [unfolded s1(5)] rec(3) [unfolded owned]]]
        by blast
      moreover have "free_pages (blocks fl') \<union> alloc_pages_of als' = free_pages (blocks fl) \<union> alloc_pages_of als"
        using rec(5) pages s1(4) by auto
      moreover have "card (free_pages (blocks fl)) = 2 ^ l + card (free_pages (blocks ?fl))"
        using card_free_take [OF ap(10,11)] s1(4) by simp
      then have "if w \<le> card (free_pages (blocks fl)) then alloc_size als' = alloc_size als + w else als' = []"
        using rec(6) le by (auto split: if_splits)
      ultimately show ?thesis
        using run rec(2,4) owned
        by (intro exI [of _ p'] exI [of _ s'] exI [of _ ps'] exI [of _ fl'] exI [of _ als']) simp
    qed
  qed
qed

lemma alloc_frames_ok:
  assumes ok: "frames_ok s ps fl" and "20 + 7 * unat pages \<le> length ps"
    and "unat pages div 128 \<le> length (fl 7)" and "unat pages < 2 ^ 52"
  shows "\<exists>p s' ps' fl' als. alloc_frames gme pages s = Inr (p, s') \<and>
    allocated s' ps' fl' als p \<and> only_own (own_nodes ps fl) s s' \<and>
    own_nodes ps' fl' \<union> fst ` set als = own_nodes ps fl \<and>
    free_pages (blocks fl') \<union> alloc_pages_of als = free_pages (blocks fl) \<and>
    (if unat pages \<le> card (free_pages (blocks fl)) then alloc_size als = unat pages else als = [])"
proof -
  have "unat (pages * PAGE_SIZE) = 4096 * unat pages"
    using assms(4) by (subst unat_mult_u64) simp_all
  moreover have "unat pages < Suc loop_fuel"
    using assms(4) by (simp add: loop_fuel_def)
  moreover have "allocated s ps fl [] 0"
    using ok by (simp add: allocated_def)
  ultimately show ?thesis
    using alloc_frames_loop_ok [of s ps fl "[]" 0 0 "pages * PAGE_SIZE" "unat pages" "Suc loop_fuel"] assms(2,3)
    unfolding alloc_frames_def alloc_size_simps(1) add_0
    by (simp del: alloc_frames_loop.simps split del: if_split)
qed

end

end
