(* ===== verification/Frame_Contiguos.thy ===== *)
theory Frame_Contiguos
  imports Frame_Alloc
begin

text \<open>
  Contiguous blocks: \<open>alloc_frames_contiguos\<close> and \<open>free_frames_contiguos\<close>. When the wanted
  order or one of the two above it has a free block the allocation is right; the code looks at
  the order above that without checking its list, and past the end of the array when the last
  order is wanted.
\<close>

context frame_entry_source
begin

section \<open>Allocating one block\<close>

text \<open>The first block of a list leaves the allocator.\<close>

lemma take_first:
  assumes ok: "frames_ok s ps fl" and k: "k < FRAME_ORDERS" and fl: "fl k \<noteq> []"
  obtains p a s2 s3 ps' fl' where "heads s k = p" "p \<noteq> 0" "e_payload (nodes s p) = a"
    "toggle_buddy_bit a k (set_head k (e_next (nodes s p)) s) = Inr s2" "free_memory_entry p s2 = Inr s3"
    "frames_ok s3 ps' fl'" "valid_addr k a" "own_nodes ps' fl' = own_nodes ps fl"
    "only_own (own_nodes ps fl) s s3" "length ps' = Suc (length ps)"
    "free_pages (blocks fl) = block_pages (block_of k a) \<union> free_pages (blocks fl')"
    "block_pages (block_of k a) \<inter> free_pages (blocks fl') = {}"
proof -
  obtain p a xs where fl: "fl k = (p, a) # xs"
    using fl by (cases "fl k") auto
  note pop = pop_block [OF ok k fl] and head = wf_lists_head [OF frames_okD(1) [OF ok] k fl]
  let ?s1 = "set_head k (e_next (nodes s p)) s" and ?fl1 = "fl(k := xs)"
  obtain m where m: "toggle_buddy_bit a k ?s1 = Inr (?s1\<lparr>buddy_maps := m\<rparr>)" "frames_ok (?s1\<lparr>buddy_maps := m\<rparr>) ps ?fl1"
    by (rule toggle_taken [OF pop(1) k])
  obtain s3 where s3: "free_memory_entry p (?s1\<lparr>buddy_maps := m\<rparr>) = Inr s3" "wf_lists s3 (p # ps) ?fl1"
    "same_maps (?s1\<lparr>buddy_maps := m\<rparr>) s3" "\<And>q. q \<noteq> p \<Longrightarrow> nodes s3 q = nodes s q"
    using wf_lists_free_memory_entry [OF frames_okD(1) [OF m(2)] pop(2) fresh_room [OF frames_okD(1) [OF m(2)] pop(2)]]
    by (auto simp: set_head_def)
  have "frames_ok s3 (p # ps) ?fl1"
    using s3(2,3) frames_okD(2-4) [OF m(2)] bits_ok_cong [of s3 "?s1\<lparr>buddy_maps := m\<rparr>"]
    by (intro frames_okI) (simp_all add: same_maps_def sizes_ok_rest [of "?s1\<lparr>buddy_maps := m\<rparr>" s3])
  moreover have "only_own (own_nodes ps fl) s s3"
    using s3(4) same_maps_rest [OF s3(3)] pop(4) by (auto simp: only_own_def same_rest_def set_head_def)
  ultimately show ?thesis
    using that [OF head m(1) s3(1)] frames_butD(5,6) [OF pop(1)] pop(3,4) by (simp add: own_nodes_Cons)
qed

lemma alloc_contiguos_run:
  assumes ok: "frames_ok s ps fl" and order: "get_min_size_frame_order pages = Inr k" and k: "k < FRAME_ORDERS"
    and run: "split_contiguos gme (Suc loop_fuel) k (k + 1) s = Inr (True, s1)" "frames_ok s1 ps1 fl1" "fl1 k \<noteq> []"
      "free_pages (blocks fl1) = free_pages (blocks fl)" "own_nodes ps1 fl1 = own_nodes ps fl" "only_own (own_nodes ps fl) s s1"
  shows "\<exists>a s' ps' fl'. alloc_frames_contiguos gme pages s = Inr (Some a, s') \<and> frames_ok s' ps' fl' \<and>
    valid_addr k a \<and> free_pages (blocks fl) = block_pages (block_of k a) \<union> free_pages (blocks fl') \<and>
    block_pages (block_of k a) \<inter> free_pages (blocks fl') = {} \<and>
    own_nodes ps' fl' = own_nodes ps fl \<and> only_own (own_nodes ps fl) s s' \<and> length ps1 < length ps'"
proof -
  obtain p a s2 s3 ps' fl' where t: "heads s1 k = p" "p \<noteq> 0" "e_payload (nodes s1 p) = a"
    "toggle_buddy_bit a k (set_head k (e_next (nodes s1 p)) s1) = Inr s2" "free_memory_entry p s2 = Inr s3"
    "frames_ok s3 ps' fl'" "valid_addr k a" "own_nodes ps' fl' = own_nodes ps1 fl1"
    "only_own (own_nodes ps1 fl1) s1 s3" "length ps' = Suc (length ps1)"
    "free_pages (blocks fl1) = block_pages (block_of k a) \<union> free_pages (blocks fl')"
    "block_pages (block_of k a) \<inter> free_pages (blocks fl') = {}"
    by (rule take_first [OF run(2) k run(3)])
  have "alloc_frames_contiguos gme pages s = Inr (Some a, s3)"
    using order k run(1) t(1-5) unfolding alloc_frames_contiguos_def
    by (simp add: free_head_def Let_def del: split_contiguos.simps)
  moreover have "only_own (own_nodes ps fl) s s3"
    using only_own_trans [OF run(6)] t(9) run(5) by simp
  ultimately show ?thesis
    using t(6-8,10-12) run(4,5)
    by (intro exI [of _ a] exI [of _ s3] exI [of _ ps'] exI [of _ fl']) simp
qed

text \<open>The loop finds the block when the wanted order or one of the next two has one.\<close>

lemma split_contiguos_ok:
  assumes ok: "frames_ok s ps fl" and k: "k < FRAME_ORDERS" and l: "l \<in> {k, k + 1, k + 2}" "l < FRAME_ORDERS" "fl l \<noteq> []"
    and stock: "22 \<le> length ps"
  shows "\<exists>s1 ps1 fl1. split_contiguos gme (Suc loop_fuel) k (k + 1) s = Inr (True, s1) \<and> frames_ok s1 ps1 fl1 \<and>
    fl1 k \<noteq> [] \<and> free_pages (blocks fl1) = free_pages (blocks fl) \<and> own_nodes ps1 fl1 = own_nodes ps fl \<and>
    only_own (own_nodes ps fl) s s1 \<and> length ps \<le> length ps1 + 2"
proof -
  note NULL = wf_lists_head_NULL [OF frames_okD(1) [OF ok]]
  consider (here) "fl k \<noteq> []" | (one) "fl k = []" "k + 1 < FRAME_ORDERS" "fl (k + 1) \<noteq> []"
    | (two) "fl k = []" "fl (k + 1) = []" "k + 2 < FRAME_ORDERS" "fl (k + 2) \<noteq> []"
    using l by (cases "fl k = []"; cases "fl (k + 1) = []") auto
  then show ?thesis
  proof cases
    case here
    then have "split_contiguos gme (Suc loop_fuel) k (k + 1) s = Inr (True, s)"
      using NULL [OF k] k by (simp add: free_head_def)
    with here ok show ?thesis
      by (intro exI [of _ s] exI [of _ ps] exI [of _ fl]) simp
  next
    case one
    have "1 + k = k + 1" "20 + 1 \<le> length ps" "1 < Suc loop_fuel"
      using stock by (auto simp: loop_fuel_def)
    from split_down [OF ok this(1) one(2,3) this(2,3)] show ?thesis
      by (elim exE conjE) (intro exI conjI, assumption+, linarith)
  next
    case two
    have "2 + k = k + 2" "20 + 2 \<le> length ps" "2 < Suc loop_fuel"
      using stock by (auto simp: loop_fuel_def)
    from split_down [OF ok this(1) two(3,4) this(2,3)] obtain s1 ps1 fl1 where
      "split_contiguos gme (Suc loop_fuel) k (k + 2) s = Inr (True, s1)" "frames_ok s1 ps1 fl1" "fl1 k \<noteq> []"
      "free_pages (blocks fl1) = free_pages (blocks fl)" "own_nodes ps1 fl1 = own_nodes ps fl"
      "only_own (own_nodes ps fl) s s1" "length ps \<le> length ps1 + 2"
      by blast
    moreover have "split_contiguos gme (Suc loop_fuel) k (k + 1) s = split_contiguos gme (Suc loop_fuel) k (k + 2) s"
      using two k NULL [OF k] NULL [of "k + 1"] NULL [of "k + 2"] by (simp add: free_head_def)
    ultimately show ?thesis
      by (intro exI [of _ s1] exI [of _ ps1] exI [of _ fl1]) simp
  qed
qed

lemma alloc_frames_contiguos_ok:
  assumes ok: "frames_ok s ps fl" and order: "get_min_size_frame_order pages = Inr k" and k: "k < FRAME_ORDERS"
    and "l \<in> {k, k + 1, k + 2}" "l < FRAME_ORDERS" "fl l \<noteq> []" "22 \<le> length ps"
  shows "\<exists>a s' ps' fl'. alloc_frames_contiguos gme pages s = Inr (Some a, s') \<and> frames_ok s' ps' fl' \<and>
    valid_addr k a \<and> free_pages (blocks fl) = block_pages (block_of k a) \<union> free_pages (blocks fl') \<and>
    block_pages (block_of k a) \<inter> free_pages (blocks fl') = {} \<and>
    own_nodes ps' fl' = own_nodes ps fl \<and> only_own (own_nodes ps fl) s s' \<and> length ps \<le> Suc (length ps')"
proof -
  from split_contiguos_ok [OF ok k assms(4-7)] obtain s1 ps1 fl1 where
    s1: "split_contiguos gme (Suc loop_fuel) k (k + 1) s = Inr (True, s1)" "frames_ok s1 ps1 fl1" "fl1 k \<noteq> []"
      "free_pages (blocks fl1) = free_pages (blocks fl)" "own_nodes ps1 fl1 = own_nodes ps fl"
      "only_own (own_nodes ps fl) s s1" "length ps \<le> length ps1 + 2"
    by blast
  from alloc_contiguos_run [OF ok order k s1(1-6)] s1(7) show ?thesis
    by (elim exE conjE) (intro exI conjI, assumption+, linarith)
qed

section \<open>Where it goes wrong\<close>

text \<open>Three empty lists in a row: the head of the third is dereferenced unchecked.\<close>

lemma alloc_frames_contiguos_NULL:
  assumes ok: "frames_ok s ps fl" and order: "get_min_size_frame_order pages = Inr k" and k: "k + 2 < FRAME_ORDERS"
    and "fl k = []" "fl (k + 1) = []" "fl (k + 2) = []"
  shows "alloc_frames_contiguos gme pages s = Inl Null_deref"
  using assms wf_lists_head_NULL [OF frames_okD(1) [OF ok], of k]
    wf_lists_head_NULL [OF frames_okD(1) [OF ok], of "k + 1"] wf_lists_head_NULL [OF frames_okD(1) [OF ok], of "k + 2"]
  by (simp add: alloc_frames_contiguos_def free_head_def)

text \<open>The last order with an empty list: \<open>g_free_lists[FRAME_ORDERS]\<close> is read.\<close>

lemma alloc_frames_contiguos_last_order:
  assumes ok: "frames_ok s ps fl" and order: "get_min_size_frame_order pages = Inr (FRAME_ORDERS - 1)" and "fl 7 = []"
  shows "alloc_frames_contiguos gme pages s = Inl Out_of_bounds"
  using assms wf_lists_head_NULL [OF frames_okD(1) [OF ok], of 7]
  by (simp add: alloc_frames_contiguos_def free_head_def FRAME_ORDERS_def)

text \<open>The order before the last: out of memory is reported.\<close>

lemma alloc_frames_contiguos_none:
  assumes ok: "frames_ok s ps fl" and order: "get_min_size_frame_order pages = Inr 6" and "fl 6 = []" "fl 7 = []"
  shows "alloc_frames_contiguos gme pages s = Inr (None, s)"
  using assms wf_lists_head_NULL [OF frames_okD(1) [OF ok], of 6] wf_lists_head_NULL [OF frames_okD(1) [OF ok], of 7]
  by (simp add: alloc_frames_contiguos_def free_head_def FRAME_ORDERS_def)

lemma alloc_frames_last_order:
  assumes ok: "frames_ok s ps fl" and big: "128 \<le> unat pages" "unat pages < 2 ^ 52" and "fl 7 = []"
  shows "alloc_frames gme pages s = Inl Out_of_bounds"
proof -
  have sz: "unat (pages * PAGE_SIZE) = 4096 * unat pages"
    using big by (subst unat_mult_u64) simp_all
  obtain k where k: "fit_order (pages * PAGE_SIZE) 0 s = Suc k" "k < FRAME_ORDERS"
      "k < FRAME_ORDERS - 1 \<longrightarrow> unat pages < 2 ^ Suc k"
    using fit_order_page [OF frames_okD(2) [OF ok] sz] big by auto
  have "k = 7"
  proof (rule ccontr)
    assume "k \<noteq> 7"
    then have "k < FRAME_ORDERS - 1" "(2 :: nat) ^ Suc k \<le> 2 ^ 7"
      using k(2) power_increasing [of "Suc k" 7 "2 :: nat"] by (auto simp: FRAME_ORDERS_def simp del: power_Suc)
    with k(3) big(1) show False
      by simp
  qed
  moreover have "pages * PAGE_SIZE \<noteq> 0"
    using sz big(1) by auto
  ultimately show ?thesis
    using k(1) assms(4) wf_lists_head_NULL [OF frames_okD(1) [OF ok], of 7]
    by (simp add: alloc_frames_def free_head_def FRAME_ORDERS_def)
qed

section \<open>Giving one block back\<close>

lemma free_frames_contiguos_ok:
  assumes ok: "frames_ok s ps fl" and order: "get_min_size_frame_order pages = Inr k" and k: "k < FRAME_ORDERS"
    and a: "valid_addr k a" and free: "block_pages (block_of k a) \<inter> free_pages (blocks fl) = {}"
    and stock: "20 \<le> length ps"
  shows "\<exists>s' ps' fl'. free_frames_contiguos gme a pages s = Inr s' \<and> frames_ok s' ps' fl' \<and>
    free_pages (blocks fl') = free_pages (blocks fl) \<union> block_pages (block_of k a) \<and>
    own_nodes ps' fl' = own_nodes ps fl \<and> only_own (own_nodes ps fl) s s' \<and>
    (coalesced (blocks fl) \<longrightarrow> coalesced (blocks fl'))"
proof -
  obtain r ps1 where ps: "ps = r # ps1"
    using stock by (cases ps) auto
  obtain h pd c where g: "gme s = Inr (r, s\<lparr>nodes := h, pool_head := pd, pool_count := c\<rparr>)"
      "\<forall>q. q \<noteq> r \<longrightarrow> h q = nodes s q" "e_next (h r) = 0" "list_at h pd ps1" "unat c = length ps1"
    using get [OF wf_lists_pool [OF frames_okD(1) [OF ok], unfolded ps]] stock ps by blast
  let ?s1 = "s\<lparr>nodes := h, pool_head := pd, pool_count := c\<rparr>"
  note s1 = wf_lists_get [OF frames_okD(1) [OF ok, unfolded ps] g(2,4,5)]
  let ?e = "pfa_set_order k (pfa_set_addr a (h r))"
  let ?s2 = "?s1\<lparr>nodes := h(r := ?e)\<rparr>"
  have r0: "r \<noteq> 0"
    by (rule freshD(1) [OF s1(2)])
  have "wf_lists ?s2 ps1 fl"
    using wf_lists_upd_fresh [OF s1, of ?e] by simp
  then have ok2: "frames_ok ?s2 ps1 fl"
    using frames_okD(2-4) [OF ok] by (intro frames_okI) (simp_all add: sizes_ok_def bits_ok_def pair_bit_at_def)
  have pfa: "pfa_addr ?e = a" "pfa_order ?e = k" "e_next ?e = 0"
    using pfa_written [OF a k, where e = "h r" and v = 0] g(3) by (simp_all add: pfa_addr_def pfa_order_def)
  then have at2: "allocs_at (nodes ?s2) r [(r, k, a)]"
    using r0 by simp
  have "\<forall>q \<in> fst ` set [(r, k, a)]. fresh q ps1 fl" "disjoint_allocs (free_pages (blocks fl)) [(r, k, a)]"
    using s1(2) k a free by simp_all
  from free_frames_ok [OF ok2 at2 this] obtain s' ps' fl' where s': "free_frames r ?s2 = Inr s'" "frames_ok s' ps' fl'"
    "free_pages (blocks fl') = free_pages (blocks fl) \<union> alloc_pages_of [(r, k, a)]"
    "own_nodes ps' fl' = own_nodes ps1 fl \<union> fst ` set [(r, k, a)]"
    "only_own (own_nodes ps1 fl \<union> fst ` set [(r, k, a)]) ?s2 s'"
    "coalesced (blocks fl) \<longrightarrow> coalesced (blocks fl')"
    by (elim exE conjE)
  have own: "own_nodes ps1 fl \<union> fst ` set [(r, k, a)] = own_nodes ps fl"
    by (simp add: ps own_nodes_Cons)
  have "only_own (own_nodes ps fl) s ?s2"
    using g(2) unfolding own [symmetric] by (auto simp: only_own_def same_rest_def)
  from only_own_trans [OF this s'(5) [unfolded own]] have "only_own (own_nodes ps fl) s s'" .
  moreover have "free_frames_contiguos gme a pages s = Inr s'"
    using g(1) r0 order s'(1) by (simp add: free_frames_contiguos_def)
  ultimately show ?thesis
    using s' own by (intro exI [of _ s'] exI [of _ ps'] exI [of _ fl']) simp
qed

end

end
