(* ===== verification/Frame_Remove.thy ===== *)
theory Frame_Remove
  imports Frame_Contiguos
begin

text \<open>
  \<open>remove_range\<close>, which initialization uses to take unusable memory out of the free lists: it
  succeeds exactly when every page of the range is free, and then it removes these pages and
  no others.
\<close>

section \<open>Free blocks that contain a block\<close>

lemma div_order_bytes: "l \<le> k \<Longrightarrow> n div order_bytes k = n div order_bytes l div 2 ^ (k - l)"
proof -
  assume "l \<le> k"
  then have "order_bytes k = order_bytes l * 2 ^ (k - l)"
    by (simp add: order_bytes_def flip: power_add)
  then show ?thesis
    by (simp add: div_mult2_eq)
qed

lemma coalesced_contains:
  assumes co: "coalesced S" and orders: "\<forall>b \<in> S. fst b < FRAME_ORDERS"
  shows "k < FRAME_ORDERS \<Longrightarrow> block_pages (k, i) \<subseteq> free_pages S \<Longrightarrow>
    \<exists>l. k \<le> l \<and> l < FRAME_ORDERS \<and> (l, i div 2 ^ (l - k)) \<in> S"
proof (induction k arbitrary: i)
  case 0
  then have "i \<in> free_pages S"
    using block_pages_iff [of i 0 i] by auto
  then obtain l j where lj: "(l, j) \<in> S" "i \<in> block_pages (l, j)"
    by (auto simp: free_pages_def)
  moreover have "l < FRAME_ORDERS"
    using orders lj(1) by force
  ultimately show ?case
    by (intro exI [of _ l]) (auto simp: block_pages_iff)
next
  case (Suc k)
  have halves: "block_pages (k, 2 * i) \<subseteq> free_pages S" "block_pages (k, Suc (2 * i)) \<subseteq> free_pages S"
    using Suc.prems(2) by (auto simp: block_pages_halves)
  obtain l where l: "k \<le> l" "l < FRAME_ORDERS" "(l, 2 * i div 2 ^ (l - k)) \<in> S"
    using Suc.IH [OF _ halves(1)] Suc.prems(1) by auto
  obtain m where m: "k \<le> m" "m < FRAME_ORDERS" "(m, Suc (2 * i) div 2 ^ (m - k)) \<in> S"
    using Suc.IH [OF _ halves(2)] Suc.prems(1) by auto
  have up: "j div 2 ^ (n - k) = j div 2 div 2 ^ (n - Suc k)" if "Suc k \<le> n" for j n :: nat
    using that by (simp add: Suc_diff_Suc [symmetric] div_mult2_eq)
  have "l \<noteq> k \<or> m \<noteq> k"
  proof (rule ccontr)
    assume "\<not> (l \<noteq> k \<or> m \<noteq> k)"
    then have "(k, 2 * i) \<in> S" "(k, Suc (2 * i)) \<in> S" "k < FRAME_ORDERS - 1"
      using l m Suc.prems(1) by auto
    then show False
      using co by (auto simp: coalesced_def)
  qed
  then consider "Suc k \<le> l" | "Suc k \<le> m"
    using l(1) m(1) by linarith
  then show ?case
  proof cases
    case 1
    with l up [of l "2 * i"] show ?thesis
      by (intro exI [of _ l]) simp
  next
    case 2
    with m up [of m "Suc (2 * i)"] show ?thesis
      by (intro exI [of _ m]) simp
  qed
qed

lemma blocks_orders: "b \<in> blocks fl \<Longrightarrow> fst b < FRAME_ORDERS"
  by (simp add: blocks_iff_fst)

lemma block_of_le: "l \<le> k \<Longrightarrow> block_of k a = (k, snd (block_of l a) div 2 ^ (k - l))"
  by (simp add: block_of_def div_order_bytes)

lemma block_pages_le: "l \<le> k \<Longrightarrow> block_pages (block_of l a) \<subseteq> block_pages (block_of k a)"
proof -
  assume "l \<le> k"
  moreover have "block_pages (block_of l a) \<inter> block_pages (block_of k a) \<noteq> {}"
  proof -
    have "unat a div 4096 div 2 ^ j = unat a div order_bytes j" for j
      using div_order_bytes [of 0 j "unat a"] by (simp add: order_bytes_def)
    then have "unat a div 4096 \<in> block_pages (block_of j a)" for j
      by (simp add: block_of_def block_pages_iff)
    then show ?thesis
      by blast
  qed
  ultimately show ?thesis
    using block_pages_meet [of l k] by (simp add: block_of_def)
qed

text \<open>The search of the code: the block of order \<open>k\<close> that contains the address.\<close>

lemma range_contains_block:
  assumes sizes: "sizes_ok s" and k: "k < FRAME_ORDERS" and b: "valid_addr k b"
  shows "range_contains a b (order_sizes s k) \<longleftrightarrow> block_of k b = block_of k a"
proof -
  let ?o = "order_bytes k"
  have ub: "unat b = unat b div ?o * ?o" "unat b + ?o \<le> 2 ^ 57"
    using b by (simp_all add: valid_addr_def)
  then have "range_contains a b (order_sizes s k) \<longleftrightarrow> unat b \<le> unat a \<and> unat a < unat b + ?o"
    using unat_order_sizes [OF sizes k] by (subst range_contains_iff) simp_all
  also have "\<dots> \<longleftrightarrow> unat a div ?o = unat b div ?o"
    using div_nat_eqI [of ?o "unat b div ?o" "unat a"] ub(1) div_times_less_eq_dividend [of "unat a" ?o]
      dividend_less_div_times [of ?o "unat a"]
    by (metis (no_types, lifting) add.commute mult.commute mult_Suc order_bytes_pos(1))
  finally show ?thesis
    by (auto simp: block_of_def)
qed

lemma search_block:
  fixes a :: u64
  assumes ok: "frames_ok s ps fl" and k: "k < FRAME_ORDERS"
  defines "P \<equiv> \<lambda>b. range_contains a b (order_sizes s k)"
  obtains (found) xs q b ys where "fl k = xs @ (q, b) # ys" "block_of k b = block_of k a" "block_of k a \<in> blocks fl"
      "q \<noteq> 0" "find_entry P (Suc loop_fuel) (heads s k) 0 s = Inr (q, if xs = [] then 0 else fst (last xs))"
    | (none) l where "block_of k a \<notin> blocks fl" "find_entry P (Suc loop_fuel) (heads s k) 0 s = Inr (0, l)"
proof -
  note ent = wf_lists_entries [OF frames_okD(1) [OF ok] k]
  have len: "length (fl k) < Suc loop_fuel"
    using entries_at_length [OF ent] by simp
  have P: "P b \<longleftrightarrow> block_of k b = block_of k a" if "(r, b) \<in> set (fl k)" for r b
    unfolding P_def by (rule range_contains_block [OF frames_okD(2) [OF ok] k good_lists_valid [OF frames_okD(3) [OF ok] k that]])
  show ?thesis
  proof (cases "\<exists>(r, b) \<in> set (fl k). P b")
    case True
    then obtain xs q b ys where split: "fl k = xs @ (q, b) # ys" "\<forall>(r, c) \<in> set xs. \<not> P c" "P b"
      by (rule first_satisfying)
    have "find_entry P (Suc loop_fuel) (heads s k) 0 s = Inr (q, if xs = [] then 0 else fst (last xs))"
      using ent len split by (intro find_entry_some) auto
    moreover have "block_of k b = block_of k a" "block_of k b \<in> blocks fl" "q \<noteq> 0"
      using split P [of q b] blocks_member [OF k, of q b fl] entries_at_nonzero [OF ent] by auto
    ultimately show ?thesis
      using found split(1) by metis
  next
    case False
    then have "block_of k a \<notin> blocks fl"
      using P by (auto simp: blocks_iff_fst image_iff)
    moreover have "\<exists>l. find_entry P (Suc loop_fuel) (heads s k) 0 s = Inr (0, l)"
      using ent len False by (intro find_entry_none) auto
    ultimately show ?thesis
      using none by blast
  qed
qed

section \<open>Removing one block\<close>

text \<open>
  On the way down every pair of free buddies but the one just split is merged.
\<close>

definition almost_coalesced :: "block set \<Rightarrow> nat \<Rightarrow> u64 \<Rightarrow> bool" where
  "almost_coalesced B n a \<longleftrightarrow>
     (\<forall>k < FRAME_ORDERS - 1. \<forall>j. (k, 2 * j) \<in> B \<and> (k, Suc (2 * j)) \<in> B \<longrightarrow>
        n = Suc k \<and> j = pair_of k a \<and> block_of k a \<in> B)"

lemma almost_coalescedI: "coalesced B \<Longrightarrow> almost_coalesced B n a"
  by (auto simp: almost_coalesced_def coalesced_def)

lemma almost_coalesced_miss: "almost_coalesced B (Suc k) a \<Longrightarrow> block_of k a \<notin> B \<Longrightarrow> coalesced B"
  by (auto simp: almost_coalesced_def coalesced_def)

lemma almost_coalesced_take:
  assumes "almost_coalesced B (Suc k) a" "B = insert (block_of k a) C" "block_of k a \<notin> C"
  shows "coalesced C"
  unfolding coalesced_def
proof (intro allI impI notI)
  fix l j
  assume l: "l < FRAME_ORDERS - 1" and both: "(l, 2 * j) \<in> C \<and> (l, Suc (2 * j)) \<in> C"
  then have "k = l" "j = pair_of k a"
    using assms(1,2) by (auto simp: almost_coalesced_def)
  then have "block_of k a = (l, 2 * j) \<or> block_of k a = (l, Suc (2 * j))"
    unfolding pair_of_block_of block_of_def by simp arith
  with both assms(3) show False
    by auto
qed

lemma almost_coalesced_split:
  assumes co: "coalesced C" and k: "Suc k < FRAME_ORDERS" and b: "valid_addr (Suc k) b"
    and same: "block_of (Suc k) b = block_of (Suc k) a"
  shows "almost_coalesced (insert (block_of k b) (insert (block_of k (b + 2 ^ (12 + k))) C)) (Suc k) a"
    and "block_of k a \<in> insert (block_of k b) (insert (block_of k (b + 2 ^ (12 + k))) C)"
proof -
  define i where "i = snd (block_of (Suc k) b)"
  note h = halves [OF k b, folded i_def]
  have i: "pair_of k a = i"
    using same by (simp add: i_def snd_block_of_Suc)
  have "block_of k a = (k, 2 * i) \<or> block_of k a = (k, Suc (2 * i))"
    using i unfolding pair_of_block_of block_of_def by simp arith
  then show mem: "block_of k a \<in> insert (block_of k b) (insert (block_of k (b + 2 ^ (12 + k))) C)"
    unfolding h by auto
  show "almost_coalesced (insert (block_of k b) (insert (block_of k (b + 2 ^ (12 + k))) C)) (Suc k) a"
    unfolding almost_coalesced_def
  proof (intro allI impI)
    fix l j
    assume l: "l < FRAME_ORDERS - 1" and both: "(l, 2 * j) \<in> insert (block_of k b) (insert (block_of k (b + 2 ^ (12 + k))) C) \<and>
        (l, Suc (2 * j)) \<in> insert (block_of k b) (insert (block_of k (b + 2 ^ (12 + k))) C)"
    have "\<not> ((l, 2 * j) \<in> C \<and> (l, Suc (2 * j)) \<in> C)"
      using co l by (auto simp: coalesced_def)
    with both have "l = k \<and> j = i"
      unfolding h by auto
    then show "Suc k = Suc l \<and> j = pair_of l a \<and> block_of l a \<in> insert (block_of k b) (insert (block_of k (b + 2 ^ (12 + k))) C)"
      using mem i by simp
  qed
qed

context frame_entry_source
begin

text \<open>The last step: the block itself leaves its list.\<close>

lemma remove_found:
  assumes ok: "frames_ok s ps fl" and k: "k < FRAME_ORDERS" and fl: "fl k = xs @ (q, a) # ys"
  obtains s1 s2 s3 ps' fl' where "unlink_entry k q (if xs = [] then prev else fst (last xs)) s = Inr s1"
    "e_payload (nodes s1 q) = a" "toggle_buddy_bit a k s1 = Inr s2" "free_memory_entry q s2 = Inr s3"
    "frames_ok s3 ps' fl'" "own_nodes ps' fl' = own_nodes ps fl" "only_own (own_nodes ps fl) s s3"
    "length ps' = Suc (length ps)" "blocks fl = insert (block_of k a) (blocks fl')" "block_of k a \<notin> blocks fl'"
    "free_pages (blocks fl') = free_pages (blocks fl) - block_pages (block_of k a)"
proof -
  let ?fl1 = "fl(k := xs @ ys)"
  obtain s1 where s1: "unlink_entry k q (if xs = [] then prev else fst (last xs)) s = Inr s1"
    "frames_but s1 ps ?fl1 k a" "fresh q ps ?fl1" "blocks fl = insert (block_of k a) (blocks ?fl1)"
    "own_nodes ps fl = insert q (own_nodes ps ?fl1)" "only_own (own_nodes ps fl) s s1" "e_payload (nodes s1 q) = a"
    by (rule unlink_block [OF ok k fl])
  obtain m where m: "toggle_buddy_bit a k s1 = Inr (s1\<lparr>buddy_maps := m\<rparr>)" "frames_ok (s1\<lparr>buddy_maps := m\<rparr>) ps ?fl1"
    by (rule toggle_taken [OF s1(2) k])
  note room = fresh_room [OF frames_okD(1) [OF m(2)] s1(3)]
  obtain s3 where s3: "free_memory_entry q (s1\<lparr>buddy_maps := m\<rparr>) = Inr s3" "wf_lists s3 (q # ps) ?fl1"
    "same_maps (s1\<lparr>buddy_maps := m\<rparr>) s3" "\<And>r. r \<noteq> q \<Longrightarrow> nodes s3 r = nodes s1 r"
    using wf_lists_free_memory_entry [OF frames_okD(1) [OF m(2)] s1(3) room] by auto
  have ok3: "frames_ok s3 (q # ps) ?fl1"
    using s3(2,3) frames_okD(2-4) [OF m(2)] bits_ok_cong [of s3 "s1\<lparr>buddy_maps := m\<rparr>"]
    by (intro frames_okI) (simp_all add: same_maps_def sizes_ok_rest [of "s1\<lparr>buddy_maps := m\<rparr>" s3])
  have "only_own (own_nodes ps fl) s1 s3"
    using s3(4) same_maps_rest [OF s3(3)] s1(5) by (auto simp: only_own_def same_rest_def)
  note only = only_own_trans [OF s1(6) this]
  have free: "block_pages (block_of k a) \<inter> free_pages (blocks ?fl1) = {}"
    by (rule frames_butD(6) [OF s1(2)])
  have pages: "free_pages (blocks ?fl1) = free_pages (blocks fl) - block_pages (block_of k a)"
    using free s1(4) by auto
  have "own_nodes (q # ps) ?fl1 = own_nodes ps fl"
    using s1(5) by (simp only: own_nodes_Cons)
  from that [OF s1(1,7) m(1) s3(1) ok3 this only _ s1(4) not_free_not_in [OF free] pages]
  show ?thesis
    by simp
qed

text \<open>The step before it: a bigger block that contains the address is split.\<close>

lemma remove_split:
  assumes ok: "frames_ok s (r # ps) fl" and k: "Suc k < FRAME_ORDERS" and fl: "fl (Suc k) = xs @ (q, b) # ys"
    and stock: "20 \<le> length (r # ps)"
  obtains s1 s2 fl' C where "unlink_entry (Suc k) q (if xs = [] then prev else fst (last xs)) s = Inr s1"
    "q \<noteq> 0" "split_entry gme q (Suc k) s1 = Inr s2" "frames_ok s2 ps fl'"
    "own_nodes ps fl' = own_nodes (r # ps) fl" "only_own (own_nodes (r # ps) fl) s s2"
    "blocks fl = insert (block_of (Suc k) b) C" "block_of (Suc k) b \<notin> C"
    "blocks fl' = insert (block_of k b) (insert (block_of k (b + 2 ^ (12 + k))) C)" "valid_addr (Suc k) b"
    "free_pages (blocks fl') = free_pages (blocks fl)"
proof -
  let ?fl1 = "fl(Suc k := xs @ ys)"
  obtain s1 where s1: "unlink_entry (Suc k) q (if xs = [] then prev else fst (last xs)) s = Inr s1"
    "frames_but s1 (r # ps) ?fl1 (Suc k) b" "fresh q (r # ps) ?fl1" "blocks fl = insert (block_of (Suc k) b) (blocks ?fl1)"
    "own_nodes (r # ps) fl = insert q (own_nodes (r # ps) ?fl1)" "only_own (own_nodes (r # ps) fl) s s1"
    "e_payload (nodes s1 q) = b"
    by (rule unlink_block [OF ok k fl])
  note but = frames_butD [OF s1(2)]
  define fl' where "fl' = ?fl1(k := (q, b) # (r, b + 2 ^ (12 + k)) # ?fl1 k)"
  obtain s2 where s2: "split_entry gme q (Suc k) s1 = Inr s2" "frames_ok s2 ps fl'"
    "only_own (insert q (own_nodes (r # ps) ?fl1)) s1 s2" "own_nodes ps fl' = insert q (own_nodes (r # ps) ?fl1)"
    unfolding fl'_def by (rule split_taken [OF s1(2) k s1(3) s1(7) stock])
  have k8: "k < FRAME_ORDERS"
    using k by simp
  have "fl' = (?fl1(k := (r, b + 2 ^ (12 + k)) # ?fl1 k))(k := (q, b) # (?fl1(k := (r, b + 2 ^ (12 + k)) # ?fl1 k)) k)"
    by (simp add: fl'_def)
  then have B: "blocks fl' = insert (block_of k b) (insert (block_of k (b + 2 ^ (12 + k))) (blocks ?fl1))"
    by (simp only: blocks_insert [OF k8])
  have pages: "free_pages (blocks fl') = free_pages (blocks fl)"
    using split_lists(2) [OF but(3) k but(5,6), of q r] s1(4) by (simp add: fl'_def)
  have "only_own (own_nodes (r # ps) fl) s s2"
    using only_own_trans [OF s1(6)] s2(3) s1(5) by simp
  then show ?thesis
    using that [OF s1(1) freshD(1) [OF s1(3)] s2(1,2) _ _ s1(4) not_free_not_in [OF but(6)] B but(5) pages] s2(4) s1(5)
    by simp
qed

lemma remove_block_ok:
  assumes "frames_ok s ps fl" "k < n" "n \<le> FRAME_ORDERS" "valid_addr k a" "20 + n \<le> length ps"
  shows "\<exists>ok s' ps' fl'. remove_block gme a k n s = Inr (ok, s') \<and> frames_ok s' ps' fl' \<and>
    own_nodes ps' fl' = own_nodes ps fl \<and> only_own (own_nodes ps fl) s s' \<and> length ps \<le> length ps' + n \<and>
    ok = (\<exists>l. k \<le> l \<and> l < n \<and> block_of l a \<in> blocks fl) \<and>
    (if ok then block_pages (block_of k a) \<subseteq> free_pages (blocks fl) \<and>
         free_pages (blocks fl') = free_pages (blocks fl) - block_pages (block_of k a)
     else s' = s \<and> ps' = ps \<and> fl' = fl) \<and>
    (ok \<and> almost_coalesced (blocks fl) n a \<longrightarrow> coalesced (blocks fl'))"
  using assms
proof (induction n arbitrary: s ps fl)
  case 0
  then show ?case
    by simp
next
  case (Suc n)
  note ok = Suc.prems(1)
  have n8: "n < FRAME_ORDERS"
    using Suc.prems(3) by simp
  show ?case
  proof (cases rule: search_block [OF ok n8, of a, case_names found none])
    case (none l)
    show ?thesis
    proof (cases "n = k")
      case True
      then have "remove_block gme a k (Suc n) s = Inr (False, s)"
        using none(2) n8 by (simp add: free_head_def del: find_entry.simps)
      moreover have "\<not> (\<exists>l. k \<le> l \<and> l < Suc n \<and> block_of l a \<in> blocks fl)"
        using True none(1) by (metis le_less_Suc_eq)
      ultimately show ?thesis
        using ok by (intro exI [of _ False] exI [of _ s] exI [of _ ps] exI [of _ fl]) simp
    next
      case False
      then have run: "remove_block gme a k (Suc n) s = remove_block gme a k n s"
        using none(2) n8 by (simp add: free_head_def del: find_entry.simps)
      have ex: "(\<exists>l. k \<le> l \<and> l < Suc n \<and> block_of l a \<in> blocks fl) = (\<exists>l. k \<le> l \<and> l < n \<and> block_of l a \<in> blocks fl)"
        using none(1) by (auto simp: less_Suc_eq)
      have co: "almost_coalesced (blocks fl) (Suc n) a \<longrightarrow> almost_coalesced (blocks fl) n a"
        using almost_coalesced_miss none(1) almost_coalescedI by blast
      have "k < n" "n \<le> FRAME_ORDERS" "20 + n \<le> length ps"
        using False Suc.prems(2,3,5) by simp_all
      from Suc.IH [OF ok this(1,2) Suc.prems(4) this(3)] show ?thesis
        unfolding run ex using co by (elim exE conjE) (intro exI conjI, assumption+, simp_all)
    qed
  next
    case (found xs q b ys)
    show ?thesis
    proof (cases "n = k")
      case True
      have b: "b = a"
        using found(1,2) True Suc.prems(4) good_lists_valid [OF frames_okD(3) [OF ok] n8, of q b] block_of_inj [of k b a]
        by simp
      obtain s1 s2 s3 ps' fl' where r: "unlink_entry k q (if xs = [] then 0 else fst (last xs)) s = Inr s1"
        "e_payload (nodes s1 q) = a" "toggle_buddy_bit a k s1 = Inr s2" "free_memory_entry q s2 = Inr s3"
        "frames_ok s3 ps' fl'" "own_nodes ps' fl' = own_nodes ps fl" "only_own (own_nodes ps fl) s s3"
        "length ps' = Suc (length ps)" "blocks fl = insert (block_of k a) (blocks fl')" "block_of k a \<notin> blocks fl'"
        "free_pages (blocks fl') = free_pages (blocks fl) - block_pages (block_of k a)"
        using remove_found [OF ok, of k xs q a ys 0] n8 found(1) True b by blast
      have "remove_block gme a k (Suc n) s = Inr (True, s3)"
        using True found(4,5) n8 r(1-4) by (simp add: free_head_def del: find_entry.simps)
      moreover have "almost_coalesced (blocks fl) (Suc n) a \<longrightarrow> coalesced (blocks fl')"
        using almost_coalesced_take r(9,10) True by blast
      moreover have "block_pages (block_of k a) \<subseteq> free_pages (blocks fl)"
        using r(9) by simp
      ultimately show ?thesis
        using r(5-8,11) found(3) True
        by (intro exI [of _ True] exI [of _ s3] exI [of _ ps'] exI [of _ fl']) auto
    next
      case False
      obtain m where m: "n = Suc m"
        using False Suc.prems(2) by (cases n) auto
      obtain t qs where ps: "ps = t # qs"
        using Suc.prems(5) by (cases ps) auto
      have stock: "20 \<le> length (t # qs)"
        using Suc.prems(5) ps by simp
      obtain s1 s2 fl1 C where "unlink_entry (Suc m) q (if xs = [] then 0 else fst (last xs)) s = Inr s1"
        "q \<noteq> 0" "split_entry gme q (Suc m) s1 = Inr s2" "frames_ok s2 qs fl1"
        "own_nodes qs fl1 = own_nodes (t # qs) fl" "only_own (own_nodes (t # qs) fl) s s2"
        "blocks fl = insert (block_of (Suc m) b) C" "block_of (Suc m) b \<notin> C"
        "blocks fl1 = insert (block_of m b) (insert (block_of m (b + 2 ^ (12 + m))) C)" "valid_addr (Suc m) b"
        "free_pages (blocks fl1) = free_pages (blocks fl)"
        by (rule remove_split [OF ok [unfolded ps] n8 [unfolded m] found(1) [unfolded m] stock])
      note r = this [folded m ps]
      have n8': "Suc m < FRAME_ORDERS"
        using n8 m by simp
      have mem: "block_of m a \<in> blocks fl1"
        using almost_coalesced_split(2) [OF _ n8', of "{}" b a] r(9,10) found(2) m
        by (auto simp: coalesced_def)
      then have ex: "\<exists>l. k \<le> l \<and> l < n \<and> block_of l a \<in> blocks fl1"
        using Suc.prems(2) False m by (intro exI [of _ m]) auto
      have "k < n" "n \<le> FRAME_ORDERS" "20 + n \<le> length qs"
        using False Suc.prems(2,3,5) ps by simp_all
      from Suc.IH [OF r(4) this(1,2) Suc.prems(4) this(3)] obtain rk s' ps' fl' where
        rk: "remove_block gme a k n s2 = Inr (rk, s')" "rk = (\<exists>l. k \<le> l \<and> l < n \<and> block_of l a \<in> blocks fl1)"
        "if rk then block_pages (block_of k a) \<subseteq> free_pages (blocks fl1) \<and>
            free_pages (blocks fl') = free_pages (blocks fl1) - block_pages (block_of k a)
          else s' = s2 \<and> ps' = qs \<and> fl' = fl1"
        "rk \<and> almost_coalesced (blocks fl1) n a \<longrightarrow> coalesced (blocks fl')" and
        rec: "frames_ok s' ps' fl'" "own_nodes ps' fl' = own_nodes qs fl1" "only_own (own_nodes qs fl1) s2 s'"
        "length qs \<le> length ps' + n"
        by (elim exE conjE)
      have rk_True: "rk"
        using ex rk(2) by simp
      note rec = rk(1) [unfolded rk_True [THEN eqTrueI]] rec
        rk(3) [unfolded rk_True [THEN eqTrueI] if_True, THEN conjunct1]
        rk(3) [unfolded rk_True [THEN eqTrueI] if_True, THEN conjunct2]
        rk(4) [unfolded rk_True [THEN eqTrueI] simp_thms]
      have "remove_block gme a k (Suc n) s = Inr (True, s')"
        using False m found(4,5) n8 r(1,3) rec(1) by (simp add: free_head_def del: find_entry.simps)
      moreover have "almost_coalesced (blocks fl) (Suc n) a \<longrightarrow> coalesced (blocks fl')"
      proof
        assume "almost_coalesced (blocks fl) (Suc n) a"
        then have "coalesced C"
          using almost_coalesced_take [of "blocks fl" n a C] r(7,8) found(2) by simp
        from almost_coalesced_split(1) [OF this n8', of b a] rec(8) r(9,10) found(2) m
        show "coalesced (blocks fl')"
          by simp
      qed
      moreover have "\<exists>l. k \<le> l \<and> l < Suc n \<and> block_of l a \<in> blocks fl"
        using found(3) Suc.prems(2) by (intro exI [of _ n]) auto
      ultimately show ?thesis
        using rec(2-7) r(5,6,11) only_own_trans [OF r(6)] ps
        by (intro exI [of _ True] exI [of _ s'] exI [of _ ps'] exI [of _ fl']) auto
    qed
  qed
qed

end

section \<open>Removing a range\<close>

lemma fit_aligned_order_spec:
  assumes sizes: "sizes_ok s" and "n + order = FRAME_ORDERS"
  shows "order \<le> fit_aligned_order a sz order s \<and> fit_aligned_order a sz order s \<le> FRAME_ORDERS \<and>
    (\<forall>l. order \<le> l \<and> l < fit_aligned_order a sz order s \<longrightarrow>
       order_bytes l dvd unat a \<and> order_bytes l \<le> unat sz)"
  using assms(2)
proof (induction n arbitrary: order)
  case 0
  then show ?case
    by (auto simp: fit_aligned_order.simps)
next
  case (Suc n)
  then have o: "order < FRAME_ORDERS"
    by simp
  let ?here = "a mod order_sizes s order = 0 \<and> order_sizes s order \<le> sz"
  have "a mod order_sizes s order = 0 \<longleftrightarrow> order_bytes order dvd unat a"
    using unat_order_sizes [OF sizes o]
    by (simp add: word_unat_eq_iff unat_mod dvd_eq_mod_eq_0 del: unat_eq_0)
  then have here: "?here \<longleftrightarrow> order_bytes order dvd unat a \<and> order_bytes order \<le> unat sz"
    using unat_order_sizes [OF sizes o] by (simp add: word_le_nat_alt)
  show ?case
  proof (cases ?here)
    case False
    then have "fit_aligned_order a sz order s = order"
      by (subst fit_aligned_order.simps) auto
    then show ?thesis
      using o by auto
  next
    case True
    then have eq: "fit_aligned_order a sz order s = fit_aligned_order a sz (order + 1) s"
      using o by (subst fit_aligned_order.simps) auto
    have "order_bytes l dvd unat a \<and> order_bytes l \<le> unat sz"
      if "order \<le> l" "l < fit_aligned_order a sz (order + 1) s" for l
      using that True here Suc.IH [of "order + 1"] Suc.prems by (cases "l = order") auto
    then show ?thesis
      using Suc.IH [of "order + 1"] Suc.prems unfolding eq by auto
  qed
qed

text \<open>The block the loop removes starts at the address and fits into the range.\<close>

lemma fit_aligned_order_page:
  assumes sizes: "sizes_ok s" and addr: "unat a = 4096 * pg" and sz: "unat sz = 4096 * w" "w \<noteq> 0"
    and bound: "pg + w \<le> 2 ^ 45"
  obtains k where "fit_aligned_order a sz 1 s - 1 = k" "k < FRAME_ORDERS" "valid_addr k a"
    "2 ^ k \<le> w" "block_pages (block_of k a) = {pg ..< pg + 2 ^ k}"
proof -
  define k where "k = fit_aligned_order a sz 1 s - 1"
  have f: "1 \<le> fit_aligned_order a sz 1 s \<and> fit_aligned_order a sz 1 s \<le> FRAME_ORDERS \<and>
    (\<forall>l. 1 \<le> l \<and> l < fit_aligned_order a sz 1 s \<longrightarrow> order_bytes l dvd unat a \<and> order_bytes l \<le> unat sz)"
    by (rule fit_aligned_order_spec [OF sizes, of 7]) (simp add: FRAME_ORDERS_def)
  then have k: "fit_aligned_order a sz 1 s = Suc k" "k < FRAME_ORDERS"
    by (auto simp: k_def)
  have ob: "order_bytes k = 4096 * 2 ^ k"
    by (simp add: order_bytes_def power_add)
  have fit: "order_bytes k dvd unat a \<and> order_bytes k \<le> unat sz"
  proof (cases "k = 0")
    case True
    with addr sz show ?thesis
      by (simp add: order_bytes_def)
  next
    case False
    with f k show ?thesis
      by simp
  qed
  have le: "2 ^ k \<le> w"
    using fit sz ob by simp
  have "valid_addr k a"
    using fit bound le addr by (simp add: valid_addr_def ob)
  moreover have "2 ^ k dvd pg"
    using fit addr ob by simp
  then have "block_pages (block_of k a) = {pg ..< pg + 2 ^ k}"
    by (auto simp: block_pages_def block_of_def addr ob)
  ultimately show ?thesis
    using that [OF k_def [symmetric] k(2)] le by simp
qed

context frame_entry_source
begin

lemma remove_range_loop_ok:
  assumes "frames_ok s ps fl" "unat a = 4096 * pg" "unat sz = 4096 * w" "pg + w \<le> 2 ^ 45"
    "28 + 8 * w \<le> length ps" "w < n"
  shows "\<exists>ok s' ps' fl'. remove_range_loop gme n a sz s = Inr (ok, s') \<and> frames_ok s' ps' fl' \<and>
    own_nodes ps' fl' = own_nodes ps fl \<and> only_own (own_nodes ps fl) s s' \<and>
    (ok \<longrightarrow> {pg ..< pg + w} \<subseteq> free_pages (blocks fl) \<and>
       free_pages (blocks fl') = free_pages (blocks fl) - {pg ..< pg + w}) \<and>
    (coalesced (blocks fl) \<longrightarrow> coalesced (blocks fl') \<and> ok = ({pg ..< pg + w} \<subseteq> free_pages (blocks fl)))"
  using assms
proof (induction n arbitrary: s ps fl a pg sz w)
  case 0
  then show ?case
    by simp
next
  case (Suc n)
  note ok = Suc.prems(1)
  show ?case
  proof (cases "w = 0")
    case True
    then have "sz = 0"
      using Suc.prems(3) by (simp add: unat_eq_0)
    with True ok show ?thesis
      by (intro exI [of _ True] exI [of _ s] exI [of _ ps] exI [of _ fl]) simp
  next
    case False
    then have sz0: "sz \<noteq> 0"
      using Suc.prems(3) by auto
    obtain k where k: "fit_aligned_order a sz 1 s - 1 = k" "k < FRAME_ORDERS" "valid_addr k a"
        "2 ^ k \<le> w" "block_pages (block_of k a) = {pg ..< pg + 2 ^ k}"
      by (rule fit_aligned_order_page [OF frames_okD(2) [OF ok] Suc.prems(2,3) False Suc.prems(4)])
    have "20 + FRAME_ORDERS \<le> length ps"
      using Suc.prems(5) by (simp add: FRAME_ORDERS_def)
    from remove_block_ok [OF ok k(2) order_refl k(3) this] obtain rk s1 ps1 fl1 where
      rk: "remove_block gme a k FRAME_ORDERS s = Inr (rk, s1)" "frames_ok s1 ps1 fl1"
        "own_nodes ps1 fl1 = own_nodes ps fl" "only_own (own_nodes ps fl) s s1" "length ps \<le> length ps1 + FRAME_ORDERS"
        "rk = (\<exists>l. k \<le> l \<and> l < FRAME_ORDERS \<and> block_of l a \<in> blocks fl)"
        "if rk then block_pages (block_of k a) \<subseteq> free_pages (blocks fl) \<and>
            free_pages (blocks fl1) = free_pages (blocks fl) - block_pages (block_of k a)
          else s1 = s \<and> ps1 = ps \<and> fl1 = fl"
        "rk \<and> almost_coalesced (blocks fl) FRAME_ORDERS a \<longrightarrow> coalesced (blocks fl1)"
      by (elim exE conjE)
    have whole: "{pg ..< pg + w} = block_pages (block_of k a) \<union> {pg + 2 ^ k ..< pg + w}"
      unfolding k(5) using k(4) by (intro ivl_disj_un_two(3) [symmetric]) simp_all
    have complete: "rk" if "coalesced (blocks fl)" "{pg ..< pg + w} \<subseteq> free_pages (blocks fl)"
    proof -
      have "block_pages (k, snd (block_of k a)) \<subseteq> free_pages (blocks fl)"
        using that(2) whole by (simp add: block_of_def)
      from coalesced_contains [OF that(1) _ k(2) this] blocks_orders obtain l where
        "k \<le> l" "l < FRAME_ORDERS" "(l, snd (block_of k a) div 2 ^ (l - k)) \<in> blocks fl"
        by blast
      then show "rk"
        using rk(6) block_of_le [of k l a] by auto
    qed
    show ?thesis
    proof (cases rk)
      case False
      then have "remove_block gme a k FRAME_ORDERS s = Inr (False, s)"
        using rk(1,7) by simp
      then have "remove_range_loop gme (Suc n) a sz s = Inr (False, s)"
        using k(1) sz0 by (simp add: Let_def)
      moreover have "coalesced (blocks fl) \<longrightarrow> \<not> {pg ..< pg + w} \<subseteq> free_pages (blocks fl)"
        using False complete by blast
      ultimately show ?thesis
        using ok by (intro exI [of _ False] exI [of _ s] exI [of _ ps] exI [of _ fl]) simp
    next
      case True
      have size_k: "unat (order_sizes s1 k) = 4096 * 2 ^ k"
        using unat_order_sizes [OF frames_okD(2) [OF rk(2)] k(2)] by (simp add: order_bytes_def power_add)
      have a': "unat (a + order_sizes s1 k) = 4096 * (pg + 2 ^ k)"
        using size_k Suc.prems(2,4) k(4) by (subst unat_add_u64) auto
      have sz': "unat (sz - order_sizes s1 k) = 4096 * (w - 2 ^ k)"
        using size_k Suc.prems(3) k(4) by (subst unat_sub_u64) (auto simp: word_le_nat_alt algebra_simps)
      have pow: "(1 :: nat) \<le> 2 ^ k"
        by simp
      have rest: "pg + 2 ^ k + (w - 2 ^ k) \<le> 2 ^ 45" "28 + 8 * (w - 2 ^ k) \<le> length ps1" "w - 2 ^ k < n"
        using Suc.prems(4-6) k(4) rk(5) pow unfolding FRAME_ORDERS_def by linarith+
      have last: "{pg + 2 ^ k ..< pg + 2 ^ k + (w - 2 ^ k)} = {pg + 2 ^ k ..< pg + w}"
        using k(4) by simp
      from Suc.IH [OF rk(2) a' sz' rest] obtain ok' s' ps' fl' where
        rec: "remove_range_loop gme n (a + order_sizes s1 k) (sz - order_sizes s1 k) s1 = Inr (ok', s')"
          "frames_ok s' ps' fl'" "own_nodes ps' fl' = own_nodes ps1 fl1" "only_own (own_nodes ps1 fl1) s1 s'"
          "ok' \<longrightarrow> {pg + 2 ^ k ..< pg + w} \<subseteq> free_pages (blocks fl1) \<and>
             free_pages (blocks fl') = free_pages (blocks fl1) - {pg + 2 ^ k ..< pg + w}"
          "coalesced (blocks fl1) \<longrightarrow> coalesced (blocks fl') \<and> ok' = ({pg + 2 ^ k ..< pg + w} \<subseteq> free_pages (blocks fl1))"
        unfolding last by (elim exE conjE)
      have pages: "block_pages (block_of k a) \<subseteq> free_pages (blocks fl)"
          "free_pages (blocks fl1) = free_pages (blocks fl) - block_pages (block_of k a)"
        using rk(7) True by simp_all
      have run: "remove_range_loop gme (Suc n) a sz s = Inr (ok', s')"
        using rk(1) True k(1) sz0 rec(1) by (simp add: Let_def)
      have "block_pages (block_of k a) \<inter> {pg + 2 ^ k ..< pg + w} = {}"
        using k(5) by auto
      then have sub: "{pg + 2 ^ k ..< pg + w} \<subseteq> free_pages (blocks fl1) \<longleftrightarrow> {pg ..< pg + w} \<subseteq> free_pages (blocks fl)"
        using pages whole by blast
      have "ok' \<longrightarrow> {pg ..< pg + w} \<subseteq> free_pages (blocks fl) \<and>
          free_pages (blocks fl') = free_pages (blocks fl) - {pg ..< pg + w}"
        using rec(5) sub pages whole by blast
      moreover have "coalesced (blocks fl) \<longrightarrow> coalesced (blocks fl') \<and> ok' = ({pg ..< pg + w} \<subseteq> free_pages (blocks fl))"
        using rec(6) rk(8) True almost_coalescedI sub by blast
      moreover have "only_own (own_nodes ps fl) s s'"
        using only_own_trans [OF rk(4)] rec(4) rk(3) by simp
      ultimately show ?thesis
        using run rec(2,3) rk(3)
        by (intro exI [of _ ok'] exI [of _ s'] exI [of _ ps'] exI [of _ fl']) simp
    qed
  qed
qed

lemma remove_range_ok:
  assumes ok: "frames_ok s ps fl" and "unat a = 4096 * pg" "pg + unat pages \<le> 2 ^ 45"
    "28 + 8 * unat pages \<le> length ps"
  shows "\<exists>ok s' ps' fl'. remove_range gme a pages s = Inr (ok, s') \<and> frames_ok s' ps' fl' \<and>
    own_nodes ps' fl' = own_nodes ps fl \<and> only_own (own_nodes ps fl) s s' \<and>
    (ok \<longrightarrow> {pg ..< pg + unat pages} \<subseteq> free_pages (blocks fl) \<and>
       free_pages (blocks fl') = free_pages (blocks fl) - {pg ..< pg + unat pages}) \<and>
    (coalesced (blocks fl) \<longrightarrow> coalesced (blocks fl') \<and> ok = ({pg ..< pg + unat pages} \<subseteq> free_pages (blocks fl)))"
proof -
  have "unat (pages * PAGE_SIZE) = 4096 * unat pages"
    using assms(3) by (subst unat_mult_u64) simp_all
  moreover have "unat pages < Suc loop_fuel"
    using assms(3) by (simp add: loop_fuel_def)
  ultimately show ?thesis
    unfolding remove_range_def using assms by (intro remove_range_loop_ok) simp_all
qed

end

end
