(* ===== verification/Frame_Properties.thy ===== *)
theory Frame_Properties
  imports Frame_Remove
begin

text \<open>
  What the frame allocator promises, for the node source of the kernel
  (\<open>get_memory_entry\<close> with any \<open>alloc_pages\<close>) while the pool of nodes is stocked, and a small
  allocator on which each promise is exercised.
\<close>

section \<open>A small allocator\<close>

text \<open>Sixty pool nodes at 16, 32, ..., 960 and one free block of the last order at address 0.\<close>

definition small_allocator :: "unit frame_state_scheme" where
  "small_allocator =
     \<lparr>nodes = (\<lambda>p. if p < 960 then \<lparr>e_next = p + 16, e_payload = 0\<rparr> else \<lparr>e_next = 0, e_payload = 0\<rparr>),
      pool_count = 60, pool_head = 16,
      heads = (\<lambda>k. if k = 7 then 0x1000 else 0), buddy_maps = (\<lambda>k i. 0),
      order_sizes = (\<lambda>k. 2 ^ (12 + k)), buddy_base = (\<lambda>k. 0), memory_size = 2 ^ 19\<rparr>"

definition small_pool :: "u64 list" where
  "small_pool = map (\<lambda>i. 16 * of_nat i) [1..<61]"

definition small_lists :: free_lists where
  "small_lists = (\<lambda>k. if k = 7 then [(0x1000, 0)] else [])"

text \<open>A kernel that is out of pages: a pool that has to refill fails.\<close>

definition no_pages :: "u64 \<Rightarrow> u32 \<Rightarrow> unit frame_state_scheme \<Rightarrow> (u64 \<times> unit frame_state_scheme) res" where
  "no_pages pages flags s = Inl (Assert_failed ''Out of memory'')"

lemma small_blocks: "blocks small_lists = {(7, 0)}"
proof (rule set_eqI)
  fix b :: block
  show "b \<in> blocks small_lists \<longleftrightarrow> b \<in> {(7, 0)}"
    by (cases b) (auto simp: blocks_iff_fst small_lists_def block_of_def FRAME_ORDERS_def)
qed

lemma small_allocator_ok: "frames_ok small_allocator small_pool small_lists"
proof (rule frames_okI)
  have "pool_at small_allocator small_pool"
    by (simp add: pool_at_def small_allocator_def small_pool_def upt_rec)
  moreover have "set small_pool \<inter> {0x1000} = {}"
    by (simp add: small_pool_def upt_rec)
  ultimately show "wf_lists small_allocator small_pool small_lists"
    by (auto simp: wf_lists_def small_allocator_def small_lists_def)
  show "sizes_ok small_allocator"
    by (simp add: sizes_ok_def small_allocator_def)
  show "good_lists small_lists"
    by (simp add: good_lists_def small_blocks blocks_disjoint_def)
      (simp add: small_lists_def valid_addr_def order_bytes_def)
  show "bits_ok small_allocator (blocks small_lists)"
    by (simp add: bits_ok_def pair_bit_at_def small_allocator_def small_blocks pair_bit_def FRAME_ORDERS_def)
qed

lemma small_facts:
  "length small_pool = 60" "length (small_lists 7) = 1" "free_pages (blocks small_lists) = {0..<128}"
  "coalesced (blocks small_lists)"
  by (simp_all add: small_pool_def small_blocks block_pages_def coalesced_def FRAME_ORDERS_def)
    (simp add: small_lists_def)

section \<open>Allocation lists\<close>

text \<open>
  C1. \<open>alloc_frames\<close> returns a list of allocations that stands for exactly the pages asked for:
  its blocks are disjoint, were all free and no longer are, the allocator keeps its invariant,
  and no node is lost. It returns NULL, with the free pages as they were, only when fewer pages
  are free than were asked for.
\<close>

theorem alloc_frames_exact:
  assumes "frames_ok s ps fl" and "20 + 7 * unat pages \<le> length ps"
    and "unat pages div 128 \<le> length (fl 7)" and "unat pages < 2 ^ 52"
  shows "\<exists>p s' ps' fl' als. alloc_frames (get_memory_entry ap) pages s = Inr (p, s') \<and>
    frames_ok s' ps' fl' \<and> allocs_at (nodes s') p als \<and>
    disjoint_allocs (free_pages (blocks fl')) als \<and>
    free_pages (blocks fl') \<union> alloc_pages_of als = free_pages (blocks fl) \<and>
    own_nodes ps' fl' \<union> fst ` set als = own_nodes ps fl \<and> only_own (own_nodes ps fl) s s' \<and>
    (if unat pages \<le> card (free_pages (blocks fl)) then alloc_size als = unat pages else als = [])"
  using frame_pool.alloc_frames_ok [OF assms, of ap] unfolding allocated_def
  by (elim exE conjE) (intro exI conjI, assumption+)

theorem alloc_frames_exact_witness:
  "\<exists>p s' ps' fl' als. alloc_frames (get_memory_entry no_pages) 3 small_allocator = Inr (p, s') \<and>
     frames_ok s' ps' fl' \<and> allocs_at (nodes s') p als \<and> alloc_size als = 3 \<and>
     free_pages (blocks fl') \<union> alloc_pages_of als = {0..<128}"
proof -
  have "20 + 7 * unat (3 :: u64) \<le> length small_pool" "unat (3 :: u64) div 128 \<le> length (small_lists 7)"
      "unat (3 :: u64) < 2 ^ 52" "unat (3 :: u64) \<le> card (free_pages (blocks small_lists))"
    by (simp_all add: small_facts)
  from alloc_frames_exact [OF small_allocator_ok this(1-3), of no_pages] this(4) show ?thesis
    unfolding small_facts(3) by (elim exE conjE) (intro exI conjI, assumption+, simp_all)
qed

text \<open>
  C2. \<open>free_frames\<close> on the allocations of a list gives exactly their pages back: every buddy
  the bitmaps announce is found, the invariant is kept, the nodes of the list become the
  allocator's, and when every pair of free buddies was merged before, it is again.
\<close>

theorem free_frames_returns:
  assumes "frames_ok s ps fl" and "allocs_at (nodes s) p als"
    and "\<forall>q \<in> fst ` set als. fresh q ps fl" and "disjoint_allocs (free_pages (blocks fl)) als"
  shows "\<exists>s' ps' fl'. free_frames p s = Inr s' \<and> frames_ok s' ps' fl' \<and>
    free_pages (blocks fl') = free_pages (blocks fl) \<union> alloc_pages_of als \<and>
    own_nodes ps' fl' = own_nodes ps fl \<union> fst ` set als \<and>
    only_own (own_nodes ps fl \<union> fst ` set als) s s' \<and>
    (coalesced (blocks fl) \<longrightarrow> coalesced (blocks fl'))"
  by (rule free_frames_ok [OF assms])

definition small_returned :: "unit frame_state_scheme" where
  "small_returned = small_allocator\<lparr>nodes := (nodes small_allocator)
     (0x2000 := \<lparr>e_next = 0, e_payload = 0x100000 + push_bit 57 2\<rparr>)\<rparr>"

theorem free_frames_returns_witness:
  "\<exists>s' ps' fl'. free_frames 0x2000 small_returned = Inr s' \<and> frames_ok s' ps' fl' \<and>
     free_pages (blocks fl') = {0..<128} \<union> {256..<260} \<and> coalesced (blocks fl')"
proof -
  let ?als = "[(0x2000, 2, 0x100000)] :: alloc list"
  have fresh: "fresh 0x2000 small_pool small_lists"
    by (auto simp: fresh_def small_lists_def small_pool_def upt_rec)
  have "wf_lists small_returned small_pool small_lists"
    unfolding small_returned_def by (rule wf_lists_upd_fresh [OF frames_okD(1) [OF small_allocator_ok] fresh])
  moreover have "sizes_ok small_returned" "bits_ok small_returned (blocks small_lists)"
    using frames_okD(2,4) [OF small_allocator_ok]
    by (simp_all add: small_returned_def sizes_ok_def bits_ok_def pair_bit_at_def)
  ultimately have ok: "frames_ok small_returned small_pool small_lists"
    using frames_okD(3) [OF small_allocator_ok] by (intro frames_okI)
  have pages: "block_pages (block_of 2 0x100000) = {256..<260}"
    by (simp add: block_pages_def block_of_def order_bytes_def)
  have at: "allocs_at (nodes small_returned) 0x2000 ?als"
    by (simp add: small_returned_def pfa_order_def pfa_addr_def take_bit_eq_mod drop_bit_eq_div)
  have "disjoint_allocs (free_pages (blocks small_lists)) ?als"
    by (simp add: small_facts pages valid_addr_def order_bytes_def FRAME_ORDERS_def)
  with free_frames_returns [OF ok at] fresh small_facts(3,4) pages show ?thesis
    by auto
qed

text \<open>
  C3. Allocating and freeing is the identity on the free pages and on the nodes of the
  allocator.
\<close>

theorem alloc_free_frames:
  assumes "frames_ok s ps fl" and "20 + 7 * unat pages \<le> length ps"
    and "unat pages div 128 \<le> length (fl 7)" and "unat pages < 2 ^ 52"
  shows "\<exists>p s' s'' ps'' fl''. alloc_frames (get_memory_entry ap) pages s = Inr (p, s') \<and>
    free_frames p s' = Inr s'' \<and> frames_ok s'' ps'' fl'' \<and>
    free_pages (blocks fl'') = free_pages (blocks fl) \<and> own_nodes ps'' fl'' = own_nodes ps fl"
proof -
  from frame_pool.alloc_frames_ok [OF assms, of ap] obtain p s' ps' fl' als where
    al: "alloc_frames (get_memory_entry ap) pages s = Inr (p, s')" "allocated s' ps' fl' als p"
      "own_nodes ps' fl' \<union> fst ` set als = own_nodes ps fl"
      "free_pages (blocks fl') \<union> alloc_pages_of als = free_pages (blocks fl)"
    by blast
  from free_frames_ok [OF allocatedD [OF al(2)]] al show ?thesis
    by metis
qed

theorem alloc_free_frames_witness:
  "\<exists>p s' s'' ps'' fl''. alloc_frames (get_memory_entry no_pages) 5 small_allocator = Inr (p, s') \<and>
    free_frames p s' = Inr s'' \<and> frames_ok s'' ps'' fl'' \<and> free_pages (blocks fl'') = {0..<128}"
proof -
  have "20 + 7 * unat (5 :: u64) \<le> length small_pool" "unat (5 :: u64) div 128 \<le> length (small_lists 7)"
      "unat (5 :: u64) < 2 ^ 52"
    by (simp_all add: small_facts)
  from alloc_free_frames [OF small_allocator_ok this, of no_pages] show ?thesis
    unfolding small_facts(3) by (elim exE conjE) (intro exI conjI, assumption+)
qed

section \<open>Contiguous blocks\<close>

text \<open>
  C16. When the smallest order that holds the pages, or one of the next two, has a free block,
  \<open>alloc_frames_contiguos\<close> hands out one aligned block of that order: it was free, it no longer
  is, and every other free page stays free.
\<close>

theorem alloc_frames_contiguos_block:
  assumes "frames_ok s ps fl" and "get_min_size_frame_order pages = Inr k" and "k < FRAME_ORDERS"
    and "l \<in> {k, k + 1, k + 2}" and "l < FRAME_ORDERS" and "fl l \<noteq> []" and "22 \<le> length ps"
  shows "\<exists>a s' ps' fl'. alloc_frames_contiguos (get_memory_entry ap) pages s = Inr (Some a, s') \<and>
    frames_ok s' ps' fl' \<and> valid_addr k a \<and>
    free_pages (blocks fl) = block_pages (block_of k a) \<union> free_pages (blocks fl') \<and>
    block_pages (block_of k a) \<inter> free_pages (blocks fl') = {} \<and>
    own_nodes ps' fl' = own_nodes ps fl \<and> only_own (own_nodes ps fl) s s' \<and> length ps \<le> Suc (length ps')"
  by (rule frame_pool.alloc_frames_contiguos_ok [OF assms])

lemma small_orders:
  "get_min_size_frame_order 100 = Inr 7" "get_min_size_frame_order 40 = Inr 6" "get_min_size_frame_order 3 = Inr 2"
  by (simp_all add: get_min_size_frame_order_def clzll_def bit_length.simps FRAME_ORDERS_def)

theorem alloc_frames_contiguos_block_witness:
  "\<exists>a s' ps' fl'. alloc_frames_contiguos (get_memory_entry no_pages) 40 small_allocator = Inr (Some a, s') \<and>
    frames_ok s' ps' fl' \<and> valid_addr 6 a \<and>
    block_pages (block_of 6 a) \<union> free_pages (blocks fl') = {0..<128}"
proof -
  have "6 < FRAME_ORDERS" "7 \<in> {6, 6 + 1, 6 + 2 :: nat}" "7 < FRAME_ORDERS" "small_lists 7 \<noteq> []"
      "22 \<le> length small_pool"
    using small_facts(1) by (simp_all add: FRAME_ORDERS_def small_lists_def)
  from alloc_frames_contiguos_block [OF small_allocator_ok small_orders(2) this, of no_pages] show ?thesis
    unfolding small_facts(3) by (elim exE conjE) (intro exI conjI, assumption+, simp)
qed

text \<open>
  Out of memory is not always reported: when the list of the wanted order and the two above
  it are empty and all three are orders, \<open>alloc_frames_contiguos\<close> dereferences the NULL head of the third.
\<close>

theorem alloc_frames_contiguos_dereferences_NULL:
  assumes "frames_ok s ps fl" and "get_min_size_frame_order pages = Inr k" and "k + 2 < FRAME_ORDERS"
    and "fl k = []" and "fl (k + 1) = []" and "fl (k + 2) = []"
  shows "alloc_frames_contiguos (get_memory_entry ap) pages s = Inl Null_deref"
  by (rule frame_pool.alloc_frames_contiguos_NULL [OF assms])

theorem alloc_frames_contiguos_dereferences_NULL_witness:
  "alloc_frames_contiguos (get_memory_entry no_pages) 3 small_allocator = Inl Null_deref"
  by (rule alloc_frames_contiguos_dereferences_NULL [OF small_allocator_ok small_orders(3)])
    (simp_all add: small_lists_def FRAME_ORDERS_def)

text \<open>
  C19. \<open>alloc_frames\<close> reads past the end of \<open>g_free_lists\<close> when at least 128 pages are wanted
  and the list of the last order is empty.
\<close>

theorem alloc_frames_out_of_bounds:
  assumes "frames_ok s ps fl" and "128 \<le> unat pages" and "unat pages < 2 ^ 52" and "fl 7 = []"
  shows "alloc_frames (get_memory_entry ap) pages s = Inl Out_of_bounds"
  by (rule frame_pool.alloc_frames_last_order [OF assms])

definition empty_allocator :: "unit frame_state_scheme" where
  "empty_allocator = small_allocator\<lparr>heads := (\<lambda>k. 0)\<rparr>"

lemma empty_allocator_ok: "frames_ok empty_allocator small_pool (\<lambda>k. [])"
proof (rule frames_okI)
  show "wf_lists empty_allocator small_pool (\<lambda>k. [])"
    using wf_lists_pool [OF frames_okD(1) [OF small_allocator_ok]]
    by (simp add: wf_lists_def empty_allocator_def pool_at_def)
  show "sizes_ok empty_allocator"
    by (simp add: sizes_ok_def empty_allocator_def small_allocator_def)
  show "good_lists (\<lambda>k. [])" "bits_ok empty_allocator (blocks (\<lambda>k. []))"
    by (simp_all add: good_lists_def blocks_def blocks_disjoint_def bits_ok_def pair_bit_at_def pair_bit_def
        empty_allocator_def small_allocator_def)
qed

theorem alloc_frames_out_of_bounds_witness:
  "alloc_frames (get_memory_entry no_pages) 200 empty_allocator = Inl Out_of_bounds"
  by (rule alloc_frames_out_of_bounds [OF empty_allocator_ok]) simp_all

text \<open>
  C18. \<open>free_frames_contiguos\<close> gives a block back: exactly its pages become free, all nodes
  stay the allocator's, and merging stays exhaustive.
\<close>

theorem free_frames_contiguos_returns:
  assumes "frames_ok s ps fl" and "get_min_size_frame_order pages = Inr k" and "k < FRAME_ORDERS"
    and "valid_addr k a" and "block_pages (block_of k a) \<inter> free_pages (blocks fl) = {}" and "20 \<le> length ps"
  shows "\<exists>s' ps' fl'. free_frames_contiguos (get_memory_entry ap) a pages s = Inr s' \<and> frames_ok s' ps' fl' \<and>
    free_pages (blocks fl') = free_pages (blocks fl) \<union> block_pages (block_of k a) \<and>
    own_nodes ps' fl' = own_nodes ps fl \<and> only_own (own_nodes ps fl) s s' \<and>
    (coalesced (blocks fl) \<longrightarrow> coalesced (blocks fl'))"
  by (rule frame_pool.free_frames_contiguos_ok [OF assms])

theorem free_frames_contiguos_returns_witness:
  "\<exists>s' ps' fl'. free_frames_contiguos (get_memory_entry no_pages) 0x100000 3 small_allocator = Inr s' \<and>
     frames_ok s' ps' fl' \<and> free_pages (blocks fl') = {0..<128} \<union> {256..<260}"
proof -
  have pages: "block_pages (block_of 2 0x100000) = {256..<260}"
    by (simp add: block_pages_def block_of_def order_bytes_def)
  have "2 < FRAME_ORDERS" "valid_addr 2 0x100000"
      "block_pages (block_of 2 0x100000) \<inter> free_pages (blocks small_lists) = {}" "20 \<le> length small_pool"
    by (simp_all add: FRAME_ORDERS_def valid_addr_def order_bytes_def pages small_facts)
  from free_frames_contiguos_returns [OF small_allocator_ok small_orders(3) this, of no_pages] show ?thesis
    unfolding small_facts(3) pages by (elim exE conjE) (intro exI conjI, assumption+)
qed

section \<open>Removing ranges\<close>

text \<open>
  C17. \<open>remove_range\<close> returns true only if every page of the range was free, and then removes
  these pages and no others. While every pair of free buddies is merged, as after
  initialization and after every \<open>free_frames\<close>, it returns true whenever all of them are free.
\<close>

theorem remove_range_exact:
  assumes "frames_ok s ps fl" and "unat a = 4096 * pg" and "pg + unat pages \<le> 2 ^ 45"
    and "28 + 8 * unat pages \<le> length ps"
  shows "\<exists>ok s' ps' fl'. remove_range (get_memory_entry ap) a pages s = Inr (ok, s') \<and> frames_ok s' ps' fl' \<and>
    own_nodes ps' fl' = own_nodes ps fl \<and> only_own (own_nodes ps fl) s s' \<and>
    (ok \<longrightarrow> {pg ..< pg + unat pages} \<subseteq> free_pages (blocks fl) \<and>
       free_pages (blocks fl') = free_pages (blocks fl) - {pg ..< pg + unat pages}) \<and>
    (coalesced (blocks fl) \<longrightarrow> coalesced (blocks fl') \<and> ok = ({pg ..< pg + unat pages} \<subseteq> free_pages (blocks fl)))"
  by (rule frame_pool.remove_range_ok [OF assms])

theorem remove_range_exact_witness:
  "\<exists>s' ps' fl'. remove_range (get_memory_entry no_pages) 0x3000 4 small_allocator = Inr (True, s') \<and>
     frames_ok s' ps' fl' \<and> free_pages (blocks fl') = {0..<128} - {3..<7} \<and> coalesced (blocks fl')"
proof -
  have "unat (0x3000 :: u64) = 4096 * 3" "3 + unat (4 :: u64) \<le> 2 ^ 45" "28 + 8 * unat (4 :: u64) \<le> length small_pool"
    by (simp_all add: small_facts)
  from remove_range_exact [OF small_allocator_ok this, of no_pages] obtain ok s' ps' fl' where
    "remove_range (get_memory_entry no_pages) 0x3000 4 small_allocator = Inr (ok, s')" "frames_ok s' ps' fl'"
    "ok \<longrightarrow> free_pages (blocks fl') = {0..<128} - {3..<7}" "coalesced (blocks fl')" "ok"
    by (elim exE conjE) (auto simp: small_facts)
  then show ?thesis
    by auto
qed

section \<open>Walks over allocation lists\<close>

lemma order_size_sum:
  assumes "frames_ok s ps fl" "allocs_at (nodes s) p als" "\<forall>(q, k, a) \<in> set als. k < FRAME_ORDERS"
    "unat sz + 4096 * alloc_size als < 2 ^ 64" "length als < n"
  shows "calculate_allocation_loop n p sz s = Inr ((sz + of_nat (4096 * alloc_size als)) div PAGE_SIZE)"
  using assms(2-)
proof (induction als arbitrary: n p sz)
  case Nil
  then show ?case
    by (cases n) auto
next
  case (Cons al als)
  obtain q k a where al: "al = (q, k, a)"
    by (cases al)
  obtain m where n: "n = Suc m" "length als < m"
    using Cons.prems(4) by (cases n) auto
  have k: "k < FRAME_ORDERS"
    using Cons.prems(2) al by simp
  have u: "unat (order_sizes s k) = 4096 * 2 ^ k"
    using unat_order_sizes [OF frames_okD(2) [OF assms(1)] k] by (simp add: order_bytes_def power_add)
  have "unat (sz + order_sizes s k) = unat sz + 4096 * 2 ^ k"
    using Cons.prems(3) al u by (subst unat_add_u64) auto
  then have "calculate_allocation_loop m (e_next (nodes s q)) (sz + order_sizes s k) s =
      Inr ((sz + order_sizes s k + of_nat (4096 * alloc_size als)) div PAGE_SIZE)"
    using Cons.prems al n by (intro Cons.IH) auto
  moreover have "order_sizes s k = of_nat (4096 * 2 ^ k)"
    using u by (metis of_nat_unat ucast_id)
  ultimately show ?case
    using Cons.prems(1) al n k by (simp add: get_frame_order_size_def algebra_simps)
qed

text \<open>
  \<open>calculate_allocation_pages\<close> returns the number of pages of an allocation list.
\<close>

theorem calculate_allocation_pages_size:
  assumes "frames_ok s ps fl" and "allocs_at (nodes s) p als"
    and "\<forall>(q, k, a) \<in> set als. k < FRAME_ORDERS" and "alloc_size als < 2 ^ 52"
  shows "calculate_allocation_pages p s = Inr (of_nat (alloc_size als))"
proof -
  have "(of_nat (4096 * alloc_size als) :: u64) div PAGE_SIZE = of_nat (alloc_size als)"
  proof -
    have "unat (of_nat (4096 * alloc_size als) :: u64) = 4096 * alloc_size als"
      using assms(4) unfolding unat_of_nat by simp
    moreover have "unat (of_nat (alloc_size als) :: u64) = alloc_size als"
      using assms(4) unfolding unat_of_nat by simp
    ultimately show ?thesis
      unfolding word_unat_eq_iff unat_div by simp
  qed
  moreover have "length als < Suc loop_fuel"
    using allocs_at_length [OF assms(2)] by simp
  ultimately show ?thesis
    using order_size_sum [OF assms(1-3), of 0 "Suc loop_fuel"] assms(4)
    by (simp add: calculate_allocation_pages_def del: calculate_allocation_loop.simps)
qed

theorem calculate_allocation_pages_size_witness:
  "calculate_allocation_pages 0x2000
     (small_allocator\<lparr>nodes := (nodes small_allocator)
        (0x2000 := \<lparr>e_next = 0x3000, e_payload = push_bit 57 2\<rparr>, 0x3000 := \<lparr>e_next = 0, e_payload = 0\<rparr>)\<rparr>) = Inr 5"
proof -
  let ?s = "small_allocator\<lparr>nodes := (nodes small_allocator)
        (0x2000 := \<lparr>e_next = 0x3000, e_payload = push_bit 57 2\<rparr>, 0x3000 := \<lparr>e_next = 0, e_payload = 0\<rparr>)\<rparr>"
  let ?als = "[(0x2000, 2, 0), (0x3000, 0, 0)] :: alloc list"
  have fresh: "fresh 0x2000 small_pool small_lists" "fresh 0x3000 small_pool small_lists"
    by (auto simp: fresh_def small_lists_def small_pool_def upt_rec)
  have "wf_lists ?s small_pool small_lists"
    using wf_lists_upd_fresh [OF wf_lists_upd_fresh [OF frames_okD(1) [OF small_allocator_ok] fresh(1)] fresh(2)] by simp
  then have ok: "frames_ok ?s small_pool small_lists"
    using frames_okD(2-4) [OF small_allocator_ok]
    by (intro frames_okI) (simp_all add: sizes_ok_def bits_ok_def pair_bit_at_def)
  have "allocs_at (nodes ?s) 0x2000 ?als"
    by (simp add: pfa_order_def pfa_addr_def)
  from calculate_allocation_pages_size [OF ok this] show ?thesis
    by (simp add: FRAME_ORDERS_def)
qed

lemma free_entries_loop_ok:
  assumes "frames_ok s ps fl" "allocs_at (nodes s) p als" "\<forall>q \<in> fst ` set als. fresh q ps fl" "length als < n"
  shows "\<exists>s'. free_entries_loop n p s = Inr s' \<and> frames_ok s' (rev (map fst als) @ ps) fl \<and>
    only_own (fst ` set als) s s'"
  using assms
proof (induction als arbitrary: s ps p n)
  case Nil
  then show ?case
    by (cases n) auto
next
  case (Cons al als)
  obtain q k a where al: "al = (q, k, a)"
    by (cases al)
  obtain m where n: "n = Suc m" "length als < m"
    using Cons.prems(4) by (cases n) auto
  note ok = Cons.prems(1)
  have q: "p = q" "q \<noteq> 0" "allocs_at (nodes s) (e_next (nodes s q)) als" "fresh q ps fl"
    using Cons.prems(2,3) al by auto
  obtain s1 where s1: "free_memory_entry q s = Inr s1" "wf_lists s1 (q # ps) fl" "same_maps s s1"
      "\<And>r. r \<noteq> q \<Longrightarrow> nodes s1 r = nodes s r"
    using wf_lists_free_memory_entry [OF frames_okD(1) [OF ok] q(4) fresh_room [OF frames_okD(1) [OF ok] q(4)]] by blast
  have ok1: "frames_ok s1 (q # ps) fl"
    using s1(2,3) frames_okD(2-4) [OF ok] bits_ok_cong [of s1 s] sizes_ok_rest [of s s1]
    by (intro frames_okI) (simp_all add: same_maps_def)
  have ne: "r \<noteq> q" if "r \<in> fst ` set als" for r
    using that allocs_at_distinct [OF Cons.prems(2)] al by auto
  then have "allocs_at (nodes s1) (e_next (nodes s q)) als"
    using q(3) allocs_at_cong [of als "nodes s1" "nodes s"] s1(4) by blast
  moreover have "\<forall>r \<in> fst ` set als. fresh r (q # ps) fl"
    using Cons.prems(3) ne al by (auto simp: fresh_iff own_nodes_Cons)
  ultimately obtain s2 where s2: "free_entries_loop m (e_next (nodes s q)) s1 = Inr s2"
      "frames_ok s2 (rev (map fst als) @ q # ps) fl" "only_own (fst ` set als) s1 s2"
    using Cons.IH [OF ok1 _ _ n(2)] by blast
  have "only_own (fst ` set (al # als)) s s1"
    using s1(4) same_maps_rest [OF s1(3)] al by (auto simp: only_own_def)
  then have "only_own (fst ` set (al # als)) s s2"
    using only_own_trans [OF _ only_own_mono [OF s2(3)]] by auto
  then show ?case
    using s1(1) s2(1,2) q(1,2) al n(1) by (intro exI [of _ s2]) (simp add: Let_def)
qed

text \<open>
  \<open>free_frame_allocation_entries\<close> gives the nodes of a list back to the pool, the last one
  first, and leaves the free pages alone: the frames stay allocated.
\<close>

theorem free_frame_allocation_entries_pool:
  assumes "frames_ok s ps fl" and "allocs_at (nodes s) p als" and "\<forall>q \<in> fst ` set als. fresh q ps fl"
  shows "\<exists>s'. free_frame_allocation_entries p s = Inr s' \<and> frames_ok s' (rev (map fst als) @ ps) fl \<and>
    only_own (fst ` set als) s s'"
  unfolding free_frame_allocation_entries_def
  using allocs_at_length [OF assms(2)] by (intro free_entries_loop_ok assms) simp

theorem free_frame_allocation_entries_pool_witness:
  "\<exists>s'. free_frame_allocation_entries 0x2000 (small_allocator\<lparr>nodes := (nodes small_allocator)
     (0x2000 := \<lparr>e_next = 0, e_payload = 0x100000\<rparr>)\<rparr>) = Inr s' \<and> frames_ok s' (0x2000 # small_pool) small_lists"
proof -
  let ?s = "small_allocator\<lparr>nodes := (nodes small_allocator)(0x2000 := \<lparr>e_next = 0, e_payload = 0x100000\<rparr>)\<rparr>"
  have fresh: "fresh 0x2000 small_pool small_lists"
    by (auto simp: fresh_def small_lists_def small_pool_def upt_rec)
  have ok: "frames_ok ?s small_pool small_lists"
    using wf_lists_upd_fresh [OF frames_okD(1) [OF small_allocator_ok] fresh] frames_okD(2-4) [OF small_allocator_ok]
    by (intro frames_okI) (simp_all add: sizes_ok_def bits_ok_def pair_bit_at_def)
  have "allocs_at (nodes ?s) 0x2000 [(0x2000, 0, 0x100000)]"
    by (simp add: pfa_order_def pfa_addr_def take_bit_eq_mod drop_bit_eq_div)
  from free_frame_allocation_entries_pool [OF ok this] fresh show ?thesis
    by auto
qed

section \<open>The pool\<close>

text \<open>
  \<open>fill_memory_entry_pool\<close> adds the 256 nodes of each page of a fresh region to the pool
  and changes nothing outside the region.
\<close>

theorem fill_memory_entry_pool_adds:
  assumes "pool_at s ps" and "0 < unat addr" and "unat addr + 4096 * unat pages \<le> 2 ^ 64"
    and "unat pages < 2 ^ 52" and "length ps + 256 * unat pages < 2 ^ 64"
    and "\<forall>p \<in> set ps. unat p < unat addr \<or> unat addr + 4096 * unat pages \<le> unat p"
  shows "\<exists>s'. fill_memory_entry_pool addr pages s = Inr s' \<and>
    pool_at s' (rev (map (\<lambda>i. addr + 16 * of_nat i) [0..<256 * unat pages]) @ ps) \<and>
    (\<forall>p. unat p < unat addr \<or> unat addr + 4096 * unat pages \<le> unat p \<longrightarrow> nodes s' p = nodes s p)"
proof -
  have "unat (pages * PAGE_SIZE) = 4096 * unat pages"
    using assms(4) by (subst unat_mult_u64) simp_all
  then have count: "unat ((pages * PAGE_SIZE) div 16) = 256 * unat pages"
    by (simp add: unat_div)
  let ?n = "256 * unat pages"
  have region: "unat addr + 16 * ?n \<le> 2 ^ 64"
    "\<And>p. p \<in> set ps \<Longrightarrow> unat p < unat addr \<or> unat addr + 16 * ?n \<le> unat p"
    using assms(3,6) by auto
  from fill_pool_loop_pool [OF _ assms(2) region] assms(1) obtain h pd where h:
    "fill_pool_loop ?n addr s = Inr (s\<lparr>nodes := h, pool_head := pd\<rparr>)"
    "list_at h pd (rev (map (\<lambda>i. addr + 16 * of_nat i) [0..<?n]) @ ps)"
    "\<forall>p. unat p < unat addr \<or> unat addr + 16 * ?n \<le> unat p \<longrightarrow> h p = nodes s p"
    unfolding pool_at_def by blast
  have "unat (pool_count s + (pages * PAGE_SIZE) div 16) = length ps + ?n"
    using assms(1,5) count by (subst unat_add_u64) (auto simp: pool_at_def)
  with h count show ?thesis
    by (intro exI [of _ "s\<lparr>nodes := h, pool_head := pd, pool_count := pool_count s + (pages * PAGE_SIZE) div 16\<rparr>"])
      (simp add: fill_memory_entry_pool_def pool_at_def Let_def)
qed

theorem fill_memory_entry_pool_adds_witness:
  "\<exists>s'. fill_memory_entry_pool 0x10000 1 small_allocator = Inr s' \<and>
     pool_at s' (rev (map (\<lambda>i. 0x10000 + 16 * of_nat i) [0..<256]) @ small_pool)"
proof -
  have "\<forall>p \<in> set small_pool. unat p < 0x10000"
    by (simp add: small_pool_def upt_rec)
  then show ?thesis
    using fill_memory_entry_pool_adds [OF wf_lists_pool [OF frames_okD(1) [OF small_allocator_ok]], where addr = "0x10000" and pages = 1]
    by (auto simp: small_facts)
qed

text \<open>
  A node given to a stocked pool is the next one handed out, and the pool is then as before.
\<close>

theorem free_get_memory_entry:
  assumes "pool_at s ps" and "p \<noteq> 0" and "p \<notin> set ps" and "19 \<le> length ps" and "length ps + 1 < 2 ^ 64"
  shows "\<exists>s1 s2. free_memory_entry p s = Inr s1 \<and> pool_at s1 (p # ps) \<and>
    get_memory_entry ap s1 = Inr (p, s2) \<and> pool_at s2 ps"
proof -
  from free_memory_entry_pool [OF assms(1-3,5)] obtain h pd c where h:
    "free_memory_entry p s = Inr (s\<lparr>nodes := h, pool_head := pd, pool_count := c\<rparr>)"
    "list_at h pd (p # ps)" "unat c = length (p # ps)"
    by blast
  let ?s1 = "s\<lparr>nodes := h, pool_head := pd, pool_count := c\<rparr>"
  have p1: "pool_at ?s1 (p # ps)"
    using h by (simp add: pool_at_def)
  have "20 \<le> length (p # ps)"
    using assms(4) by simp
  from refilling_pool.get [OF p1 this, of ap] obtain h' pd' c' where "get_memory_entry ap ?s1 = Inr (p, ?s1\<lparr>nodes := h', pool_head := pd', pool_count := c'\<rparr>)"
    "list_at h' pd' ps" "unat c' = length ps"
    by blast
  with h(1) p1 show ?thesis
    by (intro exI [of _ ?s1] exI [of _ "?s1\<lparr>nodes := h', pool_head := pd', pool_count := c'\<rparr>"])
      (simp add: pool_at_def)
qed

theorem free_get_memory_entry_witness:
  "\<exists>s1 s2. free_memory_entry 0x2000 small_allocator = Inr s1 \<and>
     get_memory_entry no_pages s1 = Inr (0x2000, s2) \<and> pool_at s2 small_pool"
proof -
  have "0x2000 \<notin> set small_pool" "19 \<le> length small_pool" "length small_pool + 1 < 2 ^ 64"
    by (simp_all add: small_facts) (simp add: small_pool_def upt_rec)
  from free_get_memory_entry [OF wf_lists_pool [OF frames_okD(1) [OF small_allocator_ok]] _ this, of no_pages]
  show ?thesis
    by auto
qed

end
