(* ===== verification/Kernel_Main.thy ===== *)
theory Kernel_Main
  imports Rendering
begin

text \<open>
  kernel/src/main.c, kernel/src/stage1_entry.c and apps/terminal/src/main.c: the jumps of the
  boot path, and the first program.
\<close>

section \<open>Jumps\<close>

record cpu =
  cpu_rsp :: u64
  cpu_rbp :: u64
  cpu_rip :: u64
  cpu_cs :: u16

text \<open>The stack of the linker script is set up and the kernel entered.\<close>

definition stage1_kernel_entry :: "u64 \<Rightarrow> u64 \<Rightarrow> cpu \<Rightarrow> cpu" where
  "stage1_kernel_entry s_stack_top kernel_entry_address c =
     c\<lparr>cpu_rsp := s_stack_top, cpu_rbp := s_stack_top, cpu_rip := kernel_entry_address\<rparr>"

text \<open>
  \<open>jump_to_kernel_virtual\<close> is entered with the return address on the stack; it moves the base and
  the stack pointer and the return address from the physical to the virtual addresses of the
  kernel and returns far, with the same code segment. \<open>stack\<close> is the word at a stack address.
\<close>

definition jump_to_kernel_virtual :: "(u64 \<Rightarrow> u64) \<Rightarrow> u64 \<Rightarrow> u64 \<Rightarrow> cpu \<Rightarrow> cpu" where
  "jump_to_kernel_virtual stack kernel_phys_addr kernel_virt_addr c =
     (let rbp = cpu_rbp c - kernel_phys_addr + kernel_virt_addr;
          rsp = cpu_rsp c - kernel_phys_addr + kernel_virt_addr;
          rdx = stack rsp;
          rdx = rdx - kernel_phys_addr + kernel_virt_addr
      in c\<lparr>cpu_rbp := rbp, cpu_rsp := rsp + 8, cpu_rip := rdx\<rparr>)"

section \<open>The terminal\<close>

text \<open>\<open>_start\<close> fills the frame buffer it got and loops; the model is the loop's fill.\<close>

definition terminal_fill :: "Framebuffer \<Rightarrow> (u64 \<Rightarrow> u32) \<Rightarrow> (u64 \<Rightarrow> u32)" where
  "terminal_fill fb = fold (\<lambda>i px. px(fb_address fb + 4 * of_nat i := 0xff0000)) [0..<unat (fb_height fb * fb_width fb)]"

end
