(* ===== verification/Kernel_Entry.thy ===== *)
theory Kernel_Entry
  imports Kernel_Main
begin

text \<open>
  \<open>kernel_entry\<close> of kernel/src/main.c: the screen is set up, then the parts of the kernel are
  initialized in turn, each reported on the screen. The initializations are the functions of the
  other theories, each on the state it works on; here they are the fields of \<open>initializers\<close>, on
  the kernel's state \<open>'k\<close> as a whole. The result is the state in which the kernel loops for ever.
\<close>

record 'k machine =
  kernel_state :: 'k
  machine_screen :: screen
  machine_cpu :: cpu

type_synonym 'k boot_step = "'k machine \<Rightarrow> 'k machine res"

record 'k initializers =
  init_memory :: "u64 \<Rightarrow> 'k machine \<Rightarrow> ((u64 \<times> u64) \<times> 'k machine) res"
  stack_word :: "'k \<Rightarrow> u64 \<Rightarrow> u64"
  init_kmap :: "u64 \<Rightarrow> u64 \<Rightarrow> u32 \<Rightarrow> 'k \<Rightarrow> (u64 \<times> 'k) res"
  init_acpi_memory :: "u64 \<Rightarrow> 'k boot_step"
  init_gdt :: "'k boot_step"
  init_idt :: "'k boot_step"
  init_exceptions :: "'k boot_step"
  init_free_uefi :: "u64 \<Rightarrow> 'k boot_step"
  init_acpi :: "u64 \<Rightarrow> 'k boot_step"
  init_pci :: "'k boot_step"
  init_apic :: "'k boot_step"
  init_ahci :: "'k boot_step"
  init_syscalls :: "'k boot_step"
  init_ps2 :: "'k boot_step"
  init_processes :: "'k boot_step"

definition report :: "string \<Rightarrow> u64 \<Rightarrow> 'k boot_step" where
  "report text_line y s =
     rbind (put_string (lit text_line) 10 y (machine_screen s)) (\<lambda>(_, screen). Inr (s\<lparr>machine_screen := screen\<rparr>))"

text \<open>Each step is reported in its line when it has ended.\<close>

fun run_steps :: "('k boot_step \<times> string \<times> u64) list \<Rightarrow> 'k boot_step" where
  "run_steps [] s = Inr s"
| "run_steps ((step, text_line, y) # steps) s =
     rbind (step s) (\<lambda>s. rbind (report text_line y s) (run_steps steps))"

definition banner :: "(string \<times> u64) list" where
  "banner = [(''       _     _____  _____  '', 4), (''   _ _| |_  |     ||  ___| '', 5), ('' _| |_   _| |  |  ||___  | '', 6),
     (''|_   _|_|   |_____||_____| '', 7), (''  |_|               Week-1 '', 8)]"

definition remap_step :: "'k initializers \<Rightarrow> 'k boot_step" where
  "remap_step ops s =
     rbind (remap_framebuffer (init_kmap ops) (kernel_state s, machine_screen s)) (\<lambda>(k, screen).
       Inr (s\<lparr>kernel_state := k, machine_screen := screen\<rparr>))"

definition later_steps :: "'k initializers \<Rightarrow> u64 \<Rightarrow> u64 \<Rightarrow> ('k boot_step \<times> string \<times> u64) list" where
  "later_steps ops mm rsdp =
     [(remap_step ops, ''Framebuffer remapped to virtual address space'', 11),
      (init_acpi_memory ops mm, ''Prepared ACPI memory'', 12),
      (init_gdt ops, ''Global descriptor table initalized'', 13),
      (init_idt ops, ''Interrupt descriptor table initalized'', 14),
      (init_exceptions ops, ''Registered exception interrupts'', 15),
      (init_free_uefi ops mm, ''UEFI data deallocated and identity mapping removed'', 16),
      (init_acpi ops rsdp, ''ACPI Initialized'', 17),
      (init_pci ops, ''PCI devices enumerated'', 18),
      (init_apic ops, ''APIC(s) set up and usable'', 19),
      (init_ahci ops, ''AHCI Initialized'', 20),
      (init_syscalls ops, ''Syscalls enabled'', 21),
      (init_ps2 ops, ''Keyboard initialized'', 22),
      (init_processes ops, ''Process system initialized'', 23)]"

definition kernel_entry :: "'k initializers \<Rightarrow> u64 \<Rightarrow> Framebuffer \<Rightarrow> u64 \<Rightarrow> 'k boot_step" where
  "kernel_entry ops mm fb rsdp s =
     (let screen = (machine_screen s)\<lparr>frame_buffer := fb\<rparr>;
          s = s\<lparr>machine_screen := clear_screen (bg_color screen) screen\<rparr> in
      rbind (run_steps (map (\<lambda>(line, y). (Inr, line, y)) banner) s) (\<lambda>s.
      rbind (init_memory ops mm s) (\<lambda>((kernel_phys_addr, kernel_virt_addr), s).
      rbind (report ''Memory initialized'' 9 s) (\<lambda>s.
      let s = s\<lparr>machine_cpu := jump_to_kernel_virtual (stack_word ops (kernel_state s)) kernel_phys_addr kernel_virt_addr (machine_cpu s)\<rparr> in
      rbind (report ''Kernel now running in virtual address space'' 10 s) (run_steps (later_steps ops mm rsdp))))))"

text \<open>A step that fails ends the boot: what the earlier steps did stays, later steps do not run.\<close>

lemma run_steps_append: "run_steps (xs @ ys) s = rbind (run_steps xs s) (run_steps ys)"
  by (induction xs s rule: run_steps.induct) (auto simp: rbind_def split: sum.splits)

lemma run_steps_fail:
  assumes "run_steps xs s = Inr s1" "step s1 = Inl e"
  shows "run_steps (xs @ (step, text_line, y) # ys) s = Inl e"
  using assms by (simp add: run_steps_append)

end
