(* ===== verification/Libc_Stdlib.thy ===== *)
theory Libc_Stdlib
  imports Byte_Memory
begin

text \<open>
  libc/src/stdlib: \<open>atoi\<close>, \<open>atol\<close> and \<open>atoll\<close>. The three files hold the same loops; they differ in
  the width of the result, 32 bits for \<open>int\<close> and 64 for \<open>long int\<close> and \<open>long long int\<close>. A value
  outside the type is a signed overflow, which C leaves undefined.
\<close>

section \<open>The functions\<close>

definition in_signed :: "nat \<Rightarrow> int \<Rightarrow> int res" where
  "in_signed w x = (if - (2 ^ (w - 1)) \<le> x \<and> x < 2 ^ (w - 1) then Inr x else Inl Undefined_arith)"

text \<open>\<open>while (*str == ' ') str++;\<close>\<close>

fun skip_spaces :: "nat \<Rightarrow> mem \<Rightarrow> u64 \<Rightarrow> u64 res" where
  "skip_spaces 0 m str = Inl Diverges"
| "skip_spaces (Suc k) m str = (if m str = 32 then skip_spaces k m (str + 1) else Inr str)"

text \<open>\<open>'-'\<close> is 45, \<open>'+'\<close> is 43 and \<open>'0'\<close> is 48.\<close>

definition read_sign :: "mem \<Rightarrow> u64 \<Rightarrow> bool \<times> u64" where
  "read_sign m str =
     (if m str = 45 then (True, str + 1) else (False, if m str = 43 then str + 1 else str))"

fun digits_loop :: "nat \<Rightarrow> nat \<Rightarrow> mem \<Rightarrow> u64 \<Rightarrow> int \<Rightarrow> int res" where
  "digits_loop w 0 m str r = Inl Diverges"
| "digits_loop w (Suc k) m str r =
     (let d = sint (m str) - 48 in
      if d > 0 \<and> d < 10 then
        rbind (in_signed w (10 * r)) (\<lambda>p. rbind (in_signed w (d + p)) (\<lambda>r. digits_loop w k m (str + 1) r))
      else Inr r)"

definition ascii_to_integer :: "nat \<Rightarrow> mem \<Rightarrow> u64 \<Rightarrow> int res" where
  "ascii_to_integer w m str =
     rbind (skip_spaces (Suc loop_fuel) m str) (\<lambda>str.
     let (sign, str) = read_sign m str in
     rbind (digits_loop w (Suc loop_fuel) m str 0) (\<lambda>r. if sign then in_signed w (- 1 * r) else Inr r))"

definition atoi :: "mem \<Rightarrow> u64 \<Rightarrow> int res" where
  "atoi = ascii_to_integer 32"

definition atol :: "mem \<Rightarrow> u64 \<Rightarrow> int res" where
  "atol = ascii_to_integer 64"

definition atoll :: "mem \<Rightarrow> u64 \<Rightarrow> int res" where
  "atoll = ascii_to_integer 64"

section \<open>The value of a numeral\<close>

text \<open>
  The reference: the decimal value of a list of digits, and a memory that holds a sequence of
  characters at an address.
\<close>

definition decimal :: "int list \<Rightarrow> int" where
  "decimal ds = foldl (\<lambda>r d. 10 * r + d) 0 ds"

fun holds :: "mem \<Rightarrow> u64 \<Rightarrow> u8 list \<Rightarrow> bool" where
  "holds m a [] \<longleftrightarrow> True"
| "holds m a (x # xs) \<longleftrightarrow> m a = x \<and> holds m (a + 1) xs"

lemma holds_append: "holds m a (xs @ ys) \<longleftrightarrow> holds m a xs \<and> holds m (a + of_nat (length xs)) ys"
  by (induction xs arbitrary: a) (auto simp: algebra_simps)

text \<open>The digit characters the loop accepts: \<open>'1'\<close> to \<open>'9'\<close>.\<close>

definition digit :: "u8 \<Rightarrow> bool" where
  "digit c \<longleftrightarrow> 0 < sint c - 48 \<and> sint c - 48 < 10"

definition digits :: "u8 list \<Rightarrow> int list" where
  "digits cs = map (\<lambda>c. sint c - 48) cs"

lemma foldl_decimal_mono:
  "0 \<le> r \<Longrightarrow> \<forall>d \<in> set ds. 0 \<le> d \<Longrightarrow> r \<le> foldl (\<lambda>r d. 10 * r + d) r ds" for r :: int
proof (induction ds arbitrary: r)
  case (Cons d ds)
  then have "10 * r + d \<le> foldl (\<lambda>r d. 10 * r + d) (10 * r + d) ds"
    by (intro Cons.IH) auto
  with Cons.prems show ?case
    by simp
qed simp

lemma digits_loop_value:
  assumes "0 < w" "0 \<le> r" "r < 2 ^ (w - 1)" "\<forall>c \<in> set cs. digit c" "\<not> digit t" "holds m a (cs @ [t])" "length cs < k"
  shows "digits_loop w k m a r =
    in_signed w (foldl (\<lambda>r d. 10 * r + d) r (digits cs))"
  using assms
proof (induction cs arbitrary: k a r)
  case Nil
  then obtain j where "k = Suc j"
    by (cases k) auto
  with Nil show ?case
    by (auto simp: digits_def digit_def in_signed_def Let_def)
next
  case (Cons c cs)
  then obtain j where k: "k = Suc j"
    by (cases k) auto
  let ?d = "sint c - 48"
  have d: "0 < ?d" "?d < 10"
    using Cons.prems by (auto simp: digit_def)
  have a: "m a = c" "holds m (a + 1) (cs @ [t])"
    using Cons.prems by auto
  have mono: "10 * r + ?d \<le> foldl (\<lambda>r d. 10 * r + d) (10 * r + ?d) (digits cs)"
    using Cons.prems d by (intro foldl_decimal_mono) (auto simp: digits_def digit_def)
  show ?case
  proof (cases "10 * r + ?d < 2 ^ (w - 1)")
    case True
    then have "in_signed w (10 * r) = Inr (10 * r)" "in_signed w (?d + 10 * r) = Inr (10 * r + ?d)"
      using Cons.prems d by (auto simp: in_signed_def intro: order_trans [of _ 0])
    moreover have "digits_loop w j m (a + 1) (10 * r + ?d) =
        in_signed w (foldl (\<lambda>r d. 10 * r + d) (10 * r + ?d) (digits cs))"
      using Cons.prems d True a k by (intro Cons.IH) auto
    ultimately show ?thesis
      using d a k by (simp add: digits_def Let_def)
  next
    case False
    then have "in_signed w (foldl (\<lambda>r d. 10 * r + d) (10 * r + ?d) (digits cs)) = Inl Undefined_arith"
      using mono by (simp add: in_signed_def)
    moreover have "rbind (in_signed w (10 * r)) (\<lambda>p. rbind (in_signed w (?d + p)) f) = Inl Undefined_arith" for f :: "int \<Rightarrow> int res"
      using False by (auto simp: in_signed_def)
    ultimately show ?thesis
      using d a k by (simp add: digits_def Let_def)
  qed
qed

lemma skip_spaces_ok:
  "holds m a (replicate n 32 @ [c]) \<Longrightarrow> c \<noteq> 32 \<Longrightarrow> n < k \<Longrightarrow> skip_spaces k m a = Inr (a + of_nat n)"
proof (induction n arbitrary: a k)
  case 0
  then show ?case by (cases k) auto
next
  case (Suc n)
  then show ?case by (cases k) (auto simp: add.assoc)
qed

text \<open>
  C24. \<open>atoi\<close>, \<open>atol\<close> and \<open>atoll\<close> of spaces, a sign and digits from 1 to 9, followed by any
  other character, give the decimal value with its sign when its magnitude fits the type, and
  overflow otherwise, also for the least negative value. A \<open>0\<close> is not a digit for the loop: it
  ends the number like any other character.
\<close>

theorem ascii_to_integer_value:
  assumes "holds m a (replicate n 32 @ sg @ cs @ [t])" and "sg \<in> {[], [43], [45]}"
    and "\<forall>c \<in> set cs. digit c" and "\<not> digit t" and "cs = [] \<and> sg = [] \<longrightarrow> t \<notin> {32, 43, 45}"
    and "n < 2 ^ 64" and "length cs < 2 ^ 64"
  shows "(let v = decimal (digits cs); s = (if sg = [45] then - v else v) in
      (if v < 2 ^ 31 then atoi m a = Inr s else atoi m a = Inl Undefined_arith) \<and>
      (if v < 2 ^ 63 then atol m a = Inr s else atol m a = Inl Undefined_arith) \<and>
      atoll m a = atol m a)"
proof -
  obtain c rest where c: "sg @ cs @ [t] = c # rest" "c \<noteq> 32"
  proof (cases "sg @ cs @ [t]")
    case Nil
    then show ?thesis by simp
  next
    case (Cons x xs)
    have "x \<noteq> 32"
      using assms(2,3,5) Cons by (cases cs) (auto simp: digit_def)
    with Cons show ?thesis
      by (rule that)
  qed
  let ?b = "a + of_nat n"
  have "holds m a (replicate n 32 @ [c])" and hb: "holds m ?b (sg @ cs @ [t])"
    using assms(1) c(1) by (auto simp: holds_append)
  from skip_spaces_ok [OF this(1) c(2)] assms(6) have skip: "skip_spaces (Suc loop_fuel) m a = Inr ?b"
    by (simp add: loop_fuel_def)
  obtain b' where b': "read_sign m ?b = (sg = [45], b')" "holds m b' (cs @ [t])"
  proof -
    have first: "m ?b = c" 
      using hb c(1) by simp
    show ?thesis
    proof (cases "sg = []")
      case True
      then have "c \<noteq> 43" "c \<noteq> 45"
        using assms(3,5) c(1) by (cases cs; auto simp: digit_def)+
      with True first hb show ?thesis
        by (intro that [of ?b]) (simp_all add: read_sign_def)
    next
      case False
      with assms(2) first hb c(1) show ?thesis
        by (intro that [of "?b + 1"]) (auto simp: read_sign_def)
    qed
  qed
  have "length cs < Suc loop_fuel"
    using assms(7) by (simp add: loop_fuel_def)
  then have loop: "digits_loop w (Suc loop_fuel) m b' 0 = in_signed w (decimal (digits cs))" if "0 < w" for w
    unfolding decimal_def using that by (intro digits_loop_value [OF _ _ _ assms(3,4) b'(2)]) auto
  have v: "0 \<le> decimal (digits cs)"
    unfolding decimal_def using assms(3) by (intro foldl_decimal_mono) (auto simp: digits_def digit_def)
  have "ascii_to_integer w m a = (if decimal (digits cs) < 2 ^ (w - 1)
      then Inr (if sg = [45] then - decimal (digits cs) else decimal (digits cs)) else Inl Undefined_arith)" if "0 < w" for w
    unfolding ascii_to_integer_def skip rbind_simps b'(1) Let_def prod.case loop [OF that]
    using v by (auto simp: in_signed_def)
  from this [of 32] this [of 64] show ?thesis
    by (simp add: atoi_def atol_def atoll_def Let_def)
qed

theorem ascii_to_integer_value_witness:
  "let m = (\<lambda>_. 0)(0 := 32, 1 := 45, 2 := 49, 3 := 50, 4 := 48, 5 := 55) in atoi m 0 = Inr (- 12)"
  using ascii_to_integer_value [of "(\<lambda>_. 0)(0 := 32, 1 := 45, 2 := 49, 3 := 50, 4 := 48, 5 := 55)" 0 1 "[45]" "[49, 50]" 48]
  by (simp add: digit_def digits_def decimal_def Let_def)

end
