(* ===== verification/Pci_Properties.thy ===== *)
theory Pci_Properties
  imports Pci
begin

text \<open>
  The enumeration of PCI functions against the set of functions that answer, and the lookup in the
  list it builds.
\<close>

fun pci_path :: "(u64 \<Rightarrow> PCIDeviceEntry) \<Rightarrow> u64 \<Rightarrow> u64 list \<Rightarrow> bool" where
  "pci_path h p [] \<longleftrightarrow> p = 0"
| "pci_path h p (q # qs) \<longleftrightarrow> p = q \<and> q \<noteq> 0 \<and> pci_path h (pci_next (h q)) qs"

lemma pci_path_cong: "(\<And>q. q \<in> set qs \<Longrightarrow> h q = h' q) \<Longrightarrow> pci_path h p qs = pci_path h' p qs"
  by (induction qs arbitrary: p) auto

abbreviation pci_flags :: u32 where
  "pci_flags \<equiv> PAGING_WRITABLE OR PAGING_CACHE_DISABLE"

text \<open>
  What the enumeration needs of the kernel: \<open>used\<close> are the addresses allocated, \<open>room\<close> bounds the
  allocations that still succeed.
\<close>

definition pci_services :: "'k pci_ops \<Rightarrow> ('k \<Rightarrow> u64 set) \<Rightarrow> ('k \<Rightarrow> nat) \<Rightarrow> bool" where
  "pci_services ops used room \<longleftrightarrow>
     (\<forall>phys k. \<exists>v k'. pci_kmap ops phys 1 pci_flags k = Inr (v, k') \<and> used k' = used k \<and> room k' = room k) \<and>
     (\<forall>v k. \<exists>k'. pci_kunmap ops v 1 k = Inr k' \<and> used k' = used k \<and> room k' = room k) \<and>
     (\<forall>k. 0 < room k \<longrightarrow> (\<exists>e k'. pci_kalloc ops 20 k = Inr (e, k') \<and> e \<noteq> 0 \<and> e \<notin> used k \<and> used k' = insert e (used k) \<and> Suc (room k') = room k))"

definition device_of :: "'k pci_ops \<Rightarrow> (u64 \<Rightarrow> PCIConfigSpace0) \<Rightarrow> u64 \<Rightarrow> PCIDeviceEntry \<Rightarrow> bool" where
  "device_of ops config phys e \<longleftrightarrow> pci_type e = pci_type_of (config phys) \<and>
     (\<exists>k k'. pci_kmap ops phys 1 pci_flags k = Inr (config_space e, k'))"

definition pci_inv :: "('k \<Rightarrow> u64 set) \<Rightarrow> 'k pci_state \<Rightarrow> u64 list \<Rightarrow> bool" where
  "pci_inv used s ps \<longleftrightarrow> pci_path (pci_entries s) (g_pci_device_list s) ps \<and> distinct ps \<and> set ps \<subseteq> used (pci_kernel s)"

text \<open>\<open>s'\<close> has the functions at \<open>physs\<close> in front of the devices of \<open>s\<close>, the last found first.\<close>

definition found_more :: "'k pci_ops \<Rightarrow> ('k \<Rightarrow> u64 set) \<Rightarrow> ('k \<Rightarrow> nat) \<Rightarrow> (u64 \<Rightarrow> PCIConfigSpace0) \<Rightarrow> 'k pci_state \<Rightarrow> 'k pci_state \<Rightarrow> u64 list \<Rightarrow> bool" where
  "found_more ops used room config s s' physs \<longleftrightarrow>
     room (pci_kernel s') + length physs = room (pci_kernel s) \<and>
     (\<forall>ps. pci_inv used s ps \<longrightarrow> (\<exists>qs. pci_inv used s' (qs @ ps) \<and> list_all2 (device_of ops config) (rev physs) (map (pci_entries s') qs) \<and>
        (\<forall>p \<in> set ps. pci_entries s' p = pci_entries s p)))"

lemma found_more_refl: "used (pci_kernel s') = used (pci_kernel s) \<Longrightarrow> room (pci_kernel s') = room (pci_kernel s) \<Longrightarrow>
    pci_entries s' = pci_entries s \<Longrightarrow> g_pci_device_list s' = g_pci_device_list s \<Longrightarrow> found_more ops used room config s s' []"
  by (auto simp: found_more_def pci_inv_def intro!: exI [of _ "[]"])

lemma found_more_trans:
  assumes "found_more ops used room config s s1 A" "found_more ops used room config s1 s2 B"
  shows "found_more ops used room config s s2 (A @ B)"
  unfolding found_more_def
proof (intro conjI allI impI)
  show "room (pci_kernel s2) + length (A @ B) = room (pci_kernel s)"
    using assms by (simp add: found_more_def)
  fix ps assume inv: "pci_inv used s ps"
  obtain qs where qs: "pci_inv used s1 (qs @ ps)" "list_all2 (device_of ops config) (rev A) (map (pci_entries s1) qs)"
    "\<forall>p \<in> set ps. pci_entries s1 p = pci_entries s p"
    using assms(1) inv unfolding found_more_def by blast
  obtain rs where rs: "pci_inv used s2 (rs @ qs @ ps)" "list_all2 (device_of ops config) (rev B) (map (pci_entries s2) rs)"
    "\<forall>p \<in> set (qs @ ps). pci_entries s2 p = pci_entries s1 p"
    using assms(2) qs(1) unfolding found_more_def by blast
  have "map (pci_entries s2) qs = map (pci_entries s1) qs"
    using rs(3) by simp
  then have "list_all2 (device_of ops config) (rev A) (map (pci_entries s2) qs)"
    using qs(2) by (simp only:)
  with rs(2) have "list_all2 (device_of ops config) (rev (A @ B)) (map (pci_entries s2) (rs @ qs))"
    by (simp add: list_all2_appendI)
  with qs(3) rs(1,3) show "\<exists>qs. pci_inv used s2 (qs @ ps) \<and> list_all2 (device_of ops config) (rev (A @ B)) (map (pci_entries s2) qs) \<and>
      (\<forall>p \<in> set ps. pci_entries s2 p = pci_entries s p)"
    by (intro exI [of _ "rs @ qs"]) auto
qed

text \<open>The functions of a device that are looked at, and the addresses of those that answer.\<close>

definition visited_functions :: "(u64 \<Rightarrow> PCIConfigSpace0) \<Rightarrow> u64 \<Rightarrow> nat \<Rightarrow> nat \<Rightarrow> nat list \<Rightarrow> nat list" where
  "visited_functions config base bus device funcs =
     takeWhile (\<lambda>func. func = 0 \<or> header_type (config (config_phys_addr base bus device func)) AND 0x80 \<noteq> 0) funcs"

definition present_functions :: "(u64 \<Rightarrow> PCIConfigSpace0) \<Rightarrow> u64 \<Rightarrow> nat \<Rightarrow> nat \<Rightarrow> nat list \<Rightarrow> u64 list" where
  "present_functions config base bus device funcs =
     filter (\<lambda>phys. vendor_id (config phys) \<noteq> 0xffff) (map (config_phys_addr base bus device) (visited_functions config base bus device funcs))"

lemma add_device_found:
  assumes ops: "pci_services ops used room" and room: "0 < room (pci_kernel s)"
    and map: "pci_kmap ops phys 1 pci_flags k0 = Inr (v, k1)"
  shows "\<exists>s'. add_device ops (config phys) v s = Inr s' \<and> found_more ops used room config s s' [phys]"
proof -
  obtain e k' where e: "pci_kalloc ops 20 (pci_kernel s) = Inr (e, k')" "e \<noteq> 0" "e \<notin> used (pci_kernel s)"
    "used k' = insert e (used (pci_kernel s))" "Suc (room k') = room (pci_kernel s)"
    using ops room unfolding pci_services_def by blast
  let ?s = "s\<lparr>pci_kernel := k',
       pci_entries := (pci_entries s)(e := \<lparr>pci_next = g_pci_device_list s, config_space = v, pci_type = pci_type_of (config phys)\<rparr>),
       g_pci_device_list := e\<rparr>"
  have run: "add_device ops (config phys) v s = Inr ?s"
    using e by (simp add: add_device_def)
  have "found_more ops used room config s ?s [phys]"
    unfolding found_more_def
  proof (intro conjI allI impI)
    fix ps assume inv: "pci_inv used s ps"
    then have "e \<notin> set ps"
      using e(3) by (auto simp: pci_inv_def)
    then have "pci_path (pci_entries ?s) (g_pci_device_list s) ps = pci_path (pci_entries s) (g_pci_device_list s) ps"
      by (intro pci_path_cong) auto
    with inv e map \<open>e \<notin> set ps\<close> show "\<exists>qs. pci_inv used ?s (qs @ ps) \<and> list_all2 (device_of ops config) (rev [phys]) (map (pci_entries ?s) qs) \<and>
        (\<forall>p \<in> set ps. pci_entries ?s p = pci_entries s p)"
      by (intro exI [of _ "[e]"]) (auto simp: pci_inv_def device_of_def)
  qed (use e(5) in simp)
  with run show ?thesis
    by blast
qed

lemma scan_functions_found:
  assumes ops: "pci_services ops used room"
  shows "length (present_functions config base bus device funcs) \<le> room (pci_kernel s) \<Longrightarrow>
    \<exists>s'. scan_functions ops config base bus device funcs s = Inr s' \<and>
      found_more ops used room config s s' (present_functions config base bus device funcs)"
proof (induction funcs arbitrary: s)
  case Nil
  then show ?case
    by (simp add: present_functions_def visited_functions_def found_more_refl)
next
  case (Cons func funcs)
  let ?phys = "config_phys_addr base bus device func"
  let ?rest = "present_functions config base bus device funcs"
  obtain v k where map: "pci_kmap ops ?phys 1 pci_flags (pci_kernel s) = Inr (v, k)" "used k = used (pci_kernel s)" "room k = room (pci_kernel s)"
    using ops unfolding pci_services_def by blast
  obtain k' where unmap: "pci_kunmap ops v 1 k = Inr k'" "used k' = used k" "room k' = room k"
    using ops unfolding pci_services_def by blast
  let ?multi = "header_type (config ?phys) AND 0x80 \<noteq> 0" and ?exists = "vendor_id (config ?phys) \<noteq> 0xffff"
  have start: "found_more ops used room config s (s\<lparr>pci_kernel := k'\<rparr>) []" "found_more ops used room config s (s\<lparr>pci_kernel := k\<rparr>) []"
    using map unmap by (auto intro: found_more_refl)
  consider (stop) "func > 0" "\<not> ?multi" | (skip) "func = 0 \<or> ?multi" "\<not> ?exists" | (add) "func = 0 \<or> ?multi" "?exists"
    by auto
  then show ?case
  proof cases
    case stop
    then have "present_functions config base bus device (func # funcs) = []"
      by (simp add: present_functions_def visited_functions_def)
    with stop start map unmap show ?thesis
      by (simp add: Let_def)
  next
    case skip
    then have p: "present_functions config base bus device (func # funcs) = ?rest"
      by (auto simp: present_functions_def visited_functions_def)
    obtain s' where "scan_functions ops config base bus device funcs (s\<lparr>pci_kernel := k'\<rparr>) = Inr s'"
      "found_more ops used room config (s\<lparr>pci_kernel := k'\<rparr>) s' ?rest"
      using Cons p map(3) unmap(3) by (metis pci_state.select_convs(3) pci_state.surjective pci_state.update_convs(3))
    with skip map unmap found_more_trans [OF start(1)] show ?thesis
      unfolding p by (auto simp: Let_def)
  next
    case add
    then have p: "present_functions config base bus device (func # funcs) = ?phys # ?rest"
      by (auto simp: present_functions_def visited_functions_def)
    let ?s = "s\<lparr>pci_kernel := k\<rparr>"
    have room: "0 < room (pci_kernel ?s)"
      using Cons.prems map(3) unfolding p by simp
    obtain s1 where s1: "add_device ops (config ?phys) v ?s = Inr s1" "found_more ops used room config ?s s1 [?phys]"
      using add_device_found [OF ops room map(1)] by blast
    have "length ?rest \<le> room (pci_kernel s1)"
      using s1(2) Cons.prems map(3) unfolding p by (simp add: found_more_def)
    from Cons.IH [OF this] obtain s' where s': "scan_functions ops config base bus device funcs s1 = Inr s'" "found_more ops used room config s1 s' ?rest"
      by blast
    have "found_more ops used room config s s' (?phys # ?rest)"
      using found_more_trans [OF found_more_trans [OF start(2) s1(2)] s'(2)] by simp
    with add map s1(1) s'(1) show ?thesis
      unfolding p by (auto simp: Let_def)
  qed
qed

definition bus_functions :: "(u64 \<Rightarrow> PCIConfigSpace0) \<Rightarrow> u64 \<Rightarrow> nat list \<Rightarrow> nat \<Rightarrow> u64 list" where
  "bus_functions config base devices bus = concat (map (\<lambda>device. present_functions config base bus device [0..<8]) devices)"

definition segment_functions :: "mem \<Rightarrow> (u64 \<Rightarrow> PCIConfigSpace0) \<Rightarrow> u64 \<Rightarrow> u64 list" where
  "segment_functions m config entry =
     concat (map (bus_functions config (load64 m entry) [0..<32]) [unat (m (entry + 10))..<unat (m (entry + 11))])"

text \<open>A loop whose turns each find the functions \<open>f x\<close>.\<close>

lemma found_more_loop:
  assumes turn: "\<And>s. length (f x) \<le> room (pci_kernel s) \<Longrightarrow> \<exists>s'. step s = Inr s' \<and> found_more ops used room config s s' (f x)"
    and rest: "\<And>s. length rs \<le> room (pci_kernel s) \<Longrightarrow> \<exists>s'. cont s = Inr s' \<and> found_more ops used room config s s' rs"
    and room: "length (f x @ rs) \<le> room (pci_kernel s)"
  shows "\<exists>s'. rbind (step s) cont = Inr s' \<and> found_more ops used room config s s' (f x @ rs)"
proof -
  have "length (f x) \<le> room (pci_kernel s)"
    using room by simp
  then obtain s1 where s1: "step s = Inr s1" "found_more ops used room config s s1 (f x)"
    using turn by blast
  then have "length rs \<le> room (pci_kernel s1)"
    using room by (simp add: found_more_def)
  then obtain s' where "cont s1 = Inr s'" "found_more ops used room config s1 s' rs"
    using rest by blast
  with s1 found_more_trans show ?thesis
    by (metis rbind_simps(2))
qed

lemma scan_devices_found:
  assumes "pci_services ops used room"
  shows "length (bus_functions config base devices bus) \<le> room (pci_kernel s) \<Longrightarrow>
    \<exists>s'. scan_devices ops config base bus devices s = Inr s' \<and> found_more ops used room config s s' (bus_functions config base devices bus)"
proof (induction devices arbitrary: s)
  case (Cons device devices)
  have "bus_functions config base (device # devices) bus = present_functions config base bus device [0..<8] @ bus_functions config base devices bus"
    by (simp add: bus_functions_def)
  with found_more_loop [where f = "\<lambda>device. present_functions config base bus device [0..<8]" and x = device, OF scan_functions_found [OF assms] Cons.IH] Cons.prems
  show ?case
    by (simp del: upt_Suc)
qed (simp add: bus_functions_def found_more_refl)

lemma scan_buses_found:
  assumes "pci_services ops used room"
  shows "length (concat (map (bus_functions config base [0..<32]) buses)) \<le> room (pci_kernel s) \<Longrightarrow>
    \<exists>s'. scan_buses ops config base buses s = Inr s' \<and> found_more ops used room config s s' (concat (map (bus_functions config base [0..<32]) buses))"
proof (induction buses arbitrary: s)
  case (Cons bus buses)
  with found_more_loop [where f = "bus_functions config base [0..<32]" and x = bus, OF scan_devices_found [OF assms] Cons.IH]
  show ?case
    by (simp del: upt_Suc)
qed (simp add: found_more_refl)

lemma scan_segments_found:
  assumes "pci_services ops used room"
  shows "length (concat (map (\<lambda>i. segment_functions m config (entry + 16 * of_nat i)) [0..<n])) \<le> room (pci_kernel s) \<Longrightarrow>
    \<exists>s'. scan_segments m ops config entry n s = Inr s' \<and>
      found_more ops used room config s s' (concat (map (\<lambda>i. segment_functions m config (entry + 16 * of_nat i)) [0..<n]))"
proof (induction n arbitrary: s entry)
  case (Suc n)
  have up: "map (\<lambda>i. segment_functions m config (entry + 16 * of_nat i)) [0..<Suc n] =
      segment_functions m config entry # map (\<lambda>i. segment_functions m config (entry + 16 + 16 * of_nat i)) [0..<n]"
    by (simp add: upt_conv_Cons map_Suc_upt [symmetric] comp_def algebra_simps del: upt_Suc map_Suc_upt)
  from found_more_loop [where f = "segment_functions m config" and x = entry, OF scan_buses_found [OF assms, of config "load64 m entry" "[unat (m (entry + 10))..<unat (m (entry + 11))]", folded segment_functions_def] Suc.IH [of "entry + 16"]] Suc.prems
  show ?case
    unfolding up by simp
qed (simp add: found_more_refl)

lemma get_pci_device_loop_find:
  "pci_path h p qs \<Longrightarrow> length qs < n \<Longrightarrow>
     get_pci_device_loop n h p ty mk = Inr (case find (\<lambda>e. pci_type e AND mk = ty) (map h qs) of Some e \<Rightarrow> config_space e | None \<Rightarrow> 0)"
proof (induction qs arbitrary: p n)
  case Nil
  then show ?case
    by (cases n) auto
next
  case (Cons q qs)
  then show ?case
    by (cases n) auto
qed

section \<open>The functions of the configuration space\<close>

text \<open>
  What the specification counts, independent of the loops: the devices of the buses the MCFG table
  names, the addresses of their functions, the functions that answer, and those whose own header
  has the multi-function bit.
\<close>

definition answers :: "(u64 \<Rightarrow> PCIConfigSpace0) \<Rightarrow> u64 \<Rightarrow> bool" where
  "answers config phys \<longleftrightarrow> vendor_id (config phys) \<noteq> 0xffff"

definition multi_function :: "(u64 \<Rightarrow> PCIConfigSpace0) \<Rightarrow> u64 \<Rightarrow> bool" where
  "multi_function config phys \<longleftrightarrow> bit (header_type (config phys)) 7"

definition mcfg_devices :: "mem \<Rightarrow> u64 \<Rightarrow> (u64 \<times> nat \<times> nat) list" where
  "mcfg_devices m mcfg =
     [(load64 m entry, bus, device).
        entry \<leftarrow> map (\<lambda>i. mcfg + 44 + 16 * of_nat i) [0..<unat ((ucast (sdt_length m mcfg) - 44) div 16 :: u64)],
        bus \<leftarrow> [unat (m (entry + 10))..<unat (m (entry + 11))], device \<leftarrow> [0..<32]]"

definition functions_of :: "u64 \<times> nat \<times> nat \<Rightarrow> (nat \<times> u64) list" where
  "functions_of = (\<lambda>(base, bus, device). map (\<lambda>func. (func, config_phys_addr base bus device func)) [0..<8])"

definition answering_functions :: "(u64 \<Rightarrow> PCIConfigSpace0) \<Rightarrow> u64 \<times> nat \<times> nat \<Rightarrow> u64 list" where
  "answering_functions config d = filter (answers config) (map snd (functions_of d))"

text \<open>
  The functions found: those that answer and have, like every function of the device between function
  0 and them, the multi-function bit in their own header.
\<close>

definition found_functions :: "(u64 \<Rightarrow> PCIConfigSpace0) \<Rightarrow> u64 \<times> nat \<times> nat \<Rightarrow> u64 list" where
  "found_functions config d = map snd (filter (\<lambda>(func, phys). answers config phys \<and>
     (\<forall>(f, p) \<in> set (functions_of d). 0 < f \<and> f \<le> func \<longrightarrow> multi_function config p)) (functions_of d))"

definition bits_complete :: "(u64 \<Rightarrow> PCIConfigSpace0) \<Rightarrow> u64 \<times> nat \<times> nat \<Rightarrow> bool" where
  "bits_complete config d \<longleftrightarrow> (\<forall>(f, p) \<in> set (functions_of d). 0 < f \<longrightarrow> multi_function config p)"

lemma found_all: "bits_complete config d \<Longrightarrow> found_functions config d = answering_functions config d"
  unfolding found_functions_def answering_functions_def bits_complete_def filter_map comp_def
  by (intro arg_cong [of _ _ "map snd"] filter_cong refl) auto

lemma takeWhile_upt: "takeWhile P [0..<n] = filter (\<lambda>i. \<forall>j \<le> i. P j) [0..<n]"
proof (induction n)
  case (Suc n)
  show ?case
  proof (cases "\<forall>j < n. P j")
    case True
    then have "takeWhile P [0..<n] = [0..<n]" "filter (\<lambda>i. \<forall>j \<le> i. P j) [0..<n] = [0..<n]"
      by (auto simp: takeWhile_eq_all_conv filter_id_conv)
    moreover have "(\<forall>j \<le> n. P j) \<longleftrightarrow> P n"
      using True by (auto simp: le_less)
    moreover have "takeWhile P ([0..<n] @ [n]) = [0..<n] @ takeWhile P [n]"
      using True by (intro takeWhile_append2) simp
    ultimately show ?thesis
      by simp
  next
    case False
    then obtain j where "j < n" "\<not> P j"
      by blast
    then have "takeWhile P ([0..<n] @ [n]) = takeWhile P [0..<n]"
      by (intro takeWhile_append1 [of j]) auto
    moreover have "\<not> (\<forall>j \<le> n. P j)"
      using \<open>j < n\<close> \<open>\<not> P j\<close> less_imp_le by blast
    ultimately show ?thesis
      using Suc.IH by simp
  qed
qed simp

lemma header_bit: "header AND 0x80 \<noteq> 0 \<longleftrightarrow> bit header 7" for header :: u8
proof -
  have m: "(0x80 :: u8) = push_bit 7 1"
    by simp
  show ?thesis
    unfolding m bit_iff_and_push_bit_not_eq_0 ..
qed

lemma present_found: "present_functions config base bus device [0..<8] = found_functions config (base, bus, device)"
proof -
  have "(\<forall>j \<le> i. j = 0 \<or> multi_function config (config_phys_addr base bus device j)) \<longleftrightarrow>
      (\<forall>j \<in> {0..<8}. 0 < j \<and> j \<le> i \<longrightarrow> multi_function config (config_phys_addr base bus device j))" if "i < 8" for i
    using that by auto
  then show ?thesis
    unfolding present_functions_def visited_functions_def found_functions_def functions_of_def answers_def header_bit
      multi_function_def [symmetric] takeWhile_upt filter_map comp_def split_def list.map_comp
    by (auto intro!: arg_cong [of _ _ "map (config_phys_addr base bus device)"] filter_cong simp: filter_filter simp del: upt_Suc)
qed

lemma concat_concat: "concat (concat xss) = concat (map concat xss)"
  by (induction xss) simp_all

lemma segments_found:
  "concat (map (\<lambda>i. segment_functions m config (mcfg + 44 + 16 * of_nat i))
      [0..<unat ((ucast (sdt_length m mcfg) - 44) div 16 :: u64)]) = concat (map (found_functions config) (mcfg_devices m mcfg))"
proof -
  have "bus_functions config base devices = (\<lambda>bus. concat (map (\<lambda>device. found_functions config (base, bus, device)) devices))" for base devices
    by (simp add: fun_eq_iff bus_functions_def present_found del: upt_Suc)
  then show ?thesis
    by (simp add: segment_functions_def mcfg_devices_def map_concat concat_concat comp_def del: upt_Suc)
qed

section \<open>The enumeration\<close>

text \<open>
  C39. With memory services that succeed (mapping a page, unmapping it, and allocating fresh
  entries while there is room), the enumeration returns. On the buses the MCFG table names (from the
  first bus up to, but without, the last one) it lists exactly the functions that answer and that the
  multi-function bits lead to: function 0 of a device, and a function above 0 when it and every
  function between have the bit in their own headers. These are all functions that answer when every
  function above 0 reads with the bit set, as an absent one does; the bit of function 0, which is the one that
  speaks for the device, is not looked at, and a function without a bit of its own hides
  itself and those after it. The functions found last come first; an entry has the class of the function
  and the page its registers were mapped at, and \<open>get_pci_device\<close> returns the page of the first entry that
  matches.
\<close>

theorem enumerate_pci_devices_finds:
  fixes config :: "u64 \<Rightarrow> PCIConfigSpace0"
  assumes ops: "pci_services ops used room" and empty: "g_pci_device_list s = 0"
    and mcfg: "find_table m remaps g_xsdt ''MCFG'' = Inr mcfg" "mcfg \<noteq> 0"
  defines "functions \<equiv> concat (map (found_functions config) (mcfg_devices m mcfg))"
  assumes room: "length functions \<le> room (pci_kernel s)"
  shows "\<exists>s' entries. enumerate_pci_devices m remaps g_xsdt ops config s = Inr s' \<and>
    list_all2 (device_of ops config) (rev functions) entries \<and>
    ((\<forall>d \<in> set (mcfg_devices m mcfg). bits_complete config d) \<longrightarrow>
       functions = concat (map (answering_functions config) (mcfg_devices m mcfg))) \<and>
    (\<forall>ty mk. get_pci_device ty mk s' =
       Inr (case find (\<lambda>e. pci_type e AND mk = ty) entries of Some e \<Rightarrow> config_space e | None \<Rightarrow> 0))"
proof -
  obtain s' where s': "scan_segments m ops config (mcfg + 44) (unat ((ucast (sdt_length m mcfg) - 44) div 16 :: u64)) s = Inr s'"
    "found_more ops used room config s s' functions"
    using scan_segments_found [OF ops, of m config "mcfg + 44"] room unfolding functions_def segments_found [symmetric] by blast
  have "pci_inv used s []"
    using empty by (simp add: pci_inv_def)
  then obtain qs where qs: "pci_inv used s' qs" "list_all2 (device_of ops config) (rev functions) (map (pci_entries s') qs)"
    using s'(2) unfolding found_more_def by (metis append_Nil2)
  have "length qs < Suc loop_fuel"
    using qs(1) distinct_u64_length [of qs] by (simp add: pci_inv_def)
  then have "get_pci_device ty mk s' = Inr (case find (\<lambda>e. pci_type e AND mk = ty) (map (pci_entries s') qs) of Some e \<Rightarrow> config_space e | None \<Rightarrow> 0)" for ty mk
    using qs(1) unfolding get_pci_device_def pci_inv_def by (intro get_pci_device_loop_find) auto
  moreover have "functions = concat (map (answering_functions config) (mcfg_devices m mcfg))"
    if "\<forall>d \<in> set (mcfg_devices m mcfg). bits_complete config d"
    using that unfolding functions_def by (intro arg_cong [of _ _ concat] map_cong refl found_all) blast
  ultimately show ?thesis
    using qs(2) s'(1) mcfg by (intro exI [of _ s'] exI [of _ "map (pci_entries s') qs"]) (simp add: enumerate_pci_devices_def)
qed

text \<open>One segment with one bus, and one disk controller on it.\<close>

definition example_tables :: mem where
  "example_tables = (\<lambda>_. 0)(0x104 := 44, 0x125 := 2, 0x200 := 77, 0x201 := 67, 0x202 := 70, 0x203 := 71, 0x204 := 60,
     0x22f := 0xb0, 0x237 := 1)"

definition example_remaps :: "ACPIMemRemap list" where
  "example_remaps = [\<lparr>remap_phys = 0x200, remap_virt = 0x200, remap_size = 0x1000\<rparr>]"

definition no_function :: PCIConfigSpace0 where
  "no_function = \<lparr>vendor_id = 0xffff, header_type = 0xff, cs_revision_ID = 0xff, cs_prog_IF = 0xff, cs_subclass = 0xff, cs_class_code = 0xff, BAR5 = 0\<rparr>"

definition example_config :: "u64 \<Rightarrow> PCIConfigSpace0" where
  "example_config phys = (if phys = 0xb0008000
     then \<lparr>vendor_id = 0x8086, header_type = 0x80, cs_revision_ID = 2, cs_prog_IF = 1, cs_subclass = 6, cs_class_code = 1, BAR5 = 0\<rparr>
     else no_function)"

definition bump_services :: "nat pci_ops" where
  "bump_services = \<lparr>pci_kmap = (\<lambda>phys _ _ k. Inr (phys + 0x1000000000, k)), pci_kunmap = (\<lambda>_ _ k. Inr k),
     pci_kalloc = (\<lambda>_ k. Inr (of_nat (20 * (k + 1)), k + 1))\<rparr>"

lemma bump_services: "pci_services bump_services (\<lambda>k. (\<lambda>i. of_nat (20 * (i + 1))) ` {..<k}) (\<lambda>k. 1000 - k)"
proof -
  have "(of_nat (20 * (k + 1)) :: u64) \<notin> (\<lambda>i. of_nat (20 * (i + 1))) ` {..<k}" "(of_nat (20 * (k + 1)) :: u64) \<noteq> of_nat 0" if "k < 1000" for k
  proof -
    have inj: "(of_nat (20 * (i + 1)) :: u64) = of_nat (20 * (k + 1)) \<longleftrightarrow> 20 * (i + 1) = 20 * (k + 1)" if "i < k" for i
      using that \<open>k < 1000\<close> by (intro of_nat_u64_eq_iff) auto
    show "(of_nat (20 * (k + 1)) :: u64) \<notin> (\<lambda>i. of_nat (20 * (i + 1))) ` {..<k}"
      using inj by force
    show "(of_nat (20 * (k + 1)) :: u64) \<noteq> of_nat 0"
      using that by (subst of_nat_u64_eq_iff) auto
  qed
  then show ?thesis
    by (auto simp: pci_services_def bump_services_def lessThan_Suc simp del: of_nat_mult of_nat_add)
qed

lemma config_phys_addr_eq:
  assumes "device < 32" "func < 8"
  shows "config_phys_addr 0xb0000000 0 device func = 0xb0008000 \<longleftrightarrow> device = 1 \<and> func = 0"
proof
  let ?x = "push_bit 15 (of_nat device) OR push_bit 12 (of_nat func) :: u64"
  assume "config_phys_addr 0xb0000000 0 device func = 0xb0008000"
  then have "0xb0000000 + ?x = 0xb0000000 + 0x8000"
    by (simp add: config_phys_addr_def)
  then have x: "?x = 0x8000"
    by (simp only: add_left_cancel)
  have f: "(of_nat func :: u64) = take_bit 3 (of_nat func)"
    using assms(2) by (simp add: take_bit_eq_mod word_unat_eq_iff unat_mod)
  have d: "(of_nat device :: u64) = take_bit 5 (of_nat device)"
    using assms(1) by (simp add: take_bit_eq_mod word_unat_eq_iff unat_mod)
  have "take_bit 15 ?x = push_bit 12 (of_nat func)"
    by (subst (1 2) f, rule bit_word_eqI) (auto simp: bit_simps)
  moreover have "drop_bit 15 ?x = of_nat device"
    by (subst f, subst (1 2) d, rule bit_word_eqI) (auto simp: bit_simps)
  ultimately have "push_bit 12 (of_nat func) = (0 :: u64)" "of_nat device = (1 :: u64)"
    unfolding x by (simp_all add: take_bit_eq_mod)
  then have "(of_nat (func * 4096) :: u64) = of_nat 0" "(of_nat device :: u64) = of_nat 1"
    by (simp_all add: push_bit_eq_mult)
  moreover have "func * 4096 < 2 ^ 64" "device < 2 ^ 64"
    using assms by simp_all
  ultimately show "device = 1 \<and> func = 0"
    using of_nat_u64_eq_iff [of "func * 4096" 0] of_nat_u64_eq_iff [of device 1] by simp
qed (simp add: config_phys_addr_def)

theorem enumerate_pci_devices_finds_witness:
  "\<exists>s'. enumerate_pci_devices example_tables example_remaps 0x100 bump_services example_config
       \<lparr>g_pci_device_list = 0, pci_entries = (\<lambda>_. \<lparr>pci_next = 0, config_space = 0, pci_type = 0\<rparr>), pci_kernel = 0\<rparr> = Inr s' \<and>
     get_pci_device 0x01060000 PCI_DEVICE_SUBCLASS_MASK s' = Inr 0x10b0008000"
proof -
  have find: "find_table example_tables example_remaps 0x100 ''MCFG'' = Inr 0x200"
    by code_simp
  have n: "unat ((ucast (sdt_length example_tables 0x200) - 44) div 16 :: u64) = 1"
    by code_simp
  have visited: "visited_functions example_config base bus device [0..<8] = [0..<8]" for base bus device
    unfolding visited_functions_def by (intro takeWhile_eq_all_conv [THEN iffD2] ballI) (auto simp: example_config_def no_function_def)
  have present: "present_functions example_config 0xb0000000 0 device [0..<8] = (if device = 1 then [0xb0008000] else [])" if "device \<in> set [0..<32]" for device
  proof -
    have "filter (\<lambda>phys. vendor_id (example_config phys) \<noteq> 0xffff) (map (config_phys_addr 0xb0000000 0 device) [0..<8]) =
        map (config_phys_addr 0xb0000000 0 device) (filter (\<lambda>func. device = 1 \<and> func = 0) [0..<8])"
    proof -
      have "vendor_id (example_config (config_phys_addr 0xb0000000 0 device func)) \<noteq> 0xffff \<longleftrightarrow> device = 1 \<and> func = 0" if "func < 8" for func
        using that \<open>device \<in> set [0..<32]\<close> by (simp add: example_config_def no_function_def config_phys_addr_eq)
      then have "filter ((\<lambda>phys. vendor_id (example_config phys) \<noteq> 0xffff) \<circ> config_phys_addr 0xb0000000 0 device) [0..<8] =
          filter (\<lambda>func. device = 1 \<and> func = 0) [0..<8]"
        by (intro filter_cong) auto
      then show ?thesis
        by (simp only: filter_map)
    qed
    also have "\<dots> = (if device = 1 then [0xb0008000] else [])"
      by (simp add: upt_rec config_phys_addr_def)
    finally show ?thesis
      unfolding present_functions_def visited .
  qed
  have "map (\<lambda>device. present_functions example_config 0xb0000000 0 device [0..<8]) [0..<32] =
      map (\<lambda>device. if device = 1 then [0xb0008000] else []) [0..<32]"
    by (intro map_cong refl present)
  then have "bus_functions example_config 0xb0000000 [0..<32] 0 = concat (map (\<lambda>device. if device = 1 then [0xb0008000] else []) [0..<32])"
    by (simp only: bus_functions_def)
  also have "\<dots> = [0xb0008000]"
    by (simp add: upt_rec)
  finally have "bus_functions example_config 0xb0000000 [0..<32] 0 = [0xb0008000]" .
  moreover have "load64 example_tables 0x22c = 0xb0000000"
    by code_simp
  moreover have "example_tables 0x236 = 0" "example_tables 0x237 = 1"
    by (simp_all add: example_tables_def)
  ultimately have "segment_functions example_tables example_config 0x22c = [0xb0008000]"
    by (simp add: segment_functions_def del: upt_conv_Nil) 
  then have found: "concat (map (found_functions example_config) (mcfg_devices example_tables 0x200)) = [0xb0008000]"
    using segments_found [of example_tables example_config "0x200"] unfolding n by (simp add: upt_conv_Cons del: upt_Suc)
  let ?s = "\<lparr>g_pci_device_list = 0, pci_entries = (\<lambda>_. \<lparr>pci_next = 0, config_space = 0, pci_type = 0\<rparr>), pci_kernel = 0 :: nat\<rparr>"
  obtain s' entries where s': "enumerate_pci_devices example_tables example_remaps 0x100 bump_services example_config ?s = Inr s'"
    "list_all2 (device_of bump_services example_config) (rev [0xb0008000]) entries"
    "\<forall>ty mk. get_pci_device ty mk s' = Inr (case find (\<lambda>e. pci_type e AND mk = ty) entries of Some e \<Rightarrow> config_space e | None \<Rightarrow> 0)"
    using enumerate_pci_devices_finds [OF bump_services, of ?s example_tables example_remaps "0x100" "0x200" example_config] find
    unfolding found by auto
  then show ?thesis
    by (auto simp: list_all2_Cons1 device_of_def pci_type_of_def bump_services_def example_config_def PCI_DEVICE_SUBCLASS_MASK_def)
qed

end
