(* ===== verification/Process_System.thy ===== *)
theory Process_System
  imports Libc_String Gdt
begin

text \<open>
  kernel/src/process_system.c: the queue of processes and the context switch of the timer
  interrupt. Every process has the lowest PML4 entry as its own (\<open>new_address_space\<close> is called
  with index 0), so the addresses below \<open>2 ^ 39\<close> show the memory of the process whose address
  space is mapped, \<open>active\<close>, and all others are kernel memory. Mapping and unmapping an address
  space (Paging has what they do to the tables) set and clear that entry. An access to an address that
  no page maps faults.
\<close>

section \<open>State\<close>

definition USER_STACK_SIZE :: u64 where
  "USER_STACK_SIZE = 0x8000"

definition USER_STACK_SAVE_SIZE :: u64 where
  "USER_STACK_SAVE_SIZE = 8 * 20"

record Process =
  proc_next :: u64
  proc_addr_space :: u64
  proc_pid :: u64
  proc_context_stack_ptr :: u64

record 'w proc_state =
  queue_head :: u64
  queue_tail :: u64
  processes :: "u64 \<Rightarrow> Process"
  next_pid :: u64
  user_memory :: "u64 \<Rightarrow> mem"        \<comment> \<open>what an address space shows below \<open>user_limit\<close>\<close>
  user_mapped :: "u64 \<Rightarrow> u64 \<Rightarrow> bool" \<comment> \<open>the addresses its tables map\<close>
  kernel_memory :: mem
  kernel_mapped :: "u64 \<Rightarrow> bool"
  pdp_known :: "u64 \<Rightarrow> bool"          \<comment> \<open>whether \<open>kvirt_to_phys_addr\<close> finds the frame of \<open>space->pdp\<close>\<close>
  active :: "u64 option"
  eoi_writes :: nat                  \<comment> \<open>end-of-interrupt writes to the local APIC\<close>
  proc_world :: 'w

definition user_limit :: u64 where
  "user_limit = 2 ^ 39"

text \<open>Memory as the processor sees it, its change, and the addresses it can access.\<close>

definition view :: "'w proc_state \<Rightarrow> mem" where
  "view s = (\<lambda>a. if a < user_limit then (case active s of None \<Rightarrow> 0 | Some sp \<Rightarrow> user_memory s sp a) else kernel_memory s a)"

definition put_view :: "mem \<Rightarrow> 'w proc_state \<Rightarrow> 'w proc_state" where
  "put_view m s =
     (let kernel = (\<lambda>a. if a < user_limit then kernel_memory s a else m a) in
      case active s of
        None \<Rightarrow> s\<lparr>kernel_memory := kernel\<rparr>
      | Some sp \<Rightarrow> s\<lparr>user_memory := (user_memory s)(sp := \<lambda>a. if a < user_limit then m a else user_memory s sp a),
          kernel_memory := kernel\<rparr>)"

definition accessible :: "'w proc_state \<Rightarrow> u64 \<Rightarrow> bool" where
  "accessible s a \<longleftrightarrow>
     (if a < user_limit then (case active s of None \<Rightarrow> False | Some sp \<Rightarrow> user_mapped s sp a) else kernel_mapped s a)"

definition access :: "u64 \<Rightarrow> u64 \<Rightarrow> 'w proc_state \<Rightarrow> unit res" where
  "access a n s = (if list_all (\<lambda>i. accessible s (a + of_nat i)) [0..<unat n] then Inr () else Inl Page_fault)"

definition load_view :: "u64 \<Rightarrow> 'w proc_state \<Rightarrow> u64 res" where
  "load_view a s = rbind (access a 8 s) (\<lambda>_. Inr (load64 (view s) a))"

definition move_view :: "u64 \<Rightarrow> u64 \<Rightarrow> u64 \<Rightarrow> 'w proc_state \<Rightarrow> 'w proc_state res" where
  "move_view dest src n s =
     rbind (access src n s) (\<lambda>_. rbind (access dest n s) (\<lambda>_. Inr (put_view (memmove dest src n (view s)) s)))"

text \<open>\<open>map_address_space\<close> asserts that the frame of the space's top table is found.\<close>

definition map_space :: "u64 \<Rightarrow> 'w proc_state \<Rightarrow> 'w proc_state res" where
  "map_space sp s =
     rbind (kernel_assert (pdp_known s sp) ''Could not find physical address'') (\<lambda>_. Inr (s\<lparr>active := Some sp\<rparr>))"

definition unmap_space :: "u64 \<Rightarrow> 'w proc_state \<Rightarrow> 'w proc_state" where
  "unmap_space sp s = s\<lparr>active := None\<rparr>"

definition load_process :: "u64 \<Rightarrow> 'w proc_state \<Rightarrow> Process res" where
  "load_process p s = (if p = 0 then Inl Null_deref else Inr (processes s p))"

definition update_process :: "u64 \<Rightarrow> (Process \<Rightarrow> Process) \<Rightarrow> 'w proc_state \<Rightarrow> 'w proc_state res" where
  "update_process p f s = (if p = 0 then Inl Null_deref else Inr (s\<lparr>processes := (processes s)(p := f (processes s p))\<rparr>))"

section \<open>The context switch\<close>

text \<open>\<open>((void**)rsp)[18]\<close> is the user's stack pointer in the interrupt frame.\<close>

definition save_context :: "u64 \<Rightarrow> 'w proc_state \<Rightarrow> 'w proc_state res" where
  "save_context rsp s =
     rbind (load_view (rsp + 8 * 18) s) (\<lambda>user_rsp.
     let process_stack = user_rsp - USER_STACK_SAVE_SIZE in
     rbind (move_view process_stack rsp USER_STACK_SAVE_SIZE s) (\<lambda>s.
       update_process (queue_head s) (proc_context_stack_ptr_update (\<lambda>_. process_stack)) s))"

definition rotate_queue :: "'w proc_state \<Rightarrow> 'w proc_state res" where
  "rotate_queue s =
     (let tmp = queue_head s in
      rbind (load_process tmp s) (\<lambda>t.
      if proc_next t \<noteq> 0 then
        let s = s\<lparr>queue_head := proc_next t\<rparr> in
        rbind (update_process tmp (proc_next_update (\<lambda>_. 0)) s) (\<lambda>s.
        rbind (update_process (queue_tail s) (proc_next_update (\<lambda>_. tmp)) s) (\<lambda>s.
          Inr (s\<lparr>queue_tail := tmp\<rparr>)))
      else Inr s))"

definition restore_context :: "u64 \<Rightarrow> 'w proc_state \<Rightarrow> 'w proc_state res" where
  "restore_context rsp s =
     rbind (load_process (queue_head s) s) (\<lambda>p.
       move_view rsp (proc_context_stack_ptr p) USER_STACK_SAVE_SIZE s)"

definition context_switch :: "u64 \<Rightarrow> 'w proc_state \<Rightarrow> 'w proc_state res" where
  "context_switch rsp s =
     rbind (save_context rsp s) (\<lambda>s.
     rbind (load_process (queue_head s) s) (\<lambda>p.
     rbind (rotate_queue (unmap_space (proc_addr_space p) s)) (\<lambda>s.
     rbind (load_process (queue_head s) s) (\<lambda>p.
     rbind (map_space (proc_addr_space p) s) (restore_context rsp)))))"

text \<open>
  The handler pushes the 15 general registers, \<open>rax\<close> first and \<open>r15\<close> last, below the frame the
  processor has pushed, switches, and pops them again. \<open>rsp0\<close> is the stack pointer at its
  entry, where the frame of 5 words starts.
\<close>

definition push_registers :: "u64 list \<Rightarrow> u64 \<Rightarrow> mem \<Rightarrow> mem" where
  "push_registers regs rsp0 = fold (\<lambda>i. store64 (rsp0 - 8 * (of_nat i + 1)) (regs ! i)) [0..<15]"

definition pop_registers :: "u64 \<Rightarrow> mem \<Rightarrow> u64 list" where
  "pop_registers rsp0 m = map (\<lambda>i. load64 m (rsp0 - 8 * (of_nat i + 1))) [0..<15]"

definition context_switch_handler :: "u64 list \<Rightarrow> u64 \<Rightarrow> 'w proc_state \<Rightarrow> (u64 list \<times> 'w proc_state) res" where
  "context_switch_handler regs rsp0 s =
     rbind (access (rsp0 - 8 * 15) (8 * 15) s) (\<lambda>_.
     rbind (context_switch (rsp0 - 8 * 15) (put_view (push_registers regs rsp0 (view s)) s)) (\<lambda>s.
     rbind (access (rsp0 - 8 * 15) (8 * 15) s) (\<lambda>_.
       Inr (pop_registers rsp0 (view s), s\<lparr>eoi_writes := eoi_writes s + 1\<rparr>))))"

definition get_current_process_addr_space :: "'w proc_state \<Rightarrow> u64 res" where
  "get_current_process_addr_space s = rbind (load_process (queue_head s) s) (\<lambda>p. Inr (proc_addr_space p))"

definition get_current_process_pid :: "'w proc_state \<Rightarrow> u64 res" where
  "get_current_process_pid s = rbind (load_process (queue_head s) s) (\<lambda>p. Inr (proc_pid p))"

definition generate_pid :: "'w proc_state \<Rightarrow> u64 \<times> 'w proc_state" where
  "generate_pid s = (next_pid s, s\<lparr>next_pid := next_pid s + 1\<rparr>)"

section \<open>New processes\<close>

text \<open>
  The kernel's operations a new process needs, with their effects on the state: \<open>kalloc\<close>,
  \<open>memset\<close> of a new address space and \<open>new_address_space\<close>, \<open>load_elf_from_buff\<close>, which returns
  the entry point when it succeeds, and a mapped stack: \<open>alloc_frames\<close>, \<open>map_allocation\<close> and
  \<open>free_frame_allocation_entries\<close>.
\<close>

record 'w process_ops =
  op_kalloc :: "u64 \<Rightarrow> 'w proc_state \<Rightarrow> (u64 \<times> 'w proc_state) res"
  op_new_address_space :: "u64 \<Rightarrow> u64 \<Rightarrow> u8 \<Rightarrow> 'w proc_state \<Rightarrow> 'w proc_state res"
  op_load_elf :: "u64 \<Rightarrow> u64 \<Rightarrow> 'w proc_state \<Rightarrow> (u64 option \<times> 'w proc_state) res"
  op_alloc_frames :: "u64 \<Rightarrow> 'w proc_state \<Rightarrow> (u64 \<times> 'w proc_state) res"
  op_map_allocation :: "u64 \<Rightarrow> u64 \<Rightarrow> u32 \<Rightarrow> 'w proc_state \<Rightarrow> (u64 \<times> 'w proc_state) res"
  op_free_entries :: "u64 \<Rightarrow> 'w proc_state \<Rightarrow> 'w proc_state res"

text \<open>\<open>sizeof(Process)\<close> is 32 and \<open>sizeof(AddressSpace)\<close> is the argument \<open>space_size\<close>.\<close>

definition alloc_process_and_addr_space :: "'w process_ops \<Rightarrow> u64 \<Rightarrow> u8 \<Rightarrow> 'w proc_state \<Rightarrow> (u64 \<times> 'w proc_state) res" where
  "alloc_process_and_addr_space ops space_size paging_prot s =
     rbind (op_kalloc ops 32 s) (\<lambda>(process, s).
     rbind (update_process process (\<lambda>_. \<lparr>proc_next = 0, proc_addr_space = 0, proc_pid = 0, proc_context_stack_ptr = 0\<rparr>) s) (\<lambda>s.
     rbind (op_kalloc ops space_size s) (\<lambda>(space, s).
     rbind (update_process process (proc_addr_space_update (\<lambda>_. space)) s) (\<lambda>s.
     if space = 0 then Inl Null_deref
     else rbind (op_new_address_space ops space 0 paging_prot s) (\<lambda>s. Inr (process, s))))))"

definition initial_context :: "u64 \<Rightarrow> u64 \<Rightarrow> mem \<Rightarrow> mem" where
  "initial_context ctx entry m =
     (let m = memset ctx 0 USER_STACK_SAVE_SIZE m;
          m = store64 (ctx + 8 * 15) entry m;
          m = store64 (ctx + 8 * 16) (ucast GDT_USER_CODE_SEGMENT OR 3) m;
          m = store64 (ctx + 8 * 17) 0x202 m;
          m = store64 (ctx + 8 * 18) ctx m
      in store64 (ctx + 8 * 19) (ucast GDT_USER_DATA_SEGMENT OR 3) m)"

definition start_user_process :: "'w process_ops \<Rightarrow> u64 \<Rightarrow> u64 \<Rightarrow> 'w proc_state \<Rightarrow> 'w proc_state res" where
  "start_user_process ops space_size elf_data s =
     rbind (kernel_assert (queue_head s \<noteq> 0)
       ''start_user_process can't be called without previously running process'') (\<lambda>_.
     rbind (alloc_process_and_addr_space ops space_size 3 s) (\<lambda>(process, s).
     rbind (load_process process s) (\<lambda>p.
     let space = proc_addr_space p in
     rbind (map_space space s) (\<lambda>s.
     rbind (op_load_elf ops space elf_data s) (\<lambda>(loaded, s).
     case loaded of None \<Rightarrow> Inl (Assert_failed ''Failed to load terminal ELF file'') | Some entry \<Rightarrow>
     rbind (op_alloc_frames ops (USER_STACK_SIZE div PAGE_SIZE) s) (\<lambda>(allocation, s).
     rbind (op_map_allocation ops space allocation PAGING_WRITABLE s) (\<lambda>(stack, s).
     let ctx = stack + USER_STACK_SIZE - USER_STACK_SAVE_SIZE in
     rbind (update_process process (proc_context_stack_ptr_update (\<lambda>_. ctx)) s) (\<lambda>s.
     rbind (op_free_entries ops allocation s) (\<lambda>s.
     rbind (access ctx USER_STACK_SAVE_SIZE s) (\<lambda>_.
     let s = put_view (initial_context ctx entry (view s)) s in
     rbind (update_process (queue_tail s) (proc_next_update (\<lambda>_. process)) s) (\<lambda>s.
       Inr (s\<lparr>queue_tail := process\<rparr>))))))))))))"

end
