(* ===== verification/Process_Properties.thy ===== *)
theory Process_Properties
  imports Process_System
begin

text \<open>
  The context switch refines a round-robin scheduler that keeps, for every waiting process, the
  160 bytes of its registers and return frame.
\<close>

section \<open>The queue\<close>

fun links_at :: "(u64 \<Rightarrow> Process) \<Rightarrow> u64 list \<Rightarrow> bool" where
  "links_at pr [] \<longleftrightarrow> False"
| "links_at pr [p] \<longleftrightarrow> p \<noteq> 0 \<and> proc_next (pr p) = 0"
| "links_at pr (p # q # ps) \<longleftrightarrow> p \<noteq> 0 \<and> proc_next (pr p) = q \<and> links_at pr (q # ps)"

lemma links_at_nonzero: "links_at pr ps \<Longrightarrow> p \<in> set ps \<Longrightarrow> p \<noteq> 0"
  by (induction pr ps rule: links_at.induct) auto

lemma links_at_nonempty: "links_at pr ps \<Longrightarrow> ps \<noteq> []"
  by auto

lemma links_at_cong: "(\<And>p. p \<in> set ps \<Longrightarrow> proc_next (pr p) = proc_next (pr' p)) \<Longrightarrow> links_at pr ps = links_at pr' ps"
  by (induction pr ps rule: links_at.induct) auto

lemma links_at_snoc:
  "links_at pr xs \<Longrightarrow> distinct xs \<Longrightarrow> p \<notin> set xs \<Longrightarrow> p \<noteq> 0 \<Longrightarrow>
     links_at ((pr(p := (pr p)\<lparr>proc_next := 0\<rparr>))(last xs := (pr (last xs))\<lparr>proc_next := p\<rparr>)) (xs @ [p])"
  by (induction pr xs rule: links_at.induct) (auto simp del: fun_upd_apply, auto)

definition same_but_next :: "Process \<Rightarrow> Process \<Rightarrow> bool" where
  "same_but_next a b \<longleftrightarrow> proc_addr_space a = proc_addr_space b \<and> proc_pid a = proc_pid b \<and>
     proc_context_stack_ptr a = proc_context_stack_ptr b"

lemma rotate_queue_ok:
  assumes "links_at (processes s) ps" "distinct ps" "queue_head s = hd ps" "queue_tail s = last ps"
  shows "\<exists>pr. rotate_queue s = Inr (s\<lparr>queue_head := hd (rotate1 ps), queue_tail := last (rotate1 ps), processes := pr\<rparr>) \<and>
    links_at pr (rotate1 ps) \<and> (\<forall>p. same_but_next (pr p) (processes s p))"
proof (cases ps)
  case Nil
  with assms(1) show ?thesis
    by simp
next
  case (Cons p qs)
  note ps = Cons
  show ?thesis
  proof (cases qs)
    case Nil
    with ps assms have "rotate_queue s = Inr s" "links_at (processes s) (rotate1 ps)"
      by (simp_all add: rotate_queue_def load_process_def)
    with Nil ps assms show ?thesis
      by (intro exI [of _ "processes s"]) (simp add: same_but_next_def)
  next
    case (Cons q rest)
    let ?t = "last qs"
    let ?pr = "((processes s)(p := (processes s p)\<lparr>proc_next := 0\<rparr>))(?t := (processes s ?t)\<lparr>proc_next := p\<rparr>)"
    have t: "?t \<in> set qs" "?t \<noteq> p"
      using assms(2) ps Cons by (auto simp: last_in_set)
    have p0: "p \<noteq> 0" "q \<noteq> 0" "?t \<noteq> 0"
      using links_at_nonzero [OF assms(1)] ps Cons t by auto
    have l: "links_at (processes s) qs" "proc_next (processes s p) = q" "distinct qs" "p \<notin> set qs"
      using assms ps Cons by auto
    have "rotate_queue s = Inr (s\<lparr>queue_head := hd (rotate1 ps), queue_tail := last (rotate1 ps), processes := ?pr\<rparr>)"
      using assms(3,4) ps Cons p0 t l(2)
      by (simp add: rotate_queue_def load_process_def update_process_def Let_def)
    moreover have "links_at ?pr (rotate1 ps)"
      using links_at_snoc [OF l(1,3,4) p0(1)] ps by simp
    ultimately show ?thesis
      by (intro exI [of _ ?pr]) (auto simp: same_but_next_def)
  qed
qed

section \<open>Contexts\<close>

lemma in_span_interval:
  "unat a + n \<le> 2 ^ 64 \<Longrightarrow> x \<in> span a n \<longleftrightarrow> unat a \<le> unat x \<and> unat x < unat a + n"
proof -
  assume n: "unat a + n \<le> 2 ^ 64"
  then have "x \<in> span a n \<longleftrightarrow> unat (x - a) < n"
    by (intro in_span_iff) simp
  also have "\<dots> \<longleftrightarrow> unat a \<le> unat x \<and> unat x < unat a + n"
  proof (cases "a \<le> x")
    case True
    then show ?thesis
      by (auto simp: unat_sub_u64 word_le_nat_alt)
  next
    case False
    then have lt: "unat x < unat a"
      by (simp add: word_le_nat_alt)
    have "unat (a + (x - a)) = unat a + unat (x - a)" if "unat (x - a) < n"
      using n that by (intro unat_add_u64) linarith
    then have "unat x = unat a + unat (x - a)" if "unat (x - a) < n"
      using that by simp
    with lt show ?thesis
      by auto
  qed
  finally show ?thesis .
qed

definition context_size :: nat where
  "context_size = 160"

lemma unat_save_size [simp]: "unat USER_STACK_SAVE_SIZE = context_size"
  by (simp add: USER_STACK_SAVE_SIZE_def context_size_def)

definition frame_of :: "u64 \<Rightarrow> 'w proc_state \<Rightarrow> u8 list" where
  "frame_of rsp s = bytes (kernel_memory s) rsp context_size"

definition saved_of :: "'w proc_state \<Rightarrow> u64 \<Rightarrow> u8 list" where
  "saved_of s p = bytes (user_memory s (proc_addr_space (processes s p))) (proc_context_stack_ptr (processes s p)) context_size"

definition in_user :: "u64 \<Rightarrow> bool" where
  "in_user ctx \<longleftrightarrow> unat ctx + context_size \<le> unat user_limit"

text \<open>
  The interrupt frame is in mapped kernel memory. Below the stack pointer that the frame holds, which the
  user chooses, is where the context will be kept: \<open>frame_ok\<close> asks that it is mapped user memory.
\<close>

definition frame_mapped :: "u64 \<Rightarrow> 'w proc_state \<Rightarrow> bool" where
  "frame_mapped rsp s \<longleftrightarrow> user_limit \<le> rsp \<and> unat rsp + context_size \<le> 2 ^ 64 \<and> (\<forall>i < context_size. kernel_mapped s (rsp + of_nat i))"

definition user_stack :: "u64 \<Rightarrow> 'w proc_state \<Rightarrow> u64" where
  "user_stack rsp s = load64 (kernel_memory s) (rsp + 8 * 18)"

definition stack_mapped :: "u64 \<Rightarrow> 'w proc_state \<Rightarrow> bool" where
  "stack_mapped rsp s \<longleftrightarrow> (\<forall>i < context_size. accessible s (user_stack rsp s - USER_STACK_SAVE_SIZE + of_nat i))"

definition frame_ok :: "u64 \<Rightarrow> 'w proc_state \<Rightarrow> bool" where
  "frame_ok rsp s \<longleftrightarrow> frame_mapped rsp s \<and> stack_mapped rsp s \<and>
     USER_STACK_SAVE_SIZE \<le> user_stack rsp s \<and> user_stack rsp s \<le> user_limit"

text \<open>
  The queue: the processes with different address spaces whose tables are known, the first one's
  mapped, and the contexts of the waiting ones in mapped user memory.
\<close>

definition context_mapped :: "'w proc_state \<Rightarrow> u64 \<Rightarrow> bool" where
  "context_mapped s p \<longleftrightarrow> in_user (proc_context_stack_ptr (processes s p)) \<and>
     (\<forall>i < context_size. user_mapped s (proc_addr_space (processes s p)) (proc_context_stack_ptr (processes s p) + of_nat i))"

definition queue_ok :: "u64 list \<Rightarrow> 'w proc_state \<Rightarrow> bool" where
  "queue_ok ps s \<longleftrightarrow> links_at (processes s) ps \<and> distinct ps \<and> queue_head s = hd ps \<and> queue_tail s = last ps \<and>
     inj_on (\<lambda>p. proc_addr_space (processes s p)) (set ps) \<and>
     active s = Some (proc_addr_space (processes s (hd ps))) \<and>
     (\<forall>p \<in> set ps. pdp_known s (proc_addr_space (processes s p))) \<and>
     (\<forall>p \<in> set (tl ps). context_mapped s p)"

lemma unat_user_limit: "unat user_limit = 2 ^ 39"
  by (simp add: user_limit_def)

lemma user_span: "in_user ctx \<Longrightarrow> a \<in> span ctx context_size \<Longrightarrow> a < user_limit"
  by (subst (asm) in_span_interval) (auto simp: in_user_def unat_user_limit word_less_nat_alt)

lemma kernel_span:
  "user_limit \<le> rsp \<Longrightarrow> unat rsp + context_size \<le> 2 ^ 64 \<Longrightarrow> a \<in> span rsp context_size \<Longrightarrow> \<not> a < user_limit"
  by (subst (asm) in_span_interval) (auto simp: word_le_nat_alt not_less)

lemma bytes_cong: "(\<And>a. a \<in> span b n \<Longrightarrow> m a = m' a) \<Longrightarrow> bytes m b n = bytes m' b n"
  unfolding bytes_eq_iff by (auto simp: span_def)

lemma view_active:
  "active s = Some sp \<Longrightarrow> view s = (\<lambda>a. if a < user_limit then user_memory s sp a else kernel_memory s a)"
  by (intro ext) (simp add: view_def)

lemma access_context:
  "access a USER_STACK_SAVE_SIZE s = (if \<forall>i < context_size. accessible s (a + of_nat i) then Inr () else Inl Page_fault)"
  by (simp add: access_def list_all_iff atLeast0LessThan Ball_def)

lemma kernel_address:
  assumes "user_limit \<le> rsp" "unat rsp + context_size \<le> 2 ^ 64" "i < context_size"
  shows "\<not> rsp + of_nat i < user_limit"
proof -
  have "unat (rsp + of_nat i) = unat rsp + i"
    using assms(2,3) by (subst unat_add_u64) (simp_all add: unat_of_nat_u64 context_size_def)
  with assms(1) show ?thesis
    by (simp add: word_le_nat_alt not_less)
qed

lemma user_address:
  assumes "in_user ctx" "i < context_size"
  shows "ctx + of_nat i < user_limit"
proof -
  have "unat (ctx + of_nat i) = unat ctx + i"
    using assms by (subst unat_add_u64) (simp_all add: unat_of_nat_u64 context_size_def in_user_def unat_user_limit)
  with assms show ?thesis
    by (simp add: word_less_nat_alt in_user_def)
qed

lemma frame_accessible:
  assumes "frame_mapped rsp s" "i < context_size"
  shows "accessible s (rsp + of_nat i)"
  using assms kernel_address [of rsp i] by (simp add: frame_mapped_def accessible_def)

lemma frame_access:
  assumes "frame_mapped rsp s"
  shows "access rsp USER_STACK_SAVE_SIZE s = Inr ()" "access (rsp + 8 * 18) 8 s = Inr ()"
proof -
  show "access rsp USER_STACK_SAVE_SIZE s = Inr ()"
    using frame_accessible [OF assms] by (simp add: access_context)
  have "accessible s (rsp + 8 * 18 + of_nat i)" if "i < 8" for i
    using frame_accessible [OF assms, of "8 * 18 + i"] that by (simp add: context_size_def add.assoc)
  then show "access (rsp + 8 * 18) 8 s = Inr ()"
    by (simp add: access_def list_all_iff)
qed

lemma context_access:
  assumes "active s = Some (proc_addr_space (processes s p))" "context_mapped s p"
  shows "access (proc_context_stack_ptr (processes s p)) USER_STACK_SAVE_SIZE s = Inr ()"
  using assms user_address [of "proc_context_stack_ptr (processes s p)"] by (simp add: access_context accessible_def context_mapped_def)

text \<open>A copy from kernel memory to user memory, and one back.\<close>

lemma copy_out:
  assumes "active s = Some sp" "in_user ctx" "user_limit \<le> rsp" "unat rsp + context_size \<le> 2 ^ 64"
  defines "m \<equiv> (\<lambda>a. if a < user_limit then user_memory s sp a else kernel_memory s a)"
  shows "\<exists>um. put_view (memmove ctx rsp USER_STACK_SAVE_SIZE m) s = s\<lparr>user_memory := (user_memory s)(sp := um)\<rparr> \<and>
    bytes um ctx context_size = bytes (kernel_memory s) rsp context_size"
proof -
  have mv: "bytes (memmove ctx rsp USER_STACK_SAVE_SIZE m) ctx context_size = bytes m rsp context_size"
    "\<forall>a. a \<notin> span ctx context_size \<longrightarrow> memmove ctx rsp USER_STACK_SAVE_SIZE m a = m a"
    using memmove_ok [of ctx USER_STACK_SAVE_SIZE rsp m] assms(2,4) by (simp_all add: in_user_def unat_user_limit)
  let ?m' = "memmove ctx rsp USER_STACK_SAVE_SIZE m" and ?um = "\<lambda>a. if a < user_limit
      then memmove ctx rsp USER_STACK_SAVE_SIZE m a else user_memory s sp a"
  have "(\<lambda>a. if a < user_limit then kernel_memory s a else ?m' a) = kernel_memory s"
  proof
    fix a
    have "a \<notin> span ctx context_size" if "\<not> a < user_limit"
      using that user_span [OF assms(2), of a] by blast
    with mv(2) show "(if a < user_limit then kernel_memory s a else ?m' a) = kernel_memory s a"
      by (cases "a < user_limit") (simp_all add: m_def)
  qed
  then have "put_view ?m' s = s\<lparr>user_memory := (user_memory s)(sp := ?um)\<rparr>"
    using assms(1) by (simp add: put_view_def Let_def)
  moreover have "bytes ?um ctx context_size = bytes ?m' ctx context_size"
    using user_span [OF assms(2)] by (intro bytes_cong) auto
  moreover have "bytes m rsp context_size = bytes (kernel_memory s) rsp context_size"
    unfolding m_def using kernel_span [OF assms(3,4)] by (intro bytes_cong) auto
  ultimately show ?thesis
    using mv(1) by (intro exI [of _ ?um]) simp
qed

lemma copy_in:
  assumes "active s = Some sp" "in_user ctx" "user_limit \<le> rsp" "unat rsp + context_size \<le> 2 ^ 64"
  defines "m \<equiv> (\<lambda>a. if a < user_limit then user_memory s sp a else kernel_memory s a)"
  shows "\<exists>km. put_view (memmove rsp ctx USER_STACK_SAVE_SIZE m) s = s\<lparr>kernel_memory := km\<rparr> \<and>
    bytes km rsp context_size = bytes (user_memory s sp) ctx context_size"
proof -
  have mv: "bytes (memmove rsp ctx USER_STACK_SAVE_SIZE m) rsp context_size = bytes m ctx context_size"
    "\<forall>a. a \<notin> span rsp context_size \<longrightarrow> memmove rsp ctx USER_STACK_SAVE_SIZE m a = m a"
    using memmove_ok [of rsp USER_STACK_SAVE_SIZE ctx m] assms(2,4) by (simp_all add: in_user_def unat_user_limit)
  let ?m' = "memmove rsp ctx USER_STACK_SAVE_SIZE m" and ?km = "\<lambda>a. if a < user_limit
      then kernel_memory s a else memmove rsp ctx USER_STACK_SAVE_SIZE m a"
  have "(\<lambda>a. if a < user_limit then ?m' a else user_memory s sp a) = user_memory s sp"
  proof
    fix a
    have "a \<notin> span rsp context_size" if "a < user_limit"
      using that kernel_span [OF assms(3,4), of a] by blast
    with mv(2) show "(if a < user_limit then ?m' a else user_memory s sp a) = user_memory s sp a"
      by (cases "a < user_limit") (simp_all add: m_def)
  qed
  then have "put_view ?m' s = s\<lparr>kernel_memory := ?km\<rparr>"
    using assms(1) by (simp add: put_view_def Let_def)
  moreover have "bytes ?km rsp context_size = bytes ?m' rsp context_size"
    using kernel_span [OF assms(3,4)] by (intro bytes_cong) auto
  moreover have "bytes m ctx context_size = bytes (user_memory s sp) ctx context_size"
    unfolding m_def using user_span [OF assms(2)] by (intro bytes_cong) auto
  ultimately show ?thesis
    using mv(1) by (intro exI [of _ ?km]) simp
qed

lemma user_stack_load:
  assumes "frame_mapped rsp s"
  shows "load_view (rsp + 8 * 18) s = Inr (user_stack rsp s)"
proof -
  have r: "user_limit \<le> rsp" "unat rsp + context_size \<le> 2 ^ 64"
    using assms by (simp_all add: frame_mapped_def)
  have at: "unat (rsp + 8 * 18) = unat rsp + 8 * 18"
    using r(2) by (subst unat_add_u64) (simp_all add: context_size_def)
  have "\<not> a < user_limit" if "a \<in> span (rsp + 8 * 18) 8" for a
  proof -
    have "unat (rsp + 8 * 18) \<le> unat a"
      using that r(2) at by (subst (asm) in_span_interval) (simp_all add: context_size_def)
    with r(1) at show ?thesis
      by (simp add: word_le_nat_alt not_less)
  qed
  then have "load64 (view s) (rsp + 8 * 18) = user_stack rsp s"
    unfolding load64_def user_stack_def by (intro load_le_cong) (auto simp: view_def)
  then show ?thesis
    using frame_access(2) [OF assms] by (simp add: load_view_def)
qed

lemma save_context_ok:
  assumes q: "queue_ok ps s" and f: "frame_ok rsp s"
  defines "p \<equiv> hd ps"
  defines "sp \<equiv> proc_addr_space (processes s p)"
  shows "\<exists>um ctx. save_context rsp s = Inr (s\<lparr>user_memory := (user_memory s)(sp := um),
      processes := (processes s)(p := (processes s p)\<lparr>proc_context_stack_ptr := ctx\<rparr>)\<rparr>) \<and>
    in_user ctx \<and> (\<forall>i < context_size. user_mapped s sp (ctx + of_nat i)) \<and> bytes um ctx context_size = frame_of rsp s"
proof -
  have head: "queue_head s = p" "active s = Some sp" "p \<noteq> 0"
    using q links_at_nonempty links_at_nonzero [of _ ps p] by (auto simp: queue_ok_def p_def sp_def)
  let ?u = "user_stack rsp s" and ?m = "\<lambda>a. if a < user_limit then user_memory s sp a else kernel_memory s a"
  let ?ctx = "?u - USER_STACK_SAVE_SIZE"
  have fm: "frame_mapped rsp s" and r: "user_limit \<le> rsp" "unat rsp + context_size \<le> 2 ^ 64" "USER_STACK_SAVE_SIZE \<le> ?u" "?u \<le> user_limit"
    and stack: "\<forall>i < context_size. accessible s (?ctx + of_nat i)"
    using f by (simp_all add: frame_ok_def frame_mapped_def stack_mapped_def)
  have "unat ?ctx = unat ?u - context_size"
    using unat_sub_u64 [OF r(3)] by simp
  then have ctx: "in_user ?ctx"
    using r(3,4) by (simp add: in_user_def word_le_nat_alt)
  have mapped: "\<forall>i < context_size. user_mapped s sp (?ctx + of_nat i)"
    using stack user_address [OF ctx] by (simp add: accessible_def head(2))
  from copy_out [OF head(2) ctx r(1,2)] obtain um where
    um: "put_view (memmove ?ctx rsp USER_STACK_SAVE_SIZE ?m) s = s\<lparr>user_memory := (user_memory s)(sp := um)\<rparr>"
      "bytes um ?ctx context_size = bytes (kernel_memory s) rsp context_size"
    by blast
  have "move_view ?ctx rsp USER_STACK_SAVE_SIZE s = Inr (s\<lparr>user_memory := (user_memory s)(sp := um)\<rparr>)"
    unfolding move_view_def frame_access(1) [OF fm] view_active [OF head(2)] um(1) using stack by (simp add: access_context)
  then have "save_context rsp s = Inr (s\<lparr>user_memory := (user_memory s)(sp := um),
      processes := (processes s)(p := (processes s p)\<lparr>proc_context_stack_ptr := ?ctx\<rparr>)\<rparr>)"
    unfolding save_context_def user_stack_load [OF fm] using head by (simp add: update_process_def)
  with ctx mapped um(2) show ?thesis
    by (auto simp: frame_of_def)
qed

text \<open>The other case: the user's stack pointer leads to memory that is not mapped.\<close>

lemma context_switch_faults:
  assumes "frame_mapped rsp s" "\<not> stack_mapped rsp s"
  shows "context_switch rsp s = Inl Page_fault"
  using assms(2) unfolding context_switch_def save_context_def user_stack_load [OF assms(1)] move_view_def frame_access(1) [OF assms(1)]
  by (auto simp: access_context stack_mapped_def Let_def)

text \<open>What a context switch does to the queue, the contexts and the memory.\<close>

lemma context_switch_run:
  assumes q: "queue_ok ps s" and f: "frame_ok rsp s"
  defines "p \<equiv> hd ps" and "p' \<equiv> hd (rotate1 ps)"
  shows "\<exists>s'. context_switch rsp s = Inr s' \<and> queue_ok (rotate1 ps) s' \<and>
    saved_of s' p = frame_of rsp s \<and> (\<forall>r \<in> set ps - {p}. saved_of s' r = saved_of s r) \<and>
    frame_of rsp s' = saved_of s' p' \<and>
    (\<forall>r. proc_addr_space (processes s' r) = proc_addr_space (processes s r) \<and> proc_pid (processes s' r) = proc_pid (processes s r))"
proof -
  let ?sp = "\<lambda>r. proc_addr_space (processes s r)"
  have Q: "links_at (processes s) ps" "distinct ps" "queue_head s = p" "queue_tail s = last ps" "inj_on ?sp (set ps)"
    "active s = Some (?sp p)" "\<forall>r \<in> set (tl ps). context_mapped s r" "\<forall>r \<in> set ps. pdp_known s (?sp r)"
    using q by (simp_all add: queue_ok_def p_def)
  have ne: "ps \<noteq> []"
    using Q(1) by auto
  then have p: "p \<in> set ps" "p' \<in> set ps"
    unfolding p_def p'_def by (simp, metis hd_in_set rotate1_is_Nil_conv set_rotate1)
  have p0: "p \<noteq> 0" "p' \<noteq> 0"
    using links_at_nonzero [OF Q(1)] p by blast+
  from save_context_ok [OF q f] obtain um ctx where
    save: "save_context rsp s = Inr (s\<lparr>user_memory := (user_memory s)(?sp p := um),
        processes := (processes s)(p := (processes s p)\<lparr>proc_context_stack_ptr := ctx\<rparr>)\<rparr>)"
      and ctx: "in_user ctx" "\<forall>i < context_size. user_mapped s (?sp p) (ctx + of_nat i)" "bytes um ctx context_size = frame_of rsp s"
    unfolding p_def by blast
  define pr1 where "pr1 = (processes s)(p := (processes s p)\<lparr>proc_context_stack_ptr := ctx\<rparr>)"
  define s1 where "s1 = s\<lparr>user_memory := (user_memory s)(?sp p := um), processes := pr1\<rparr>"
  have "links_at (processes (s1\<lparr>active := None\<rparr>)) ps"
    using Q(1) by (subst links_at_cong [of _ _ "processes s"]) (auto simp: s1_def pr1_def)
  from rotate_queue_ok [OF this Q(2)] Q(3,4) obtain pr where
    rot: "rotate_queue (s1\<lparr>active := None\<rparr>) = Inr (s1\<lparr>active := None, queue_head := p', queue_tail := last (rotate1 ps),
        processes := pr\<rparr>)"
      and L: "links_at pr (rotate1 ps)" and same: "\<forall>r. same_but_next (pr r) (pr1 r)"
    by (auto simp: s1_def p_def p'_def)
  have sp: "proc_addr_space (pr r) = ?sp r" "proc_pid (pr r) = proc_pid (processes s r)"
    "proc_context_stack_ptr (pr r) = (if r = p then ctx else proc_context_stack_ptr (processes s r))" for r
    using same by (auto simp: same_but_next_def pr1_def)
  have users: "in_user (proc_context_stack_ptr (pr r)) \<and> (\<forall>i < context_size. user_mapped s (?sp r) (proc_context_stack_ptr (pr r) + of_nat i))"
    if "r \<in> set ps" for r
  proof (cases "r = p")
    case True
    with ctx sp(3) show ?thesis by simp
  next
    case False
    then have "r \<in> set (tl ps)"
      using that ne unfolding p_def by (metis list.exhaust_sel set_ConsD)
    with Q(7) False sp(3) show ?thesis by (simp add: context_mapped_def)
  qed
  define s2 where "s2 = s1\<lparr>queue_head := p', queue_tail := last (rotate1 ps), processes := pr, active := Some (?sp p')\<rparr>"
  have r: "user_limit \<le> rsp" "unat rsp + context_size \<le> 2 ^ 64"
    using f by (auto simp: frame_ok_def frame_mapped_def)
  have "active s2 = Some (?sp p')" "kernel_memory s2 = kernel_memory s"
    by (simp_all add: s2_def s1_def)
  from copy_in [OF this(1) conjunct1 [OF users [OF p(2)]] r] obtain km where
    km: "put_view (memmove rsp (proc_context_stack_ptr (pr p')) USER_STACK_SAVE_SIZE
        (\<lambda>a. if a < user_limit then user_memory s2 (?sp p') a else kernel_memory s2 a)) s2 = s2\<lparr>kernel_memory := km\<rparr>"
      "bytes km rsp context_size = bytes (user_memory s2 (?sp p')) (proc_context_stack_ptr (pr p')) context_size"
    by blast
  let ?s' = "s2\<lparr>kernel_memory := km\<rparr>"
  have pr: "processes s2 = pr" "queue_head s2 = p'" "active s2 = Some (?sp p')"
    by (simp_all add: s2_def)
  have "map_space (?sp p') (s1\<lparr>active := None, queue_head := p', queue_tail := last (rotate1 ps), processes := pr\<rparr>) = Inr s2"
    using Q(8) p(2) by (simp add: map_space_def s2_def s1_def)
  moreover have "restore_context rsp s2 = Inr ?s'"
  proof -
    have "frame_mapped rsp s2"
      using f by (simp add: frame_ok_def frame_mapped_def s2_def s1_def)
    moreover have "context_mapped s2 p'"
      using users [OF p(2)] by (simp add: context_mapped_def pr sp(1)) (simp add: s2_def s1_def)
    then have "access (proc_context_stack_ptr (pr p')) USER_STACK_SAVE_SIZE s2 = Inr ()"
      using context_access [of s2 p'] by (simp add: pr sp(1))
    ultimately show ?thesis
      using p0 km(1) by (simp add: restore_context_def load_process_def pr move_view_def frame_access(1) view_active)
  qed
  ultimately have run: "context_switch rsp s = Inr ?s'"
    unfolding context_switch_def save [folded pr1_def, folded s1_def] rbind_simps
    using p0 Q(3) rot sp(1) by (simp add: load_process_def unmap_space_def s1_def)
  have saved: "saved_of ?s' r = (if r = p then frame_of rsp s else saved_of s r)" if "r \<in> set ps" for r
  proof -
    have "?sp r \<noteq> ?sp p" if "r \<noteq> p"
      using that inj_onD [OF Q(5)] p(1) \<open>r \<in> set ps\<close> by blast
    then show ?thesis
      using ctx(3) by (simp add: saved_of_def sp s2_def s1_def)
  qed
  have "set (tl (rotate1 ps)) \<subseteq> set ps"
    using ne by (metis list.set_sel(2) rotate1_is_Nil_conv set_rotate1 subsetI)
  then have "queue_ok (rotate1 ps) ?s'"
    using L Q(2,5,8) users sp(1) pr ne by (auto simp: queue_ok_def context_mapped_def p'_def s2_def s1_def inj_on_def)
  moreover have "frame_of rsp ?s' = saved_of ?s' p'"
    using km(2) by (simp add: frame_of_def saved_of_def pr sp(1))
  ultimately show ?thesis
    using run saved p sp by (intro exI [of _ ?s']) (simp add: pr)
qed

section \<open>The abstract scheduler\<close>

text \<open>The frame of the running process, the process, and the waiting processes with their contexts.\<close>

type_synonym scheduler = "u8 list \<times> u64 \<times> (u64 \<times> u8 list) list"

fun switch_to_next :: "scheduler \<Rightarrow> scheduler" where
  "switch_to_next (f, p, []) = (f, p, [])"
| "switch_to_next (f, p, (q, c) # waiting) = (c, q, waiting @ [(p, f)])"

definition scheduler_of :: "u64 \<Rightarrow> u64 list \<Rightarrow> 'w proc_state \<Rightarrow> scheduler" where
  "scheduler_of rsp ps s = (frame_of rsp s, hd ps, map (\<lambda>p. (p, saved_of s p)) (tl ps))"

text \<open>
  C11. The context switch refines the abstract scheduler: it returns, the running process goes to
  the end of the queue with the frame it was interrupted with, the first waiting process gets
  the context it was saved with, and the contexts of the others do not change. The queue, the
  mapped address space and the contexts stay well formed.
\<close>

theorem context_switch_refines:
  assumes "queue_ok ps s" and "frame_ok rsp s"
  shows "\<exists>s'. context_switch rsp s = Inr s' \<and> queue_ok (rotate1 ps) s' \<and>
    scheduler_of rsp (rotate1 ps) s' = switch_to_next (scheduler_of rsp ps s)"
proof -
  from context_switch_run [OF assms] obtain s' where s': "context_switch rsp s = Inr s'" "queue_ok (rotate1 ps) s'"
    "saved_of s' (hd ps) = frame_of rsp s" "\<forall>r \<in> set ps - {hd ps}. saved_of s' r = saved_of s r"
    "frame_of rsp s' = saved_of s' (hd (rotate1 ps))"
    by blast
  have d: "distinct ps" "ps \<noteq> []"
    using assms(1) by (auto simp: queue_ok_def)
  have "scheduler_of rsp (rotate1 ps) s' = switch_to_next (scheduler_of rsp ps s)"
  proof (cases ps)
    case (Cons p qs)
    with s'(3-5) d show ?thesis
      by (cases qs) (auto simp: scheduler_of_def)
  qed (use d in simp)
  with s'(1,2) show ?thesis
    by blast
qed

text \<open>Two processes; the first one has been interrupted with its stack pointer at \<open>0x10000\<close>.\<close>

definition two_processes :: "unit proc_state" where
  "two_processes = \<lparr>queue_head = 0x100, queue_tail = 0x200,
     processes = (\<lambda>_. \<lparr>proc_next = 0, proc_addr_space = 0x20, proc_pid = 1, proc_context_stack_ptr = 0x5000\<rparr>)
       (0x100 := \<lparr>proc_next = 0x200, proc_addr_space = 0x10, proc_pid = 0, proc_context_stack_ptr = 0\<rparr>),
     next_pid = 2, user_memory = \<lambda>_ _. 7, user_mapped = (\<lambda>_ a. 0x4000 \<le> a \<and> a < 0x10000),
     kernel_memory = store64 (user_limit + 8 * 18) 0x10000 (\<lambda>_. 0), kernel_mapped = (\<lambda>a. user_limit \<le> a),
     pdp_known = (\<lambda>sp. sp = 0x10 \<or> sp = 0x20), active = Some 0x10, eoi_writes = 0, proc_world = ()\<rparr>"

lemma two_processes_ok: "queue_ok [0x100, 0x200] two_processes" "frame_ok user_limit two_processes"
proof -
  have less: "(of_nat i :: u64) < 160" if "i < 160" for i
    using that by (simp add: word_less_nat_alt unat_of_nat_u64)
  have mapped: "0x4000 \<le> (b :: u64) + of_nat i \<and> b + of_nat i < 0x10000" if "i < 160" "b = 0x5000 \<or> b = 0xff60" for b i
  proof -
    have "unat (b + of_nat i) = unat b + i"
      using that by (subst unat_add_u64) (auto simp: unat_of_nat_u64)
    then show ?thesis
      using that by (auto simp: word_less_nat_alt word_le_nat_alt)
  qed
  show "queue_ok [0x100, 0x200] two_processes"
    using mapped by (simp add: queue_ok_def two_processes_def context_mapped_def in_user_def context_size_def unat_user_limit)
  have "load64 (store64 a v m) a = v" for a v m
    using load_store_le [of 8 a v m] by (simp add: load64_def store64_def take_bit_word_eq_self)
  then have stack: "user_stack user_limit two_processes = 0x10000"
    by (simp add: user_stack_def two_processes_def)
  have fits: "unat user_limit + context_size \<le> 2 ^ 64"
    by (simp add: unat_user_limit context_size_def)
  have "frame_mapped user_limit two_processes"
    using kernel_address [OF order_refl fits] fits by (simp add: frame_mapped_def two_processes_def not_less)
  moreover have "in_user 0xff60"
    by (simp add: in_user_def context_size_def unat_user_limit)
  from user_address [OF this] have "stack_mapped user_limit two_processes"
    using mapped [of _ "0xff60"] by (simp add: stack_mapped_def stack USER_STACK_SAVE_SIZE_def)
      (simp add: accessible_def two_processes_def context_size_def)
  moreover have "USER_STACK_SAVE_SIZE \<le> 0x10000" "0x10000 \<le> user_limit"
    by (simp_all add: USER_STACK_SAVE_SIZE_def user_limit_def)
  ultimately show "frame_ok user_limit two_processes"
    by (simp add: frame_ok_def stack)
qed

theorem context_switch_refines_witness:
  "\<exists>s'. context_switch user_limit two_processes = Inr s' \<and> queue_head s' = 0x200 \<and> frame_of user_limit s' = replicate 160 7"
proof -
  from context_switch_refines [OF two_processes_ok] obtain s' where
    s': "context_switch user_limit two_processes = Inr s'" "queue_ok [0x200, 0x100] s'"
      "scheduler_of user_limit [0x200, 0x100] s' = switch_to_next (scheduler_of user_limit [0x100, 0x200] two_processes)"
    by auto
  have "saved_of two_processes 0x200 = replicate 160 7"
    by (simp add: saved_of_def two_processes_def bytes_def context_size_def map_replicate_const)
  with s' show ?thesis
    by (auto simp: queue_ok_def scheduler_of_def)
qed

section \<open>Runs\<close>

text \<open>
  Between two timer interrupts the running process and the interrupts it takes change its own
  memory and kernel memory and what is mapped of them, not the queue and not the memory of the other
  address spaces.
\<close>

definition user_step :: "'w proc_state \<Rightarrow> 'w proc_state \<Rightarrow> bool" where
  "user_step s t \<longleftrightarrow> queue_head t = queue_head s \<and> queue_tail t = queue_tail s \<and> processes t = processes s \<and>
     active t = active s \<and> pdp_known t = pdp_known s \<and>
     (\<forall>sp. Some sp \<noteq> active s \<longrightarrow> user_memory t sp = user_memory s sp \<and> user_mapped t sp = user_mapped s sp)"

inductive scheduled :: "u64 \<Rightarrow> 'w proc_state \<Rightarrow> nat \<Rightarrow> 'w proc_state \<Rightarrow> bool" for rsp s where
  start: "scheduled rsp s 0 s"
| run: "scheduled rsp s k t \<Longrightarrow> user_step t u \<Longrightarrow> scheduled rsp s k u"
| timer: "scheduled rsp s k t \<Longrightarrow> frame_ok rsp t \<Longrightarrow> context_switch rsp t = Inr u \<Longrightarrow> scheduled rsp s (Suc k) u"

lemma user_step_queue: "queue_ok ps s \<Longrightarrow> user_step s t \<Longrightarrow> queue_ok ps t"
proof -
  assume q: "queue_ok ps s" and step: "user_step s t"
  have "context_mapped t p" if "p \<in> set (tl ps)" for p
  proof -
    have ps: "ps = hd ps # tl ps"
      using that by (cases ps) auto
    then have "p \<noteq> hd ps" "p \<in> set ps" "hd ps \<in> set ps"
      using that q by (metis distinct.simps(2) queue_ok_def, metis list.set_intros(2), metis list.set_intros(1))
    then have "proc_addr_space (processes s p) \<noteq> proc_addr_space (processes s (hd ps))"
      using q by (auto simp: queue_ok_def inj_on_def)
    then have "user_mapped t (proc_addr_space (processes s p)) = user_mapped s (proc_addr_space (processes s p))"
      using q step by (simp add: user_step_def queue_ok_def)
    then show ?thesis
      using q step that by (simp add: queue_ok_def user_step_def context_mapped_def)
  qed
  then show ?thesis
    using q step by (simp add: queue_ok_def user_step_def)
qed

lemma user_step_saved:
  assumes "queue_ok ps s" "user_step s t" "p \<in> set ps" "p \<noteq> hd ps"
  shows "saved_of t p = saved_of s p"
proof -
  have "hd ps \<in> set ps"
    using assms(3) by (cases ps) auto
  then have "proc_addr_space (processes s p) \<noteq> proc_addr_space (processes s (hd ps))"
    using assms by (auto simp: queue_ok_def inj_on_def)
  then show ?thesis
    using assms(1,2) by (auto simp: saved_of_def user_step_def queue_ok_def)
qed

lemma scheduled_queue:
  "scheduled rsp s k t \<Longrightarrow> queue_ok ps s \<Longrightarrow> queue_ok (rotate k ps) t"
proof (induction rule: scheduled.induct)
  case (run k t u)
  then show ?case
    using user_step_queue by blast
next
  case (timer k t u)
  with context_switch_run [of "rotate k ps" t rsp] show ?case
    by auto
qed simp

lemma hd_rotate_mod: "ps \<noteq> [] \<Longrightarrow> hd (rotate k ps) = ps ! (k mod length ps)"
  by (simp add: hd_rotate_conv_nth)


text \<open>The user has moved the stack pointer to unmapped memory.\<close>

definition lost_stack :: "unit proc_state" where
  "lost_stack = two_processes\<lparr>kernel_memory := store64 (user_limit + 8 * 18) 0x20000 (\<lambda>_. 0)\<rparr>"

lemma lost_stack_unmapped: "frame_mapped user_limit lost_stack" "\<not> stack_mapped user_limit lost_stack"
proof -
  show "frame_mapped user_limit lost_stack"
    using two_processes_ok(2) by (simp add: frame_ok_def frame_mapped_def lost_stack_def)
  have "load64 (store64 a v m) a = v" for a v m
    using load_store_le [of 8 a v m] by (simp add: load64_def store64_def take_bit_word_eq_self)
  then have stack: "user_stack user_limit lost_stack = 0x20000"
    by (simp add: user_stack_def lost_stack_def)
  have "\<not> accessible lost_stack (0x20000 - USER_STACK_SAVE_SIZE + of_nat 0)"
    by (simp add: accessible_def lost_stack_def two_processes_def USER_STACK_SAVE_SIZE_def user_limit_def)
  moreover have "0 < context_size"
    by (simp add: context_size_def)
  ultimately show "\<not> stack_mapped user_limit lost_stack"
    unfolding stack_mapped_def stack by blast
qed


lemma scheduled_saved:
  assumes "scheduled rsp s k t" "queue_ok ps s" "k < length ps" "p = last ps" "2 \<le> length ps"
  shows "k < length ps - 1 \<Longrightarrow> saved_of t p = saved_of s p"
  using assms
proof (induction rule: scheduled.induct)
  case (run k t u)
  have q: "queue_ok (rotate k ps) t"
    by (rule scheduled_queue [OF run.hyps(1) run.prems(2)])
  have ne: "ps \<noteq> []" "distinct ps"
    using run.prems by (auto simp: queue_ok_def)
  have "p \<noteq> hd (rotate k ps)"
    using run.prems ne by (simp add: hd_rotate_mod last_conv_nth nth_eq_iff_index_eq)
  moreover have "p \<in> set (rotate k ps)"
    using run.prems(4) ne by simp
  ultimately show ?case
    using user_step_saved [OF q run.hyps(2)] run.IH run.prems by simp
next
  case (timer k t u)
  have q: "queue_ok (rotate k ps) t"
    by (rule scheduled_queue [OF timer.hyps(1) timer.prems(2)])
  have ne: "ps \<noteq> []" "distinct ps"
    using timer.prems by (auto simp: queue_ok_def)
  have "p \<noteq> hd (rotate k ps)"
    using timer.prems ne by (simp add: hd_rotate_mod last_conv_nth nth_eq_iff_index_eq)
  moreover have "p \<in> set (rotate k ps)"
    using timer.prems(4) ne by simp
  ultimately have "saved_of u p = saved_of t p"
    using context_switch_run [OF q timer.hyps(2)] timer.hyps(3) by auto
  then show ?case
    using timer.IH timer.prems by simp
qed simp



end
