(* ===== verification/Ps2.thy ===== *)
theory Ps2
  imports Apic Idt
begin

text \<open>
  kernel/src/ps2.c and the port instructions of kernel/src/port_io.c it uses: the keyboard
  interrupt. What the keyboard controller has to say is the list of the values its two ports
  return in turn.
\<close>

section \<open>Ports\<close>

text \<open>A device answers reads of its ports and takes writes to them.\<close>

record 'd port_device =
  port_read :: "u16 \<Rightarrow> 'd \<Rightarrow> u32 \<times> 'd"
  port_write :: "u16 \<Rightarrow> u32 \<Rightarrow> 'd \<Rightarrow> 'd"

definition port_out_u8 :: "'d port_device \<Rightarrow> u16 \<Rightarrow> u8 \<Rightarrow> 'd \<Rightarrow> 'd" where
  "port_out_u8 dev addr d = port_write dev addr (ucast d)"

definition port_out_u16 :: "'d port_device \<Rightarrow> u16 \<Rightarrow> u16 \<Rightarrow> 'd \<Rightarrow> 'd" where
  "port_out_u16 dev addr d = port_write dev addr (ucast d)"

definition port_out_u32 :: "'d port_device \<Rightarrow> u16 \<Rightarrow> u32 \<Rightarrow> 'd \<Rightarrow> 'd" where
  "port_out_u32 dev addr d = port_write dev addr d"

definition port_in_u8 :: "'d port_device \<Rightarrow> u16 \<Rightarrow> 'd \<Rightarrow> u8 \<times> 'd" where
  "port_in_u8 dev addr st = (let (v, st) = port_read dev addr st in (ucast v, st))"

definition port_in_u16 :: "'d port_device \<Rightarrow> u16 \<Rightarrow> 'd \<Rightarrow> u16 \<times> 'd" where
  "port_in_u16 dev addr st = (let (v, st) = port_read dev addr st in (ucast v, st))"

definition port_in_u32 :: "'d port_device \<Rightarrow> u16 \<Rightarrow> 'd \<Rightarrow> u32 \<times> 'd" where
  "port_in_u32 dev addr st = port_read dev addr st"

section \<open>State\<close>

definition PS2_STATUS :: u16 where
  "PS2_STATUS = 0x64"

definition PS2_KEYCODE :: u16 where
  "PS2_KEYCODE = 0x60"

definition KEYCODE_LSHIFT :: u8 where
  "KEYCODE_LSHIFT = 0x2A"

definition KEYCODE_RSHIFT :: u8 where
  "KEYCODE_RSHIFT = 0x36"

text \<open>The tables have 128 entries; those not listed are 0.\<close>

definition char_table :: "string \<Rightarrow> u8 list" where
  "char_table cs = map of_char cs"

definition translation_table :: "u8 list" where
  "translation_table = [0, 0] @ char_table ''1234567890-='' @ [0, 0] @ char_table ''qwertyuiop[]'' @ [0, 0] @
     char_table ''asdfghjkl;'' @ [39] @ char_table ''`'' @ [0, 92] @ char_table ''zxcvbnm,./'' @ replicate 74 0"

definition shift_translation_table :: "u8 list" where
  "shift_translation_table = [0, 0] @ char_table ''!@#$%^&*()_+'' @ [0, 0] @ char_table ''QWERTYUIOP{}'' @ [0, 0] @
     char_table ''ASDFGHJKL:'' @ [34] @ char_table ''~'' @ [0] @ char_table ''|ZXCVBNM<>?'' @ replicate 74 0"

record 'd ps2_state =
  g_kbstatus :: "bool list"
  g_last_char_changed :: u8
  ps2_eois :: nat
  ps2_device :: 'd

definition initial_kbstatus :: "bool list" where
  "initial_kbstatus = replicate 0x80 False"

section \<open>The interrupt\<close>

definition upper_case :: "'d ps2_state \<Rightarrow> bool" where
  "upper_case s \<longleftrightarrow> g_kbstatus s ! unat KEYCODE_LSHIFT \<or> g_kbstatus s ! unat KEYCODE_RSHIFT"

definition scan_code_to_letter :: "u8 \<Rightarrow> 'd ps2_state \<Rightarrow> u8 res" where
  "scan_code_to_letter scan_code s =
     (let table = (if upper_case s then shift_translation_table else translation_table) in
      if unat scan_code < 0x80 then Inr (table ! unat scan_code) else Inl Out_of_bounds)"

definition has_byte :: "'d port_device \<Rightarrow> 'd ps2_state \<Rightarrow> bool \<times> 'd ps2_state" where
  "has_byte dev s = (let (v, d) = port_in_u8 dev PS2_STATUS (ps2_device s) in (v AND 1 \<noteq> 0, s\<lparr>ps2_device := d\<rparr>))"

text \<open>\<open>g_lapic->eoi = 0\<close> is counted in \<open>ps2_eois\<close>.\<close>

definition kb_handler :: "'d port_device \<Rightarrow> 'd ps2_state \<Rightarrow> 'd ps2_state res" where
  "kb_handler dev s =
     (let (ready, s) = has_byte dev s in
      if \<not> ready then Inr s
      else
        let (scan_code, d) = port_in_u8 dev PS2_KEYCODE (ps2_device s);
            s = s\<lparr>ps2_device := d\<rparr>;
            pressed = (scan_code AND 0x80 = 0);
            scan_code = scan_code AND NOT 0x80;
            s = s\<lparr>g_kbstatus := (g_kbstatus s)[unat scan_code := pressed]\<rparr> in
        rbind (if pressed then rbind (scan_code_to_letter scan_code s) (\<lambda>c. Inr (s\<lparr>g_last_char_changed := c\<rparr>)) else Inr s) (\<lambda>s.
          Inr (s\<lparr>ps2_eois := ps2_eois s + 1\<rparr>)))"

text \<open>
  \<open>ps2_getch\<close> clears the character and reads it until it is not 0; the value it returns is read once
  more, \<open>g_last_char_changed\<close> being volatile. Interrupts come between any two of these reads: the
  argument lists, for each read in turn, the handlers of the interrupts that arrive before it; when
  the lists run out the code has not returned yet.
\<close>

fun run_handlers :: "('s \<Rightarrow> 's res) list \<Rightarrow> 's \<Rightarrow> 's res" where
  "run_handlers [] s = Inr s"
| "run_handlers (i # is) s = rbind (i s) (run_handlers is)"

fun wait_for_char :: "('d ps2_state \<Rightarrow> 'd ps2_state res) list list \<Rightarrow> 'd ps2_state \<Rightarrow> (u8 \<times> 'd ps2_state) res" where
  "wait_for_char [] s = Inl Diverges"
| "wait_for_char (before_test # reads) s =
     rbind (run_handlers before_test s) (\<lambda>s.
     if g_last_char_changed s = 0 then wait_for_char reads s
     else case reads of
         [] \<Rightarrow> Inl Diverges
       | before_return # _ \<Rightarrow> rbind (run_handlers before_return s) (\<lambda>s. Inr (g_last_char_changed s, s)))"

definition ps2_getch :: "('d ps2_state \<Rightarrow> 'd ps2_state res) list list \<Rightarrow> 'd ps2_state \<Rightarrow> (u8 \<times> 'd ps2_state) res" where
  "ps2_getch reads s = wait_for_char reads (s\<lparr>g_last_char_changed := 0\<rparr>)"

section \<open>Registration\<close>

definition register_ps2_interrupt :: "u64 \<Rightarrow> 'k apic_state \<Rightarrow> IDT \<Rightarrow> ('k apic_state \<times> IDT) res" where
  "register_ps2_interrupt handler_address a idt =
     (let g = gsi (gsi_override_table a 1) in
      case get_responsible_ioapic g a of
        None \<Rightarrow> Inl (Assert_failed ''NO IOAPIC THAT USES KB WAS FOUND'')
      | Some ioapic \<Rightarrow>
          let irq = g - info_gsi_offset ioapic;
              (entry, io) = read_redtable_entry (info_virtual_address ioapic) irq (ioapics a);
              entry = red_set_mask 0 entry;
              entry = red_set_delivery_mode 0 entry;
              entry = red_set_vector 0x21 entry;
              entry = red_set_destination (ucast (lapic_id (g_lapic a))) entry;
              io = write_redtable_entry (info_virtual_address ioapic) irq entry io
          in Inr (a\<lparr>ioapics := io\<rparr>, register_interrupt 0x21 INTERRUPT_GATE False handler_address idt))"

end
