(* ===== verification/Syscalls.thy ===== *)
theory Syscalls
  imports Byte_Memory Ps2 Rendering
begin

text \<open>
  kernel/src/syscalls.c. The dispatcher reads the table of the system calls in the kernel's
  memory \<open>m\<close>; the model returns the address it calls, if it calls one.
\<close>

definition NUM_SYSCALLS :: nat where
  "NUM_SYSCALLS = 5"

definition SYSCALL_HALT :: nat where
  "SYSCALL_HALT = 0"

definition SYSCALL_ALLOC_PAGES :: nat where
  "SYSCALL_ALLOC_PAGES = 1"

definition SYSCALL_GET_FRAMEBUFFER :: nat where
  "SYSCALL_GET_FRAMEBUFFER = 2"

definition SYSCALL_GETCH :: nat where
  "SYSCALL_GETCH = 3"

definition SYSCALL_GET_KEYSTATE :: nat where
  "SYSCALL_GET_KEYSTATE = 4"

text \<open>
  \<open>cmp\<close> with \<open>jge\<close> compares signed; \<open>shl $3\<close> drops the upper bits of \<open>rax\<close>.
\<close>

definition syscall_dispatcher :: "mem \<Rightarrow> u64 \<Rightarrow> u64 \<Rightarrow> u64 option" where
  "syscall_dispatcher m table_address rax =
     (if sint rax \<ge> int NUM_SYSCALLS then None
      else
        let entry = push_bit 3 rax + table_address in
        if load64 m entry = 0 then None else Some (load64 m entry))"

text \<open>The addresses of the functions, which the linker gives them, and the filled table.\<close>

record syscall_addresses =
  addr_syscall_halt :: u64
  addr_syscall_alloc_pages :: u64
  addr_syscall_get_framebuffer :: u64
  addr_syscall_getch :: u64
  addr_syscall_get_keystate :: u64
  addr_syscall_dispatcher :: u64

definition fill_syscall_table :: "syscall_addresses \<Rightarrow> u64 \<Rightarrow> mem \<Rightarrow> mem" where
  "fill_syscall_table f table_address m =
     (let m = store64 (table_address + 8 * of_nat SYSCALL_HALT) (addr_syscall_halt f) m;
          m = store64 (table_address + 8 * of_nat SYSCALL_ALLOC_PAGES) (addr_syscall_alloc_pages f) m;
          m = store64 (table_address + 8 * of_nat SYSCALL_GET_FRAMEBUFFER) (addr_syscall_get_framebuffer f) m;
          m = store64 (table_address + 8 * of_nat SYSCALL_GETCH) (addr_syscall_getch f) m
      in store64 (table_address + 8 * of_nat SYSCALL_GET_KEYSTATE) (addr_syscall_get_keystate f) m)"

text \<open>The model-specific registers; \<open>wrmsr\<close> writes \<open>edx:eax\<close>.\<close>

record msrs =
  msr_efer :: u64
  msr_star :: u64
  msr_lstar :: u64

definition star_high :: u32 where
  "star_high = ucast GDT_KERNEL_CODE_SEGMENT OR push_bit 16 ((ucast GDT_USER_CODE_SEGMENT OR 3) - 0x10)"

definition wrmsr :: "u32 \<Rightarrow> u32 \<Rightarrow> u64" where
  "wrmsr edx eax = push_bit 32 (ucast edx) OR ucast eax"

definition write_syscall_msrs :: "u64 \<Rightarrow> msrs \<Rightarrow> msrs" where
  "write_syscall_msrs syscall_addr r =
     (let addr_low = ucast syscall_addr AND 0xffffffff; addr_high = ucast (drop_bit 32 syscall_addr) AND 0xffffffff in
      r\<lparr>msr_efer := wrmsr (ucast (drop_bit 32 (msr_efer r))) (ucast (msr_efer r) OR 1),
        msr_star := wrmsr star_high (ucast (msr_star r)),
        msr_lstar := wrmsr addr_high addr_low\<rparr>)"

definition prepare_syscalls :: "syscall_addresses \<Rightarrow> u64 \<Rightarrow> msrs \<times> mem \<Rightarrow> msrs \<times> mem" where
  "prepare_syscalls f table_address = (\<lambda>(r, m).
     (write_syscall_msrs (addr_syscall_dispatcher f) r, fill_syscall_table f table_address m))"

section \<open>The calls\<close>

definition syscall_halt :: "unit res" where
  "syscall_halt = Inl Diverges"

definition syscall_get_keystate :: "u8 \<Rightarrow> 'd ps2_state \<Rightarrow> bool" where
  "syscall_get_keystate keycode s = (if keycode \<ge> 0x80 then False else g_kbstatus s ! unat keycode)"

definition syscall_getch :: "('d ps2_state \<Rightarrow> 'd ps2_state res) list list \<Rightarrow> 'd ps2_state \<Rightarrow> (u8 \<times> 'd ps2_state) res" where
  "syscall_getch = ps2_getch"

text \<open>The kernel's operations on address spaces and frames, on the rest of its state.\<close>

record 'k syscall_ops =
  sys_current_space :: "'k \<Rightarrow> u64 res"
  sys_virt_to_phys :: "u64 \<Rightarrow> 'k \<Rightarrow> u64 option res"
  sys_map_phys_range :: "u64 \<Rightarrow> u64 \<Rightarrow> u64 \<Rightarrow> u32 \<Rightarrow> 'k \<Rightarrow> (u64 \<times> 'k) res"
  sys_alloc_frames :: "u64 \<Rightarrow> 'k \<Rightarrow> (u64 \<times> 'k) res"
  sys_map_allocation :: "u64 \<Rightarrow> u64 \<Rightarrow> u32 \<Rightarrow> 'k \<Rightarrow> (u64 \<times> 'k) res"
  sys_free_entries :: "u64 \<Rightarrow> 'k \<Rightarrow> 'k res"

text \<open>
  The copy of \<open>g_frame_buffer\<close> the call returns. When the address is not mapped, \<open>phys_addr\<close>
  stays uninitialized: \<open>junk\<close>.
\<close>

definition syscall_get_framebuffer :: "'k syscall_ops \<Rightarrow> u64 \<Rightarrow> Framebuffer \<Rightarrow> 'k \<Rightarrow> (Framebuffer \<times> 'k) res" where
  "syscall_get_framebuffer ops junk fb k =
     rbind (sys_current_space ops k) (\<lambda>userspace.
     rbind (sys_virt_to_phys ops (fb_address fb) k) (\<lambda>found.
     let phys_addr = (case found of Some a \<Rightarrow> a | None \<Rightarrow> junk) in
     rbind (sys_map_phys_range ops userspace phys_addr (framebuffer_pages fb) PAGING_WRITABLE k) (\<lambda>(virt, k).
       Inr (fb\<lparr>fb_address := virt\<rparr>, k))))"

definition syscall_alloc_pages :: "'k syscall_ops \<Rightarrow> u64 \<Rightarrow> 'k \<Rightarrow> (u64 \<times> 'k) res" where
  "syscall_alloc_pages ops pages k =
     rbind (sys_alloc_frames ops pages k) (\<lambda>(allocation, k).
     if allocation = 0 then Inr (0, k)
     else
       rbind (sys_current_space ops k) (\<lambda>userspace.
       rbind (sys_map_allocation ops userspace allocation PAGING_WRITABLE k) (\<lambda>(ptr, k).
       rbind (sys_free_entries ops allocation k) (\<lambda>k. Inr (ptr, k)))))"

end
