(* ===== verification/Ps2_Properties.thy ===== *)
theory Ps2_Properties
  imports Ps2 Syscalls
begin

text \<open>
  The keyboard from the interrupt to the system calls: the keys held, the characters read, and
  the way the interrupt is routed.
\<close>

section \<open>Scan codes\<close>

text \<open>The controller answers the two port reads of one interrupt after the other with these codes.\<close>

inductive delivers :: "'d port_device \<Rightarrow> 'd \<Rightarrow> u8 list \<Rightarrow> 'd \<Rightarrow> bool" for dev where
  no_code: "delivers dev d [] d"
| next_code: "port_in_u8 dev PS2_STATUS d = (status, d1) \<Longrightarrow> bit status 0 \<Longrightarrow> port_in_u8 dev PS2_KEYCODE d1 = (code, d2) \<Longrightarrow>
    delivers dev d2 codes d' \<Longrightarrow> delivers dev d (code # codes) d'"

inductive_cases deliversE: "delivers dev d (code # codes) d'"

text \<open>What a scan code does to the keys held, and the letter of a key.\<close>

definition key_of :: "u8 \<Rightarrow> nat" where
  "key_of code = unat (take_bit 7 code)"

definition key_status :: "u8 \<Rightarrow> bool list \<Rightarrow> bool list" where
  "key_status code st = st[key_of code := \<not> bit code 7]"

definition key_letter :: "bool list \<Rightarrow> nat \<Rightarrow> u8" where
  "key_letter st k = (if st ! 0x2a \<or> st ! 0x36 then shift_translation_table ! k else translation_table ! k)"

lemma key_of_bound: "key_of code < 128"
  unfolding key_of_def by (simp only: unsigned_take_bit_eq take_bit_nat_def) simp

lemma code_bits: "code AND - 129 = take_bit 7 code" "code AND 128 = 0 \<longleftrightarrow> \<not> bit code 7" for code :: u8
proof -
  have b: "bit (128 :: u8) n \<longleftrightarrow> n = 7" for n
  proof -
    have m: "(128 :: u8) = push_bit 7 1"
      by simp
    show ?thesis
      by (simp only: m bit_push_bit_iff bit_1_iff) auto
  qed
  have neg: "- 129 = NOT (128 :: u8)"
    by simp
  show "code AND - 129 = take_bit 7 code"
    unfolding neg by (rule bit_word_eqI) (auto simp only: bit_and_iff bit_not_iff bit_take_bit_iff b len_bit0 len_num1 possible_bit_word)
  show "code AND 128 = 0 \<longleftrightarrow> \<not> bit code 7"
  proof
    assume "code AND 128 = 0"
    then have "\<not> bit (code AND 128) 7"
      by simp
    then show "\<not> bit code 7"
      by (simp only: bit_and_iff b) simp
  next
    assume "\<not> bit code 7"
    then show "code AND 128 = 0"
      by (intro bit_word_eqI) (auto simp only: bit_and_iff b bit_0_eq)
  qed
qed

lemma kb_handler_code:
  assumes "port_in_u8 dev PS2_STATUS (ps2_device s) = (status, d1)" "bit status 0"
    and "port_in_u8 dev PS2_KEYCODE d1 = (code, d2)"
  shows "kb_handler dev s = Inr (let st = key_status code (g_kbstatus s) in
    s\<lparr>ps2_device := d2, g_kbstatus := st, ps2_eois := ps2_eois s + 1,
      g_last_char_changed := (if bit code 7 then g_last_char_changed s else key_letter st (key_of code))\<rparr>)"
proof -
  have ready: "status AND 1 \<noteq> 0"
    using assms(2) by (simp add: and_one_eq bit_0 odd_iff_mod_2_eq_one) 
  have u: "unat (take_bit 7 code) = key_of code"
    by (simp add: key_of_def)
  show ?thesis
    using key_of_bound [of code] assms(3)
    by (simp add: kb_handler_def has_byte_def assms(1) ready code_bits u key_status_def scan_code_to_letter_def
        upper_case_def key_letter_def Let_def KEYCODE_LSHIFT_def KEYCODE_RSHIFT_def)
qed

lemma handle_codes:
  "delivers dev d codes d' \<Longrightarrow> ps2_device s = d \<Longrightarrow>
     \<exists>s'. run_handlers (replicate (length codes) (kb_handler dev)) s = Inr s' \<and> ps2_device s' = d' \<and>
       ps2_eois s' = ps2_eois s + length codes \<and> g_kbstatus s' = fold key_status codes (g_kbstatus s)"
proof (induction arbitrary: s rule: delivers.induct)
  case (next_code d status d1 code d2 codes d')
  let ?st = "key_status code (g_kbstatus s)"
  let ?s = "s\<lparr>ps2_device := d2, g_kbstatus := ?st, ps2_eois := ps2_eois s + 1,
    g_last_char_changed := (if bit code 7 then g_last_char_changed s else key_letter ?st (key_of code))\<rparr>"
  have "kb_handler dev s = Inr ?s"
    using next_code by (simp add: kb_handler_code Let_def)
  moreover obtain s' where "run_handlers (replicate (length codes) (kb_handler dev)) ?s = Inr s'" "ps2_device s' = d'"
    "ps2_eois s' = ps2_eois s + 1 + length codes" "g_kbstatus s' = fold key_status codes ?st"
    using next_code.IH [of ?s] by auto
  ultimately show ?case
    by (intro exI [of _ s']) simp
qed simp

lemma length_key_status [simp]: "length (key_status c st) = length st"
  by (simp add: key_status_def)

lemma length_fold_key_status [simp]: "length (fold key_status codes st) = length st"
  by (induction codes arbitrary: st) simp_all

lemma nth_key_status: "k < length st \<Longrightarrow> key_status c st ! k = (if key_of c = k then \<not> bit c 7 else st ! k)"
  by (simp add: key_status_def nth_list_update)

lemma fold_key_status:
  assumes "k < length st"
  shows "fold key_status codes st ! k = (case find (\<lambda>c. key_of c = k) (rev codes) of Some c \<Rightarrow> \<not> bit c 7 | None \<Rightarrow> st ! k)"
  by (induction codes rule: rev_induct) (simp_all add: assms nth_key_status)

text \<open>
  C33. When the controller delivers a list of scan codes, one interrupt each, every handler run
  returns and acknowledges its interrupt, and afterwards a key counts as held exactly when the
  last of its codes was a press, or, without a code of it, when it was held before.
\<close>

theorem kb_handler_tracks_keys:
  assumes "delivers dev (ps2_device s) codes d'" and "length (g_kbstatus s) = 128"
  shows "\<exists>s'. run_handlers (replicate (length codes) (kb_handler dev)) s = Inr s' \<and> ps2_device s' = d' \<and>
    length (g_kbstatus s') = 128 \<and> ps2_eois s' = ps2_eois s + length codes \<and>
    (\<forall>k < 128. syscall_get_keystate (of_nat k) s' =
      (case find (\<lambda>c. key_of c = k) (rev codes) of Some c \<Rightarrow> \<not> bit c 7 | None \<Rightarrow> g_kbstatus s ! k))"
proof -
  have key: "syscall_get_keystate (of_nat k) s' = g_kbstatus s' ! k" if "k < 128" for k and s' :: "'a ps2_state"
  proof -
    have "unat (of_nat k :: u8) = k"
      using that by (simp add: unat_of_nat take_bit_nat_eq_self)
    then show ?thesis
      using that by (simp add: syscall_get_keystate_def word_le_nat_alt)
  qed
  from handle_codes [OF assms(1) refl] assms(2) show ?thesis
    by (auto simp: key fold_key_status)
qed

fun typed_letters :: "bool list \<Rightarrow> u8 list \<Rightarrow> u8 list" where
  "typed_letters st [] = []"
| "typed_letters st (c # codes) =
     (let st = key_status c st in (if bit c 7 then [] else [key_letter st (key_of c)]) @ typed_letters st codes)"

text \<open>What the variable holds after the codes: the letter of the last press, or what it held before.\<close>

lemma typed_letters_append:
  "typed_letters st (codes @ codes') = typed_letters st codes @ typed_letters (fold key_status codes st) codes'"
  by (induction codes arbitrary: st) (simp_all add: Let_def)

lemma deliversE_append:
  assumes "delivers dev d (codes @ codes') d'"
  obtains d1 where "delivers dev d codes d1" "delivers dev d1 codes' d'"
  using assms
proof (induction codes arbitrary: d thesis)
  case (Cons c codes)
  from Cons.prems(2) obtain status d1 d2 where code: "port_in_u8 dev PS2_STATUS d = (status, d1)" "bit status 0"
    "port_in_u8 dev PS2_KEYCODE d1 = (c, d2)" and rest: "delivers dev d2 (codes @ codes') d'"
    by (auto elim: deliversE)
  from rest obtain d3 where "delivers dev d2 codes d3" "delivers dev d3 codes' d'"
    by (rule Cons.IH [rotated])
  with Cons.prems(1) delivers.next_code [OF code] show ?case
    by blast
qed (auto intro: delivers.intros)

lemma handlers_char:
  "delivers dev d codes d' \<Longrightarrow> ps2_device s = d \<Longrightarrow>
     \<exists>s'. run_handlers (replicate (length codes) (kb_handler dev)) s = Inr s' \<and> ps2_device s' = d' \<and>
       g_kbstatus s' = fold key_status codes (g_kbstatus s) \<and>
       g_last_char_changed s' = last (g_last_char_changed s # typed_letters (g_kbstatus s) codes)"
proof (induction arbitrary: s rule: delivers.induct)
  case (next_code d status d1 code d2 codes d')
  let ?st = "key_status code (g_kbstatus s)"
  let ?s = "s\<lparr>ps2_device := d2, g_kbstatus := ?st, ps2_eois := ps2_eois s + 1,
    g_last_char_changed := (if bit code 7 then g_last_char_changed s else key_letter ?st (key_of code))\<rparr>"
  have "kb_handler dev s = Inr ?s"
    using next_code by (simp add: kb_handler_code Let_def)
  moreover obtain s' where "run_handlers (replicate (length codes) (kb_handler dev)) ?s = Inr s'" "ps2_device s' = d'"
    "g_kbstatus s' = fold key_status codes ?st" "g_last_char_changed s' = last (g_last_char_changed ?s # typed_letters ?st codes)"
    using next_code.IH [of ?s] by auto
  ultimately show ?case
    by (intro exI [of _ s']) (simp add: Let_def)
qed simp

text \<open>
  The value of the variable at read \<open>i\<close>, the codes that arrive before each read being given, and what
  \<open>ps2_getch\<close> makes of these values.
\<close>

definition seen_at :: "u8 \<Rightarrow> bool list \<Rightarrow> u8 list list \<Rightarrow> nat \<Rightarrow> u8" where
  "seen_at c st codess i = last (c # typed_letters st (concat (take (Suc i) codess)))"

lemma seen_at_Suc: "seen_at c st (codes # codess) (Suc i) = seen_at (last (c # typed_letters st codes)) (fold key_status codes st) codess i"
  by (simp add: seen_at_def typed_letters_append last_append)

definition first_seen :: "u8 \<Rightarrow> bool list \<Rightarrow> u8 list list \<Rightarrow> nat option" where
  "first_seen c st codess = find (\<lambda>i. seen_at c st codess i \<noteq> 0) [0..<length codess - 1]"

lemma find_map_Suc: "find P (map Suc xs) = map_option Suc (find (\<lambda>i. P (Suc i)) xs)"
  by (induction xs) auto

lemma first_seen_Cons:
  assumes "codess \<noteq> []"
  shows "first_seen c st (codes # codess) =
    (if last (c # typed_letters st codes) \<noteq> 0 then Some 0
     else map_option Suc (first_seen (last (c # typed_letters st codes)) (fold key_status codes st) codess))"
proof -
  have "[0..<length (codes # codess) - 1] = 0 # map Suc [0..<length codess - 1]"
    using assms by (cases codess) (simp_all add: upt_conv_Cons map_Suc_upt del: upt_Suc)
  moreover have "seen_at c st (codes # codess) 0 = last (c # typed_letters st codes)"
    by (simp add: seen_at_def)
  ultimately show ?thesis
    unfolding first_seen_def by (simp add: find_map_Suc seen_at_Suc comp_def)
qed

abbreviation keyboard_reads :: "'d port_device \<Rightarrow> u8 list list \<Rightarrow> ('d ps2_state \<Rightarrow> 'd ps2_state res) list list" where
  "keyboard_reads dev codess \<equiv> map (\<lambda>codes. replicate (length codes) (kb_handler dev)) codess"

lemma wait_codes:
  "delivers dev (ps2_device s) (concat codess) d' \<Longrightarrow>
     (case first_seen (g_last_char_changed s) (g_kbstatus s) codess of
       None \<Rightarrow> wait_for_char (keyboard_reads dev codess) s = Inl Diverges
     | Some i \<Rightarrow> \<exists>s'. wait_for_char (keyboard_reads dev codess) s =
         Inr (seen_at (g_last_char_changed s) (g_kbstatus s) codess (Suc i), s'))"
proof (induction codess arbitrary: s)
  case Nil
  then show ?case
    by (simp add: first_seen_def)
next
  case (Cons codes codess)
  obtain d1 where d1: "delivers dev (ps2_device s) codes d1" "delivers dev d1 (concat codess) d'"
    using Cons.prems by (auto elim: deliversE_append)
  obtain s1 where s1: "run_handlers (replicate (length codes) (kb_handler dev)) s = Inr s1" "ps2_device s1 = d1"
    "g_kbstatus s1 = fold key_status codes (g_kbstatus s)" "g_last_char_changed s1 = last (g_last_char_changed s # typed_letters (g_kbstatus s) codes)"
    using handlers_char [OF d1(1) refl] by blast
  show ?case
  proof (cases codess)
    case Nil
    with s1 show ?thesis
      by (simp add: first_seen_def)
  next
    case (Cons next_codes rest)
    note first = first_seen_Cons [of codess, unfolded Cons, OF list.distinct(2), of "g_last_char_changed s" "g_kbstatus s" codes, folded Cons s1(3,4)]
    show ?thesis
    proof (cases "g_last_char_changed s1 = 0")
      case True
      then show ?thesis
        using Cons.IH [of s1] d1(2) s1 first by (auto simp: seen_at_Suc split: option.splits)
    next
      case False
      obtain d2 where "delivers dev d1 next_codes d2"
        using d1(2) Cons by (auto elim: deliversE_append)
      with handlers_char [OF this s1(2)] obtain s2 where "run_handlers (replicate (length next_codes) (kb_handler dev)) s1 = Inr s2"
        "g_last_char_changed s2 = last (g_last_char_changed s1 # typed_letters (g_kbstatus s1) next_codes)"
        by blast
      with False show ?thesis
        using s1 first Cons by (simp add: seen_at_Suc) (simp add: seen_at_def)
    qed
  qed
qed

text \<open>
  C34. \<open>ps2_getch\<close> returns as soon as a read finds a letter and the variable has been read again, and then
  returns what that second read finds: the letter of the last key pressed before it since the call, with the shift keys
  held at that press. So it returns the first letter typed when no key is pressed between the two reads, and
  otherwise the last letter before the second read, which is 0 when the last key has none. It keeps waiting
  when no read but the last finds a letter. (The codes of \<open>codess ! i\<close> arrive before read \<open>i\<close>.)
\<close>

theorem ps2_getch_returns:
  assumes "delivers dev (ps2_device s) (concat codess) d'"
  shows "case first_seen 0 (g_kbstatus s) codess of
       None \<Rightarrow> ps2_getch (keyboard_reads dev codess) s = Inl Diverges
     | Some i \<Rightarrow> (\<exists>s'. ps2_getch (keyboard_reads dev codess) s = Inr (seen_at 0 (g_kbstatus s) codess (Suc i), s')) \<and>
         seen_at 0 (g_kbstatus s) codess i \<noteq> 0 \<and> (\<forall>j < i. seen_at 0 (g_kbstatus s) codess j = 0) \<and>
         (typed_letters (fold key_status (concat (take (Suc i) codess)) (g_kbstatus s)) (codess ! Suc i) = [] \<longrightarrow>
            seen_at 0 (g_kbstatus s) codess (Suc i) = seen_at 0 (g_kbstatus s) codess i)"
proof (cases "first_seen 0 (g_kbstatus s) codess")
  case None
  with wait_codes [of dev "s\<lparr>g_last_char_changed := 0\<rparr>" codess d'] assms show ?thesis
    by (simp add: ps2_getch_def)
next
  case (Some i)
  then have i: "i < length codess - 1" "seen_at 0 (g_kbstatus s) codess i \<noteq> 0" "\<forall>j < i. seen_at 0 (g_kbstatus s) codess j = 0"
    by (auto simp: first_seen_def find_Some_iff)
  then have "take (Suc (Suc i)) codess = take (Suc i) codess @ [codess ! Suc i]"
    by (intro take_Suc_conv_app_nth) simp
  then have "seen_at 0 (g_kbstatus s) codess (Suc i) = seen_at 0 (g_kbstatus s) codess i"
    if "typed_letters (fold key_status (concat (take (Suc i) codess)) (g_kbstatus s)) (codess ! Suc i) = []"
    using that by (simp add: seen_at_def typed_letters_append del: take_Suc_Cons)
  with Some i(2,3) wait_codes [of dev "s\<lparr>g_last_char_changed := 0\<rparr>" codess d'] assms show ?thesis
    by (simp add: ps2_getch_def)
qed

text \<open>A keyboard controller that holds a list of scan codes.\<close>

definition queue_keyboard :: "u8 list port_device" where
  "queue_keyboard = \<lparr>port_read = (\<lambda>addr d. if addr = PS2_STATUS then (if d = [] then 0 else 1, d)
       else case d of [] \<Rightarrow> (0, d) | c # d \<Rightarrow> (ucast c, d)), port_write = (\<lambda>_ _ d. d)\<rparr>"

lemma queue_keyboard_delivers: "delivers queue_keyboard codes codes []"
proof (induction codes)
  case (Cons c codes)
  have u: "ucast (ucast c :: u32) = c" for c :: u8
    by (rule bit_word_eqI) (auto simp: bit_simps)
  have "port_in_u8 queue_keyboard PS2_STATUS (c # codes) = (1, c # codes)" "port_in_u8 queue_keyboard PS2_KEYCODE (c # codes) = (c, codes)"
    by (simp_all add: queue_keyboard_def port_in_u8_def PS2_STATUS_def PS2_KEYCODE_def u Let_def split: prod.splits)
  then show ?case
    by (intro next_code [OF _ _ _ Cons]) (auto simp: bit_1_iff)
qed (rule no_code)

definition keyboard_start :: "u8 list \<Rightarrow> u8 list ps2_state" where
  "keyboard_start codes = \<lparr>g_kbstatus = initial_kbstatus, g_last_char_changed = 0, ps2_eois = 0, ps2_device = codes\<rparr>"

theorem kb_handler_tracks_keys_witness:
  "\<exists>s'. run_handlers (replicate 3 (kb_handler queue_keyboard)) (keyboard_start [0x2a, 0x1e, 0x9e]) = Inr s' \<and>
     syscall_get_keystate 0x2a s' \<and> \<not> syscall_get_keystate 0x1e s'"
proof -
  have "delivers queue_keyboard (ps2_device (keyboard_start [0x2a, 0x1e, 0x9e])) [0x2a, 0x1e, 0x9e] []"
    "length (g_kbstatus (keyboard_start [0x2a, 0x1e, 0x9e])) = 128"
    using queue_keyboard_delivers by (simp_all add: keyboard_start_def initial_kbstatus_def)
  from kb_handler_tracks_keys [OF this] obtain s' where
    run: "run_handlers (replicate 3 (kb_handler queue_keyboard)) (keyboard_start [0x2a, 0x1e, 0x9e]) = Inr s'"
    and keys: "\<forall>k < 128. syscall_get_keystate (of_nat k) s' = (case find (\<lambda>c. key_of c = k) (rev [0x2a, 0x1e, 0x9e]) of
      Some c \<Rightarrow> \<not> bit c 7 | None \<Rightarrow> g_kbstatus (keyboard_start [0x2a, 0x1e, 0x9e]) ! k)"
    by (auto simp: numeral_3_eq_3)
  have "key_of 0x2a = 0x2a" "key_of 0x1e = 0x1e" "key_of 0x9e = 0x1e" "\<not> bit (0x2a :: u8) 7" "bit (0x9e :: u8) 7"
    by (simp_all add: key_of_def bit_numeral_rec bit_iff_odd)
  with run keys [THEN spec, of "0x2a"] keys [THEN spec, of "0x1e"] show ?thesis
    by simp
qed

theorem ps2_getch_returns_witness:
  "(\<exists>s'. ps2_getch (keyboard_reads queue_keyboard [[0x2a], [0x1e], []]) (keyboard_start [0x2a, 0x1e]) = Inr (of_char CHR ''A'', s')) \<and>
   (\<exists>s'. ps2_getch (keyboard_reads queue_keyboard [[0x1e], [0x2a]]) (keyboard_start [0x1e, 0x2a]) = Inr (0, s'))"
proof
  let ?codess = "[[0x2a], [0x1e], []] :: u8 list list" and ?late = "[[0x1e], [0x2a]] :: u8 list list"
  have first: "first_seen 0 initial_kbstatus ?codess = Some 1" "seen_at 0 initial_kbstatus ?codess 2 = of_char CHR ''A''"
    "first_seen 0 initial_kbstatus ?late = Some 0" "seen_at 0 initial_kbstatus ?late 1 = 0"
    by code_simp+
  have start: "ps2_device (keyboard_start codes) = codes" "g_kbstatus (keyboard_start codes) = initial_kbstatus" for codes
    by (simp_all add: keyboard_start_def)
  note run = ps2_getch_returns [of queue_keyboard "keyboard_start (concat codess)" codess "[]" for codess, unfolded start, OF queue_keyboard_delivers]
  from run [of ?codess, unfolded first option.case]
  show "\<exists>s'. ps2_getch (keyboard_reads queue_keyboard ?codess) (keyboard_start [0x2a, 0x1e]) = Inr (of_char CHR ''A'', s')"
    using first(2) by (auto simp: numeral_2_eq_2)
  from run [of ?late, unfolded first option.case]
  show "\<exists>s'. ps2_getch (keyboard_reads queue_keyboard ?late) (keyboard_start [0x1e, 0x2a]) = Inr (0, s')"
    using first(4) by auto
qed

section \<open>Routing\<close>

lemma red_entry_parts: "red_entry (red_lower_dword e) (red_upper_dword e) = e"
  unfolding red_entry_def red_lower_dword_def red_upper_dword_def
  by (rule bit_word_eqI) (auto simp: bit_simps)

lemma read_write_redtable_entry:
  "fst (read_redtable_entry a irq (write_redtable_entry a irq e io)) = e"
proof -
  have "ucast (x :: u8) \<noteq> (ucast (x + 1) :: u32)" for x
  proof
    assume "ucast x = (ucast (x + 1) :: u32)"
    then have "ucast (ucast x :: u32) = (ucast (ucast (x + 1) :: u32) :: u8)"
      by simp
    moreover have "ucast (ucast y :: u32) = y" for y :: u8
      by (rule bit_word_eqI) (auto simp: bit_simps)
    ultimately have "x = x + 1"
      by simp
    then show False
      by simp
  qed
  note ne = this this [symmetric]
  show ?thesis
    by (simp add: read_redtable_entry_def write_redtable_entry_def read_ioapic_register_def write_ioapic_register_def Let_def ne red_entry_parts)
qed

lemma responsible_offset:
  fixes g off n :: u32
  assumes "off \<le> g \<and> unat g < unat (off + n)"
  shows "unat (g - off) < unat n"
proof -
  have "unat (off + n) \<le> unat off + unat n"
    by (simp add: unat_word_ariths(1))
  moreover have "unat (g - off) = unat g - unat off"
    using assms by (intro unat_sub) simp
  ultimately show ?thesis
    using assms unfolding word_le_nat_alt by linarith
qed

definition redtable_registers :: "u32 \<Rightarrow> u32 set" where
  "redtable_registers irq = {ucast (ucast (REDTBL_OFFSET irq) :: u8), ucast (ucast (REDTBL_OFFSET irq) + 1 :: u8)}"

text \<open>
  C35. Registering the keyboard interrupt writes, through the register window of the controller
  responsible for the keyboard's line, a redirection entry that reads back as unmasked and fixed
  delivery of vector 0x21, with all other bits of the entry and all other
  registers as before; the line is one of the controller's, and the vector's gate is set. The
  destination is the low byte of the ID register of the local APIC. The register holds the processor's id
  in its top byte and 0 below: then the interrupt goes to the processor with id 0, whichever runs this.
\<close>

theorem register_ps2_interrupt_routes:
  assumes "get_responsible_ioapic (gsi (gsi_override_table a 1)) a = Some ioapic"
  shows "\<exists>a'. register_ps2_interrupt h a idt = Inr (a', register_interrupt 0x21 INTERRUPT_GATE False h idt) \<and>
    (let virt = info_virtual_address ioapic; irq = gsi (gsi_override_table a 1) - info_gsi_offset ioapic;
         e = fst (read_redtable_entry virt irq (ioapics a)); e' = fst (read_redtable_entry virt irq (ioapics a')) in
       irq < info_used_irqs ioapic \<and>
       red_vector e' = 0x21 \<and> red_mask e' = 0 \<and> red_delivery_mode e' = 0 \<and> red_destination e' = ucast (take_bit 8 (lapic_id (g_lapic a))) \<and>
       (\<forall>id :: u8. lapic_id (g_lapic a) = push_bit 24 (ucast id) \<longrightarrow> red_destination e' = 0) \<and>
       (\<forall>i. i \<notin> {0..<11} \<union> {16} \<union> {56..<64} \<longrightarrow> bit e' i = bit e i) \<and>
       (\<forall>x. x \<noteq> virt \<longrightarrow> ioapics a' x = ioapics a x) \<and>
       (\<forall>r. r \<notin> redtable_registers irq \<longrightarrow> ioapic_registers (ioapics a' virt) r = ioapic_registers (ioapics a virt) r))"
proof -
  let ?virt = "info_virtual_address ioapic" and ?g = "gsi (gsi_override_table a 1)"
  let ?irq = "?g - info_gsi_offset ioapic"
  let ?e = "fst (read_redtable_entry ?virt ?irq (ioapics a))"
  let ?io = "snd (read_redtable_entry ?virt ?irq (ioapics a))"
  let ?e' = "red_set_destination (ucast (lapic_id (g_lapic a))) (red_set_vector 0x21 (red_set_delivery_mode 0 (red_set_mask 0 ?e)))"
  let ?a' = "a\<lparr>ioapics := write_redtable_entry ?virt ?irq ?e' ?io\<rparr>"
  have run: "register_ps2_interrupt h a idt = Inr (?a', register_interrupt 0x21 INTERRUPT_GATE False h idt)"
    using assms by (simp add: register_ps2_interrupt_def Let_def split: prod.splits)
  have resp: "responsible ?g ioapic"
    using assms by (auto simp: get_responsible_ioapic_def find_Some_iff)
  then have irq: "?irq < info_used_irqs ioapic"
    unfolding responsible_def word_less_nat_alt by (rule responsible_offset)
  have fields: "red_vector ?e' = 0x21" "red_mask ?e' = 0" "red_delivery_mode ?e' = 0" "red_destination ?e' = ucast (take_bit 8 (lapic_id (g_lapic a)))"
    by (auto simp: red_vector_def red_mask_def red_delivery_mode_def red_destination_def red_set_destination_def red_set_vector_def
        red_set_delivery_mode_def red_set_mask_def get_set_field bit_simps intro!: bit_word_eqI)
  have "take_bit 8 (push_bit 24 (ucast id)) = (0 :: u32)" for id :: u8
    by (rule bit_word_eqI) (auto simp: bit_simps)
  then have low: "(\<exists>id :: u8. lapic_id (g_lapic a) = push_bit 24 (ucast id)) \<longrightarrow> ucast (take_bit 8 (lapic_id (g_lapic a))) = (0 :: u64)"
    by (metis unsigned_0)
  have bits: "bit ?e' i = bit ?e i" if "i \<notin> {0..<11} \<union> {16} \<union> {56..<64}" for i
    using that by (auto simp: red_set_destination_def red_set_vector_def red_set_delivery_mode_def red_set_mask_def bit_set_field)
  have other: "ioapics ?a' x = ioapics a x" if "x \<noteq> ?virt" for x
    using that by (simp add: read_redtable_entry_def write_redtable_entry_def read_ioapic_register_def write_ioapic_register_def Let_def)
  have regs: "ioapic_registers (ioapics ?a' ?virt) r = ioapic_registers (ioapics a ?virt) r" if "r \<notin> redtable_registers ?irq" for r
    using that by (simp add: redtable_registers_def read_redtable_entry_def write_redtable_entry_def read_ioapic_register_def write_ioapic_register_def Let_def)
  show ?thesis
    unfolding run by (intro exI [of _ ?a']) (use irq fields low bits other regs in \<open>simp add: read_write_redtable_entry Let_def\<close>)
qed

definition example_apics :: "unit apic_state" where
  "example_apics = \<lparr>gsi_override_table = (\<lambda>i. \<lparr>gsi_present = False, gsi = of_nat i, gsi_flags = 0\<rparr>),
     found_ioapics = [\<lparr>info_ioapic_id = 0, info_physical_address = 0xfec00000, info_virtual_address = 0x1000,
       info_gsi_offset = 0, info_used_irqs = 24\<rparr>],
     found_lapics = [], g_lapic = \<lparr>lapic_id = 0x03000000, task_priority = 0, lapic_eoi = 0, spurious_interrupt_vector = 0,
       lvt_timer = 0, lvt_lint0 = 0, lvt_lint1 = 0, initial_count = 0, divide_configuration = 0\<rparr>,
     g_lapic_address = 0, apic_base_msr = 0, port_writes = [],
     ioapics = (\<lambda>_. \<lparr>current_register = 0, ioapic_registers = (\<lambda>_. 0x10000)\<rparr>), apic_kernel = ()\<rparr>"

theorem register_ps2_interrupt_routes_witness:
  "\<exists>a' idt'. register_ps2_interrupt 0x5000 example_apics (\<lambda>_. undefined) = Inr (a', idt') \<and>
     red_vector (fst (read_redtable_entry 0x1000 1 (ioapics a'))) = 0x21 \<and>
     red_destination (fst (read_redtable_entry 0x1000 1 (ioapics a'))) = 0"
proof -
  have "get_responsible_ioapic (gsi (gsi_override_table example_apics 1)) example_apics = Some
      \<lparr>info_ioapic_id = 0, info_physical_address = 0xfec00000, info_virtual_address = 0x1000, info_gsi_offset = 0, info_used_irqs = 24\<rparr>"
    by (simp add: get_responsible_ioapic_def responsible_def example_apics_def)
  from register_ps2_interrupt_routes [OF this, of "0x5000" "\<lambda>_. undefined"] show ?thesis
    by (auto simp: Let_def example_apics_def)
qed

end
