(* ===== verification/Slab_Allocator.thy ===== *)
theory Slab_Allocator
  imports Util
begin

text \<open>
  kernel/src/memory/slab_allocator.c: \<open>kalloc\<close> and \<open>kfree\<close>. Each cache holds slabs of objects
  of one size; a slab keeps the indices of its free objects as a chain in an array of
  \<open>uint32_t\<close> in front of the objects. The pages come from \<open>alloc_pages\<close> and go back to
  \<open>free_pages\<close>, the arguments \<open>ap\<close> and \<open>fp\<close>, which act on the rest of the kernel (\<open>world\<close>)
  and do not touch the structures of this file.
\<close>

section \<open>State\<close>

record Slab =
  slab_next :: u64
  slab_prev :: u64
  slab_mem :: u64
  slab_allocated :: u32
  slab_next_free :: u32

record Cache =
  cache_part :: u64
  cache_full :: u64
  cache_pages :: u32
  cache_size :: u32
  cache_count :: u32
  cache_free_arr_size :: u32
  cache_mem_size :: u32

record PageAllocation =
  pa_next :: u64
  pa_ptr :: u64
  pa_pages :: u64

record 'w slab_state =
  size_caches :: "nat \<Rightarrow> Cache"
  page_allocation_list :: u64
  slabs :: "u64 \<Rightarrow> Slab"
  free_arrays :: "u64 \<Rightarrow> u32"                \<comment> \<open>the \<open>uint32_t\<close> at an address\<close>
  page_allocations :: "u64 \<Rightarrow> PageAllocation"
  world :: 'w

type_synonym 'w page_alloc = "u64 \<Rightarrow> u32 \<Rightarrow> 'w \<Rightarrow> (u64 \<times> 'w) res"
type_synonym 'w page_free = "u64 \<Rightarrow> u64 \<Rightarrow> 'w \<Rightarrow> 'w res"

definition CACHE_START_ORDER :: nat where
  "CACHE_START_ORDER = 4"

definition CACHE_END_ORDER :: nat where
  "CACHE_END_ORDER = 11"

definition NUM_CACHES :: nat where
  "NUM_CACHES = CACHE_END_ORDER - CACHE_START_ORDER"

definition OFF_SLAB_THRESHOLD :: u64 where
  "OFF_SLAB_THRESHOLD = PAGE_SIZE div 8"

definition MIN_OBJ_THRESHOLD :: u64 where
  "MIN_OBJ_THRESHOLD = 4"

text \<open>\<open>sizeof(Slab)\<close>, \<open>sizeof(PageAllocation)\<close>, \<open>alignof(max_align_t)\<close> and \<open>PAGING_WRITABLE\<close>.\<close>

definition sizeof_Slab :: u64 where
  "sizeof_Slab = 32"

definition sizeof_PageAllocation :: u64 where
  "sizeof_PageAllocation = 24"

definition max_align :: u64 where
  "max_align = 16"

definition SLAB_PAGE_FLAGS :: u32 where
  "SLAB_PAGE_FLAGS = 1"

section \<open>Caches\<close>

function min_cache_order_loop :: "u64 \<Rightarrow> nat \<Rightarrow> nat" where
  "min_cache_order_loop sz order =
     (if push_bit order 1 < sz \<and> order \<le> CACHE_END_ORDER then min_cache_order_loop sz (order + 1) else order)"
  by pat_completeness auto
termination
  by (relation "measure (\<lambda>(sz, order). Suc CACHE_END_ORDER - order)") auto

declare min_cache_order_loop.simps [simp del]

definition get_min_cache_order :: "u64 \<Rightarrow> nat" where
  "get_min_cache_order sz = min_cache_order_loop sz CACHE_START_ORDER"

text \<open>\<open>get_cache(order)\<close>: the index into \<open>size_caches\<close>, which has \<open>NUM_CACHES\<close> elements.\<close>

definition get_cache :: "nat \<Rightarrow> nat res" where
  "get_cache order =
     (if order - CACHE_START_ORDER < NUM_CACHES then Inr (order - CACHE_START_ORDER) else Inl Out_of_bounds)"

definition update_cache :: "nat \<Rightarrow> (Cache \<Rightarrow> Cache) \<Rightarrow> 'w slab_state \<Rightarrow> 'w slab_state" where
  "update_cache c f s = s\<lparr>size_caches := (size_caches s)(c := f (size_caches s c))\<rparr>"

definition load_slab :: "u64 \<Rightarrow> 'w slab_state \<Rightarrow> Slab res" where
  "load_slab p s = (if p = 0 then Inl Null_deref else Inr (slabs s p))"

definition update_slab :: "u64 \<Rightarrow> (Slab \<Rightarrow> Slab) \<Rightarrow> 'w slab_state \<Rightarrow> 'w slab_state res" where
  "update_slab p f s =
     (if p = 0 then Inl Null_deref else Inr (s\<lparr>slabs := (slabs s)(p := f (slabs s p))\<rparr>))"

definition FREE_ARRAY :: "Cache \<Rightarrow> Slab \<Rightarrow> u64" where
  "FREE_ARRAY cache slab = slab_mem slab - ucast (cache_free_arr_size cache)"

section \<open>Initialization\<close>

fun grow_pages :: "nat \<Rightarrow> u32 \<Rightarrow> u32 \<Rightarrow> u32 res" where
  "grow_pages 0 pages sz = Inl Diverges"
| "grow_pages (Suc n) pages sz =
     (if (ucast pages * PAGE_SIZE) div ucast sz < MIN_OBJ_THRESHOLD then grow_pages n (pages + 1) sz
      else Inr pages)"

text \<open>The biggest count whose objects and free array fit: the count, the array and the objects' size.\<close>

fun fit_count :: "nat \<Rightarrow> u64 \<Rightarrow> u32 \<Rightarrow> u32 \<Rightarrow> u32 \<Rightarrow> u32 \<Rightarrow> (u32 \<times> u32 \<times> u32) res" where
  "fit_count 0 sz obj_size count free_arr_size mem_size = Inl Diverges"
| "fit_count (Suc n) sz obj_size count free_arr_size mem_size =
     (if count = 0 then Inr (count, free_arr_size, mem_size)
      else
        let mem_size = count * obj_size;
            alignment = MIN_u64 max_align (ucast obj_size);
            free_arr_size = ucast (round_up_to_multiple (ucast count * 4) alignment) in
        if sz - ucast mem_size \<ge> ucast free_arr_size then Inr (count, free_arr_size, mem_size)
        else fit_count n sz obj_size (count - 1) free_arr_size mem_size)"

definition initialize_cache :: "nat \<Rightarrow> Cache \<Rightarrow> Cache res" where
  "initialize_cache order cache =
     (let obj_size = ucast (push_bit order (1 :: u32)) in
      rbind (grow_pages (Suc loop_fuel) 1 obj_size) (\<lambda>pages.
      let sz = ucast pages * PAGE_SIZE;
          sz = (if ucast obj_size < OFF_SLAB_THRESHOLD then sz - sizeof_Slab else sz) in
      rbind (fit_count (Suc loop_fuel) sz obj_size (ucast (sz div ucast obj_size))
               (cache_free_arr_size cache) (cache_mem_size cache)) (\<lambda>(count, free_arr_size, mem_size).
      rbind (kernel_assert (count \<noteq> 0) ''Number of objects stored can't be zero'') (\<lambda>_.
        Inr \<lparr>cache_part = 0, cache_full = 0, cache_pages = pages, cache_size = obj_size, cache_count = count,
             cache_free_arr_size = free_arr_size, cache_mem_size = mem_size\<rparr>))))"

fun initialize_caches :: "nat list \<Rightarrow> 'w slab_state \<Rightarrow> 'w slab_state res" where
  "initialize_caches [] s = Inr s"
| "initialize_caches (order # orders) s =
     rbind (get_cache order) (\<lambda>c.
     rbind (initialize_cache order (size_caches s c)) (\<lambda>cache.
       initialize_caches orders (update_cache c (\<lambda>_. cache) s)))"

definition initialize_slab_allocator :: "'w slab_state \<Rightarrow> 'w slab_state res" where
  "initialize_slab_allocator s = initialize_caches [CACHE_START_ORDER..<CACHE_END_ORDER + 1] s"

section \<open>kalloc\<close>

text \<open>\<open>free[i] = i + 1\<close> for the objects of a new slab.\<close>

fun init_free_array :: "u64 \<Rightarrow> nat \<Rightarrow> (u64 \<Rightarrow> u32) \<Rightarrow> (u64 \<Rightarrow> u32)" where
  "init_free_array base 0 m = m"
| "init_free_array base (Suc i) m = (init_free_array base i m)(base + 4 * of_nat i := of_nat i + 1)"

text \<open>A new slab becomes the head of the partial list; 0 when there is no memory.\<close>

definition new_slab ::
    "'w page_alloc \<Rightarrow> 'w page_free \<Rightarrow> (u64 \<Rightarrow> 'w slab_state \<Rightarrow> (u64 \<times> 'w slab_state) res)
     \<Rightarrow> nat \<Rightarrow> 'w slab_state \<Rightarrow> (u64 \<times> 'w slab_state) res" where
  "new_slab ap fp kalloc_rec c s =
     (let cache = size_caches s c in
      rbind (ap (ucast (cache_pages cache)) SLAB_PAGE_FLAGS (world s)) (\<lambda>(mem, w).
      let s = s\<lparr>world := w\<rparr> in
      if mem = 0 then Inr (0, s)
      else
        rbind
          (if ucast (cache_size cache) < OFF_SLAB_THRESHOLD then
             rbind (update_slab mem (slab_mem_update (\<lambda>_. mem + sizeof_Slab)) s) (\<lambda>s. Inr (mem, s))
           else
             rbind (kalloc_rec sizeof_Slab s) (\<lambda>(slab, s).
             if slab = 0 then rbind (fp mem (ucast (cache_pages cache)) (world s)) (\<lambda>w. Inr (0, s\<lparr>world := w\<rparr>))
             else rbind (update_slab slab (slab_mem_update (\<lambda>_. mem)) s) (\<lambda>s. Inr (slab, s))))
          (\<lambda>(slab, s).
        if slab = 0 then Inr (0, s)
        else
          let cache = size_caches s c in
          rbind (load_slab slab s) (\<lambda>sl.
          let s = s\<lparr>free_arrays := init_free_array (slab_mem sl) (unat (cache_count cache)) (free_arrays s)\<rparr> in
          rbind (update_slab slab (\<lambda>sl. sl\<lparr>slab_mem := slab_mem sl + ucast (cache_free_arr_size cache),
              slab_next_free := 0, slab_allocated := 0, slab_next := cache_part cache, slab_prev := 0\<rparr>) s) (\<lambda>s.
          rbind (if cache_part cache \<noteq> 0
                 then update_slab (cache_part cache) (slab_prev_update (\<lambda>_. slab)) s else Inr s) (\<lambda>s.
            Inr (slab, update_cache c (cache_part_update (\<lambda>_. slab)) s)))))))"

text \<open>An object is taken from a slab of the partial list, its head.\<close>

definition take_object :: "nat \<Rightarrow> u64 \<Rightarrow> 'w slab_state \<Rightarrow> (u64 \<times> 'w slab_state) res" where
  "take_object c slab s =
     (let cache = size_caches s c in
      rbind (load_slab slab s) (\<lambda>sl.
      let obj_ptr = slab_mem sl + ucast (slab_next_free sl * cache_size cache) in
      rbind (update_slab slab (\<lambda>sl. sl\<lparr>
          slab_next_free := free_arrays s (FREE_ARRAY cache sl + 4 * ucast (slab_next_free sl)),
          slab_allocated := slab_allocated sl + 1\<rparr>) s) (\<lambda>s.
      rbind (load_slab slab s) (\<lambda>sl.
      rbind
        (if slab_allocated sl = cache_count cache then
           let s = update_cache c (cache_part_update (\<lambda>_. slab_next sl)) s in
           rbind (if slab_next sl \<noteq> 0 then update_slab (slab_next sl) (slab_prev_update (\<lambda>_. 0)) s else Inr s) (\<lambda>s.
           rbind (update_slab slab (slab_next_update (\<lambda>_. cache_full (size_caches s c))) s) (\<lambda>s.
           rbind (if cache_full (size_caches s c) \<noteq> 0
                  then update_slab (cache_full (size_caches s c)) (slab_prev_update (\<lambda>_. slab)) s else Inr s) (\<lambda>s.
             Inr (update_cache c (cache_full_update (\<lambda>_. slab)) s))))
         else Inr s) (\<lambda>s.
      rbind (kernel_assert (obj_ptr mod MIN_u64 max_align (ucast (cache_size (size_caches s c))) = 0)
        ''kalloc pointer has incorrect alignment'') (\<lambda>_.
        Inr (obj_ptr, s)))))))"

definition store_page_allocation :: "u64 \<Rightarrow> u64 \<Rightarrow> u64 \<Rightarrow> 'w slab_state \<Rightarrow> 'w slab_state res" where
  "store_page_allocation allocation ptr pages s =
     (if allocation = 0 then Inl Null_deref
      else Inr (s\<lparr>page_allocations := (page_allocations s)
                   (allocation := \<lparr>pa_next = page_allocation_list s, pa_ptr = ptr, pa_pages = pages\<rparr>),
                  page_allocation_list := allocation\<rparr>))"

text \<open>The first argument bounds the depth of the recursion of \<open>kalloc\<close>.\<close>

fun kalloc :: "'w page_alloc \<Rightarrow> 'w page_free \<Rightarrow> nat \<Rightarrow> u64 \<Rightarrow> 'w slab_state \<Rightarrow> (u64 \<times> 'w slab_state) res" where
  "kalloc ap fp 0 = (\<lambda>sz s. Inl Diverges)"
| "kalloc ap fp (Suc d) = (\<lambda>sz s.
     let order = get_min_cache_order sz in
     if order > CACHE_END_ORDER then
       let pages = (sz + PAGE_SIZE - 1) div PAGE_SIZE in
       rbind (ap pages SLAB_PAGE_FLAGS (world s)) (\<lambda>(ptr, w).
       let s = s\<lparr>world := w\<rparr> in
       if ptr = 0 then Inr (0, s)
       else
         rbind (kalloc ap fp d sizeof_PageAllocation s) (\<lambda>(allocation, s).
         rbind (store_page_allocation allocation ptr pages s) (\<lambda>s. Inr (ptr, s))))
     else
       rbind (get_cache order) (\<lambda>c.
       rbind (if cache_part (size_caches s c) \<noteq> 0 then Inr (cache_part (size_caches s c), s)
              else new_slab ap fp (kalloc ap fp d) c s) (\<lambda>(slab, s).
       if slab = 0 then Inr (0, s) else take_object c slab s)))"

section \<open>kfree\<close>

text \<open>\<open>remove_slab_from_list(&cache->part, slab)\<close> and \<open>(&cache->full, slab)\<close>\<close>

definition remove_slab_links :: "u64 \<Rightarrow> 'w slab_state \<Rightarrow> 'w slab_state res" where
  "remove_slab_links slab s =
     rbind (load_slab slab s) (\<lambda>sl.
     rbind (if slab_next sl \<noteq> 0 then update_slab (slab_next sl) (slab_prev_update (\<lambda>_. slab_prev sl)) s else Inr s) (\<lambda>s.
     rbind (load_slab slab s) (\<lambda>sl.
       if slab_prev sl \<noteq> 0 then update_slab (slab_prev sl) (slab_next_update (\<lambda>_. slab_next sl)) s else Inr s)))"

definition remove_slab_from_part :: "nat \<Rightarrow> u64 \<Rightarrow> 'w slab_state \<Rightarrow> 'w slab_state res" where
  "remove_slab_from_part c slab s =
     rbind (remove_slab_links slab s) (\<lambda>s.
     rbind (load_slab slab s) (\<lambda>sl.
       Inr (if slab = cache_part (size_caches s c)
            then update_cache c (cache_part_update (\<lambda>_. slab_next sl)) s else s)))"

definition remove_slab_from_full :: "nat \<Rightarrow> u64 \<Rightarrow> 'w slab_state \<Rightarrow> 'w slab_state res" where
  "remove_slab_from_full c slab s =
     rbind (remove_slab_links slab s) (\<lambda>s.
     rbind (load_slab slab s) (\<lambda>sl.
       Inr (if slab = cache_full (size_caches s c)
            then update_cache c (cache_full_update (\<lambda>_. slab_next sl)) s else s)))"

text \<open>The object at \<open>ptr\<close> goes back to its slab.\<close>

definition return_object ::
    "'w page_free \<Rightarrow> (u64 \<Rightarrow> 'w slab_state \<Rightarrow> 'w slab_state res) \<Rightarrow> u64 \<Rightarrow> nat \<Rightarrow> u64 \<Rightarrow> 'w slab_state
     \<Rightarrow> 'w slab_state res" where
  "return_object fp kfree_rec ptr c slab s =
     (let cache = size_caches s c in
      rbind (load_slab slab s) (\<lambda>sl.
      let obj_offset = ptr - slab_mem sl in
      rbind (kernel_assert (obj_offset mod ucast (cache_size cache) = 0) ''Pointer not aligned'') (\<lambda>_.
      let obj_index = ucast (obj_offset div ucast (cache_size cache));
          s = s\<lparr>free_arrays := (free_arrays s)(FREE_ARRAY cache sl + 4 * ucast obj_index := slab_next_free sl)\<rparr> in
      rbind (update_slab slab (slab_next_free_update (\<lambda>_. obj_index)) s) (\<lambda>s.
      rbind
        (if slab_allocated sl = cache_count cache then
           rbind (remove_slab_from_full c slab s) (\<lambda>s.
           rbind (update_slab slab (\<lambda>sl. sl\<lparr>slab_next := cache_part (size_caches s c), slab_prev := 0\<rparr>) s) (\<lambda>s.
           rbind (if cache_part (size_caches s c) \<noteq> 0
                  then update_slab (cache_part (size_caches s c)) (slab_prev_update (\<lambda>_. slab)) s else Inr s) (\<lambda>s.
             Inr (update_cache c (cache_part_update (\<lambda>_. slab)) s))))
         else Inr s) (\<lambda>s.
      rbind (update_slab slab (\<lambda>sl. sl\<lparr>slab_allocated := slab_allocated sl - 1\<rparr>) s) (\<lambda>s.
      rbind (load_slab slab s) (\<lambda>sl.
      if slab_allocated sl = 0 then
        rbind (remove_slab_from_part c slab s) (\<lambda>s.
        if ucast (cache_size cache) < OFF_SLAB_THRESHOLD then
          rbind (fp slab (ucast (cache_pages cache)) (world s)) (\<lambda>w. Inr (s\<lparr>world := w\<rparr>))
        else
          rbind (update_slab slab (\<lambda>sl. sl\<lparr>slab_mem := slab_mem sl - ucast (cache_free_arr_size cache)\<rparr>) s) (\<lambda>s.
          rbind (load_slab slab s) (\<lambda>sl.
          rbind (fp (slab_mem sl) (ucast (cache_pages cache)) (world s)) (\<lambda>w.
            kfree_rec slab (s\<lparr>world := w\<rparr>)))))
      else Inr s)))))))"

text \<open>The search of one list; the bool says whether the pointer was found.\<close>

fun free_from_slab_list ::
    "'w page_free \<Rightarrow> (u64 \<Rightarrow> 'w slab_state \<Rightarrow> 'w slab_state res) \<Rightarrow> nat \<Rightarrow> u64 \<Rightarrow> nat \<Rightarrow> u64 \<Rightarrow> 'w slab_state
     \<Rightarrow> (bool \<times> 'w slab_state) res" where
  "free_from_slab_list fp kfree_rec 0 ptr c slab s = Inl Diverges"
| "free_from_slab_list fp kfree_rec (Suc n) ptr c slab s =
     (if slab = 0 then Inr (False, s)
      else rbind (load_slab slab s) (\<lambda>sl.
        if range_contains ptr (slab_mem sl) (ucast (cache_mem_size (size_caches s c))) then
          rbind (return_object fp kfree_rec ptr c slab s) (\<lambda>s. Inr (True, s))
        else free_from_slab_list fp kfree_rec n ptr c (slab_next sl) s))"

fun free_from_caches ::
    "'w page_free \<Rightarrow> (u64 \<Rightarrow> 'w slab_state \<Rightarrow> 'w slab_state res) \<Rightarrow> u64 \<Rightarrow> nat list \<Rightarrow> 'w slab_state
     \<Rightarrow> (bool \<times> 'w slab_state) res" where
  "free_from_caches fp kfree_rec ptr [] s = Inr (False, s)"
| "free_from_caches fp kfree_rec ptr (order # orders) s =
     rbind (get_cache order) (\<lambda>c.
     rbind (free_from_slab_list fp kfree_rec (Suc loop_fuel) ptr c (cache_part (size_caches s c)) s) (\<lambda>(found, s).
     if found then Inr (True, s)
     else
       rbind (free_from_slab_list fp kfree_rec (Suc loop_fuel) ptr c (cache_full (size_caches s c)) s) (\<lambda>(found, s).
       if found then Inr (True, s) else free_from_caches fp kfree_rec ptr orders s)))"

fun free_page_allocation ::
    "'w page_free \<Rightarrow> (u64 \<Rightarrow> 'w slab_state \<Rightarrow> 'w slab_state res) \<Rightarrow> nat \<Rightarrow> u64 \<Rightarrow> u64 \<Rightarrow> u64 \<Rightarrow> 'w slab_state
     \<Rightarrow> 'w slab_state res" where
  "free_page_allocation fp kfree_rec 0 ptr allocation last_allocation s = Inl Diverges"
| "free_page_allocation fp kfree_rec (Suc n) ptr allocation last_allocation s =
     (if allocation = 0 then Inl (Assert_failed ''Failed to free memory'')
      else
        let al = page_allocations s allocation in
        if pa_ptr al = ptr then
          rbind (fp (pa_ptr al) (pa_pages al) (world s)) (\<lambda>w.
          let s = s\<lparr>world := w\<rparr>;
              s = (if last_allocation = 0 then s\<lparr>page_allocation_list := pa_next al\<rparr>
                   else s\<lparr>page_allocations := (page_allocations s)
                     (last_allocation := (page_allocations s last_allocation)\<lparr>pa_next := pa_next al\<rparr>)\<rparr>) in
          kfree_rec allocation s)
        else free_page_allocation fp kfree_rec n ptr (pa_next al) allocation s)"

fun kfree :: "'w page_free \<Rightarrow> nat \<Rightarrow> u64 \<Rightarrow> 'w slab_state \<Rightarrow> 'w slab_state res" where
  "kfree fp 0 = (\<lambda>ptr s. Inl Diverges)"
| "kfree fp (Suc d) = (\<lambda>ptr s.
     rbind (free_from_caches fp (kfree fp d) ptr [CACHE_START_ORDER..<CACHE_END_ORDER + 1] s) (\<lambda>(found, s).
     if found then Inr s
     else free_page_allocation fp (kfree fp d) (Suc loop_fuel) ptr (page_allocation_list s) 0 s))"

end
