(* ===== verification/Slab_Lists.thy ===== *)
theory Slab_Lists
  imports Slab_Allocator
begin

text \<open>
  The doubly linked lists of slabs of slab_allocator.c, and the three ways the code changes
  them: a slab is put in front, the first one is taken off, and a slab is unlinked.
\<close>

section \<open>Doubly linked lists\<close>

text \<open>The slabs from \<open>p\<close> on; the first one points back to \<open>v\<close>.\<close>


primrec dl :: "(u64 \<Rightarrow> Slab) \<Rightarrow> u64 \<Rightarrow> u64 \<Rightarrow> u64 list \<Rightarrow> bool" where
  "dl h v p [] \<longleftrightarrow> p = 0"
| "dl h v p (x # xs) \<longleftrightarrow> p = x \<and> x \<noteq> 0 \<and> slab_prev (h x) = v \<and> dl h x (slab_next (h x)) xs"

lemma dl_NULL [simp]: "dl h v 0 xs \<longleftrightarrow> xs = []"
  by (cases xs) auto

lemma dl_nonNULL: "p \<noteq> 0 \<Longrightarrow> dl h v p xs \<longleftrightarrow>
    (\<exists>ys. xs = p # ys \<and> slab_prev (h p) = v \<and> dl h p (slab_next (h p)) ys)"
  by (cases xs) auto

lemma dl_nonzero: "dl h v p xs \<Longrightarrow> 0 \<notin> set xs"
  by (induction xs arbitrary: v p) auto

definition links :: "Slab \<Rightarrow> u64 \<times> u64" where
  "links sl = (slab_next sl, slab_prev sl)"

lemma dl_cong: "(\<And>q. q \<in> set xs \<Longrightarrow> links (h q) = links (h' q)) \<Longrightarrow> dl h v p xs = dl h' v p xs"
  by (induction xs arbitrary: v p) (auto simp: links_def)

text \<open>Removing the first slab and adding one in front.\<close>

definition set_prev :: "u64 \<Rightarrow> u64 \<Rightarrow> (u64 \<Rightarrow> Slab) \<Rightarrow> (u64 \<Rightarrow> Slab)" where
  "set_prev p v h = (if p = 0 then h else h(p := slab_prev_update (\<lambda>_. v) (h p)))"

lemma dl_set_prev:
  assumes "dl h v p xs" "distinct xs"
  shows "dl (set_prev p w h) w p xs"
proof (cases xs)
  case (Cons x ys)
  then have "dl (set_prev p w h) x (slab_next (h x)) ys = dl h x (slab_next (h x)) ys"
    using assms by (intro dl_cong) (auto simp: set_prev_def links_def)
  with Cons assms show ?thesis
    by (auto simp: set_prev_def)
qed (use assms in simp)

text \<open>Unlinking a slab: its neighbours are joined.\<close>

definition unlink :: "u64 \<Rightarrow> (u64 \<Rightarrow> Slab) \<Rightarrow> (u64 \<Rightarrow> Slab)" where
  "unlink x h = (let n = slab_next (h x); v = slab_prev (h x); h = set_prev n v h in
     if v = 0 then h else h(v := slab_next_update (\<lambda>_. n) (h v)))"

lemma links_unlink_other: "q \<noteq> slab_next (h x) \<Longrightarrow> q \<noteq> slab_prev (h x) \<Longrightarrow> unlink x h q = h q"
  by (simp add: unlink_def set_prev_def Let_def)

lemma dl_neighbours:
  assumes "dl h v p (xs @ x # ys)"
  shows "slab_prev (h x) = (if xs = [] then v else last xs)" "slab_next (h x) = (if ys = [] then 0 else hd ys)"
  using assms
proof (induction xs arbitrary: v p)
  case Nil
  case 1 then show ?case by simp
  case 2 with Nil show ?case by (cases ys) auto
next
  case (Cons a xs)
  case 1 with Cons.IH(1) [of a "slab_next (h a)"] show ?case by auto
  case 2 with Cons.IH(2) [of a "slab_next (h a)"] show ?case by simp
qed

lemma dl_unlink:
  assumes "dl h v p (xs @ x # ys)" "distinct (xs @ x # ys)" "v \<notin> set (xs @ x # ys)"
  shows "dl (unlink x h) v (if xs = [] then slab_next (h x) else p) (xs @ ys)"
  using assms
proof (induction xs arbitrary: v p)
  case Nil
  then have x: "p = x" "x \<noteq> 0" "slab_prev (h x) = v" "dl h x (slab_next (h x)) ys"
    by auto
  have "dl (set_prev (slab_next (h x)) v h) v (slab_next (h x)) ys"
    using x Nil.prems by (intro dl_set_prev) auto
  moreover have "dl (unlink x h) v (slab_next (h x)) ys = dl (set_prev (slab_next (h x)) v h) v (slab_next (h x)) ys"
    using Nil.prems x(3) by (intro dl_cong) (auto simp: unlink_def Let_def links_def)
  ultimately show ?case
    by simp
next
  case (Cons a xs)
  then have a: "p = a" "a \<noteq> 0" "slab_prev (h a) = v" "dl h a (slab_next (h a)) (xs @ x # ys)"
    by auto
  from Cons.IH [OF a(4)] Cons.prems have
    IH: "dl (unlink x h) a (if xs = [] then slab_next (h x) else slab_next (h a)) (xs @ ys)"
    by auto
  have nb: "slab_prev (h x) = (if xs = [] then a else last xs)" "slab_next (h x) = (if ys = [] then 0 else hd ys)"
    by (rule dl_neighbours [OF a(4)])+
  have ne: "a \<noteq> slab_next (h x)"
    using nb(2) a(2) Cons.prems(2) by (auto dest: hd_in_set)
  have "slab_next (unlink x h a) = (if xs = [] then slab_next (h x) else slab_next (h a)) \<and> slab_prev (unlink x h a) = v"
  proof (cases "xs = []")
    case True
    with nb(1) a ne show ?thesis
      by (simp add: unlink_def Let_def set_prev_def)
  next
    case False
    with nb(1) Cons.prems(2) have "a \<noteq> slab_prev (h x)"
      by (auto dest: last_in_set)
    with ne False a show ?thesis
      by (simp add: links_unlink_other)
  qed
  with IH a show ?case
    by simp
qed

end
