(* ===== verification/Slab_Invariant.thy ===== *)
theory Slab_Invariant
  imports Slab_Lists
begin

text \<open>
  The invariant of the slab allocator: what a cache, a slab and its chain of free objects look
  like, that no two slabs share memory, and that the slabs kept outside their pages are
  themselves objects. One lemma says which changes keep the invariant.
\<close>


lemma unat_u32_lt: "unat (w :: u32) < 2 ^ 32"
  using unsigned_less [of w, where ?'a = nat] by simp

lemma unat_ucast_u32 [simp]: "unat (ucast (w :: u32) :: u64) = unat w"
  using unat_u32_lt [of w] by (simp add: unsigned_ucast_eq take_bit_nat_eq_self)

lemma ucast_u32_eq: "(ucast (w :: u32) :: u64) = of_nat (unat w)"
  using unat_u32_lt [of w] by (simp add: word_unat_eq_iff unat_of_nat)

section \<open>One slab\<close>

definition in_page :: "Cache \<Rightarrow> bool" where
  "in_page C \<longleftrightarrow> ucast (cache_size C) < OFF_SLAB_THRESHOLD"

definition header :: "Cache \<Rightarrow> nat" where
  "header C = (if in_page C then 32 else 0)"

definition cfg :: "Cache \<Rightarrow> u32 \<times> u32 \<times> u32 \<times> u32 \<times> u32" where
  "cfg C = (cache_pages C, cache_size C, cache_count C, cache_free_arr_size C, cache_mem_size C)"

definition cfg_ok :: "nat \<Rightarrow> Cache \<Rightarrow> bool" where
  "cfg_ok c C \<longleftrightarrow> unat (cache_size C) = 2 ^ (c + 4) \<and> 2 \<le> unat (cache_count C) \<and>
     unat (cache_mem_size C) = unat (cache_count C) * 2 ^ (c + 4) \<and>
     4 * unat (cache_count C) \<le> unat (cache_free_arr_size C) \<and> 16 dvd unat (cache_free_arr_size C) \<and>
     header C + unat (cache_free_arr_size C) + unat (cache_mem_size C) \<le> 4096 * unat (cache_pages C)"

lemma cfg_cong:
  "cfg C = cfg C' \<Longrightarrow> cfg_ok c C = cfg_ok c C'" "cfg C = cfg C' \<Longrightarrow> header C = header C'"
  "cfg C = cfg C' \<Longrightarrow> in_page C = in_page C'"
  by (simp_all add: cfg_def cfg_ok_def header_def in_page_def)

definition slab_start :: "Cache \<Rightarrow> Slab \<Rightarrow> nat" where
  "slab_start C sl = unat (slab_mem sl) - unat (cache_free_arr_size C) - header C"

text \<open>The addresses of the pages of a slab.\<close>

definition slab_bytes :: "Cache \<Rightarrow> Slab \<Rightarrow> nat set" where
  "slab_bytes C sl = {slab_start C sl ..< slab_start C sl + 4096 * unat (cache_pages C)}"

text \<open>The chain of the free objects through the free array at \<open>b\<close>.\<close>

primrec free_chain :: "(u64 \<Rightarrow> u32) \<Rightarrow> u64 \<Rightarrow> u32 \<Rightarrow> nat list \<Rightarrow> bool" where
  "free_chain m b i [] \<longleftrightarrow> True"
| "free_chain m b i (f # fs) \<longleftrightarrow> unat i = f \<and> free_chain m b (m (b + 4 * of_nat f)) fs"

lemma free_chain_cong:
  "(\<And>f. f \<in> set fs \<Longrightarrow> m (b + 4 * of_nat f) = m' (b + 4 * of_nat f)) \<Longrightarrow>
     free_chain m b i fs = free_chain m' b i fs"
  by (induction fs arbitrary: i) auto

definition slab_wf :: "Cache \<Rightarrow> (u64 \<Rightarrow> u32) \<Rightarrow> u64 \<Rightarrow> Slab \<Rightarrow> nat list \<Rightarrow> bool" where
  "slab_wf C m p sl fs \<longleftrightarrow>
     free_chain m (FREE_ARRAY C sl) (slab_next_free sl) fs \<and> distinct fs \<and> set fs \<subseteq> {..<unat (cache_count C)} \<and>
     unat (slab_allocated sl) + length fs = unat (cache_count C) \<and>
     unat (cache_free_arr_size C) + header C < unat (slab_mem sl) \<and> 16 dvd slab_start C sl \<and>
     slab_start C sl + 4096 * unat (cache_pages C) < 2 ^ 64 \<and> (in_page C \<longrightarrow> unat p = slab_start C sl)"

text \<open>The part of a slab that its lists do not use.\<close>

definition core :: "Slab \<Rightarrow> u64 \<times> u32 \<times> u32" where
  "core sl = (slab_mem sl, slab_allocated sl, slab_next_free sl)"

lemma core_cong:
  assumes "cfg C = cfg C'" "core sl = core sl'"
  shows "slab_start C sl = slab_start C' sl'" "slab_bytes C sl = slab_bytes C' sl'" "FREE_ARRAY C sl = FREE_ARRAY C' sl'"
    "slab_wf C m p sl fs = slab_wf C' m p sl' fs"
  using assms cfg_cong(2,3) [OF assms(1)]
  by (simp_all add: cfg_def core_def slab_start_def slab_bytes_def FREE_ARRAY_def slab_wf_def)

lemma free_array_addr:
  assumes "cfg_ok c C" "slab_wf C m p sl fs" "i < unat (cache_count C)"
  shows "unat (FREE_ARRAY C sl + 4 * of_nat i) = slab_start C sl + header C + 4 * i"
    and "unat (FREE_ARRAY C sl + 4 * of_nat i) \<in> slab_bytes C sl"
proof -
  let ?u = "unat (slab_mem sl)" and ?a = "unat (cache_free_arr_size C)"
  have a: "unat (ucast (cache_free_arr_size C) :: u64) = ?a"
    by simp
  have le: "?a + header C < ?u" "slab_start C sl + 4096 * unat (cache_pages C) < 2 ^ 64"
    "4 * unat (cache_count C) \<le> ?a" "header C + ?a + unat (cache_mem_size C) \<le> 4096 * unat (cache_pages C)"
    using assms by (auto simp: slab_wf_def cfg_ok_def)
  have base: "unat (FREE_ARRAY C sl) = ?u - ?a"
    unfolding FREE_ARRAY_def using le(1) a by (subst unat_sub_u64) (auto simp: word_le_nat_alt)
  have "unat (4 * of_nat i :: u64) = 4 * i"
    using assms(3) unat_u32_lt [of "cache_count C"] by (simp add: unat_word_ariths unat_of_nat)
  then show eq: "unat (FREE_ARRAY C sl + 4 * of_nat i) = slab_start C sl + header C + 4 * i"
    using base le assms(3) by (subst unat_add_u64) (auto simp: slab_start_def)
  show "unat (FREE_ARRAY C sl + 4 * of_nat i) \<in> slab_bytes C sl"
    unfolding eq slab_bytes_def using le assms(3) by auto
qed

lemma slab_wf_cong:
  assumes "cfg_ok c C" "slab_wf C m p sl fs" "\<And>a. unat a \<in> slab_bytes C sl \<Longrightarrow> m' a = m a"
  shows "slab_wf C m' p sl fs"
proof -
  have "free_chain m' (FREE_ARRAY C sl) (slab_next_free sl) fs = free_chain m (FREE_ARRAY C sl) (slab_next_free sl) fs"
  proof (rule free_chain_cong)
    fix f assume "f \<in> set fs"
    then have "f < unat (cache_count C)"
      using assms(2) by (auto simp: slab_wf_def)
    then show "m' (FREE_ARRAY C sl + 4 * of_nat f) = m (FREE_ARRAY C sl + 4 * of_nat f)"
      by (intro assms(3) free_array_addr(2) [OF assms(1,2)])
  qed
  with assms(2) show ?thesis
    by (simp add: slab_wf_def)
qed

text \<open>The objects of a slab.\<close>

definition object_at :: "Cache \<Rightarrow> Slab \<Rightarrow> nat \<Rightarrow> u64" where
  "object_at C sl i = slab_mem sl + of_nat (i * unat (cache_size C))"

definition slab_objects :: "Cache \<Rightarrow> Slab \<Rightarrow> nat list \<Rightarrow> u64 set" where
  "slab_objects C sl fs = object_at C sl ` ({..<unat (cache_count C)} - set fs)"

lemma unat_object_at:
  assumes "cfg_ok c C" "slab_wf C m p sl fs" "i < unat (cache_count C)"
  shows "unat (object_at C sl i) = unat (slab_mem sl) + i * 2 ^ (c + 4)"
    and "unat (slab_mem sl) + i * 2 ^ (c + 4) + 2 ^ (c + 4) \<le> unat (slab_mem sl) + unat (cache_mem_size C)"
    and "slab_start C sl < unat (slab_mem sl) \<or> header C + unat (cache_free_arr_size C) = 0"
    and "unat (slab_mem sl) + unat (cache_mem_size C) \<le> slab_start C sl + 4096 * unat (cache_pages C)"
proof -
  let ?u = "unat (slab_mem sl)" and ?a = "unat (cache_free_arr_size C)"
  have le: "?a + header C < ?u" "slab_start C sl + 4096 * unat (cache_pages C) < 2 ^ 64"
    "unat (cache_mem_size C) = unat (cache_count C) * 2 ^ (c + 4)" "unat (cache_size C) = 2 ^ (c + 4)"
    "header C + ?a + unat (cache_mem_size C) \<le> 4096 * unat (cache_pages C)"
    using assms by (auto simp: slab_wf_def cfg_ok_def)
  have "(i + 1) * 2 ^ (c + 4) \<le> unat (cache_count C) * 2 ^ (c + 4)"
    using assms(3) by (intro mult_right_mono) auto
  then show i: "?u + i * 2 ^ (c + 4) + 2 ^ (c + 4) \<le> ?u + unat (cache_mem_size C)"
    using le(3) by (simp add: algebra_simps)
  show fits: "?u + unat (cache_mem_size C) \<le> slab_start C sl + 4096 * unat (cache_pages C)"
    using le(1,5) by (simp add: slab_start_def)
  show "slab_start C sl < ?u \<or> header C + ?a = 0"
    using le(1) by (auto simp: slab_start_def)
  have pos: "(0 :: nat) < 2 ^ (c + 4)"
    by simp
  have "i * 2 ^ (c + 4) < 2 ^ 64"
    using i fits le(2) pos by linarith
  then have "unat (of_nat (i * 2 ^ (c + 4)) :: u64) = i * 2 ^ (c + 4)"
    unfolding unat_of_nat by simp
  moreover have "?u + i * 2 ^ (c + 4) < 2 ^ 64"
    using i fits le(2) pos by linarith
  ultimately show "unat (object_at C sl i) = ?u + i * 2 ^ (c + 4)"
    unfolding object_at_def le(4) by (subst unat_add_u64) auto
qed


section \<open>All slabs\<close>

text \<open>
  The lists \<open>P c\<close> and \<open>F c\<close> are the partial and the full slabs of cache \<open>c\<close>, and \<open>fr p\<close> the
  free objects of slab \<open>p\<close>.
\<close>

type_synonym slab_lists = "nat \<Rightarrow> u64 list"

definition slabs_of :: "slab_lists \<Rightarrow> slab_lists \<Rightarrow> nat \<Rightarrow> u64 set" where
  "slabs_of P F c = set (P c) \<union> set (F c)"

definition objs :: "'w slab_state \<Rightarrow> slab_lists \<Rightarrow> slab_lists \<Rightarrow> (u64 \<Rightarrow> nat list) \<Rightarrow> nat \<Rightarrow> u64 set" where
  "objs s P F fr c = (\<Union>p \<in> slabs_of P F c. slab_objects (size_caches s c) (slabs s p) (fr p))"

definition lists_ok :: "'w slab_state \<Rightarrow> slab_lists \<Rightarrow> slab_lists \<Rightarrow> (u64 \<Rightarrow> nat list) \<Rightarrow> nat \<Rightarrow> bool" where
  "lists_ok s P F fr c \<longleftrightarrow>
     dl (slabs s) 0 (cache_part (size_caches s c)) (P c) \<and> dl (slabs s) 0 (cache_full (size_caches s c)) (F c) \<and>
     distinct (P c @ F c) \<and> (\<forall>p \<in> set (P c). fr p \<noteq> []) \<and> (\<forall>p \<in> set (F c). fr p = [])"

definition bytes_of :: "'w slab_state \<Rightarrow> nat \<Rightarrow> u64 \<Rightarrow> nat set" where
  "bytes_of s c p = slab_bytes (size_caches s c) (slabs s p)"

definition wf_at :: "'w slab_state \<Rightarrow> (u64 \<Rightarrow> nat list) \<Rightarrow> nat \<Rightarrow> u64 \<Rightarrow> bool" where
  "wf_at s fr c p \<longleftrightarrow> slab_wf (size_caches s c) (free_arrays s) p (slabs s p) (fr p)"

definition headers_ok :: "'w slab_state \<Rightarrow> slab_lists \<Rightarrow> slab_lists \<Rightarrow> (u64 \<Rightarrow> nat list) \<Rightarrow> bool" where
  "headers_ok s P F fr \<longleftrightarrow> (\<forall>c < 7. \<not> in_page (size_caches s c) \<longrightarrow> slabs_of P F c \<subseteq> objs s P F fr 1)"

definition apart :: "'w slab_state \<Rightarrow> slab_lists \<Rightarrow> slab_lists \<Rightarrow> bool" where
  "apart s P F \<longleftrightarrow> (\<forall>c < 7. \<forall>d < 7. \<forall>p \<in> slabs_of P F c. \<forall>q \<in> slabs_of P F d. (c, p) \<noteq> (d, q) \<longrightarrow>
     p \<noteq> q \<and> bytes_of s c p \<inter> bytes_of s d q = {})"

definition slabs_inv :: "'w slab_state \<Rightarrow> slab_lists \<Rightarrow> slab_lists \<Rightarrow> (u64 \<Rightarrow> nat list) \<Rightarrow> bool" where
  "slabs_inv s P F fr \<longleftrightarrow>
     (\<forall>c < 7. cfg_ok c (size_caches s c) \<and> lists_ok s P F fr c \<and> (\<forall>p \<in> slabs_of P F c. wf_at s fr c p)) \<and>
     apart s P F \<and> headers_ok s P F fr"

lemma slabs_invD:
  assumes "slabs_inv s P F fr"
  shows "c < 7 \<Longrightarrow> cfg_ok c (size_caches s c)" "c < 7 \<Longrightarrow> lists_ok s P F fr c"
    "c < 7 \<Longrightarrow> p \<in> slabs_of P F c \<Longrightarrow> wf_at s fr c p" "apart s P F" "headers_ok s P F fr"
  using assms by (auto simp: slabs_inv_def)

lemma apartD:
  "apart s P F \<Longrightarrow> c < 7 \<Longrightarrow> d < 7 \<Longrightarrow> p \<in> slabs_of P F c \<Longrightarrow> q \<in> slabs_of P F d \<Longrightarrow> (c, p) \<noteq> (d, q) \<Longrightarrow>
     p \<noteq> q \<and> bytes_of s c p \<inter> bytes_of s d q = {}"
  by (auto simp: apart_def)

text \<open>The lists of one cache and one slab \<open>p\<close> of it change.\<close>

definition slab_change ::
    "'w slab_state \<Rightarrow> slab_lists \<Rightarrow> slab_lists \<Rightarrow> (u64 \<Rightarrow> nat list) \<Rightarrow>
     'w slab_state \<Rightarrow> slab_lists \<Rightarrow> slab_lists \<Rightarrow> (u64 \<Rightarrow> nat list) \<Rightarrow> nat \<Rightarrow> u64 \<Rightarrow> bool" where
  "slab_change s P F fr s' P' F' fr' c p \<longleftrightarrow>
     slabs_inv s P F fr \<and> c < 7 \<and>
     (\<forall>d. cfg (size_caches s' d) = cfg (size_caches s d)) \<and>
     (\<forall>d. d \<noteq> c \<longrightarrow> size_caches s' d = size_caches s d \<and> P' d = P d \<and> F' d = F d) \<and>
     lists_ok s' P' F' fr' c \<and>
     (\<forall>q. q \<noteq> p \<longrightarrow> q \<notin> slabs_of P F c \<longrightarrow> links (slabs s' q) = links (slabs s q)) \<and>
     (\<forall>q. q \<noteq> p \<longrightarrow> core (slabs s' q) = core (slabs s q) \<and> fr' q = fr q) \<and>
     slabs_of P' F' c \<subseteq> insert p (slabs_of P F c) \<and>
     (\<forall>d < 7. d \<noteq> c \<longrightarrow> p \<notin> slabs_of P F d) \<and>
     (\<forall>d < 7. \<forall>q \<in> slabs_of P F d. \<forall>a. q \<noteq> p \<longrightarrow> unat a \<in> bytes_of s d q \<longrightarrow> free_arrays s' a = free_arrays s a) \<and>
     (p \<in> slabs_of P' F' c \<longrightarrow> wf_at s' fr' c p \<and>
       (\<forall>d < 7. \<forall>q \<in> slabs_of P F d. q \<noteq> p \<longrightarrow> bytes_of s' c p \<inter> bytes_of s d q = {}))"

lemma changeD:
  assumes "slab_change s P F fr s' P' F' fr' c p"
  shows "slabs_inv s P F fr" "c < 7" "cfg (size_caches s' d) = cfg (size_caches s d)"
  "d \<noteq> c \<Longrightarrow> size_caches s' d = size_caches s d" "d \<noteq> c \<Longrightarrow> P' d = P d \<and> F' d = F d"
  "lists_ok s' P' F' fr' c" "q \<noteq> p \<Longrightarrow> q \<notin> slabs_of P F c \<Longrightarrow> links (slabs s' q) = links (slabs s q)"
  "q \<noteq> p \<Longrightarrow> core (slabs s' q) = core (slabs s q) \<and> fr' q = fr q"
  "slabs_of P' F' c \<subseteq> insert p (slabs_of P F c)" "d < 7 \<Longrightarrow> d \<noteq> c \<Longrightarrow> p \<notin> slabs_of P F d"
  "d < 7 \<Longrightarrow> q \<in> slabs_of P F d \<Longrightarrow> q \<noteq> p \<Longrightarrow> unat a \<in> bytes_of s d q \<Longrightarrow> free_arrays s' a = free_arrays s a"
  "p \<in> slabs_of P' F' c \<Longrightarrow> wf_at s' fr' c p"
  "d < 7 \<Longrightarrow> p \<in> slabs_of P' F' c \<Longrightarrow> q \<in> slabs_of P F d \<Longrightarrow> q \<noteq> p \<Longrightarrow> bytes_of s' c p \<inter> bytes_of s d q = {}"
  using assms unfolding slab_change_def by blast+

lemma change_slabs_of_other:
  "slab_change s P F fr s' P' F' fr' c p \<Longrightarrow> d \<noteq> c \<Longrightarrow> slabs_of P' F' d = slabs_of P F d"
  by (drule (1) changeD(5)) (simp add: slabs_of_def)

lemma change_slabs_of_cases:
  assumes "slab_change s P F fr s' P' F' fr' c p" "d < 7" "q \<in> slabs_of P' F' d"
  shows "q \<in> slabs_of P F d \<and> q \<noteq> p \<or> d = c \<and> q = p"
  using assms(2,3) changeD(9,10) [OF assms(1)] change_slabs_of_other [OF assms(1), of d] by (cases "d = c") auto

lemma change_same_bytes:
  "slab_change s P F fr s' P' F' fr' c p \<Longrightarrow> q \<noteq> p \<Longrightarrow> bytes_of s' d q = bytes_of s d q"
  unfolding bytes_of_def by (rule core_cong(2)) (auto dest: changeD(3,8))

lemma change_wf_other:
  assumes "slab_change s P F fr s' P' F' fr' c p" and q: "d < 7" "q \<in> slabs_of P F d" "q \<noteq> p"
  shows "wf_at s' fr' d q"
proof -
  note D = changeD [OF assms(1)]
  have "slab_wf (size_caches s d) (free_arrays s) q (slabs s q) (fr q)"
    using slabs_invD(3) [OF D(1) q(1,2)] by (simp add: wf_at_def)
  moreover have "free_arrays s' a = free_arrays s a" if "unat a \<in> slab_bytes (size_caches s d) (slabs s q)" for a
    using D(11) [OF q, of a] that by (simp only: bytes_of_def)
  ultimately have "slab_wf (size_caches s d) (free_arrays s') q (slabs s q) (fr q)"
    by (rule slab_wf_cong [OF slabs_invD(1) [OF D(1) q(1)]])
  moreover have "core (slabs s' q) = core (slabs s q)" "fr' q = fr q"
    using D(8) [OF q(3)] by simp_all
  ultimately show ?thesis
    using core_cong(4) [OF D(3) \<open>core (slabs s' q) = core (slabs s q)\<close>] by (simp add: wf_at_def)
qed

lemma change_lists_other:
  assumes "slab_change s P F fr s' P' F' fr' c p" and d: "d < 7" "d \<noteq> c"
  shows "lists_ok s' P' F' fr' d"
proof -
  note D = changeD [OF assms(1)]
  have ne: "q \<noteq> p \<and> q \<notin> slabs_of P F c" if "q \<in> slabs_of P F d" for q
    using that D(10) [OF d] apartD [OF slabs_invD(4) [OF D(1)] d(1) D(2) that] d(2) by auto
  have eq: "links (slabs s' q) = links (slabs s q) \<and> fr' q = fr q" if "q \<in> set (P d) \<or> q \<in> set (F d)" for q
    using ne [of q] D(7) [of q] D(8) [of q] that by (auto simp: slabs_of_def)
  have "dl (slabs s') 0 b (P d) = dl (slabs s) 0 b (P d)" "dl (slabs s') 0 b (F d) = dl (slabs s) 0 b (F d)" for b
    using eq by (auto intro!: dl_cong)
  with slabs_invD(2) [OF D(1) d(1)] show ?thesis
    using eq D(4,5) [OF d(2)] by (simp add: lists_ok_def)
qed

lemma change_apart:
  assumes "slab_change s P F fr s' P' F' fr' c p"
  shows "apart s' P' F'"
  unfolding apart_def
proof (intro allI impI ballI)
  note D = changeD [OF assms] and cases = change_slabs_of_cases [OF assms] and same = change_same_bytes [OF assms]
  fix d e x y assume d: "d < 7" "e < 7" "x \<in> slabs_of P' F' d" "y \<in> slabs_of P' F' e" "(d, x) \<noteq> (e, y)"
  note old = apartD [OF slabs_invD(4) [OF D(1)]]
  from cases [OF d(1,3)] cases [OF d(2,4)]
  show "x \<noteq> y \<and> bytes_of s' d x \<inter> bytes_of s' e y = {}"
  proof (elim disjE conjE)
    assume "x \<in> slabs_of P F d" "y \<in> slabs_of P F e" "x \<noteq> p" "y \<noteq> p"
    then show ?thesis
      using old [OF d(1,2) _ _ d(5)] same by simp
  next
    assume x: "x \<in> slabs_of P F d" "x \<noteq> p" and y: "e = c" "y = p"
    then show ?thesis
      using D(13) [OF d(1) _ x] d(4) same by auto
  next
    assume y: "y \<in> slabs_of P F e" "y \<noteq> p" and x: "d = c" "x = p"
    then show ?thesis
      using D(13) [OF d(2) _ y] d(3) same by auto
  qed (use d(5) in simp)
qed

lemma change_inv:
  assumes "slab_change s P F fr s' P' F' fr' c p" and "headers_ok s' P' F' fr'"
  shows "slabs_inv s' P' F' fr'"
proof -
  note D = changeD [OF assms(1)]
  have "cfg_ok d (size_caches s' d) \<and> lists_ok s' P' F' fr' d \<and> (\<forall>q \<in> slabs_of P' F' d. wf_at s' fr' d q)"
    if d: "d < 7" for d
  proof (intro conjI ballI)
    show "cfg_ok d (size_caches s' d)"
      using slabs_invD(1) [OF D(1) d] cfg_cong(1) [OF D(3)] by simp
    show "lists_ok s' P' F' fr' d"
      using D(6) change_lists_other [OF assms(1) d] by (cases "d = c") auto
    fix q assume q: "q \<in> slabs_of P' F' d"
    from change_slabs_of_cases [OF assms(1) d q] show "wf_at s' fr' d q"
    proof (elim disjE conjE)
      assume "d = c" "q = p"
      with D(12) q show ?thesis
        by simp
    qed (rule change_wf_other [OF assms(1) d])
  qed
  with change_apart [OF assms(1)] assms(2) show ?thesis
    by (simp add: slabs_inv_def)
qed

text \<open>The objects of the other slabs stay.\<close>

lemma slab_objects_cong:
  "cfg C = cfg C' \<Longrightarrow> core sl = core sl' \<Longrightarrow> slab_objects C sl fs = slab_objects C' sl' fs"
  by (simp add: slab_objects_def object_at_def core_def cfg_def)

lemma change_slab_objects:
  "slab_change s P F fr s' P' F' fr' c p \<Longrightarrow> q \<noteq> p \<Longrightarrow>
     slab_objects (size_caches s' d) (slabs s' q) (fr' q) = slab_objects (size_caches s d) (slabs s q) (fr q)"
proof -
  assume D: "slab_change s P F fr s' P' F' fr' c p" "q \<noteq> p"
  then have "core (slabs s' q) = core (slabs s q)" "fr' q = fr q"
    by (simp_all add: changeD(8))
  with slab_objects_cong [OF changeD(3) [OF D(1)]] show ?thesis
    by simp
qed

lemma change_objs_other:
  assumes "slab_change s P F fr s' P' F' fr' c p" "d \<noteq> c" "d < 7"
  shows "objs s' P' F' fr' d = objs s P F fr d"
proof -
  have "q \<noteq> p" if "q \<in> slabs_of P F d" for q
    using that changeD(10) [OF assms(1,3,2)] by auto
  then show ?thesis
    unfolding objs_def change_slabs_of_other [OF assms(1,2)]
    by (intro SUP_cong refl change_slab_objects [OF assms(1)])
qed

end
