(* ===== verification/Slab_Take.thy ===== *)
theory Slab_Take
  imports Slab_Invariant
begin

text \<open>
  Objects of different slabs or at different places of one slab share no byte, and taking an
  object from the first partial slab of a cache (the end of \<open>kalloc\<close>) keeps the invariant and
  hands out an object that was free.
\<close>


section \<open>Objects do not overlap\<close>

definition object_bytes :: "nat \<Rightarrow> u64 \<Rightarrow> nat set" where
  "object_bytes c x = {unat x ..< unat x + 2 ^ (c + 4)}"

lemma object_bytes_slab:
  assumes "cfg_ok c C" "slab_wf C m p sl fs" "i < unat (cache_count C)"
  shows "object_bytes c (object_at C sl i) \<subseteq> slab_bytes C sl"
proof -
  note u = unat_object_at [OF assms]
  have "slab_start C sl \<le> unat (slab_mem sl)"
    by (simp add: slab_start_def)
  with u show ?thesis
    by (auto simp: object_bytes_def slab_bytes_def)
qed

lemma object_at_apart:
  assumes "cfg_ok c C" "slab_wf C m p sl fs" "i < unat (cache_count C)" "j < unat (cache_count C)" "i \<noteq> j"
  shows "object_bytes c (object_at C sl i) \<inter> object_bytes c (object_at C sl j) = {}"
proof -
  note i = unat_object_at(1) [OF assms(1-3)] and j = unat_object_at(1) [OF assms(1,2,4)]
  have "Suc i * 2 ^ (c + 4) \<le> j * 2 ^ (c + 4) \<or> Suc j * 2 ^ (c + 4) \<le> i * (2 :: nat) ^ (c + 4)"
    using assms(5) by (cases i j rule: linorder_cases) (auto intro!: mult_right_mono simp del: mult_Suc)
  then show ?thesis
    unfolding object_bytes_def i j by auto
qed

lemma object_at_inj:
  assumes "cfg_ok c C" "slab_wf C m p sl fs"
  shows "inj_on (object_at C sl) {..<unat (cache_count C)}"
proof (rule inj_onI)
  fix i j assume ij: "i \<in> {..<unat (cache_count C)}" "j \<in> {..<unat (cache_count C)}" "object_at C sl i = object_at C sl j"
  have "object_bytes c (object_at C sl i) \<noteq> {}"
    by (simp add: object_bytes_def)
  with object_at_apart [OF assms, of i j] ij show "i = j"
    by auto
qed

lemma objs_cases:
  assumes "slabs_inv s P F fr" "c < 7" "x \<in> objs s P F fr c"
  obtains p i where "p \<in> slabs_of P F c" "i < unat (cache_count (size_caches s c))" "i \<notin> set (fr p)"
    "x = object_at (size_caches s c) (slabs s p) i"
  using assms(3) by (auto simp: objs_def slab_objects_def)

lemma slabs_inv_wf:
  "slabs_inv s P F fr \<Longrightarrow> c < 7 \<Longrightarrow> p \<in> slabs_of P F c \<Longrightarrow>
     slab_wf (size_caches s c) (free_arrays s) p (slabs s p) (fr p)"
  using slabs_invD(3) by (simp add: wf_at_def)

text \<open>Two different objects of the allocator share no byte.\<close>

lemma objs_apart:
  assumes inv: "slabs_inv s P F fr" and c: "c < 7" "d < 7"
    and x: "x \<in> objs s P F fr c" and y: "y \<in> objs s P F fr d" and ne: "(c, x) \<noteq> (d, y)"
  shows "object_bytes c x \<inter> object_bytes d y = {}"
proof -
  from objs_cases [OF inv c(1) x] obtain p i where p: "p \<in> slabs_of P F c" "i < unat (cache_count (size_caches s c))"
    "x = object_at (size_caches s c) (slabs s p) i" by metis
  from objs_cases [OF inv c(2) y] obtain q j where q: "q \<in> slabs_of P F d" "j < unat (cache_count (size_caches s d))"
    "y = object_at (size_caches s d) (slabs s q) j" by metis
  note wp = slabs_invD(1) [OF inv c(1)] slabs_inv_wf [OF inv c(1) p(1)]
  note wq = slabs_invD(1) [OF inv c(2)] slabs_inv_wf [OF inv c(2) q(1)]
  show ?thesis
  proof (cases "(c, p) = (d, q)")
    case True
    with ne p(3) q(3) have "i \<noteq> j"
      by auto
    with object_at_apart [OF wp p(2)] q True p show ?thesis
      by auto
  next
    case False
    from apartD [OF slabs_invD(4) [OF inv] c p(1) q(1) False]
    have "slab_bytes (size_caches s c) (slabs s p) \<inter> slab_bytes (size_caches s d) (slabs s q) = {}"
      by (simp add: bytes_of_def)
    with object_bytes_slab [OF wp p(2)] object_bytes_slab [OF wq q(2)] p(3) q(3) show ?thesis
      by blast
  qed
qed

lemma free_object_new:
  assumes inv: "slabs_inv s P F fr" and c: "c < 7" and p: "p \<in> slabs_of P F c" and f: "f \<in> set (fr p)"
  shows "object_at (size_caches s c) (slabs s p) f \<notin> objs s P F fr c"
proof
  assume "object_at (size_caches s c) (slabs s p) f \<in> objs s P F fr c"
  from objs_cases [OF inv c this] obtain q i where q: "q \<in> slabs_of P F c" "i < unat (cache_count (size_caches s c))"
    "i \<notin> set (fr q)" "object_at (size_caches s c) (slabs s p) f = object_at (size_caches s c) (slabs s q) i" by metis
  note wp = slabs_invD(1) [OF inv c] slabs_inv_wf [OF inv c p]
  note wq = slabs_invD(1) [OF inv c] slabs_inv_wf [OF inv c q(1)]
  have f': "f < unat (cache_count (size_caches s c))"
    using wp(2) f by (auto simp: slab_wf_def)
  have "object_bytes c (object_at (size_caches s c) (slabs s p) f) \<noteq> {}"
    by (simp add: object_bytes_def)
  then have "p = q"
    using apartD [OF slabs_invD(4) [OF inv] c c p q(1)] object_bytes_slab [OF wp f'] object_bytes_slab [OF wq q(2)] q(4)
    by (auto simp: bytes_of_def)
  then show False
    using inj_onD [OF object_at_inj [OF wp] q(4) [folded \<open>p = q\<close>]] f' q(2,3) f by auto
qed

section \<open>Steps of the code\<close>

lemma set_prev_run [simp]:
  "(if p \<noteq> 0 then update_slab p (slab_prev_update (\<lambda>_. v)) s else Inr s) = Inr (s\<lparr>slabs := set_prev p v (slabs s)\<rparr>)"
  by (simp add: update_slab_def set_prev_def)

lemma set_prev_fields [simp]:
  "core (set_prev p v h q) = core (h q)" "slab_next (set_prev p v h q) = slab_next (h q)"
  "q \<noteq> p \<Longrightarrow> set_prev p v h q = h q"
  by (simp_all add: set_prev_def core_def)

lemma unat_next_free:
  assumes "cfg_ok c C" "slab_wf C m p sl (f # fs)"
  shows "ucast (slab_next_free sl * cache_size C) = (of_nat (f * unat (cache_size C)) :: u64)"
    and "(ucast (slab_next_free sl) :: u64) = of_nat f"
proof -
  have f: "unat (slab_next_free sl) = f" "f < unat (cache_count C)"
    using assms(2) by (auto simp: slab_wf_def)
  have "f * 2 ^ (c + 4) < unat (cache_count C) * 2 ^ (c + 4)"
    using f(2) by simp
  then have "f * unat (cache_size C) < unat (cache_mem_size C)"
    using assms(1) by (simp only: cfg_ok_def)
  then have "unat (slab_next_free sl * cache_size C) = f * unat (cache_size C)"
    using unat_u32_lt [of "cache_mem_size C"] f(1) by (subst unat_mult_lem [THEN iffD1]) auto
  then show "ucast (slab_next_free sl * cache_size C) = (of_nat (f * unat (cache_size C)) :: u64)"
    by (simp only: ucast_u32_eq)
  show "(ucast (slab_next_free sl) :: u64) = of_nat f"
    using f by (simp only: ucast_u32_eq)
qed

lemma object_aligned:
  assumes "cfg_ok c C" "slab_wf C m p sl fs" "i < unat (cache_count C)"
  shows "object_at C sl i mod MIN_u64 max_align (ucast (cache_size C)) = 0"
proof -
  have sz: "unat (cache_size C) = 2 ^ (c + 4)"
    using assms(1) by (simp add: cfg_ok_def)
  then have "(16 :: nat) \<le> unat (cache_size C)"
    by (simp add: power_add)
  then have "unat (MIN_u64 max_align (ucast (cache_size C))) = 16"
    by (auto simp: MIN_u64_def max_align_def word_less_nat_alt)
  moreover have "16 dvd unat (slab_mem sl)"
  proof -
    have "unat (slab_mem sl) = slab_start C sl + unat (cache_free_arr_size C) + header C"
      using assms(2) by (simp add: slab_wf_def slab_start_def)
    with assms show ?thesis
      by (simp add: slab_wf_def cfg_ok_def header_def dvd_add)
  qed
  moreover have "(16 :: nat) dvd i * 2 ^ (c + 4)"
    by (simp add: power_add)
  ultimately have "unat (object_at C sl i) mod unat (MIN_u64 max_align (ucast (cache_size C))) = 0"
    using unat_object_at(1) [OF assms] by (simp add: dvd_add)
  then show ?thesis
    by (simp add: word_unat_eq_iff unat_mod)
qed

lemma dl_push:
  assumes "dl h 0 q xs" "distinct (x # xs)" "x \<noteq> 0" "slab_next (h x) = q" "slab_prev (h x) = 0"
  shows "dl (set_prev q x h) 0 x (x # xs)"
proof -
  have "q \<noteq> x"
    using assms(1-3) by (cases xs) auto
  with assms dl_set_prev [of h 0 q xs x] show ?thesis
    by simp
qed

lemma set_prev_outside: "p \<notin> set xs \<Longrightarrow> dl (set_prev p v h) w q xs = dl h w q xs"
  by (rule dl_cong) (auto simp: set_prev_def)

lemma dl_upd_outside [simp]: "p \<notin> set xs \<Longrightarrow> dl (h(p := sl)) w q xs = dl h w q xs"
  by (rule dl_cong) auto

lemma dl_upd_core: "links sl = links (h p) \<Longrightarrow> dl (h(p := sl)) w q xs = dl h w q xs"
  by (rule dl_cong) auto

lemma dl_first: "dl h v q xs \<Longrightarrow> q \<noteq> 0 \<Longrightarrow> q \<in> set xs"
  by (cases xs) auto

definition taken :: "Cache \<Rightarrow> (u64 \<Rightarrow> u32) \<Rightarrow> Slab \<Rightarrow> Slab" where
  "taken C m sl = sl\<lparr>slab_next_free := m (FREE_ARRAY C sl + 4 * ucast (slab_next_free sl)),
     slab_allocated := slab_allocated sl + 1\<rparr>"

lemma taken_simps [simp]:
  "links (taken C m sl) = links sl" "slab_mem (taken C m sl) = slab_mem sl"
  "slab_next (taken C m sl) = slab_next sl" "slab_prev (taken C m sl) = slab_prev sl"
  "slab_allocated (taken C m sl) = slab_allocated sl + 1" "slab_start C' (taken C m sl) = slab_start C' sl"
  "slab_bytes C' (taken C m sl) = slab_bytes C' sl" "FREE_ARRAY C' (taken C m sl) = FREE_ARRAY C' sl"
  by (simp_all add: taken_def links_def slab_start_def slab_bytes_def FREE_ARRAY_def)

lemma taken_wf:
  assumes "cfg_ok c C" "slab_wf C m p sl (f # fs)"
  shows "slab_wf C m p (taken C m sl) fs"
    "unat (slab_allocated sl + 1) = Suc (unat (slab_allocated sl))"
    "slab_allocated sl + 1 = cache_count C \<longleftrightarrow> fs = []"
proof -
  have al: "unat (slab_allocated sl) + Suc (length fs) = unat (cache_count C)"
    using assms(2) by (simp add: slab_wf_def)
  then have "unat (slab_allocated sl) + 1 < 2 ^ 32 \<or> unat (slab_allocated sl) + 1 = unat (cache_count C)"
    using unat_u32_lt [of "cache_count C"] by linarith
  then show inc: "unat (slab_allocated sl + 1) = Suc (unat (slab_allocated sl))"
    using unat_u32_lt [of "cache_count C"] by (subst unat_add_lem [THEN iffD1]) auto
  show "slab_allocated sl + 1 = cache_count C \<longleftrightarrow> fs = []"
    unfolding word_unat_eq_iff inc using al by (cases fs) auto
  show "slab_wf C m p (taken C m sl) fs"
    using assms(2) al inc unat_next_free(2) [OF assms] by (auto simp: slab_wf_def) (auto simp: taken_def)
qed

definition moved_to_full :: "'w slab_state \<Rightarrow> nat \<Rightarrow> u64 \<Rightarrow> Slab \<Rightarrow> 'w slab_state" where
  "moved_to_full s c p sl =
     (let C = size_caches s c; h = set_prev (slab_next sl) 0 ((slabs s)(p := sl)) in
      s\<lparr>slabs := set_prev (cache_full C) p (h(p := slab_next_update (\<lambda>_. cache_full C) (h p))),
        size_caches := (size_caches s)(c := C\<lparr>cache_part := slab_next sl, cache_full := p\<rparr>)\<rparr>)"

lemma take_object_run:
  assumes "cfg_ok c (size_caches s c)" "slab_wf (size_caches s c) (free_arrays s) p (slabs s p) (f # fs)" "p \<noteq> 0"
  shows "take_object c p s = Inr (object_at (size_caches s c) (slabs s p) f,
     if fs = [] then moved_to_full s c p (taken (size_caches s c) (free_arrays s) (slabs s p))
     else s\<lparr>slabs := (slabs s)(p := taken (size_caches s c) (free_arrays s) (slabs s p))\<rparr>)"
proof -
  let ?C = "size_caches s c" and ?sl = "slabs s p"
  have f: "f < unat (cache_count ?C)"
    using assms(2) by (simp add: slab_wf_def)
  have eq: "slab_mem ?sl + ucast (slab_next_free ?sl * cache_size ?C) = object_at ?C ?sl f"
    by (simp only: unat_next_free(1) [OF assms(1,2)] object_at_def)
  note aligned = object_aligned [OF assms(1,2) f]
  show ?thesis
  proof (cases "fs = []")
    case True
    then have "slab_allocated ?sl + 1 = cache_count ?C"
      using taken_wf(3) [OF assms(1,2)] by simp
    with True eq aligned assms(3) show ?thesis
      by (simp add: take_object_def load_slab_def update_slab_def update_cache_def moved_to_full_def Let_def
          taken_def [symmetric] del: fun_upd_apply) (simp add: Let_def set_prev_def)
  next
    case False
    then have "slab_allocated ?sl + 1 \<noteq> cache_count ?C"
      using taken_wf(3) [OF assms(1,2)] by simp
    with False eq aligned assms(3) show ?thesis
      by (simp add: take_object_def load_slab_def update_slab_def taken_def Let_def)
  qed
qed


text \<open>The slab moves to the full list.\<close>

lemma moved_to_full_lists:
  assumes lists: "lists_ok s P F fr c" and P: "P c = p # ps" and sl: "links sl = links (slabs s p)"
    and s': "s' = moved_to_full s c p sl"
  shows "lists_ok s' (P(c := ps)) (F(c := p # F c)) (fr(p := [])) c"
    and "q \<noteq> p \<Longrightarrow> q \<notin> slabs_of P F c \<Longrightarrow> slabs s' q = slabs s q"
    and "q \<noteq> p \<Longrightarrow> core (slabs s' q) = core (slabs s q)" and "core (slabs s' p) = core sl"
proof -
  let ?h = "slabs s" and ?C = "size_caches s c"
  define nx fu where "nx = slab_next sl" and "fu = cache_full ?C"
  define h2 where "h2 = set_prev nx 0 (?h(p := sl))"
  define h3 where "h3 = h2(p := slab_next_update (\<lambda>_. fu) (h2 p))"
  have h4: "slabs s' = set_prev fu p h3" "size_caches s' c = ?C\<lparr>cache_part := nx, cache_full := p\<rparr>"
    by (simp_all add: s' moved_to_full_def Let_def h3_def h2_def nx_def fu_def)
  have L: "dl ?h 0 (cache_part ?C) (p # ps)" "dl ?h 0 fu (F c)" "distinct (p # ps @ F c)"
    "\<forall>q \<in> set (p # ps). fr q \<noteq> []" "\<forall>q \<in> set (F c). fr q = []"
    using lists P by (simp_all add: lists_ok_def fu_def)
  have p: "p \<noteq> 0" "slab_prev sl = 0" "dl ?h p nx ps"
    using L(1) sl by (auto simp: links_def nx_def)
  have nx: "nx \<noteq> p" "nx \<notin> set (F c)" "nx = 0 \<or> nx \<in> set ps"
    using dl_first [OF p(3)] dl_nonzero [OF L(2)] L(3) p(1) by auto
  have fu: "fu \<noteq> p" "fu \<notin> set ps" "fu = 0 \<or> fu \<in> set (F c)"
    using dl_first [OF L(2)] dl_nonzero [OF p(3)] L(3) p(1) by auto
  have "dl (?h(p := sl)) p nx ps"
    using p(3) L(3) by simp
  then have "dl h2 0 nx ps"
    unfolding h2_def using L(3) by (intro dl_set_prev) auto
  then have part: "dl (set_prev fu p h3) 0 nx ps"
    using L(3) fu(2) by (simp add: h3_def set_prev_outside)
  have "dl h3 0 fu (F c)"
    using L(2,3) nx(2) by (simp add: h3_def h2_def set_prev_outside)
  moreover have "slab_next (h3 p) = fu" "slab_prev (h3 p) = 0"
    using nx(1) p(2) by (simp_all add: h3_def h2_def)
  ultimately have "dl (set_prev fu p h3) 0 p (p # F c)"
    using L(3) p(1) by (intro dl_push) auto
  with part L show "lists_ok s' (P(c := ps)) (F(c := p # F c)) (fr(p := [])) c"
    by (auto simp: lists_ok_def h4)
  show "core (slabs s' q) = core (slabs s q)" if "q \<noteq> p" for q
    using that by (simp add: h4 h3_def h2_def)
  show "core (slabs s' p) = core sl"
    using fu(1) nx(1) by (simp add: h4 h3_def h2_def core_def)
  show "slabs s' q = slabs s q" if "q \<noteq> p" "q \<notin> slabs_of P F c" for q
  proof -
    have "q = 0 \<longrightarrow> True" "q \<noteq> nx \<or> nx = 0" "q \<noteq> fu \<or> fu = 0"
      using that nx(3) fu(3) P by (auto simp: slabs_of_def)
    then show ?thesis
      using that(1) by (auto simp: h4 h3_def h2_def set_prev_def)
  qed
qed

lemma objs_grow:
  assumes "slab_change s P F fr s' P' F' (fr(p := fs)) c p" and "fr p = f # fs" and "p \<in> slabs_of P F c"
    and "slabs_of P' F' c = slabs_of P F c" and "core (slabs s' p) = core sl'" and "slab_mem sl' = slab_mem (slabs s p)"
  shows "objs s' P' F' (fr(p := fs)) c = insert (object_at (size_caches s c) (slabs s p) f) (objs s P F fr c)"
proof -
  note D = changeD [OF assms(1)]
  let ?C = "size_caches s c" and ?sl = "slabs s p"
  have wf: "slab_wf ?C (free_arrays s) p ?sl (f # fs)"
    using slabs_inv_wf [OF D(1,2) assms(3)] assms(2) by simp
  then have f: "f < unat (cache_count ?C)" "f \<notin> set fs"
    by (simp_all add: slab_wf_def)
  have "slab_objects (size_caches s' c) (slabs s' p) fs = slab_objects ?C ?sl fs"
    using D(3) [of c] assms(5,6) by (simp add: slab_objects_def object_at_def core_def cfg_def)
  also have "\<dots> = insert (object_at ?C ?sl f) (slab_objects ?C ?sl (f # fs))"
    using f by (auto simp: slab_objects_def)
  finally have p: "slab_objects (size_caches s' c) (slabs s' p) fs = insert (object_at ?C ?sl f) (slab_objects ?C ?sl (f # fs))" .
  have q: "slab_objects (size_caches s' c) (slabs s' q) ((fr(p := fs)) q) = slab_objects ?C (slabs s q) (fr q)" if "q \<noteq> p" for q
    by (rule change_slab_objects [OF assms(1) that])
  have "objs s' P' F' (fr(p := fs)) c = slab_objects (size_caches s' c) (slabs s' p) fs \<union>
      (\<Union>q \<in> slabs_of P F c - {p}. slab_objects (size_caches s' c) (slabs s' q) ((fr(p := fs)) q))"
    using assms(3) unfolding objs_def assms(4) by (auto split: if_split_asm)
  also have "\<dots> = insert (object_at ?C ?sl f) (slab_objects ?C ?sl (f # fs)) \<union>
      (\<Union>q \<in> slabs_of P F c - {p}. slab_objects ?C (slabs s q) (fr q))"
    unfolding p using q by simp
  also have "\<dots> = insert (object_at ?C ?sl f) (objs s P F fr c)"
    using assms(2,3) unfolding objs_def by auto
  finally show ?thesis .
qed


text \<open>The slabs, their memory and everything outside the caches are as before.\<close>

definition same_slabs ::
    "'w slab_state \<Rightarrow> slab_lists \<Rightarrow> slab_lists \<Rightarrow> 'w slab_state \<Rightarrow> slab_lists \<Rightarrow> slab_lists \<Rightarrow> bool" where
  "same_slabs s P F s' P' F' \<longleftrightarrow>
     (\<forall>d. slabs_of P' F' d = slabs_of P F d) \<and> (\<forall>d q. bytes_of s' d q = bytes_of s d q) \<and>
     (\<forall>d. cfg (size_caches s' d) = cfg (size_caches s d)) \<and> world s' = world s \<and>
     page_allocations s' = page_allocations s \<and> page_allocation_list s' = page_allocation_list s"

lemma headers_grow:
  assumes "headers_ok s P F fr" "\<And>d. slabs_of P' F' d = slabs_of P F d"
    "\<And>d. cfg (size_caches s' d) = cfg (size_caches s d)" "objs s P F fr 1 \<subseteq> objs s' P' F' fr' 1"
  shows "headers_ok s' P' F' fr'"
  unfolding headers_ok_def
proof (intro allI impI)
  fix d assume "d < (7 :: nat)" "\<not> in_page (size_caches s' d)"
  then have "slabs_of P F d \<subseteq> objs s P F fr 1"
    using assms(1) cfg_cong(3) [OF assms(3) [of d]] by (auto simp: headers_ok_def)
  with assms(2,4) show "slabs_of P' F' d \<subseteq> objs s' P' F' fr' 1"
    by auto
qed

theorem take_object_ok:
  assumes inv: "slabs_inv s P F fr" and c: "c < 7" and P: "P c = p # ps"
  shows "\<exists>f fs s' P' F'. fr p = f # fs \<and>
    take_object c p s = Inr (object_at (size_caches s c) (slabs s p) f, s') \<and> slabs_inv s' P' F' (fr(p := fs)) \<and>
    same_slabs s P F s' P' F' \<and> object_at (size_caches s c) (slabs s p) f \<notin> objs s P F fr c \<and>
    objs s' P' F' (fr(p := fs)) c = insert (object_at (size_caches s c) (slabs s p) f) (objs s P F fr c) \<and>
    (\<forall>d < 7. d \<noteq> c \<longrightarrow> objs s' P' F' (fr(p := fs)) d = objs s P F fr d)"
proof -
  let ?C = "size_caches s c"
  have p: "p \<in> slabs_of P F c"
    using P by (simp add: slabs_of_def)
  have lists: "lists_ok s P F fr c" and cfg: "cfg_ok c ?C"
    by (rule slabs_invD(2) [OF inv c], rule slabs_invD(1) [OF inv c])
  have "fr p \<noteq> []" "p \<noteq> 0"
    using lists P by (auto simp: lists_ok_def)
  then obtain f fs where fr: "fr p = f # fs"
    by (cases "fr p") auto
  have wf: "slab_wf ?C (free_arrays s) p (slabs s p) (f # fs)"
    using slabs_inv_wf [OF inv c p] fr by simp
  define sl where "sl = taken ?C (free_arrays s) (slabs s p)"
  define s' where "s' = (if fs = [] then moved_to_full s c p sl else s\<lparr>slabs := (slabs s)(p := sl)\<rparr>)"
  define P' F' where "P' = (if fs = [] then P(c := ps) else P)" and "F' = (if fs = [] then F(c := p # F c) else F)"
  have run: "take_object c p s = Inr (object_at ?C (slabs s p) f, s')"
    using take_object_run [OF cfg wf \<open>p \<noteq> 0\<close>] by (simp add: s'_def sl_def)
  have sl: "links sl = links (slabs s p)" "slab_mem sl = slab_mem (slabs s p)"
    by (simp_all add: sl_def)
  have same: "slabs_of P' F' d = slabs_of P F d" for d
    using P by (auto simp: P'_def F'_def slabs_of_def)
  have cfgs: "cfg (size_caches s' d) = cfg (size_caches s d)" for d
    by (simp add: s'_def moved_to_full_def Let_def cfg_def)
  have cores: "q \<noteq> p \<Longrightarrow> core (slabs s' q) = core (slabs s q)" "core (slabs s' p) = core sl" for q
    using moved_to_full_lists(3,4) [OF lists P sl(1)] by (auto simp: s'_def)
  have others: "q \<noteq> p \<Longrightarrow> q \<notin> slabs_of P F c \<Longrightarrow> links (slabs s' q) = links (slabs s q)" for q
    using moved_to_full_lists(2) [OF lists P sl(1)] by (auto simp: s'_def)
  have L: "lists_ok s' P' F' (fr(p := fs)) c"
  proof (cases "fs = []")
    case True
    then show ?thesis
      using moved_to_full_lists(1) [OF lists P sl(1) refl] by (simp add: s'_def P'_def F'_def)
  next
    case False
    have "dl ((slabs s)(p := sl)) 0 q xs = dl (slabs s) 0 q xs" for q xs
      using sl(1) by (intro dl_upd_core)
    with False lists P show ?thesis
      unfolding lists_ok_def by (auto simp: s'_def P'_def F'_def simp del: dl.simps)
  qed
  have arrays: "free_arrays s' = free_arrays s"
    by (simp add: s'_def moved_to_full_def Let_def)
  have "slab_wf (size_caches s' c) (free_arrays s') p (slabs s' p) fs = slab_wf ?C (free_arrays s) p sl fs"
    unfolding arrays by (rule core_cong(4) [OF cfgs cores(2)])
  then have wf': "wf_at s' (fr(p := fs)) c p"
    using taken_wf(1) [OF cfg wf] by (simp add: wf_at_def sl_def)
  have bytes: "bytes_of s' d q = bytes_of s d q" for d q
  proof (cases "q = p")
    case True
    have "bytes_of s' d p = slab_bytes (size_caches s d) sl"
      unfolding bytes_of_def by (rule core_cong(2) [OF cfgs cores(2)])
    then show ?thesis
      using True by (simp add: bytes_of_def sl_def)
  next
    case False
    then show ?thesis
      unfolding bytes_of_def by (intro core_cong(2) cfgs cores(1))
  qed
  have foreign: "d < 7 \<Longrightarrow> d \<noteq> c \<Longrightarrow> p \<notin> slabs_of P F d" for d
    using apartD [OF slabs_invD(4) [OF inv] c _ p] by blast
  have disj: "d < 7 \<Longrightarrow> q \<in> slabs_of P F d \<Longrightarrow> q \<noteq> p \<Longrightarrow> bytes_of s c p \<inter> bytes_of s d q = {}" for d q
    using apartD [OF slabs_invD(4) [OF inv] c _ p, of d q] by auto
  have change: "slab_change s P F fr s' P' F' (fr(p := fs)) c p"
    unfolding slab_change_def
    using inv c cfgs L others cores(1) same foreign arrays wf' disj bytes
    by (auto simp: s'_def P'_def F'_def moved_to_full_def Let_def)
  have new: "object_at ?C (slabs s p) f \<notin> objs s P F fr c"
    using free_object_new [OF inv c p] fr by simp
  have grow: "objs s' P' F' (fr(p := fs)) c = insert (object_at ?C (slabs s p) f) (objs s P F fr c)"
    by (rule objs_grow [OF change fr p same cores(2) sl(2)])
  have other: "\<forall>d < 7. d \<noteq> c \<longrightarrow> objs s' P' F' (fr(p := fs)) d = objs s P F fr d"
    using change_objs_other [OF change] by simp
  have "objs s P F fr 1 \<subseteq> objs s' P' F' (fr(p := fs)) 1"
    using grow other by (cases "c = 1") auto
  then have "slabs_inv s' P' F' (fr(p := fs))"
    by (intro change_inv [OF change] headers_grow [OF slabs_invD(5) [OF inv] same cfgs])
  moreover have "same_slabs s P F s' P' F'"
    using same bytes cfgs by (simp add: same_slabs_def s'_def moved_to_full_def Let_def)
  ultimately show ?thesis
    using fr run new grow other by (intro exI conjI)
qed

end
