(* ===== verification/Slab_New.thy ===== *)
theory Slab_New
  imports Slab_Take
begin

text \<open>
  A slab on fresh pages: its free array links every object, and adding it to the partial list of
  its cache (the middle of \<open>kalloc\<close>) keeps the invariant and makes no object live.
\<close>


section \<open>The free array of a new slab\<close>

lemma init_free_array_outside:
  "\<forall>i < n. a \<noteq> b + 4 * of_nat i \<Longrightarrow> init_free_array b n m a = m a"
  by (induction n) auto

lemma init_free_array_at:
  assumes "unat b + 4 * n \<le> 2 ^ 64" "i < n"
  shows "init_free_array b n m (b + 4 * of_nat i) = of_nat i + 1"
  using assms
proof (induction n)
  case (Suc n)
  have addr: "unat (b + 4 * of_nat k) = unat b + 4 * k" if "k < Suc n" for k
  proof -
    have "unat (4 * of_nat k :: u64) = 4 * k"
      using that Suc.prems(1) by (simp add: unat_word_ariths unat_of_nat)
    then show ?thesis
      using that Suc.prems(1) by (subst unat_add_u64) auto
  qed
  show ?case
  proof (cases "i = n")
    case False
    then have "unat (b + 4 * of_nat i) \<noteq> unat (b + 4 * of_nat n)"
      using addr [of i] addr [of n] Suc.prems(2) by simp
    then have "b + 4 * of_nat i \<noteq> b + 4 * of_nat n"
      by auto
    with Suc False show ?thesis
      by simp
  qed simp
qed simp

lemma free_chain_init:
  assumes "unat b + 4 * n \<le> 2 ^ 64" "n < 2 ^ 32" "j \<le> n"
  shows "free_chain (init_free_array b n m) b (of_nat j) [j..<n]"
  using assms(3)
proof (induction rule: inc_induct)
  case (step k)
  then have "init_free_array b n m (b + 4 * of_nat k) = of_nat (Suc k)"
    using init_free_array_at [OF assms(1)] by (simp add: add.commute)
  moreover have "unat (of_nat k :: u32) = k"
    using step(2) assms(2) by (simp add: unat_of_nat)
  ultimately show ?case
    using step by (simp add: upt_conv_Cons del: of_nat_Suc)
qed simp

section \<open>A new slab\<close>

definition fresh_pages :: "'w slab_state \<Rightarrow> slab_lists \<Rightarrow> slab_lists \<Rightarrow> u64 \<Rightarrow> nat \<Rightarrow> bool" where
  "fresh_pages s P F mem n \<longleftrightarrow> mem \<noteq> 0 \<and> 16 dvd unat mem \<and> unat mem + 4096 * n < 2 ^ 64 \<and>
     (\<forall>d < 7. \<forall>q \<in> slabs_of P F d. {unat mem ..< unat mem + 4096 * n} \<inter> bytes_of s d q = {})"

text \<open>Every slab's own address is in the memory of some slab.\<close>

lemma in_page_start:
  assumes "slabs_inv s P F fr" "d < 7" "q \<in> slabs_of P F d" "in_page (size_caches s d)"
  shows "unat q = slab_start (size_caches s d) (slabs s q)" "unat q \<in> bytes_of s d q"
proof -
  note wf = slabs_inv_wf [OF assms(1-3)] and cfg = slabs_invD(1) [OF assms(1,2)]
  show u: "unat q = slab_start (size_caches s d) (slabs s q)"
    using wf assms(4) by (simp add: slab_wf_def)
  have "0 < unat (cache_pages (size_caches s d))"
    using cfg by (cases "unat (cache_pages (size_caches s d))") (auto simp: cfg_ok_def)
  then show "unat q \<in> bytes_of s d q"
    by (simp add: bytes_of_def slab_bytes_def u)
qed

lemma object_in_slab:
  assumes "slabs_inv s P F fr" "d < 7" "x \<in> objs s P F fr d"
  obtains r where "r \<in> slabs_of P F d" "unat x \<in> bytes_of s d r"
    "slab_start (size_caches s d) (slabs s r) + header (size_caches s d) \<le> unat x"
proof -
  from objs_cases [OF assms] obtain r i where r: "r \<in> slabs_of P F d" "i < unat (cache_count (size_caches s d))"
    "x = object_at (size_caches s d) (slabs s r) i" by metis
  note wf = slabs_inv_wf [OF assms(1,2) r(1)] and cfg = slabs_invD(1) [OF assms(1,2)]
  have "unat x \<in> object_bytes d x"
    by (simp add: object_bytes_def)
  then have "unat x \<in> bytes_of s d r"
    using object_bytes_slab [OF cfg wf r(2)] r(3) by (auto simp: bytes_of_def)
  moreover have "slab_start (size_caches s d) (slabs s r) + header (size_caches s d) \<le> unat x"
    using unat_object_at(1) [OF cfg wf r(2)] r(3) wf by (auto simp: slab_start_def slab_wf_def)
  ultimately show ?thesis
    using that r(1) by blast
qed

lemma slab_addr_used:
  assumes inv: "slabs_inv s P F fr" and d: "d < 7" "q \<in> slabs_of P F d"
  shows "\<exists>e < 7. \<exists>r \<in> slabs_of P F e. unat q \<in> bytes_of s e r"
proof (cases "in_page (size_caches s d)")
  case True
  then show ?thesis
    using in_page_start(2) [OF inv d] d by blast
next
  case False
  then have "q \<in> objs s P F fr 1"
    using slabs_invD(5) [OF inv] d by (auto simp: headers_ok_def)
  from object_in_slab [OF inv _ this] show ?thesis
    by (metis one_less_numeral_iff semiring_norm(77))
qed

lemma fresh_pages_not_slab:
  assumes inv: "slabs_inv s P F fr" and "fresh_pages s P F mem n" "0 < n" "d < 7"
  shows "mem \<notin> slabs_of P F d"
proof
  assume "mem \<in> slabs_of P F d"
  from slab_addr_used [OF inv assms(4) this] obtain e r where "e < 7" "r \<in> slabs_of P F e" "unat mem \<in> bytes_of s e r"
    by blast
  moreover have "unat mem \<in> {unat mem ..< unat mem + 4096 * n}"
    using assms(3) by simp
  ultimately show False
    using assms(2) unfolding fresh_pages_def by blast
qed

definition new_slab_at :: "u64 \<Rightarrow> u64 \<Rightarrow> nat \<Rightarrow> 'w slab_state \<Rightarrow> 'w slab_state" where
  "new_slab_at x base c s =
     (let C = size_caches s c in
      s\<lparr>free_arrays := init_free_array base (unat (cache_count C)) (free_arrays s),
        slabs := set_prev (cache_part C) x ((slabs s)(x := \<lparr>slab_next = cache_part C, slab_prev = 0,
          slab_mem = base + ucast (cache_free_arr_size C), slab_allocated = 0, slab_next_free = 0\<rparr>)),
        size_caches := (size_caches s)(c := C\<lparr>cache_part := x\<rparr>)\<rparr>)"


lemma base_addr:
  assumes "cfg_ok c C" "fresh_pages s P F mem (unat (cache_pages C))" "unat base = unat mem + header C"
    and "sl = \<lparr>slab_next = nx, slab_prev = 0, slab_mem = base + ucast (cache_free_arr_size C),
      slab_allocated = 0, slab_next_free = 0\<rparr>" and "in_page C \<longrightarrow> x = mem"
  shows "FREE_ARRAY C sl = base" "slab_start C sl = unat mem"
    "slab_wf C (init_free_array base (unat (cache_count C)) m) x sl [0..<unat (cache_count C)]"
    "unat base + 4 * unat (cache_count C) \<le> 2 ^ 64" "4 * unat (cache_count C) + header C \<le> 4096 * unat (cache_pages C)"
proof -
  let ?a = "unat (cache_free_arr_size C)" and ?n = "unat (cache_count C)"
  have cfg: "header C + ?a + unat (cache_mem_size C) \<le> 4096 * unat (cache_pages C)" "4 * ?n \<le> ?a"
    "unat (cache_mem_size C) = ?n * 2 ^ (c + 4)" "2 \<le> ?n"
    using assms(1) by (auto simp: cfg_ok_def)
  have fresh: "0 < unat mem" "16 dvd unat mem" "unat mem + 4096 * unat (cache_pages C) < 2 ^ 64"
    using assms(2) by (auto simp: fresh_pages_def unat_gt_0)
  have pos: "0 < unat (cache_mem_size C)"
    using cfg(3,4) by simp
  have mem: "unat (slab_mem sl) = unat mem + header C + ?a"
    using assms(3,4) cfg(1) fresh(3) pos by (simp add: unat_add_u64)
  show FA: "FREE_ARRAY C sl = base"
    using assms(4) by (simp add: FREE_ARRAY_def)
  show start: "slab_start C sl = unat mem"
    using mem by (simp add: slab_start_def)
  show fit: "unat base + 4 * ?n \<le> 2 ^ 64" "4 * ?n + header C \<le> 4096 * unat (cache_pages C)"
    using assms(3) cfg fresh(3) by linarith+
  have "free_chain (init_free_array base ?n m) base (of_nat 0) [0..<?n]"
    using unat_u32_lt [of "cache_count C"] by (intro free_chain_init fit(1)) auto
  then show "slab_wf C (init_free_array base ?n m) x sl [0..<?n]"
    unfolding slab_wf_def FA start using assms(4,5) fresh mem by auto
qed

lemma new_slab_at_ok:
  assumes inv: "slabs_inv s P F fr" and c: "c < 7" and x: "x \<noteq> 0" "\<forall>d < 7. x \<notin> slabs_of P F d"
    and fresh: "fresh_pages s P F mem (unat (cache_pages (size_caches s c)))"
    and base: "unat base = unat mem + header (size_caches s c)"
    and addr: "in_page (size_caches s c) \<longrightarrow> x = mem" "\<not> in_page (size_caches s c) \<longrightarrow> x \<in> objs s P F fr 1"
  defines "s' \<equiv> new_slab_at x base c s" and "P' \<equiv> P(c := x # P c)"
    and "fr' \<equiv> fr(x := [0..<unat (cache_count (size_caches s c))])"
  shows "slabs_inv s' P' F fr'" "\<forall>d < 7. objs s' P' F fr' d = objs s P F fr d"
    "cfg (size_caches s' d) = cfg (size_caches s d)" "size_caches s' c = (size_caches s c)\<lparr>cache_part := x\<rparr>"
    "bytes_of s' c x = {unat mem ..< unat mem + 4096 * unat (cache_pages (size_caches s c))}"
    "q \<noteq> x \<Longrightarrow> bytes_of s' d q = bytes_of s d q"
proof -
  let ?C = "size_caches s c" and ?h = "slabs s"
  define sl where "sl = \<lparr>slab_next = cache_part ?C, slab_prev = 0,
    slab_mem = base + ucast (cache_free_arr_size ?C), slab_allocated = 0, slab_next_free = 0\<rparr>"
  have cfg: "cfg_ok c ?C" and L: "lists_ok s P F fr c"
    by (rule slabs_invD(1) [OF inv c], rule slabs_invD(2) [OF inv c])
  note b = base_addr [OF cfg fresh base sl_def addr(1)]
  have s': "slabs s' = set_prev (cache_part ?C) x (?h(x := sl))" "free_arrays s' = init_free_array base (unat (cache_count ?C)) (free_arrays s)"
    "size_caches s' = (size_caches s)(c := ?C\<lparr>cache_part := x\<rparr>)"
    by (simp_all add: s'_def new_slab_at_def Let_def sl_def)
  show cfgs: "cfg (size_caches s' d) = cfg (size_caches s d)" for d
    by (simp add: s'(3) cfg_def)
  show "size_caches s' c = ?C\<lparr>cache_part := x\<rparr>"
    by (simp add: s'(3))
  have xc: "x \<notin> set (P c)" "x \<notin> set (F c)"
    using x(2) c by (auto simp: slabs_of_def)
  have part: "cache_part ?C \<noteq> x" "cache_part ?C \<notin> set (F c)"
    using L xc(1) x(1) dl_first [of ?h 0 "cache_part ?C" "P c"] dl_nonzero [of ?h 0 _ "F c"]
    by (cases "cache_part ?C = 0"; auto simp: lists_ok_def)+
  have cores: "q \<noteq> x \<Longrightarrow> core (slabs s' q) = core (?h q)" "core (slabs s' x) = core sl" for q
    by (simp_all add: s')
  have wf': "wf_at s' fr' c x"
    using b(3) [of "free_arrays s"] core_cong(4) [OF cfgs cores(2)] by (simp add: wf_at_def s'(2) fr'_def)
  have bytes_x: "bytes_of s' c x = slab_bytes ?C sl"
    unfolding bytes_of_def by (rule core_cong(2) [OF cfgs cores(2)])
  then show bx: "bytes_of s' c x = {unat mem ..< unat mem + 4096 * unat (cache_pages ?C)}"
    by (simp add: slab_bytes_def b(2))
  show "q \<noteq> x \<Longrightarrow> bytes_of s' d q = bytes_of s d q" for q d
    unfolding bytes_of_def by (intro core_cong(2) cfgs cores(1))
  have "dl (?h(x := sl)) 0 (cache_part ?C) (P c)" "dl (?h(x := sl)) 0 (cache_full ?C) (F c)"
    using L xc by (auto simp: lists_ok_def)
  moreover from this have "dl (slabs s') 0 x (x # P c)"
    unfolding s'(1) using L xc x(1) by (intro dl_push) (auto simp: lists_ok_def sl_def)
  moreover have "dl (slabs s') 0 q (F c) = dl (?h(x := sl)) 0 q (F c)" for q
    unfolding s'(1) by (rule set_prev_outside [OF part(2)])
  moreover have "0 < unat (cache_count ?C)"
    using cfg by (simp add: cfg_ok_def)
  ultimately have L': "lists_ok s' P' F fr' c"
    using L xc by (auto simp: lists_ok_def P'_def fr'_def s'(3) simp del: dl.simps)
  have others: "links (slabs s' q) = links (slabs s q)" if "q \<noteq> x" "q \<notin> slabs_of P F c" for q
  proof -
    have "q \<noteq> cache_part ?C \<or> q = 0"
      using that(2) L dl_first [of ?h 0 "cache_part ?C" "P c"] by (auto simp: lists_ok_def slabs_of_def)
    with that(1) show ?thesis
      by (auto simp: s'(1) set_prev_def)
  qed
  have arrays: "free_arrays s' a = free_arrays s a"
    if d: "d < 7" "q \<in> slabs_of P F d" and a: "unat a \<in> bytes_of s d q" for d q a
    unfolding s'(2)
  proof (rule init_free_array_outside, intro allI impI notI)
    fix i assume i: "i < unat (cache_count ?C)" "a = base + 4 * of_nat i"
    have "unat (4 * of_nat i :: u64) = 4 * i"
      using i(1) unat_u32_lt [of "cache_count ?C"] by (simp add: unat_word_ariths unat_of_nat)
    then have "unat a = unat mem + header ?C + 4 * i"
      using i b(4) base by (subst i(2), subst unat_add_u64) auto
    then have "unat a \<in> {unat mem ..< unat mem + 4096 * unat (cache_pages ?C)}"
      using i(1) b(5) by auto
    with fresh d a show False
      unfolding fresh_pages_def by blast
  qed
  have change: "slab_change s P F fr s' P' F fr' c x"
    unfolding slab_change_def
    using inv c cfgs L' others cores(1) x(2) arrays wf' fresh bx
    by (auto simp: P'_def fr'_def s'(3) slabs_of_def fresh_pages_def)
  have eqs: "slab_objects (size_caches s' c) (slabs s' x) (fr' x) = {}"
    using cfgs [of c] by (auto simp: slab_objects_def fr'_def cfg_def)
  have oc: "objs s' P' F fr' c = objs s P F fr c"
  proof -
    have "slabs_of P' F c = insert x (slabs_of P F c)"
      by (auto simp: slabs_of_def P'_def)
    moreover have "slab_objects (size_caches s' c) (slabs s' q) (fr' q) = slab_objects ?C (?h q) (fr q)" if "q \<in> slabs_of P F c" for q
      using that x(2) c by (intro change_slab_objects [OF change]) auto
    ultimately show ?thesis
      using eqs by (simp add: objs_def)
  qed
  show objs: "\<forall>d < 7. objs s' P' F fr' d = objs s P F fr d"
  proof (intro allI impI)
    fix d assume "d < (7 :: nat)"
    then show "objs s' P' F fr' d = objs s P F fr d"
      using change_objs_other [OF change, of d] oc by (cases "d = c") simp_all
  qed
  have "headers_ok s' P' F fr'"
    unfolding headers_ok_def
  proof (intro allI impI)
    fix d assume d: "d < (7 :: nat)" "\<not> in_page (size_caches s' d)"
    then have d': "\<not> in_page (size_caches s d)"
      using cfg_cong(3) [OF cfgs [of d]] by simp
    then have "slabs_of P F d \<subseteq> objs s P F fr 1"
      using slabs_invD(5) [OF inv] d(1) by (simp add: headers_ok_def)
    moreover have "slabs_of P' F d \<subseteq> insert x (slabs_of P F d)" "d \<noteq> c \<Longrightarrow> slabs_of P' F d = slabs_of P F d"
      by (auto simp: slabs_of_def P'_def)
    ultimately have "slabs_of P' F d \<subseteq> objs s P F fr 1"
      using addr(2) d' by (cases "d = c") auto
    then show "slabs_of P' F d \<subseteq> objs s' P' F fr' 1"
      using objs by simp
  qed
  then show "slabs_inv s' P' F fr'"
    by (rule change_inv [OF change])
qed

end
