(* ===== verification/Slab_Kalloc.thy ===== *)
theory Slab_Kalloc
  imports Slab_New
begin

text \<open>
  \<open>kalloc\<close> for the sizes that have a cache: with a supply of pages that hands out unused pages,
  it returns an object no client holds, or NULL when the supply is exhausted, and the caches
  stay well formed.
\<close>


section \<open>The order of a size\<close>

lemma min_cache_order_loop_least:
  assumes "4 \<le> order" "order \<le> 12" "order = 4 \<or> 2 ^ (order - 1) < unat sz"
  shows "let k = min_cache_order_loop sz order in 4 \<le> k \<and> k \<le> 12 \<and> (k = 4 \<or> 2 ^ (k - 1) < unat sz) \<and>
    (k = 12 \<or> unat sz \<le> 2 ^ k)"
  using assms
proof (induction sz order rule: min_cache_order_loop.induct)
  case (1 sz order)
  have u: "unat (push_bit order 1 :: u64) = 2 ^ order"
    using 1(3) by (simp add: unat_2_power_u64 push_bit_eq_mult)
  show ?case
  proof (cases "push_bit order 1 < sz \<and> order \<le> CACHE_END_ORDER")
    case True
    then have "2 ^ order < unat sz" "order \<le> 11"
      using u by (simp_all add: word_less_nat_alt CACHE_END_ORDER_def)
    have step: "min_cache_order_loop sz order = min_cache_order_loop sz (order + 1)"
      using True by (subst min_cache_order_loop.simps) (rule if_P)
    have "4 \<le> order + 1" "order + 1 \<le> 12" "order + 1 = 4 \<or> 2 ^ (order + 1 - 1) < unat sz"
      using \<open>2 ^ order < unat sz\<close> \<open>order \<le> 11\<close> 1(2) by simp_all
    then show ?thesis
      unfolding step by (rule 1(1) [OF True])
  next
    case False
    then have "min_cache_order_loop sz order = order"
      by (subst min_cache_order_loop.simps) (rule if_not_P)
    moreover have "order = 12 \<or> unat sz \<le> 2 ^ order"
      using False u 1(3) by (auto simp: word_less_nat_alt CACHE_END_ORDER_def)
    ultimately show ?thesis
      using 1(2-4) by simp
  qed
qed

lemma get_min_cache_order_spec:
  "let k = get_min_cache_order sz in 4 \<le> k \<and> k \<le> 12 \<and> (k = 4 \<or> 2 ^ (k - 1) < unat sz) \<and>
    (k = 12 \<or> unat sz \<le> 2 ^ k)"
  unfolding get_min_cache_order_def CACHE_START_ORDER_def by (rule min_cache_order_loop_least) auto

lemma get_min_cache_order_small:
  assumes "unat sz \<le> 1024"
  shows "get_cache (get_min_cache_order sz) = Inr (get_min_cache_order sz - 4)" "get_min_cache_order sz - 4 < 7"
    "unat sz \<le> 2 ^ (get_min_cache_order sz - 4 + 4)" "\<not> get_min_cache_order sz > CACHE_END_ORDER"
proof -
  define k where "k = get_min_cache_order sz"
  have k: "4 \<le> k" "k = 4 \<or> 2 ^ (k - 1) < unat sz" "k = 12 \<or> unat sz \<le> 2 ^ k"
    using get_min_cache_order_spec [of sz] by (simp_all add: k_def Let_def)
  have "k \<le> 10"
  proof (rule ccontr)
    assume "\<not> k \<le> 10"
    then have "(2 :: nat) ^ 10 \<le> 2 ^ (k - 1)"
      by (intro power_increasing) auto
    with k(2) assms \<open>\<not> k \<le> 10\<close> show False
      by auto
  qed
  with k show "get_cache (get_min_cache_order sz) = Inr (get_min_cache_order sz - 4)" "get_min_cache_order sz - 4 < 7"
    "unat sz \<le> 2 ^ (get_min_cache_order sz - 4 + 4)" "\<not> get_min_cache_order sz > CACHE_END_ORDER"
    by (auto simp: k_def [symmetric] get_cache_def CACHE_START_ORDER_def NUM_CACHES_def CACHE_END_ORDER_def)
qed

section \<open>Where the pages come from\<close>

definition page_range :: "u64 \<Rightarrow> nat \<Rightarrow> nat set" where
  "page_range mem n = {unat mem ..< unat mem + 4096 * n}"

definition supplies :: "'w page_alloc \<Rightarrow> 'w page_free \<Rightarrow> ('w \<Rightarrow> nat set) \<Rightarrow> bool" where
  "supplies ap fp used \<longleftrightarrow>
     (\<forall>n w. \<exists>mem w'. ap n SLAB_PAGE_FLAGS w = Inr (mem, w') \<and>
        (if mem = 0 then used w' = used w
         else 16 dvd unat mem \<and> unat mem + 4096 * unat n < 2 ^ 64 \<and> page_range mem (unat n) \<inter> used w = {} \<and>
           used w' = used w \<union> page_range mem (unat n))) \<and>
     (\<forall>mem n w. page_range mem (unat n) \<subseteq> used w \<longrightarrow>
        (\<exists>w'. fp mem n w = Inr w' \<and> used w' = used w - page_range mem (unat n)))"

definition footprint :: "'w slab_state \<Rightarrow> slab_lists \<Rightarrow> slab_lists \<Rightarrow> nat set" where
  "footprint s P F = (\<Union>c \<in> {..<7}. \<Union>p \<in> slabs_of P F c. bytes_of s c p)"

definition pages_ok :: "('w \<Rightarrow> nat set) \<Rightarrow> 'w slab_state \<Rightarrow> slab_lists \<Rightarrow> slab_lists \<Rightarrow> nat set \<Rightarrow> bool" where
  "pages_ok used s P F others \<longleftrightarrow> used (world s) = footprint s P F \<union> others \<and> footprint s P F \<inter> others = {}"

lemma footprint_cong:
  "(\<And>d. d < 7 \<Longrightarrow> slabs_of P' F' d = slabs_of P F d) \<Longrightarrow>
   (\<And>d q. d < 7 \<Longrightarrow> q \<in> slabs_of P F d \<Longrightarrow> bytes_of s' d q = bytes_of s d q) \<Longrightarrow> footprint s' P' F' = footprint s P F"
  unfolding footprint_def by (intro SUP_cong) auto

lemma bytes_of_footprint: "d < 7 \<Longrightarrow> q \<in> slabs_of P F d \<Longrightarrow> bytes_of s d q \<subseteq> footprint s P F"
  by (auto simp: footprint_def)

lemma same_slabs_footprint: "same_slabs s P F s' P' F' \<Longrightarrow> footprint s' P' F' = footprint s P F"
  by (rule footprint_cong) (auto simp: same_slabs_def)

lemma same_slabs_pages:
  "same_slabs s P F s' P' F' \<Longrightarrow> pages_ok used s P F others \<Longrightarrow> pages_ok used s' P' F' others"
  using same_slabs_footprint [of s P F s' P' F'] by (simp add: pages_ok_def same_slabs_def)

section \<open>The slab to allocate from\<close>

lemma cfg_in_page: "cfg_ok c C \<Longrightarrow> c < 7 \<Longrightarrow> in_page C \<longleftrightarrow> c < 5"
proof -
  assume "cfg_ok c C" "c < 7"
  then have "in_page C \<longleftrightarrow> (2 :: nat) ^ (c + 4) < 2 ^ 9"
    by (simp add: in_page_def cfg_ok_def OFF_SLAB_THRESHOLD_def PAGE_SIZE_def word_less_nat_alt unat_div)
  also have "\<dots> \<longleftrightarrow> c < 5"
    by (subst power_strict_increasing_iff) auto
  finally show ?thesis .
qed

lemma slabs_inv_in_page: "slabs_inv s P F fr \<Longrightarrow> c < 7 \<Longrightarrow> in_page (size_caches s c) \<longleftrightarrow> c < 5"
  using cfg_in_page slabs_invD(1) by blast

lemma part_head:
  assumes "slabs_inv s P F fr" "c < 7" "cache_part (size_caches s c) \<noteq> 0"
  obtains ps where "P c = cache_part (size_caches s c) # ps"
  using slabs_invD(2) [OF assms(1,2)] assms(3) by (auto simp: lists_ok_def dl_nonNULL)

lemma slabs_inv_world: "slabs_inv (s\<lparr>world := w\<rparr>) P F fr = slabs_inv s P F fr"
  by (simp add: slabs_inv_def lists_ok_def wf_at_def apart_def headers_ok_def bytes_of_def objs_def)

lemma objs_world [simp]: "objs (s\<lparr>world := w\<rparr>) P F fr c = objs s P F fr c"
  by (simp add: objs_def)

lemma bytes_world [simp]: "bytes_of (s\<lparr>world := w\<rparr>) c p = bytes_of s c p"
  by (simp add: bytes_of_def)

lemma footprint_world [simp]: "footprint (s\<lparr>world := w\<rparr>) P F = footprint s P F"
  by (simp add: footprint_def)

lemma slab_record_eq:
  "slab_prev_update (\<lambda>_. b) (slab_next_update (\<lambda>_. a) (slab_allocated_update (\<lambda>_. d) (slab_next_free_update (\<lambda>_. e) (slab_mem_update f sl)))) =
     \<lparr>slab_next = a, slab_prev = b, slab_mem = f (slab_mem sl), slab_allocated = d, slab_next_free = e\<rparr>"
  by (cases sl) simp

lemma new_slab_run:
  assumes "ap (ucast (cache_pages (size_caches s c))) SLAB_PAGE_FLAGS (world s) = Inr (mem, w)"
  shows "mem = 0 \<Longrightarrow> new_slab ap fp rec c s = Inr (0, s\<lparr>world := w\<rparr>)"
    and "mem \<noteq> 0 \<Longrightarrow> in_page (size_caches s c) \<Longrightarrow> new_slab ap fp rec c s =
      Inr (mem, new_slab_at mem (mem + sizeof_Slab) c (s\<lparr>world := w\<rparr>))"
    and "mem \<noteq> 0 \<Longrightarrow> \<not> in_page (size_caches s c) \<Longrightarrow> rec sizeof_Slab (s\<lparr>world := w\<rparr>) = Inr (slab, s1) \<Longrightarrow> slab \<noteq> 0 \<Longrightarrow>
      new_slab ap fp rec c s = Inr (slab, new_slab_at slab mem c s1)"
    and "mem \<noteq> 0 \<Longrightarrow> \<not> in_page (size_caches s c) \<Longrightarrow> rec sizeof_Slab (s\<lparr>world := w\<rparr>) = Inr (0, s1) \<Longrightarrow>
      fp mem (ucast (cache_pages (size_caches s c))) (world s1) = Inr w' \<Longrightarrow>
      new_slab ap fp rec c s = Inr (0, s1\<lparr>world := w'\<rparr>)"
proof -
  note [simp] = new_slab_def Let_def assms load_slab_def update_slab_def update_cache_def in_page_def new_slab_at_def set_prev_def
  show "mem = 0 \<Longrightarrow> new_slab ap fp rec c s = Inr (0, s\<lparr>world := w\<rparr>)"
    by simp
  show "mem \<noteq> 0 \<Longrightarrow> in_page (size_caches s c) \<Longrightarrow> new_slab ap fp rec c s =
      Inr (mem, new_slab_at mem (mem + sizeof_Slab) c (s\<lparr>world := w\<rparr>))"
    by (simp add: slab_record_eq)
  show "mem \<noteq> 0 \<Longrightarrow> \<not> in_page (size_caches s c) \<Longrightarrow> rec sizeof_Slab (s\<lparr>world := w\<rparr>) = Inr (slab, s1) \<Longrightarrow> slab \<noteq> 0 \<Longrightarrow>
      new_slab ap fp rec c s = Inr (slab, new_slab_at slab mem c s1)"
    by (simp add: slab_record_eq)
  show "mem \<noteq> 0 \<Longrightarrow> \<not> in_page (size_caches s c) \<Longrightarrow> rec sizeof_Slab (s\<lparr>world := w\<rparr>) = Inr (0, s1) \<Longrightarrow>
      fp mem (ucast (cache_pages (size_caches s c))) (world s1) = Inr w' \<Longrightarrow>
      new_slab ap fp rec c s = Inr (0, s1\<lparr>world := w'\<rparr>)"
    by simp
qed


section \<open>kalloc\<close>

text \<open>What a call for cache \<open>c\<close> that returns \<open>r\<close> does to the caches.\<close>

definition grown ::
    "('w \<Rightarrow> nat set) \<Rightarrow> nat set \<Rightarrow> 'w slab_state \<Rightarrow> slab_lists \<Rightarrow> slab_lists \<Rightarrow> (u64 \<Rightarrow> nat list) \<Rightarrow> nat \<Rightarrow> u64 \<Rightarrow>
     'w slab_state \<Rightarrow> slab_lists \<Rightarrow> slab_lists \<Rightarrow> (u64 \<Rightarrow> nat list) \<Rightarrow> bool" where
  "grown used others s P F fr c r s' P' F' fr' \<longleftrightarrow>
     slabs_inv s' P' F' fr' \<and> pages_ok used s' P' F' others \<and>
     (\<forall>d. cfg (size_caches s' d) = cfg (size_caches s d)) \<and>
     page_allocations s' = page_allocations s \<and> page_allocation_list s' = page_allocation_list s \<and>
     (\<forall>d < 7. d \<noteq> c \<longrightarrow> slabs_of P' F' d = slabs_of P F d \<and> objs s' P' F' fr' d = objs s P F fr d) \<and>
     (if r = 0 then slabs_of P' F' c = slabs_of P F c \<and> objs s' P' F' fr' c = objs s P F fr c
      else r \<notin> objs s P F fr c \<and> objs s' P' F' fr' c = insert r (objs s P F fr c))"

lemma supplies_alloc:
  assumes "supplies ap fp used"
  obtains mem w' where "ap n SLAB_PAGE_FLAGS w = Inr (mem, w')" "mem = 0 \<Longrightarrow> used w' = used w"
    "mem \<noteq> 0 \<Longrightarrow> 16 dvd unat mem \<and> unat mem + 4096 * unat n < 2 ^ 64 \<and> page_range mem (unat n) \<inter> used w = {} \<and>
      used w' = used w \<union> page_range mem (unat n)"
proof -
  from assms obtain mem w' where "ap n SLAB_PAGE_FLAGS w = Inr (mem, w')" and
    "if mem = 0 then used w' = used w else 16 dvd unat mem \<and> unat mem + 4096 * unat n < 2 ^ 64 \<and>
       page_range mem (unat n) \<inter> used w = {} \<and> used w' = used w \<union> page_range mem (unat n)"
    unfolding supplies_def by metis
  then show ?thesis
    using that by (cases "mem = 0") simp_all
qed

lemma supplies_free:
  assumes "supplies ap fp used" "page_range mem (unat n) \<subseteq> used w"
  obtains w' where "fp mem n w = Inr w'" "used w' = used w - page_range mem (unat n)"
  using assms unfolding supplies_def by metis

lemma object_nonzero:
  assumes "slabs_inv s P F fr" "c < 7" "p \<in> slabs_of P F c" "i < unat (cache_count (size_caches s c))"
  shows "object_at (size_caches s c) (slabs s p) i \<noteq> 0" "16 dvd unat (object_at (size_caches s c) (slabs s p) i)"
proof -
  note wf = slabs_inv_wf [OF assms(1-3)] and cfg = slabs_invD(1) [OF assms(1,2)]
  have u: "unat (object_at (size_caches s c) (slabs s p) i) = unat (slab_mem (slabs s p)) + i * 2 ^ (c + 4)"
    by (rule unat_object_at(1) [OF cfg wf assms(4)])
  have mem: "unat (slab_mem (slabs s p)) = slab_start (size_caches s c) (slabs s p) +
      unat (cache_free_arr_size (size_caches s c)) + header (size_caches s c)" "0 < unat (slab_mem (slabs s p))"
    using wf by (auto simp: slab_wf_def slab_start_def)
  show "object_at (size_caches s c) (slabs s p) i \<noteq> 0"
    using u mem(2) by (metis add_is_0 less_irrefl unsigned_0)
  show "16 dvd unat (object_at (size_caches s c) (slabs s p) i)"
    unfolding u mem(1) using wf cfg by (auto simp: slab_wf_def cfg_ok_def header_def power_add intro!: dvd_add)
qed

lemma take_grown:
  assumes "slabs_inv s P F fr" "c < 7" "P c = p # ps" "pages_ok used s P F others"
  shows "\<exists>r s' P' F' fr'. take_object c p s = Inr (r, s') \<and> r \<noteq> 0 \<and> grown used others s P F fr c r s' P' F' fr' \<and>
    (\<forall>d. slabs_of P' F' d = slabs_of P F d)"
proof -
  from take_object_ok [OF assms(1-3)] obtain f fs s' P' F' where t: "fr p = f # fs"
    "take_object c p s = Inr (object_at (size_caches s c) (slabs s p) f, s')" "slabs_inv s' P' F' (fr(p := fs))"
    "same_slabs s P F s' P' F'" "object_at (size_caches s c) (slabs s p) f \<notin> objs s P F fr c"
    "objs s' P' F' (fr(p := fs)) c = insert (object_at (size_caches s c) (slabs s p) f) (objs s P F fr c)"
    "\<forall>d < 7. d \<noteq> c \<longrightarrow> objs s' P' F' (fr(p := fs)) d = objs s P F fr d"
    by metis
  have p: "p \<in> slabs_of P F c"
    using assms(3) by (simp add: slabs_of_def)
  have "f < unat (cache_count (size_caches s c))"
    using slabs_inv_wf [OF assms(1,2) p] t(1) by (simp add: slab_wf_def)
  then have nz: "object_at (size_caches s c) (slabs s p) f \<noteq> 0"
    by (rule object_nonzero(1) [OF assms(1,2) p])
  have "grown used others s P F fr c (object_at (size_caches s c) (slabs s p) f) s' P' F' (fr(p := fs))"
    unfolding grown_def using t(3-7) nz same_slabs_pages [OF t(4) assms(4)] by (simp add: same_slabs_def)
  moreover have "\<forall>d. slabs_of P' F' d = slabs_of P F d"
    using t(4) by (simp add: same_slabs_def)
  ultimately show ?thesis
    using t(2) nz by blast
qed

text \<open>A new slab accounts for its pages.\<close>

lemma new_slab_footprint:
  assumes "\<forall>d < 7. x \<notin> slabs_of P F d" "c < 7" "P' = P(c := x # P c)"
    and "bytes_of s' c x = page_range mem n" "\<And>q d. q \<noteq> x \<Longrightarrow> bytes_of s' d q = bytes_of s d q"
  shows "footprint s' P' F = footprint s P F \<union> page_range mem n"
proof -
  have of: "slabs_of P' F c = insert x (slabs_of P F c)" "d \<noteq> c \<Longrightarrow> slabs_of P' F d = slabs_of P F d" for d
    by (auto simp: assms(3) slabs_of_def)
  have eq: "(\<Union>p \<in> slabs_of P F d. bytes_of s' d p) = (\<Union>p \<in> slabs_of P F d. bytes_of s d p)" if "d < 7" for d
  proof (intro SUP_cong refl assms(5))
    fix q assume "q \<in> slabs_of P F d"
    with assms(1) that show "q \<noteq> x"
      by auto
  qed
  have "footprint s' P' F = (\<Union>d \<in> {..<7} - {c}. \<Union>p \<in> slabs_of P' F d. bytes_of s' d p) \<union> (\<Union>p \<in> slabs_of P' F c. bytes_of s' c p)"
    using assms(2) by (auto simp: footprint_def)
  also have "(\<Union>d \<in> {..<7} - {c}. \<Union>p \<in> slabs_of P' F d. bytes_of s' d p) = (\<Union>d \<in> {..<7} - {c}. \<Union>p \<in> slabs_of P F d. bytes_of s d p)"
    by (rule SUP_cong [OF refl]) (simp add: of(2) eq)
  also have "(\<Union>p \<in> slabs_of P' F c. bytes_of s' c p) = page_range mem n \<union> (\<Union>p \<in> slabs_of P F c. bytes_of s c p)"
    using of(1) eq [OF assms(2)] assms(4) by simp
  finally show ?thesis
    using assms(2) by (auto simp: footprint_def)
qed


lemma new_slab_take:
  assumes inv: "slabs_inv s P F fr" and c: "c < 7" and x: "x \<noteq> 0" "\<forall>d < 7. x \<notin> slabs_of P F d"
    and base: "unat base = unat mem + header (size_caches s c)"
    and addr: "in_page (size_caches s c) \<longrightarrow> x = mem" "\<not> in_page (size_caches s c) \<longrightarrow> x \<in> objs s P F fr 1"
    and n: "n = unat (cache_pages (size_caches s c))" and mem: "mem \<noteq> 0" "16 dvd unat mem" "unat mem + 4096 * n < 2 ^ 64"
    and pages: "pages_ok used s P F (others \<union> page_range mem n)" "others \<inter> page_range mem n = {}"
  shows "\<exists>r s' P' F' fr'. take_object c x (new_slab_at x base c s) = Inr (r, s') \<and> r \<noteq> 0 \<and>
    grown used others s P F fr c r s' P' F' fr' \<and> slabs_of P' F' c = insert x (slabs_of P F c)"
proof -
  have "footprint s P F \<inter> page_range mem n = {}"
    using pages(1) by (auto simp: pages_ok_def)
  then have fresh: "fresh_pages s P F mem (unat (cache_pages (size_caches s c)))"
    unfolding fresh_pages_def page_range_def n using mem bytes_of_footprint [of _ _ P F s] unfolding n by blast
  define s1 where "s1 = new_slab_at x base c s"
  define P1 where "P1 = P(c := x # P c)"
  define fr1 where "fr1 = fr(x := [0..<unat (cache_count (size_caches s c))])"
  note N = new_slab_at_ok [OF inv c x fresh base addr, folded s1_def P1_def fr1_def]
  have "footprint s1 P1 F = footprint s P F \<union> page_range mem n"
    using N(5) by (intro new_slab_footprint [OF x(2) c P1_def _ N(6)]) (simp add: page_range_def n)
  moreover have "world s1 = world s"
    by (simp add: s1_def new_slab_at_def Let_def)
  ultimately have pages1: "pages_ok used s1 P1 F others"
    using pages by (auto simp: pages_ok_def)
  have "P1 c = x # P c"
    by (simp add: P1_def)
  from take_grown [OF N(1) c this pages1] obtain r s' P' F' fr' where t: "take_object c x s1 = Inr (r, s')" "r \<noteq> 0"
    "grown used others s1 P1 F fr1 c r s' P' F' fr'" "\<forall>d. slabs_of P' F' d = slabs_of P1 F d"
    by blast
  have of: "slabs_of P1 F c = insert x (slabs_of P F c)" "d \<noteq> c \<Longrightarrow> slabs_of P1 F d = slabs_of P F d" for d
    by (auto simp: P1_def slabs_of_def)
  have "page_allocations s1 = page_allocations s" "page_allocation_list s1 = page_allocation_list s"
    by (simp_all add: s1_def new_slab_at_def Let_def)
  then have "grown used others s P F fr c r s' P' F' fr'"
    using t(2,3) N(2,3) of(2) c unfolding grown_def by simp
  then show ?thesis
    using t(1,2,4) of(1) unfolding s1_def by blast
qed

lemma kalloc_unfold:
  assumes "unat sz \<le> 1024" "c = get_min_cache_order sz - 4"
  shows "kalloc ap fp (Suc d) sz s =
    rbind (if cache_part (size_caches s c) \<noteq> 0 then Inr (cache_part (size_caches s c), s)
           else new_slab ap fp (kalloc ap fp d) c s) (\<lambda>(slab, s).
      if slab = 0 then Inr (0, s) else take_object c slab s)"
  unfolding assms(2) using get_min_cache_order_small [OF assms(1)] by (simp add: Let_def)

lemma grown_world:
  "grown used others (s\<lparr>world := w\<rparr>) P F fr c r s' P' F' fr' = grown used others s P F fr c r s' P' F' fr'"
  unfolding grown_def objs_world by simp

lemma grown_nothing:
  "slabs_inv s P F fr \<Longrightarrow> pages_ok used (s\<lparr>world := w\<rparr>) P F others \<Longrightarrow>
     grown used others s P F fr c 0 (s\<lparr>world := w\<rparr>) P F fr"
  by (simp add: grown_def slabs_inv_world)

text \<open>
  NULL is returned only when the supply refuses the pages of a slab, at once or after it has
  given the pages of one slab.
\<close>

definition refuses :: "'w page_alloc \<Rightarrow> 'w slab_state \<Rightarrow> 'w \<Rightarrow> bool" where
  "refuses ap s w \<longleftrightarrow> (\<exists>c < 7. \<exists>w'. ap (ucast (cache_pages (size_caches s c))) SLAB_PAGE_FLAGS w = Inr (0, w'))"

definition exhausted :: "'w page_alloc \<Rightarrow> 'w slab_state \<Rightarrow> bool" where
  "exhausted ap s \<longleftrightarrow> refuses ap s (world s) \<or>
     (\<exists>c < 7. \<exists>mem w. ap (ucast (cache_pages (size_caches s c))) SLAB_PAGE_FLAGS (world s) = Inr (mem, w) \<and> refuses ap s w)"

lemma refuses_world: "refuses ap (s\<lparr>world := w'\<rparr>) w = refuses ap s w"
  by (simp add: refuses_def)

lemma kalloc_in_page:
  assumes ap: "supplies ap fp used" and inv: "slabs_inv s P F fr" and pages: "pages_ok used s P F others"
    and sz: "unat sz \<le> 1024" "c = get_min_cache_order sz - 4" and simple: "cache_part (size_caches s c) \<noteq> 0 \<or> c < 5"
  shows "\<exists>r s' P' F' fr'. kalloc ap fp (Suc d) sz s = Inr (r, s') \<and> grown used others s P F fr c r s' P' F' fr' \<and>
    (r = 0 \<longrightarrow> refuses ap s (world s)) \<and> (\<forall>e < 7. e \<noteq> c \<or> cache_part (size_caches s c) \<noteq> 0 \<longrightarrow> slabs_of P' F' e = slabs_of P F e)"
proof -
  have c: "c < 7"
    using get_min_cache_order_small(2) [OF sz(1)] sz(2) by simp
  note unfold = kalloc_unfold [OF sz]
  show ?thesis
  proof (cases "cache_part (size_caches s c) \<noteq> 0")
    case True
    from part_head [OF inv c True] obtain ps where P: "P c = cache_part (size_caches s c) # ps" .
    from take_grown [OF inv c P pages] True show ?thesis
      unfolding unfold by simp blast
  next
    case False
    let ?n = "ucast (cache_pages (size_caches s c)) :: u64"
    have ip: "in_page (size_caches s c)"
      using simple False slabs_inv_in_page [OF inv c] by simp
    from supplies_alloc [OF ap, of ?n "world s"] obtain mem w where w:
      "ap ?n SLAB_PAGE_FLAGS (world s) = Inr (mem, w)" "mem = 0 \<Longrightarrow> used w = used (world s)"
      "mem \<noteq> 0 \<Longrightarrow> 16 dvd unat mem \<and> unat mem + 4096 * unat ?n < 2 ^ 64 \<and> page_range mem (unat ?n) \<inter> used (world s) = {} \<and>
        used w = used (world s) \<union> page_range mem (unat ?n)"
      by metis
    show ?thesis
    proof (cases "mem = 0")
      case True
      then have "kalloc ap fp (Suc d) sz s = Inr (0, s\<lparr>world := w\<rparr>)"
        unfolding unfold using False new_slab_run(1) [where s = s and c = c and ap = ap and mem = mem and w = w, OF w(1) True] by simp
      moreover have "pages_ok used (s\<lparr>world := w\<rparr>) P F others"
        using pages w(2) [OF True] by (simp add: pages_ok_def)
      moreover have "refuses ap s (world s)"
        using w(1) True c by (auto simp: refuses_def)
      ultimately show ?thesis
        using grown_nothing [OF inv] False by blast
    next
      case mem: False
      let ?s = "s\<lparr>world := w\<rparr>" and ?m = "unat (cache_pages (size_caches s c))"
      have w': "16 dvd unat mem" "unat mem + 4096 * ?m < 2 ^ 64" "page_range mem ?m \<inter> used (world s) = {}"
        "used w = used (world s) \<union> page_range mem ?m"
        using w(3) [OF mem] by simp_all
      have inv': "slabs_inv ?s P F fr"
        using inv by (simp add: slabs_inv_world)
      have pages': "pages_ok used ?s P F (others \<union> page_range mem ?m)" "others \<inter> page_range mem ?m = {}"
        using pages w'(3,4) by (auto simp: pages_ok_def)
      have pos: "0 < ?m"
        using slabs_invD(1) [OF inv c] by (cases ?m) (auto simp: cfg_ok_def)
      have "footprint s P F \<inter> page_range mem ?m = {}"
        using pages w'(3) by (auto simp: pages_ok_def)
      then have fresh: "fresh_pages s P F mem ?m"
        using mem w'(1,2) bytes_of_footprint [of _ _ P F s] unfolding fresh_pages_def page_range_def by blast
      have new: "\<forall>d < 7. mem \<notin> slabs_of P F d"
        using fresh_pages_not_slab [OF inv fresh pos] by blast
      have "unat (mem + sizeof_Slab) = unat mem + header (size_caches s c)"
        using ip w'(2) pos by (subst unat_add_u64) (auto simp: sizeof_Slab_def header_def)
      then obtain r s' P' F' fr' where t: "take_object c mem (new_slab_at mem (mem + sizeof_Slab) c ?s) = Inr (r, s')"
        "grown used others ?s P F fr c r s' P' F' fr'" "r \<noteq> 0"
        using new_slab_take [OF inv' c mem new, where base = "mem + sizeof_Slab" and mem = mem and n = ?m and used = used and others = others] w' pages' mem ip
        by auto
      have "kalloc ap fp (Suc d) sz s = Inr (r, s')"
        unfolding unfold using False mem new_slab_run(2) [where s = s and c = c and ap = ap and mem = mem and w = w, OF w(1) mem ip] t(1) by simp
      moreover have "grown used others s P F fr c r s' P' F' fr'"
        using t(2) by (simp only: grown_world)
      moreover have "\<forall>e < 7. e \<noteq> c \<longrightarrow> slabs_of P' F' e = slabs_of P F e"
        using t(2) by (simp add: grown_def)
      ultimately show ?thesis
        using False t(3) by blast
    qed
  qed
qed


section \<open>The objects of the clients\<close>

definition slab_headers :: "'w slab_state \<Rightarrow> slab_lists \<Rightarrow> slab_lists \<Rightarrow> u64 set" where
  "slab_headers s P F = (\<Union>d \<in> {5, 6}. slabs_of P F d)"

definition client :: "'w slab_state \<Rightarrow> slab_lists \<Rightarrow> slab_lists \<Rightarrow> (u64 \<Rightarrow> nat list) \<Rightarrow> (nat \<times> u64) set" where
  "client s P F fr = {(c, x). c < 7 \<and> x \<in> objs s P F fr c} - {1} \<times> slab_headers s P F"

lemma headers_subset: "slabs_inv s P F fr \<Longrightarrow> slab_headers s P F \<subseteq> objs s P F fr 1"
  using slabs_invD(5) [of s P F fr] slabs_inv_in_page [of s P F fr 5] slabs_inv_in_page [of s P F fr 6]
  unfolding slab_headers_def headers_ok_def by auto

lemma client_apart:
  assumes "slabs_inv s P F fr" "(c, x) \<in> client s P F fr" "(d, y) \<in> client s P F fr" "(c, x) \<noteq> (d, y)"
  shows "object_bytes c x \<inter> object_bytes d y = {}"
  using assms by (intro objs_apart [OF assms(1)]) (auto simp: client_def)

lemma client_grown:
  assumes "slabs_inv s P F fr" "grown used others s P F fr c r s' P' F' fr'" "c < 7"
    and "slab_headers s' P' F' = slab_headers s P F"
  shows "client s' P' F' fr' = (if r = 0 then client s P F fr else insert (c, r) (client s P F fr))"
    and "r \<noteq> 0 \<Longrightarrow> (c, r) \<notin> client s P F fr"
proof -
  have g: "\<forall>d < 7. d \<noteq> c \<longrightarrow> objs s' P' F' fr' d = objs s P F fr d"
    "r = 0 \<longrightarrow> objs s' P' F' fr' c = objs s P F fr c"
    "r \<noteq> 0 \<longrightarrow> r \<notin> objs s P F fr c \<and> objs s' P' F' fr' c = insert r (objs s P F fr c)"
    using assms(2) by (auto simp: grown_def)
  have at: "d < 7 \<Longrightarrow> x \<in> objs s' P' F' fr' d \<longleftrightarrow> x \<in> objs s P F fr d \<or> r \<noteq> 0 \<and> d = c \<and> x = r" for d x
    using g by (cases "d = c") auto
  have "(c, r) \<notin> {1} \<times> slab_headers s P F" if "r \<noteq> 0"
    using g(3) that headers_subset [OF assms(1)] by auto
  with at assms(3) show "client s' P' F' fr' = (if r = 0 then client s P F fr else insert (c, r) (client s P F fr))"
    by (auto simp: client_def assms(4))
  show "r \<noteq> 0 \<Longrightarrow> (c, r) \<notin> client s P F fr"
    using g(3) by (auto simp: client_def)
qed

lemma object_not_in_page_slab:
  assumes inv: "slabs_inv s P F fr" and x: "x \<in> objs s P F fr 1" and d: "d < 5"
  shows "x \<notin> slabs_of P F d"
proof
  assume q: "x \<in> slabs_of P F d"
  have d7: "d < 7" and ip: "in_page (size_caches s d)" "in_page (size_caches s 1)"
    using d slabs_inv_in_page [OF inv, of d] slabs_inv_in_page [OF inv, of 1] by simp_all
  from object_in_slab [OF inv _ x] obtain r where r: "r \<in> slabs_of P F 1" "unat x \<in> bytes_of s 1 r"
    "slab_start (size_caches s 1) (slabs s r) + 32 \<le> unat x"
    using ip(2) by (auto simp: header_def)
  note st = in_page_start [OF inv d7 q ip(1)]
  show False
  proof (cases "(d, x) = (1, r)")
    case True
    with st(1) r(3) show False
      by simp
  next
    case False
    from apartD [OF slabs_invD(4) [OF inv] d7 _ q r(1) False] st(2) r(2) show False
      by auto
  qed
qed

lemma order_sizeof_Slab: "get_min_cache_order sizeof_Slab = 5" "unat sizeof_Slab \<le> 1024"
proof -
  have "let k = get_min_cache_order sizeof_Slab in 4 \<le> k \<and> k \<le> 12 \<and> (k = 4 \<or> 2 ^ (k - 1) < unat sizeof_Slab) \<and>
      (k = 12 \<or> unat sizeof_Slab \<le> 2 ^ k)"
    by (rule get_min_cache_order_spec)
  then obtain k where k: "get_min_cache_order sizeof_Slab = k" "4 \<le> k" "k = 4 \<or> 2 ^ (k - 1) < (32 :: nat)"
      "k = 12 \<or> (32 :: nat) \<le> 2 ^ k"
    by (auto simp: Let_def sizeof_Slab_def)
  have "k \<noteq> 4"
    using k(4) by auto
  moreover have "k < 6"
  proof (rule ccontr)
    assume "\<not> k < 6"
    then have "(2 :: nat) ^ 5 \<le> 2 ^ (k - 1)"
      by (intro power_increasing) auto
    with k(3) \<open>k \<noteq> 4\<close> show False
      by simp
  qed
  ultimately show "get_min_cache_order sizeof_Slab = 5"
    using k(1,2) by simp
  show "unat sizeof_Slab \<le> 1024"
    by (simp add: sizeof_Slab_def)
qed


definition client_grown ::
    "('w \<Rightarrow> nat set) \<Rightarrow> nat set \<Rightarrow> 'w slab_state \<Rightarrow> slab_lists \<Rightarrow> slab_lists \<Rightarrow> (u64 \<Rightarrow> nat list) \<Rightarrow> nat \<Rightarrow> u64 \<Rightarrow>
     'w slab_state \<Rightarrow> slab_lists \<Rightarrow> slab_lists \<Rightarrow> (u64 \<Rightarrow> nat list) \<Rightarrow> bool" where
  "client_grown used others s P F fr c r s' P' F' fr' \<longleftrightarrow>
     slabs_inv s' P' F' fr' \<and> pages_ok used s' P' F' others \<and>
     page_allocations s' = page_allocations s \<and> page_allocation_list s' = page_allocation_list s \<and>
     client s' P' F' fr' = (if r = 0 then client s P F fr else insert (c, r) (client s P F fr)) \<and>
     (r \<noteq> 0 \<longrightarrow> (c, r) \<notin> client s P F fr)"

lemma kalloc_off_page:
  assumes ap: "supplies ap fp used" and inv: "slabs_inv s P F fr" and pages: "pages_ok used s P F others"
    and sz: "unat sz \<le> 1024" "c = get_min_cache_order sz - 4" and off: "cache_part (size_caches s c) = 0" "5 \<le> c"
  shows "\<exists>r s' P' F' fr'. kalloc ap fp (Suc (Suc d)) sz s = Inr (r, s') \<and>
    client_grown used others s P F fr c r s' P' F' fr' \<and> (r = 0 \<longrightarrow> exhausted ap s)"
proof -
  have c: "c < 7"
    using get_min_cache_order_small(2) [OF sz(1)] sz(2) by simp
  note unfold = kalloc_unfold [OF sz]
  let ?n = "ucast (cache_pages (size_caches s c)) :: u64" and ?m = "unat (cache_pages (size_caches s c))"
  have ip: "\<not> in_page (size_caches s c)"
    using off slabs_inv_in_page [OF inv c] by simp
  from supplies_alloc [OF ap, of ?n "world s"] obtain mem w where w:
    "ap ?n SLAB_PAGE_FLAGS (world s) = Inr (mem, w)" "mem = 0 \<Longrightarrow> used w = used (world s)"
    "mem \<noteq> 0 \<Longrightarrow> 16 dvd unat mem \<and> unat mem + 4096 * unat ?n < 2 ^ 64 \<and> page_range mem (unat ?n) \<inter> used (world s) = {} \<and>
      used w = used (world s) \<union> page_range mem (unat ?n)"
    by metis
  note run = new_slab_run [where s = s and c = c and ap = ap and mem = mem and w = w and fp = fp and rec = "kalloc ap fp (Suc d)", OF w(1)]
  show ?thesis
  proof (cases "mem = 0")
    case True
    have "kalloc ap fp (Suc (Suc d)) sz s = Inr (0, s\<lparr>world := w\<rparr>)"
      unfolding unfold using off run(1) [OF True] by simp
    moreover have "client_grown used others s P F fr c 0 (s\<lparr>world := w\<rparr>) P F fr"
      using pages w(2) [OF True] inv by (simp add: client_grown_def pages_ok_def slabs_inv_world client_def slab_headers_def)
    moreover have "exhausted ap s"
      using w(1) True c by (auto simp: exhausted_def refuses_def)
    ultimately show ?thesis
      by blast
  next
    case mem: False
    let ?s = "s\<lparr>world := w\<rparr>" and ?others = "others \<union> page_range mem ?m"
    have w': "16 dvd unat mem" "unat mem + 4096 * ?m < 2 ^ 64" "page_range mem ?m \<inter> used (world s) = {}"
      "used w = used (world s) \<union> page_range mem ?m"
      using w(3) [OF mem] by simp_all
    have inv': "slabs_inv ?s P F fr"
      using inv by (simp add: slabs_inv_world)
    have pages': "pages_ok used ?s P F ?others" "others \<inter> page_range mem ?m = {}"
      using pages w'(3,4) by (auto simp: pages_ok_def)
    have "1 = get_min_cache_order sizeof_Slab - 4"
      by (simp add: order_sizeof_Slab(1))
    from kalloc_in_page [OF ap inv' pages'(1) order_sizeof_Slab(2) this, of d] obtain slab s2 P2 F2 fr2 where
      k: "kalloc ap fp (Suc d) sizeof_Slab ?s = Inr (slab, s2)" and g: "grown used ?others ?s P F fr 1 slab s2 P2 F2 fr2"
      and ex: "slab = 0 \<longrightarrow> refuses ap ?s w"
      by auto
    have g': "grown used ?others s P F fr 1 slab s2 P2 F2 fr2"
      using g by (simp only: grown_world)
    have inv2: "slabs_inv s2 P2 F2 fr2" and pages2: "pages_ok used s2 P2 F2 ?others"
      and cfg2: "\<And>d. cfg (size_caches s2 d) = cfg (size_caches s d)"
      and rest2: "page_allocations s2 = page_allocations s" "page_allocation_list s2 = page_allocation_list s"
      and of2: "\<And>d. d < 7 \<Longrightarrow> d \<noteq> 1 \<Longrightarrow> slabs_of P2 F2 d = slabs_of P F d"
      using g' by (simp_all add: grown_def)
    have hd2: "slab_headers s2 P2 F2 = slab_headers s P F"
      using of2 [of 5] of2 [of 6] by (simp add: slab_headers_def)
    have cl2: "client s2 P2 F2 fr2 = (if slab = 0 then client s P F fr else insert (1, slab) (client s P F fr))"
      by (rule client_grown(1) [OF inv g' _ hd2]) simp
    have n2: "?m = unat (cache_pages (size_caches s2 c))" "header (size_caches s2 c) = 0" "\<not> in_page (size_caches s2 c)"
      using cfg2 [of c] cfg_cong(3) [OF cfg2 [of c]] ip by (simp_all add: cfg_def header_def)
    show ?thesis
    proof (cases "slab = 0")
      case True
      have "page_range mem (unat ?n) \<subseteq> used (world s2)"
        using pages2 by (auto simp: pages_ok_def)
      from supplies_free [OF ap this] obtain w2 where w2: "fp mem ?n (world s2) = Inr w2"
        "used w2 = used (world s2) - page_range mem ?m"
        by auto
      have "kalloc ap fp (Suc (Suc d)) sz s = Inr (0, s2\<lparr>world := w2\<rparr>)"
        unfolding unfold using off run(4) [where ?s1.0 = s2 and w' = w2, OF mem ip k [unfolded True] w2(1)] by simp
      moreover have "pages_ok used (s2\<lparr>world := w2\<rparr>) P2 F2 others"
        using pages2 pages'(2) w2(2) by (auto simp: pages_ok_def)
      then have "client_grown used others s P F fr c 0 (s2\<lparr>world := w2\<rparr>) P2 F2 fr2"
        using inv2 rest2 cl2 True by (simp add: client_grown_def slabs_inv_world client_def slab_headers_def)
      moreover have "exhausted ap s"
        using ex True w(1) c by (auto simp: exhausted_def refuses_world)
      ultimately show ?thesis
        by blast
    next
      case slab: False
      have sl: "slab \<notin> objs s P F fr 1" "objs s2 P2 F2 fr2 1 = insert slab (objs s P F fr 1)"
        using g' slab by (simp_all add: grown_def)
      have new: "\<forall>e < 7. slab \<notin> slabs_of P2 F2 e"
      proof (intro allI impI)
        fix e assume e: "e < (7 :: nat)"
        show "slab \<notin> slabs_of P2 F2 e"
        proof (cases "e < 5")
          case True
          then show ?thesis
            using object_not_in_page_slab [OF inv2] sl(2) by simp
        next
          case False
          with e have "e = 5 \<or> e = 6"
            by auto
          then have "slabs_of P2 F2 e \<subseteq> slab_headers s P F"
            using of2 [OF e] by (auto simp: slab_headers_def)
          with headers_subset [OF inv] sl(1) show ?thesis
            by auto
        qed
      qed
      have "unat mem = unat mem + header (size_caches s2 c)" "in_page (size_caches s2 c) \<longrightarrow> slab = mem"
        "\<not> in_page (size_caches s2 c) \<longrightarrow> slab \<in> objs s2 P2 F2 fr2 1"
        using n2 sl(2) by simp_all
      from new_slab_take [OF inv2 c slab new this n2(1) mem w'(1,2) pages2 pages'(2)] obtain r s' P' F' fr' where
        t: "take_object c slab (new_slab_at slab mem c s2) = Inr (r, s')" "r \<noteq> 0"
        "grown used others s2 P2 F2 fr2 c r s' P' F' fr'" "slabs_of P' F' c = insert slab (slabs_of P2 F2 c)"
        by blast
      have run3: "kalloc ap fp (Suc (Suc d)) sz s = Inr (r, s')"
        unfolding unfold using off slab run(3) [where ?s1.0 = s2 and slab = slab, OF mem ip k slab] t(1) by simp
      have inv3: "slabs_inv s' P' F' fr'" and pages3: "pages_ok used s' P' F' others"
        and rest3: "page_allocations s' = page_allocations s2" "page_allocation_list s' = page_allocation_list s2"
        and of3: "\<And>d. d < 7 \<Longrightarrow> d \<noteq> c \<Longrightarrow> slabs_of P' F' d = slabs_of P2 F2 d"
        and ob3: "\<And>d. d < 7 \<Longrightarrow> d \<noteq> c \<Longrightarrow> objs s' P' F' fr' d = objs s2 P2 F2 fr2 d"
          "r \<notin> objs s2 P2 F2 fr2 c" "objs s' P' F' fr' c = insert r (objs s2 P2 F2 fr2 c)"
        using t(2,3) by (simp_all add: grown_def)
      have ob2: "\<And>d. d < 7 \<Longrightarrow> d \<noteq> 1 \<Longrightarrow> objs s2 P2 F2 fr2 d = objs s P F fr d"
        using g' by (simp add: grown_def)
      have "c = 5 \<or> c = 6"
        using c off(2) by auto
      then have hd3: "slab_headers s' P' F' = insert slab (slab_headers s P F)"
        using of3 [of 5] of3 [of 6] t(4) hd2 [symmetric] by (auto simp: slab_headers_def)
      have at: "x \<in> objs s' P' F' fr' e \<longleftrightarrow> x \<in> objs s P F fr e \<or> e = c \<and> x = r \<or> e = 1 \<and> x = slab" if "e < 7" for e x
        using ob3 ob2 sl(2) off(2) that c by (cases "e = c"; cases "e = 1") auto
      have "client s' P' F' fr' = insert (c, r) (client s P F fr)"
        unfolding client_def hd3 using at c off(2) sl(1) by auto
      moreover have "(c, r) \<notin> client s P F fr"
        using ob3(2) ob2 [OF c] off(2) by (auto simp: client_def)
      ultimately have "client_grown used others s P F fr c r s' P' F' fr'"
        using inv3 pages3 rest3 rest2 t(2) by (simp add: client_grown_def)
      with run3 t(2) show ?thesis
        by blast
    qed
  qed
qed

theorem kalloc_ok:
  assumes ap: "supplies ap fp used" and inv: "slabs_inv s P F fr" and pages: "pages_ok used s P F others"
    and sz: "unat sz \<le> 1024" "c = get_min_cache_order sz - 4"
  shows "\<exists>r s' P' F' fr'. kalloc ap fp (Suc (Suc d)) sz s = Inr (r, s') \<and>
    client_grown used others s P F fr c r s' P' F' fr' \<and> (r = 0 \<longrightarrow> exhausted ap s)"
proof (cases "cache_part (size_caches s c) \<noteq> 0 \<or> c < 5")
  case False
  then show ?thesis
    by (intro kalloc_off_page [OF ap inv pages sz]) auto
next
  case True
  have c: "c < 7"
    using get_min_cache_order_small(2) [OF sz(1)] sz(2) by simp
  from kalloc_in_page [OF ap inv pages sz True, of "Suc d"] obtain r s' P' F' fr' where
    k: "kalloc ap fp (Suc (Suc d)) sz s = Inr (r, s')" and g: "grown used others s P F fr c r s' P' F' fr'"
    and ex: "r = 0 \<longrightarrow> refuses ap s (world s)" and of: "\<forall>e < 7. e \<noteq> c \<or> cache_part (size_caches s c) \<noteq> 0 \<longrightarrow> slabs_of P' F' e = slabs_of P F e"
    by blast
  have "slabs_of P' F' 5 = slabs_of P F 5" "slabs_of P' F' 6 = slabs_of P F 6"
    using of True by auto
  then have "slab_headers s' P' F' = slab_headers s P F"
    by (simp add: slab_headers_def)
  note cl = client_grown [OF inv g c this]
  have "client_grown used others s P F fr c r s' P' F' fr'"
    unfolding client_grown_def cl(1) using cl(2) g by (simp add: grown_def)
  with k ex show ?thesis
    by (auto simp: exhausted_def)
qed

end
