(* ===== verification/Slab_Return.thy ===== *)
theory Slab_Return
  imports Slab_Kalloc
begin

text \<open>
  The first half of \<open>kfree\<close>: an object goes back to its slab, a full slab becomes a partial one,
  and a slab whose objects are all free leaves its list.
\<close>

section \<open>Unlinking\<close>

lemma links_unlink_self:
  assumes "slab_next (h p) \<noteq> p" "slab_prev (h p) \<noteq> p"
  shows "unlink p h p = h p"
  using assms by (simp add: unlink_def set_prev_def Let_def)

lemma core_unlink [simp]: "core (unlink p h q) = core (h q)"
  by (simp add: unlink_def set_prev_def Let_def core_def)

lemma remove_slab_links_run:
  assumes "p \<noteq> 0" "slab_next (slabs s p) \<noteq> p" "slab_prev (slabs s p) \<noteq> p"
  shows "remove_slab_links p s = Inr (s\<lparr>slabs := unlink p (slabs s)\<rparr>)"
  using assms by (simp add: remove_slab_links_def load_slab_def update_slab_def unlink_def set_prev_def Let_def)

lemma dl_member_neighbours:
  assumes "dl h 0 b (xs @ p # ys)" "distinct (xs @ p # ys)"
  shows "p \<noteq> 0" "slab_next (h p) \<noteq> p" "slab_prev (h p) \<noteq> p"
    "slab_next (h p) = 0 \<or> slab_next (h p) \<in> set ys" "slab_prev (h p) = 0 \<or> slab_prev (h p) \<in> set xs"
    "b = p \<longleftrightarrow> xs = []"
proof -
  show p: "p \<noteq> 0"
    using dl_nonzero [OF assms(1)] by auto
  note nb = dl_neighbours [OF assms(1)]
  show "slab_next (h p) = 0 \<or> slab_next (h p) \<in> set ys" "slab_prev (h p) = 0 \<or> slab_prev (h p) \<in> set xs"
    using nb by (auto split: if_splits)
  then show "slab_next (h p) \<noteq> p" "slab_prev (h p) \<noteq> p"
    using assms(2) p by auto
  show "b = p \<longleftrightarrow> xs = []"
    using assms by (cases xs) auto
qed

lemma dl_unlinked:
  assumes "dl h 0 b (xs @ p # ys)" "distinct (xs @ p # ys)"
  shows "dl (unlink p h) 0 (if p = b then slab_next (h p) else b) (xs @ ys)"
    and "q \<notin> set (xs @ p # ys) \<Longrightarrow> unlink p h q = h q" and "unlink p h p = h p"
proof -
  note nb = dl_member_neighbours [OF assms]
  have "0 \<notin> set (xs @ p # ys)"
    using dl_nonzero [OF assms(1)] .
  from dl_unlink [OF assms this] show "dl (unlink p h) 0 (if p = b then slab_next (h p) else b) (xs @ ys)"
    using nb(6) by (simp add: eq_commute)
  show "unlink p h p = h p"
    using nb(2,3) by (rule links_unlink_self)
  show "unlink p h q = h q" if "q \<notin> set (xs @ p # ys)"
    using that nb(4,5) unfolding unlink_def set_prev_def Let_def by auto
qed

lemma remove_slab_from_part_run:
  assumes "dl (slabs s) 0 (cache_part (size_caches s c)) (xs @ p # ys)" "distinct (xs @ p # ys)"
  shows "remove_slab_from_part c p s = Inr (if p = cache_part (size_caches s c)
    then update_cache c (cache_part_update (\<lambda>_. slab_next (slabs s p))) (s\<lparr>slabs := unlink p (slabs s)\<rparr>)
    else s\<lparr>slabs := unlink p (slabs s)\<rparr>)"
  using remove_slab_links_run [OF dl_member_neighbours(1-3) [OF assms]] dl_unlinked(3) [OF assms]
    dl_member_neighbours(1) [OF assms] by (auto simp: remove_slab_from_part_def load_slab_def update_cache_def)

lemma remove_slab_from_full_run:
  assumes "dl (slabs s) 0 (cache_full (size_caches s c)) (xs @ p # ys)" "distinct (xs @ p # ys)"
  shows "remove_slab_from_full c p s = Inr (if p = cache_full (size_caches s c)
    then update_cache c (cache_full_update (\<lambda>_. slab_next (slabs s p))) (s\<lparr>slabs := unlink p (slabs s)\<rparr>)
    else s\<lparr>slabs := unlink p (slabs s)\<rparr>)"
  using remove_slab_links_run [OF dl_member_neighbours(1-3) [OF assms]] dl_unlinked(3) [OF assms]
    dl_member_neighbours(1) [OF assms] by (auto simp: remove_slab_from_full_def load_slab_def update_cache_def)

section \<open>The object in its slab\<close>

definition returned :: "nat \<Rightarrow> Slab \<Rightarrow> Slab" where
  "returned i sl = sl\<lparr>slab_next_free := of_nat i, slab_allocated := slab_allocated sl - 1\<rparr>"

lemma returned_simps [simp]:
  "links (returned i sl) = links sl" "slab_mem (returned i sl) = slab_mem sl" "slab_start C (returned i sl) = slab_start C sl"
  "slab_bytes C (returned i sl) = slab_bytes C sl" "FREE_ARRAY C (returned i sl) = FREE_ARRAY C sl"
  by (simp_all add: returned_def links_def slab_start_def slab_bytes_def FREE_ARRAY_def)

lemma object_index:
  assumes "cfg_ok c C" "slab_wf C m p sl fs" "i < unat (cache_count C)"
  shows "(object_at C sl i - slab_mem sl) mod ucast (cache_size C) = 0"
    and "ucast ((object_at C sl i - slab_mem sl) div ucast (cache_size C)) = (of_nat i :: u32)"
    and "ucast (of_nat i :: u32) = (of_nat i :: u64)"
proof -
  have u: "unat (object_at C sl i) = unat (slab_mem sl) + i * 2 ^ (c + 4)"
    by (rule unat_object_at(1) [OF assms])
  have sz: "unat (cache_size C) = 2 ^ (c + 4)"
    using assms(1) by (simp add: cfg_ok_def)
  have off: "unat (object_at C sl i - slab_mem sl) = i * 2 ^ (c + 4)"
    using u by (subst unat_sub_u64) (auto simp: word_le_nat_alt)
  then show "(object_at C sl i - slab_mem sl) mod ucast (cache_size C) = 0"
    by (simp add: word_unat_eq_iff unat_mod sz)
  have i: "i < 2 ^ 32"
    using assms(3) unat_u32_lt [of "cache_count C"] by simp
  have "unat ((object_at C sl i - slab_mem sl) div ucast (cache_size C)) = i"
    by (simp add: unat_div off sz)
  then have "(object_at C sl i - slab_mem sl) div ucast (cache_size C) = (of_nat i :: u64)"
    using i by (simp only: word_unat_eq_iff unat_of_nat) simp
  then show "ucast ((object_at C sl i - slab_mem sl) div ucast (cache_size C)) = (of_nat i :: u32)"
    using i by (simp add: word_unat_eq_iff unat_of_nat unsigned_ucast_eq take_bit_eq_mod)
  show "ucast (of_nat i :: u32) = (of_nat i :: u64)"
    using i by (simp add: word_unat_eq_iff unat_of_nat)
qed

lemma returned_wf:
  assumes "cfg_ok c C" "slab_wf C m p sl fs" "i < unat (cache_count C)" "i \<notin> set fs"
  shows "slab_wf C (m(FREE_ARRAY C sl + 4 * of_nat i := slab_next_free sl)) p (returned i sl) (i # fs)"
    and "unat (slab_allocated sl - 1) = unat (slab_allocated sl) - 1" "0 < unat (slab_allocated sl)"
    and "slab_allocated sl = cache_count C \<longleftrightarrow> fs = []"
proof -
  have al: "unat (slab_allocated sl) + length fs = unat (cache_count C)" "distinct fs" "set fs \<subseteq> {..<unat (cache_count C)}"
    using assms(2) by (auto simp: slab_wf_def)
  have "card (set fs) < card {..<unat (cache_count C)}"
    using al(3) assms(3,4) by (intro psubset_card_mono) auto
  then have lt: "length fs < unat (cache_count C)"
    using al(2) by (simp add: distinct_card)
  with al(1) show pos: "0 < unat (slab_allocated sl)"
    by simp
  then show dec: "unat (slab_allocated sl - 1) = unat (slab_allocated sl) - 1"
    by (intro unat_minus_one) auto
  show "slab_allocated sl = cache_count C \<longleftrightarrow> fs = []"
    unfolding word_unat_eq_iff using al(1) by (cases fs) auto
  let ?b = "FREE_ARRAY C sl"
  have "free_chain (m(?b + 4 * of_nat i := slab_next_free sl)) ?b (slab_next_free sl) fs =
      free_chain m ?b (slab_next_free sl) fs"
  proof (rule free_chain_cong)
    fix f assume f: "f \<in> set fs"
    then have "f < unat (cache_count C)" "f \<noteq> i"
      using al(3) assms(4) by auto
    then have "unat (?b + 4 * of_nat f) \<noteq> unat (?b + 4 * of_nat i)"
      using free_array_addr(1) [OF assms(1,2)] assms(3) by simp
    then show "(m(?b + 4 * of_nat i := slab_next_free sl)) (?b + 4 * of_nat f) = m (?b + 4 * of_nat f)"
      by auto
  qed
  moreover have "unat (of_nat i :: u32) = i"
    using assms(3) unat_u32_lt [of "cache_count C"] by (simp add: unat_of_nat)
  ultimately show "slab_wf C (m(?b + 4 * of_nat i := slab_next_free sl)) p (returned i sl) (i # fs)"
    using assms(2-4) dec pos al lt by (auto simp: slab_wf_def) (auto simp: returned_def)
qed

section \<open>The object goes back\<close>

definition put_back :: "'w slab_state \<Rightarrow> nat \<Rightarrow> u64 \<Rightarrow> nat \<Rightarrow> 'w slab_state" where
  "put_back s c p i =
     (let C = size_caches s c; sl = slabs s p;
          m = (free_arrays s)(FREE_ARRAY C sl + 4 * of_nat i := slab_next_free sl) in
      if slab_allocated sl = cache_count C then
        let h = unlink p ((slabs s)(p := sl\<lparr>slab_next_free := of_nat i\<rparr>));
            h = set_prev (cache_part C) p (h(p := (h p)\<lparr>slab_next := cache_part C, slab_prev := 0\<rparr>)) in
        s\<lparr>free_arrays := m, size_caches := (size_caches s)
            (c := (if p = cache_full C then C\<lparr>cache_full := slab_next sl\<rparr> else C)\<lparr>cache_part := p\<rparr>),
          slabs := h(p := (h p)\<lparr>slab_allocated := slab_allocated (h p) - 1\<rparr>)\<rparr>
      else s\<lparr>free_arrays := m, slabs := (slabs s)(p := returned i sl)\<rparr>)"

text \<open>The end of \<open>free_from_slab_list\<close>: an empty slab gives its pages back.\<close>

definition drop_empty ::
    "'w page_free \<Rightarrow> (u64 \<Rightarrow> 'w slab_state \<Rightarrow> 'w slab_state res) \<Rightarrow> nat \<Rightarrow> u64 \<Rightarrow> Cache \<Rightarrow> 'w slab_state \<Rightarrow> 'w slab_state res" where
  "drop_empty fp kfree_rec c p C s =
     (if slab_allocated (slabs s p) = 0 then
        rbind (remove_slab_from_part c p s) (\<lambda>s.
        if in_page C then
          rbind (fp p (ucast (cache_pages C)) (world s)) (\<lambda>w. Inr (s\<lparr>world := w\<rparr>))
        else
          let start = slab_mem (slabs s p) - ucast (cache_free_arr_size C) in
          rbind (fp start (ucast (cache_pages C)) (world s)) (\<lambda>w.
            kfree_rec p (s\<lparr>slabs := (slabs s)(p := (slabs s p)\<lparr>slab_mem := start\<rparr>), world := w\<rparr>)))
      else Inr s)"

lemma drop_empty_fold:
  assumes "p \<noteq> 0"
  shows "rbind (load_slab p s) (\<lambda>sl.
      if slab_allocated sl = 0 then
        rbind (remove_slab_from_part c p s) (\<lambda>s.
        if ucast (cache_size C) < OFF_SLAB_THRESHOLD then
          rbind (fp p (ucast (cache_pages C)) (world s)) (\<lambda>w. Inr (s\<lparr>world := w\<rparr>))
        else
          rbind (update_slab p (\<lambda>sl. sl\<lparr>slab_mem := slab_mem sl - ucast (cache_free_arr_size C)\<rparr>) s) (\<lambda>s.
          rbind (load_slab p s) (\<lambda>sl.
          rbind (fp (slab_mem sl) (ucast (cache_pages C)) (world s)) (\<lambda>w.
            kfree_rec p (s\<lparr>world := w\<rparr>)))))
      else Inr s) = drop_empty fp kfree_rec c p C s"
  using assms by (simp add: drop_empty_def in_page_def load_slab_def update_slab_def Let_def cong: if_cong)

lemma return_object_run:
  assumes cfg: "cfg_ok c (size_caches s c)" and wf: "slab_wf (size_caches s c) (free_arrays s) p (slabs s p) fs"
    and i: "i < unat (cache_count (size_caches s c))" and p: "p \<noteq> 0"
    and full: "fs = [] \<Longrightarrow> \<exists>xs ys. dl (slabs s) 0 (cache_full (size_caches s c)) (xs @ p # ys) \<and> distinct (xs @ p # ys)"
  shows "return_object fp kfree_rec (object_at (size_caches s c) (slabs s p) i) c p s =
    drop_empty fp kfree_rec c p (size_caches s c) (put_back s c p i)"
proof -
  let ?C = "size_caches s c" and ?sl = "slabs s p"
  note idx = object_index [OF cfg wf i]
  have empty: "slab_allocated ?sl = cache_count ?C \<longleftrightarrow> fs = []"
    using wf unfolding slab_wf_def word_unat_eq_iff by (cases fs) auto
  let ?h = "(slabs s)(p := ?sl\<lparr>slab_next_free := of_nat i\<rparr>)"
  let ?s1 = "s\<lparr>free_arrays := (free_arrays s)(FREE_ARRAY ?C ?sl + 4 * of_nat i := slab_next_free ?sl), slabs := ?h\<rparr>"
  have "return_object fp kfree_rec (object_at ?C ?sl i) c p s =
      rbind (if slab_allocated ?sl = cache_count ?C then
           rbind (remove_slab_from_full c p ?s1) (\<lambda>s.
           rbind (update_slab p (\<lambda>sl. sl\<lparr>slab_next := cache_part (size_caches s c), slab_prev := 0\<rparr>) s) (\<lambda>s.
             Inr (update_cache c (cache_part_update (\<lambda>_. p)) (s\<lparr>slabs := set_prev (cache_part (size_caches s c)) p (slabs s)\<rparr>))))
         else Inr ?s1) (\<lambda>s.
      rbind (update_slab p (\<lambda>sl. sl\<lparr>slab_allocated := slab_allocated sl - 1\<rparr>) s) (drop_empty fp kfree_rec c p ?C))"
    unfolding return_object_def Let_def drop_empty_fold [OF p]
    using idx p by (simp add: load_slab_def update_slab_def)
  also have "\<dots> = drop_empty fp kfree_rec c p ?C (put_back s c p i)"
  proof (cases "fs = []")
    case False
    then show ?thesis
      using empty p by (simp add: update_slab_def put_back_def returned_def Let_def)
  next
    case True
    from full [OF True] obtain xs ys where d: "dl (slabs s) 0 (cache_full ?C) (xs @ p # ys)" "distinct (xs @ p # ys)"
      by blast
    have "dl ?h 0 (cache_full ?C) (xs @ p # ys) = dl (slabs s) 0 (cache_full ?C) (xs @ p # ys)"
      by (rule dl_upd_core) (simp add: links_def)
    with d(1) have "dl (slabs ?s1) 0 (cache_full (size_caches ?s1 c)) (xs @ p # ys)"
      by simp
    note run = remove_slab_from_full_run [OF this d(2)]
    define H where "H = unlink p ?h"
    define M where "M = (free_arrays s)(FREE_ARRAY ?C ?sl + 4 * of_nat i := slab_next_free ?sl)"
    have nxt: "slab_next (slabs ?s1 p) = slab_next ?sl" "slabs ?s1 = ?h"
      by simp_all
    show ?thesis
      using True empty p unfolding run nxt put_back_def Let_def unfolding H_def [symmetric] M_def [symmetric]
      by (cases "p = cache_full ?C") (simp_all add: update_slab_def update_cache_def)
  qed
  finally show ?thesis .
qed


lemma put_back_core:
  assumes "dl (slabs s) 0 (cache_full (size_caches s c)) (xs @ p # ys) \<and> distinct (xs @ p # ys) \<or>
      slab_allocated (slabs s p) \<noteq> cache_count (size_caches s c)"
  shows "core (slabs (put_back s c p i) p) = core (returned i (slabs s p))"
    and "q \<noteq> p \<Longrightarrow> core (slabs (put_back s c p i) q) = core (slabs s q)"
    and "cfg (size_caches (put_back s c p i) d) = cfg (size_caches s d)"
    and "d \<noteq> c \<Longrightarrow> size_caches (put_back s c p i) d = size_caches s d"
    and "free_arrays (put_back s c p i) = (free_arrays s)
      (FREE_ARRAY (size_caches s c) (slabs s p) + 4 * of_nat i := slab_next_free (slabs s p))"
    and "world (put_back s c p i) = world s" "page_allocations (put_back s c p i) = page_allocations s"
    and "page_allocation_list (put_back s c p i) = page_allocation_list s"
proof -
  let ?sl = "slabs s p"
  have "unlink p ((slabs s)(p := ?sl\<lparr>slab_next_free := of_nat i\<rparr>)) p = ?sl\<lparr>slab_next_free := of_nat i\<rparr>"
    if "dl (slabs s) 0 (cache_full (size_caches s c)) (xs @ p # ys)" "distinct (xs @ p # ys)"
    using links_unlink_self [of "(slabs s)(p := ?sl\<lparr>slab_next_free := of_nat i\<rparr>)" p] dl_member_neighbours(2,3) [OF that] by simp
  moreover have "core (set_prev v p h p) = core (h p)" "slab_allocated (set_prev v p h p) = slab_allocated (h p)" for v h
    by (simp_all add: set_prev_def core_def)
  ultimately show "core (slabs (put_back s c p i) p) = core (returned i ?sl)"
    using assms by (auto simp: put_back_def Let_def) (auto simp: core_def returned_def set_prev_def)
  show "q \<noteq> p \<Longrightarrow> core (slabs (put_back s c p i) q) = core (slabs s q)"
    by (simp add: put_back_def Let_def)
  show "cfg (size_caches (put_back s c p i) d) = cfg (size_caches s d)"
    by (simp add: put_back_def Let_def cfg_def)
  show "d \<noteq> c \<Longrightarrow> size_caches (put_back s c p i) d = size_caches s d"
    by (simp add: put_back_def Let_def)
qed (simp_all add: put_back_def Let_def)

lemma put_back_lists:
  fixes i :: nat
  assumes lists: "lists_ok s P F fr c" and empty: "slab_allocated (slabs s p) = cache_count (size_caches s c) \<longleftrightarrow> fr p = []"
    and p: "p \<in> slabs_of P F c"
  defines "s' \<equiv> put_back s c p i" and "P' \<equiv> if fr p = [] then P(c := p # P c) else P"
    and "F' \<equiv> if fr p = [] then F(c := remove1 p (F c)) else F"
  shows "lists_ok s' P' F' (fr(p := i # fr p)) c"
    and "q \<noteq> p \<Longrightarrow> q \<notin> slabs_of P F c \<Longrightarrow> links (slabs s' q) = links (slabs s q)"
    and "slabs_of P' F' c = slabs_of P F c" "fr p = [] \<Longrightarrow> p \<in> set (F c)"
proof -
  let ?C = "size_caches s c" and ?h = "slabs s"
  have L: "dl ?h 0 (cache_part ?C) (P c)" "dl ?h 0 (cache_full ?C) (F c)" "distinct (P c @ F c)"
    "\<forall>q \<in> set (P c). fr q \<noteq> []" "\<forall>q \<in> set (F c). fr q = []"
    using lists by (simp_all add: lists_ok_def)
  show pF: "fr p = [] \<Longrightarrow> p \<in> set (F c)"
    using L(4) p by (auto simp: slabs_of_def)
  show "slabs_of P' F' c = slabs_of P F c"
    using L(3) pF by (auto simp: slabs_of_def P'_def F'_def)
  have "lists_ok s' P' F' (fr(p := i # fr p)) c \<and>
    (\<forall>q. q \<noteq> p \<longrightarrow> q \<notin> slabs_of P F c \<longrightarrow> links (slabs s' q) = links (slabs s q))"
  proof (cases "fr p = []")
    case False
    then have ne: "slab_allocated (slabs s p) \<noteq> cache_count ?C" "p \<notin> set (F c)"
      using empty L(5) by auto
    have "dl (?h(p := returned i (?h p))) 0 b zs = dl ?h 0 b zs" for b zs
      by (rule dl_upd_core) simp
    then show ?thesis
      using L ne False by (auto simp: lists_ok_def s'_def P'_def F'_def put_back_def Let_def)
  next
    case True
    from pF [OF True] obtain xs ys where F: "F c = xs @ p # ys"
      by (meson split_list)
    have dist: "distinct (xs @ p # ys)" "p \<notin> set (P c)" "set (xs @ ys) \<inter> set (P c) = {}"
      using L(3) F by auto
    have rem: "remove1 p (F c) = xs @ ys"
      using F dist(1) by (simp add: remove1_append)
    define h0 where "h0 = ?h(p := (?h p)\<lparr>slab_next_free := of_nat i\<rparr>)"
    define fu where "fu = (if p = cache_full ?C then slab_next (?h p) else cache_full ?C)"
    define h2 where "h2 = (unlink p h0)(p := (unlink p h0 p)\<lparr>slab_next := cache_part ?C, slab_prev := 0\<rparr>)"
    define h3 where "h3 = set_prev (cache_part ?C) p h2"
    have s': "slabs s' = h3(p := (h3 p)\<lparr>slab_allocated := slab_allocated (h3 p) - 1\<rparr>)"
      "cache_part (size_caches s' c) = p" "cache_full (size_caches s' c) = fu"
      using True empty by (simp_all add: s'_def put_back_def Let_def h3_def h2_def h0_def fu_def)
    have "dl h0 0 (cache_full ?C) (xs @ p # ys) = dl ?h 0 (cache_full ?C) (xs @ p # ys)"
      unfolding h0_def by (rule dl_upd_core) (simp add: links_def)
    then have d0: "dl h0 0 (cache_full ?C) (xs @ p # ys)"
      using L(2) F by simp
    note un = dl_unlinked [OF d0 dist(1)]
    have "slab_next (h0 p) = slab_next (?h p)"
      by (simp add: h0_def)
    then have fu1: "dl (unlink p h0) 0 fu (xs @ ys)"
      using un(1) unfolding fu_def by (simp only:)
    have "dl (unlink p h0) 0 (cache_part ?C) (P c) = dl ?h 0 (cache_part ?C) (P c)"
    proof (rule dl_cong)
      fix q assume "q \<in> set (P c)"
      then have "q \<notin> set (xs @ p # ys)" "q \<noteq> p"
        using dist(2,3) by auto
      then show "links (unlink p h0 q) = links (?h q)"
        using un(2) by (simp add: h0_def)
    qed
    then have "dl h2 0 (cache_part ?C) (P c)"
      using L(1) dist(2) by (simp add: h2_def)
    moreover have "p \<noteq> 0"
      using dl_nonzero [OF d0] by auto
    ultimately have "dl h3 0 p (p # P c)"
      unfolding h3_def using L(3) dist(2) by (intro dl_push) (auto simp: h2_def)
    moreover have "dl h3 0 fu (xs @ ys)"
    proof -
      have "cache_part ?C \<notin> set (xs @ ys)"
        using L(1) dl_first [of ?h 0 "cache_part ?C" "P c"] dl_nonzero [OF fu1] dist(3) by (cases "cache_part ?C = 0") auto
      then have "dl h3 0 fu (xs @ ys) = dl h2 0 fu (xs @ ys)"
        unfolding h3_def by (rule set_prev_outside)
      also have "\<dots> = dl (unlink p h0) 0 fu (xs @ ys)"
        unfolding h2_def using dist(1) by (intro dl_upd_outside) auto
      finally show ?thesis
        using fu1 by simp
    qed
    moreover have "dl (slabs s') 0 b zs = dl h3 0 b zs" for b zs
      unfolding s' by (rule dl_upd_core) (simp add: links_def)
    ultimately have "lists_ok s' P' F' (fr(p := i # fr p)) c"
      using L True rem dist F by (auto simp: lists_ok_def s'(2,3) P'_def F'_def simp del: dl.simps)
    moreover have "links (slabs s' q) = links (slabs s q)" if q: "q \<noteq> p" "q \<notin> slabs_of P F c" for q
    proof -
      have "q \<noteq> cache_part ?C \<or> cache_part ?C = 0"
        using q(2) L(1) dl_first [of ?h 0 "cache_part ?C" "P c"] by (auto simp: slabs_of_def)
      moreover have "unlink p h0 q = h0 q"
        using q F by (intro un(2)) (auto simp: slabs_of_def)
      ultimately show ?thesis
        using q(1) by (auto simp: s'(1) h3_def h2_def h0_def set_prev_def)
    qed
    ultimately show ?thesis
      by blast
  qed
  then show "lists_ok s' P' F' (fr(p := i # fr p)) c"
    "q \<noteq> p \<Longrightarrow> q \<notin> slabs_of P F c \<Longrightarrow> links (slabs s' q) = links (slabs s q)"
    by auto
qed


lemma objs_split:
  "p \<in> slabs_of P F c \<Longrightarrow> objs s P F fr c = slab_objects (size_caches s c) (slabs s p) (fr p) \<union>
     (\<Union>q \<in> slabs_of P F c - {p}. slab_objects (size_caches s c) (slabs s q) (fr q))"
  by (auto simp: objs_def)

lemma change_other_objects:
  assumes "slab_change s P F fr s' P' F' fr' c p" "slabs_of P' F' c - {p} = slabs_of P F c - {p}"
  shows "(\<Union>q \<in> slabs_of P' F' c - {p}. slab_objects (size_caches s' c) (slabs s' q) (fr' q)) =
    (\<Union>q \<in> slabs_of P F c - {p}. slab_objects (size_caches s c) (slabs s q) (fr q))"
  unfolding assms(2)
proof (rule SUP_cong [OF refl])
  fix q assume "q \<in> slabs_of P F c - {p}"
  then show "slab_objects (size_caches s' c) (slabs s' q) (fr' q) = slab_objects (size_caches s c) (slabs s q) (fr q)"
    by (intro change_slab_objects [OF assms(1)]) simp
qed

lemma object_only_here:
  assumes inv: "slabs_inv s P F fr" and c: "c < 7" and p: "p \<in> slabs_of P F c" and i: "i < unat (cache_count (size_caches s c))"
    and q: "q \<in> slabs_of P F c" "q \<noteq> p"
  shows "object_at (size_caches s c) (slabs s p) i \<notin> slab_objects (size_caches s c) (slabs s q) (fr q)"
proof
  assume "object_at (size_caches s c) (slabs s p) i \<in> slab_objects (size_caches s c) (slabs s q) (fr q)"
  then obtain j where j: "j < unat (cache_count (size_caches s c))"
    "object_at (size_caches s c) (slabs s p) i = object_at (size_caches s c) (slabs s q) j"
    by (auto simp: slab_objects_def)
  note wp = slabs_invD(1) [OF inv c] slabs_inv_wf [OF inv c p]
  note wq = slabs_invD(1) [OF inv c] slabs_inv_wf [OF inv c q(1)]
  have "object_bytes c (object_at (size_caches s c) (slabs s p) i) \<noteq> {}"
    by (simp add: object_bytes_def)
  then show False
    using apartD [OF slabs_invD(4) [OF inv] c c p q(1)] q(2) object_bytes_slab [OF wp i] object_bytes_slab [OF wq j(1)] j(2)
    by (auto simp: bytes_of_def)
qed

lemma put_back_ok:
  fixes i :: nat
  assumes inv: "slabs_inv s P F fr" and c: "c < 7" and p: "p \<in> slabs_of P F c"
    and i: "i < unat (cache_count (size_caches s c))" "i \<notin> set (fr p)"
    and nh: "(c, object_at (size_caches s c) (slabs s p) i) \<notin> {1} \<times> slab_headers s P F"
  defines "s' \<equiv> put_back s c p i" and "P' \<equiv> if fr p = [] then P(c := p # P c) else P"
    and "F' \<equiv> if fr p = [] then F(c := remove1 p (F c)) else F" and "fr' \<equiv> fr(p := i # fr p)"
    and "x \<equiv> object_at (size_caches s c) (slabs s p) i"
  shows "slabs_inv s' P' F' fr'" "same_slabs s P F s' P' F'" "objs s' P' F' fr' c = objs s P F fr c - {x}"
    "\<forall>d < 7. d \<noteq> c \<longrightarrow> objs s' P' F' fr' d = objs s P F fr d" "core (slabs s' p) = core (returned i (slabs s p))"
proof -
  let ?C = "size_caches s c"
  have cfg: "cfg_ok c ?C" and wf: "slab_wf ?C (free_arrays s) p (slabs s p) (fr p)" and L: "lists_ok s P F fr c"
    by (rule slabs_invD(1) [OF inv c], rule slabs_inv_wf [OF inv c p], rule slabs_invD(2) [OF inv c])
  note R = returned_wf [OF cfg wf i]
  note lists = put_back_lists(1,2) [OF L R(4) p, where i = i, folded s'_def P'_def F'_def]
    put_back_lists(3,4) [OF L R(4) p, folded P'_def F'_def]
  obtain xs ys where pre: "dl (slabs s) 0 (cache_full ?C) (xs @ p # ys) \<and> distinct (xs @ p # ys) \<or>
      slab_allocated (slabs s p) \<noteq> cache_count ?C"
  proof (cases "fr p = []")
    case True
    from lists(4) [OF this] obtain xs ys where "F c = xs @ p # ys"
      by (meson split_list)
    with L that show ?thesis
      by (auto simp: lists_ok_def simp del: dl.simps)
  next
    case False
    with that R(4) show ?thesis
      by simp
  qed
  note K = put_back_core [OF pre, where i = i, folded s'_def]
  show core: "core (slabs s' p) = core (returned i (slabs s p))"
    by (rule K(1))
  have of: "slabs_of P' F' d = slabs_of P F d" for d
    using lists(3) by (cases "d = c") (auto simp: slabs_of_def P'_def F'_def)
  have bytes: "bytes_of s' d q = bytes_of s d q" for d q
  proof (cases "q = p")
    case True
    have "bytes_of s' d p = slab_bytes (size_caches s d) (returned i (slabs s p))"
      unfolding bytes_of_def by (rule core_cong(2) [OF K(3) core])
    with True show ?thesis
      by (simp add: bytes_of_def)
  next
    case False
    then show ?thesis
      unfolding bytes_of_def by (intro core_cong(2) K(2,3))
  qed
  show same: "same_slabs s P F s' P' F'"
    using of bytes K(3,6-8) by (simp add: same_slabs_def)
  have wf': "wf_at s' fr' c p"
    unfolding wf_at_def core_cong(4) [OF K(3) core] K(5) using R(1) by (simp add: fr'_def)
  have foreign: "d < 7 \<Longrightarrow> d \<noteq> c \<Longrightarrow> p \<notin> slabs_of P F d" for d
    using apartD [OF slabs_invD(4) [OF inv] c _ p] by blast
  have disj: "d < 7 \<Longrightarrow> q \<in> slabs_of P F d \<Longrightarrow> q \<noteq> p \<Longrightarrow> bytes_of s c p \<inter> bytes_of s d q = {}" for d q
    using apartD [OF slabs_invD(4) [OF inv] c _ p, of d q] by auto
  have arrays: "free_arrays s' a = free_arrays s a"
    if "d < 7" "q \<in> slabs_of P F d" "q \<noteq> p" "unat a \<in> bytes_of s d q" for d q a
  proof -
    have "a \<noteq> FREE_ARRAY ?C (slabs s p) + 4 * of_nat i"
      using disj [OF that(1-3)] that(4) free_array_addr(2) [OF cfg wf i(1)] by (auto simp: bytes_of_def)
    then show ?thesis
      by (simp add: K(5))
  qed
  have change: "slab_change s P F fr s' P' F' fr' c p"
    unfolding slab_change_def
    using inv c lists(1,2) K(2-4) of foreign arrays wf' disj bytes p
    by (auto simp: P'_def F'_def fr'_def)
  have "slab_objects (size_caches s' c) (slabs s' p) (fr' p) = slab_objects ?C (returned i (slabs s p)) (i # fr p)"
    using slab_objects_cong [OF K(3) core] by (simp add: fr'_def)
  also have "\<dots> = slab_objects ?C (slabs s p) (fr p) - {x}"
  proof -
    have "slab_objects ?C (returned i (slabs s p)) (i # fr p) =
        object_at ?C (slabs s p) ` (({..<unat (cache_count ?C)} - set (fr p)) - {i})"
      by (simp add: slab_objects_def object_at_def set_diff_eq image_def) auto
    also have "\<dots> = slab_objects ?C (slabs s p) (fr p) - {x}"
      unfolding slab_objects_def x_def
      using i by (subst inj_on_image_set_diff [OF object_at_inj [OF cfg wf]]) auto
    finally show ?thesis .
  qed
  finally have mine: "slab_objects (size_caches s' c) (slabs s' p) (fr' p) = slab_objects ?C (slabs s p) (fr p) - {x}" .
  have "x \<notin> (\<Union>q \<in> slabs_of P F c - {p}. slab_objects ?C (slabs s q) (fr q))"
    using object_only_here [OF inv c p i(1)] by (auto simp: x_def)
  moreover have p': "p \<in> slabs_of P' F' c"
    using p of by simp
  ultimately show shrink: "objs s' P' F' fr' c = objs s P F fr c - {x}"
    unfolding objs_split [OF p'] objs_split [OF p] mine change_other_objects [OF change, unfolded of, OF refl] of by auto
  show other: "\<forall>d < 7. d \<noteq> c \<longrightarrow> objs s' P' F' fr' d = objs s P F fr d"
    using change_objs_other [OF change] by simp
  have "slab_headers s P F \<subseteq> objs s' P' F' fr' 1"
    using headers_subset [OF inv] shrink other nh by (cases "c = 1") (auto simp: x_def)
  moreover have "slabs_of P' F' d \<subseteq> slab_headers s P F" if "d < 7" "\<not> in_page (size_caches s' d)" for d
  proof -
    have "\<not> d < 5"
      using that cfg_cong(3) [OF K(3)] slabs_inv_in_page [OF inv that(1)] by simp
    then have "d = 5 \<or> d = 6"
      using that(1) by auto
    then show ?thesis
      using of by (auto simp: slab_headers_def)
  qed
  ultimately have "headers_ok s' P' F' fr'"
    unfolding headers_ok_def by blast
  then show "slabs_inv s' P' F' fr'"
    by (rule change_inv [OF change])
qed


section \<open>An empty slab goes\<close>

lemma drop_slab_ok:
  assumes inv: "slabs_inv s P F fr" and c: "c < 7" and p: "p \<in> set (P c)"
    and empty: "slab_objects (size_caches s c) (slabs s p) (fr p) = {}"
  shows "\<exists>s1 P'. remove_slab_from_part c p s = Inr s1 \<and> slabs s1 p = slabs s p \<and>
    (\<forall>d. cfg (size_caches s1 d) = cfg (size_caches s d)) \<and> world s1 = world s \<and>
    page_allocations s1 = page_allocations s \<and> page_allocation_list s1 = page_allocation_list s \<and>
    (\<forall>sl. let s2 = s1\<lparr>slabs := (slabs s1)(p := sl)\<rparr> in
      slabs_inv s2 P' F fr \<and> (\<forall>d < 7. objs s2 P' F fr d = objs s P F fr d) \<and>
      (\<forall>d. slabs_of P' F d = (if d = c then slabs_of P F d - {p} else slabs_of P F d)) \<and>
      (\<forall>q d. q \<noteq> p \<longrightarrow> bytes_of s2 d q = bytes_of s d q))"
proof -
  let ?C = "size_caches s c"
  have L: "dl (slabs s) 0 (cache_part ?C) (P c)" "dl (slabs s) 0 (cache_full ?C) (F c)" "distinct (P c @ F c)"
    "\<forall>q \<in> set (P c). fr q \<noteq> []" "\<forall>q \<in> set (F c). fr q = []"
    using slabs_invD(2) [OF inv c] by (simp_all add: lists_ok_def)
  have pS: "p \<in> slabs_of P F c"
    using p by (simp add: slabs_of_def)
  from p obtain xs ys where P: "P c = xs @ p # ys"
    by (meson split_list)
  have d0: "dl (slabs s) 0 (cache_part ?C) (xs @ p # ys)" and dist: "distinct (xs @ p # ys)"
    and disj: "set (xs @ p # ys) \<inter> set (F c) = {}"
    using L P by auto
  define P' where "P' = P(c := xs @ ys)"
  define s1 where "s1 = (if p = cache_part ?C
    then update_cache c (cache_part_update (\<lambda>_. slab_next (slabs s p))) (s\<lparr>slabs := unlink p (slabs s)\<rparr>)
    else s\<lparr>slabs := unlink p (slabs s)\<rparr>)"
  have run: "remove_slab_from_part c p s = Inr s1"
    unfolding s1_def by (rule remove_slab_from_part_run [OF d0 dist])
  note un = dl_unlinked [OF d0 dist]
  have s1: "slabs s1 = unlink p (slabs s)" "free_arrays s1 = free_arrays s" "world s1 = world s"
    "page_allocations s1 = page_allocations s" "page_allocation_list s1 = page_allocation_list s"
    "d \<noteq> c \<Longrightarrow> size_caches s1 d = size_caches s d" "cfg (size_caches s1 d) = cfg (size_caches s d)"
    "cache_part (size_caches s1 c) = (if p = cache_part ?C then slab_next (slabs s p) else cache_part ?C)"
    "cache_full (size_caches s1 c) = cache_full ?C" for d
    by (simp_all add: s1_def update_cache_def cfg_def)
  have foreign: "d < 7 \<Longrightarrow> d \<noteq> c \<Longrightarrow> p \<notin> slabs_of P F d" for d
    using apartD [OF slabs_invD(4) [OF inv] c _ pS] by blast
  have of: "slabs_of P' F c = slabs_of P F c - {p}" "d \<noteq> c \<Longrightarrow> slabs_of P' F d = slabs_of P F d" for d
    using dist disj P by (auto simp: slabs_of_def P'_def)
  have rest: "let s2 = s1\<lparr>slabs := (slabs s1)(p := sl)\<rparr> in
      slabs_inv s2 P' F fr \<and> (\<forall>d < 7. objs s2 P' F fr d = objs s P F fr d) \<and>
      (\<forall>d. slabs_of P' F d = (if d = c then slabs_of P F d - {p} else slabs_of P F d)) \<and>
      (\<forall>q d. q \<noteq> p \<longrightarrow> bytes_of s2 d q = bytes_of s d q)" for sl
  proof -
    define s2 where "s2 = s1\<lparr>slabs := (slabs s1)(p := sl)\<rparr>"
    have s2: "slabs s2 = (unlink p (slabs s))(p := sl)" "size_caches s2 = size_caches s1" "free_arrays s2 = free_arrays s"
      by (simp_all add: s2_def s1)
    have "dl (slabs s2) 0 b zs = dl (unlink p (slabs s)) 0 b zs" if "p \<notin> set zs" for b zs
      unfolding s2(1) using that by (rule dl_upd_outside)
    then have part: "dl (slabs s2) 0 (cache_part (size_caches s1 c)) (xs @ ys)"
      and full: "dl (slabs s2) 0 (cache_full ?C) (F c) = dl (unlink p (slabs s)) 0 (cache_full ?C) (F c)"
      using un(1) dist disj by (auto simp: s1(8))
    have "dl (unlink p (slabs s)) 0 (cache_full ?C) (F c) = dl (slabs s) 0 (cache_full ?C) (F c)"
    proof (rule dl_cong)
      fix q assume "q \<in> set (F c)"
      then have "q \<notin> set (xs @ p # ys)"
        using disj by auto
      from un(2) [OF this] show "links (unlink p (slabs s) q) = links (slabs s q)"
        by simp
    qed
    with part full L P have lists: "lists_ok s2 P' F fr c"
      by (auto simp: lists_ok_def P'_def s2(2) s1(9))
    have others: "links (slabs s2 q) = links (slabs s q)" if "q \<noteq> p" "q \<notin> slabs_of P F c" for q
      using that P by (simp add: s2(1) un(2) slabs_of_def)
    have cores: "q \<noteq> p \<Longrightarrow> core (slabs s2 q) = core (slabs s q)" for q
      by (simp add: s2(1))
    have change: "slab_change s P F fr s2 P' F fr c p"
      unfolding slab_change_def
      using inv c lists others cores foreign of s1(6,7) by (auto simp: s2(2,3) P'_def)
    have oc: "objs s2 P' F fr c = objs s P F fr c"
    proof -
      have "slabs_of P' F c - {p} = slabs_of P F c - {p}" "slabs_of P' F c = slabs_of P F c - {p}"
        using of(1) by auto
      then show ?thesis
        using objs_split [OF pS, of s fr] empty change_other_objects [OF change] by (simp add: objs_def)
    qed
    have objs: "objs s2 P' F fr d = objs s P F fr d" if "d < 7" for d
      using change_objs_other [OF change _ that] oc by (cases "d = c") auto
    have "headers_ok s2 P' F fr"
      unfolding headers_ok_def
    proof (intro allI impI)
      fix d assume d: "d < (7 :: nat)" "\<not> in_page (size_caches s2 d)"
      then have "slabs_of P F d \<subseteq> objs s P F fr 1"
        using slabs_invD(5) [OF inv] cfg_cong(3) [OF s1(7)] by (auto simp: headers_ok_def s2(2))
      then show "slabs_of P' F d \<subseteq> objs s2 P' F fr 1"
        using objs [of 1] of by (cases "d = c") auto
    qed
    then have "slabs_inv s2 P' F fr"
      by (rule change_inv [OF change])
    moreover have "\<forall>q d. q \<noteq> p \<longrightarrow> bytes_of s2 d q = bytes_of s d q"
      using change_same_bytes [OF change] by blast
    ultimately show ?thesis
      using objs of unfolding s2_def [symmetric] Let_def by auto
  qed
  show ?thesis
    using run s1 un(3) rest by (intro exI [of _ s1] exI [of _ P']) simp
qed

lemma footprint_drop:
  assumes inv: "slabs_inv s P F fr" and c: "c < 7" and p: "p \<in> slabs_of P F c"
    and of: "\<And>d. slabs_of P' F d = (if d = c then slabs_of P F d - {p} else slabs_of P F d)"
    and bytes: "\<And>q d. q \<noteq> p \<Longrightarrow> bytes_of s' d q = bytes_of s d q"
  shows "footprint s' P' F = footprint s P F - bytes_of s c p"
proof -
  have "q \<noteq> p \<and> bytes_of s d q \<inter> bytes_of s c p = {}" if "d < 7" "q \<in> slabs_of P' F d" for d q
  proof -
    have "q \<in> slabs_of P F d" "(c, p) \<noteq> (d, q)"
      using that of by (auto split: if_splits)
    then show ?thesis
      using apartD [OF slabs_invD(4) [OF inv] c that(1) p] by blast
  qed
  moreover have "q = p \<and> d = c \<or> q \<in> slabs_of P' F d" if "q \<in> slabs_of P F d" for d q
    using that of by auto
  moreover have "q \<in> slabs_of P F d" if "q \<in> slabs_of P' F d" for d q
    using that of by (auto split: if_splits)
  ultimately show ?thesis
    unfolding footprint_def using bytes by (fastforce simp: )
qed

end
