(* ===== verification/Slab_Kfree.thy ===== *)
theory Slab_Kfree
  imports Slab_Return
begin

text \<open>
  \<open>kfree\<close> of an object: the search through the caches finds the slab, the object goes back, and
  an empty slab returns its pages and, where it was allocated, its header.
\<close>

section \<open>Finding the slab of an object\<close>

lemma rbind_Inr [simp]: "rbind m Inr = m"
  by (cases m) auto

lemma range_contains_slab:
  assumes "cfg_ok c C" "slab_wf C m p sl fs"
  shows "range_contains x (slab_mem sl) (ucast (cache_mem_size C)) \<longleftrightarrow>
    unat (slab_mem sl) \<le> unat x \<and> unat x < unat (slab_mem sl) + unat (cache_mem_size C)"
proof -
  have "0 < unat (cache_count C)"
    using assms(1) by (simp add: cfg_ok_def)
  then have "unat (slab_mem sl) + unat (cache_mem_size C) < 2 ^ 64"
    using unat_object_at(4) [OF assms, of 0] assms(2) by (simp add: slab_wf_def)
  then show ?thesis
    by (subst range_contains_iff) auto
qed

lemma contains_bytes:
  assumes "cfg_ok c C" "slab_wf C m p sl fs" "range_contains x (slab_mem sl) (ucast (cache_mem_size C))"
  shows "unat x \<in> slab_bytes C sl"
proof -
  have "0 < unat (cache_count C)"
    using assms(1) by (simp add: cfg_ok_def)
  from unat_object_at(4) [OF assms(1,2) this] range_contains_slab [OF assms(1,2)] assms(3) show ?thesis
    by (auto simp: slab_bytes_def slab_start_def)
qed

lemma object_contained:
  assumes "cfg_ok c C" "slab_wf C m p sl fs" "i < unat (cache_count C)"
  shows "range_contains (object_at C sl i) (slab_mem sl) (ucast (cache_mem_size C))"
proof -
  have "(0 :: nat) < 2 ^ (c + 4)"
    by simp
  then show ?thesis
    using unat_object_at(1,2) [OF assms] unfolding range_contains_slab [OF assms(1,2)] by linarith
qed

lemma free_from_slab_list_skip:
  "dl (slabs s) v b xs \<Longrightarrow> length xs < n \<Longrightarrow>
   \<forall>q \<in> set xs. \<not> range_contains ptr (slab_mem (slabs s q)) (ucast (cache_mem_size (size_caches s c))) \<Longrightarrow>
     free_from_slab_list fp rec n ptr c b s = Inr (False, s)"
proof (induction xs arbitrary: v b n)
  case Nil
  then show ?case
    by (cases n) auto
next
  case (Cons x xs)
  then obtain m where "n = Suc m"
    by (cases n) auto
  with Cons show ?case
    by (auto simp: load_slab_def)
qed

lemma free_from_slab_list_hit:
  "dl (slabs s) v b (xs @ p # ys) \<Longrightarrow> length xs < n \<Longrightarrow>
   \<forall>q \<in> set xs. \<not> range_contains ptr (slab_mem (slabs s q)) (ucast (cache_mem_size (size_caches s c))) \<Longrightarrow>
   range_contains ptr (slab_mem (slabs s p)) (ucast (cache_mem_size (size_caches s c))) \<Longrightarrow>
     free_from_slab_list fp rec n ptr c b s = rbind (return_object fp rec ptr c p s) (\<lambda>s. Inr (True, s))"
proof (induction xs arbitrary: v b n)
  case Nil
  then show ?case
    by (cases n) (auto simp: load_slab_def)
next
  case (Cons x xs)
  then obtain m where "n = Suc m"
    by (cases n) auto
  with Cons show ?case
    by (auto simp: load_slab_def)
qed

lemma free_from_caches_skip:
  assumes "\<forall>k \<in> set os. 4 \<le> k \<and> k < 11 \<and>
    free_from_slab_list fp rec (Suc loop_fuel) ptr (k - 4) (cache_part (size_caches s (k - 4))) s = Inr (False, s) \<and>
    free_from_slab_list fp rec (Suc loop_fuel) ptr (k - 4) (cache_full (size_caches s (k - 4))) s = Inr (False, s)"
  shows "free_from_caches fp rec ptr (os @ rest) s = free_from_caches fp rec ptr rest s"
  using assms
  by (induction os) (auto simp: get_cache_def CACHE_START_ORDER_def CACHE_END_ORDER_def NUM_CACHES_def simp del: free_from_slab_list.simps)

text \<open>The search reaches the slab that holds a live object.\<close>

lemma kfree_finds:
  assumes inv: "slabs_inv s P F fr" and c: "c < 7" and p: "p \<in> slabs_of P F c" and i: "i < unat (cache_count (size_caches s c))"
  defines "x \<equiv> object_at (size_caches s c) (slabs s p) i"
  shows "kfree fp (Suc d) x s = return_object fp (kfree fp d) x c p s"
proof -
  have other: "\<not> range_contains x (slab_mem (slabs s q)) (ucast (cache_mem_size (size_caches s e)))"
    if q: "e < 7" "q \<in> slabs_of P F e" "(c, p) \<noteq> (e, q)" for e q
  proof
    assume "range_contains x (slab_mem (slabs s q)) (ucast (cache_mem_size (size_caches s e)))"
    then have "unat x \<in> bytes_of s e q"
      unfolding bytes_of_def by (rule contains_bytes [OF slabs_invD(1) [OF inv q(1)] slabs_inv_wf [OF inv q(1,2)]])
    moreover have "unat x \<in> bytes_of s c p"
      unfolding bytes_of_def x_def
      by (rule contains_bytes [OF slabs_invD(1) [OF inv c] slabs_inv_wf [OF inv c p] object_contained [OF slabs_invD(1) [OF inv c] slabs_inv_wf [OF inv c p] i]])
    ultimately show False
      using apartD [OF slabs_invD(4) [OF inv] c q(1) p q(2,3)] by auto
  qed
  have here: "range_contains x (slab_mem (slabs s p)) (ucast (cache_mem_size (size_caches s c)))"
    unfolding x_def by (rule object_contained [OF slabs_invD(1) [OF inv c] slabs_inv_wf [OF inv c p] i])
  have L: "dl (slabs s) 0 (cache_part (size_caches s e)) (P e)" "dl (slabs s) 0 (cache_full (size_caches s e)) (F e)"
    "distinct (P e)" "distinct (F e)" "set (P e) \<inter> set (F e) = {}" if "e < 7" for e
    using slabs_invD(2) [OF inv that] by (auto simp: lists_ok_def)
  have len: "length (P e) < Suc loop_fuel" "length (F e) < Suc loop_fuel" if "e < 7" for e
    using distinct_u64_length [OF L(3) [OF that]] distinct_u64_length [OF L(4) [OF that]] by simp_all
  let ?r = "kfree fp d"
  have skip_part: "free_from_slab_list fp ?r (Suc loop_fuel) x e (cache_part (size_caches s e)) s = Inr (False, s)"
    if "e < 7" "e = c \<longrightarrow> p \<notin> set (P e)" for e
    using that other by (intro free_from_slab_list_skip [OF L(1) len(1)]) (auto simp: slabs_of_def)
  have skip_full: "free_from_slab_list fp ?r (Suc loop_fuel) x e (cache_full (size_caches s e)) s = Inr (False, s)"
    if "e < 7" "e \<noteq> c" for e
    using that other by (intro free_from_slab_list_skip [OF L(2) len(2)]) (auto simp: slabs_of_def)
  have found: "free_from_caches fp ?r x ((c + 4) # os) s = rbind (return_object fp ?r x c p s) (\<lambda>s. Inr (True, s))" for os
  proof (cases "p \<in> set (P c)")
    case True
    then obtain xs ys where P: "P c = xs @ p # ys"
      by (meson split_list)
    have "free_from_slab_list fp ?r (Suc loop_fuel) x c (cache_part (size_caches s c)) s =
        rbind (return_object fp ?r x c p s) (\<lambda>s. Inr (True, s))"
      using L(1,3) [OF c] len(1) [OF c] other [OF c] here unfolding P
      by (intro free_from_slab_list_hit) (auto simp: slabs_of_def P)
    then show ?thesis
      using c by (simp add: get_cache_def CACHE_START_ORDER_def CACHE_END_ORDER_def NUM_CACHES_def rbind_assoc
          del: free_from_slab_list.simps)
  next
    case False
    then obtain xs ys where F: "F c = xs @ p # ys"
      using p by (metis UnE slabs_of_def split_list)
    have "free_from_slab_list fp ?r (Suc loop_fuel) x c (cache_full (size_caches s c)) s =
        rbind (return_object fp ?r x c p s) (\<lambda>s. Inr (True, s))"
      using L(2,4) [OF c] len(2) [OF c] other [OF c] here unfolding F
      by (intro free_from_slab_list_hit) (auto simp: slabs_of_def F)
    then show ?thesis
      using c skip_part [OF c] False
      by (simp add: get_cache_def CACHE_START_ORDER_def CACHE_END_ORDER_def NUM_CACHES_def rbind_assoc
          del: free_from_slab_list.simps)
  qed
  have "[CACHE_START_ORDER..<CACHE_END_ORDER + 1] = [4..<c + 4] @ (c + 4) # [c + 5..<12]"
    using c upt_add_eq_append [of 4 "c + 4" "8 - c"] upt_conv_Cons [of "c + 4" 12]
    by (simp add: CACHE_START_ORDER_def CACHE_END_ORDER_def add.commute)
  moreover have "free_from_caches fp ?r x ([4..<c + 4] @ (c + 4) # [c + 5..<12]) s =
      free_from_caches fp ?r x ((c + 4) # [c + 5..<12]) s"
    using c by (intro free_from_caches_skip ballI conjI skip_part skip_full) auto
  ultimately show ?thesis
    using found by (simp add: rbind_assoc del: free_from_caches.simps upt_Suc)
qed


section \<open>kfree\<close>

definition client_shrunk ::
    "('w \<Rightarrow> nat set) \<Rightarrow> nat set \<Rightarrow> 'w slab_state \<Rightarrow> slab_lists \<Rightarrow> slab_lists \<Rightarrow> (u64 \<Rightarrow> nat list) \<Rightarrow> nat \<Rightarrow> u64 \<Rightarrow>
     'w slab_state \<Rightarrow> slab_lists \<Rightarrow> slab_lists \<Rightarrow> (u64 \<Rightarrow> nat list) \<Rightarrow> bool" where
  "client_shrunk used others s P F fr c x s' P' F' fr' \<longleftrightarrow>
     slabs_inv s' P' F' fr' \<and> pages_ok used s' P' F' others \<and>
     page_allocations s' = page_allocations s \<and> page_allocation_list s' = page_allocation_list s \<and>
     client s' P' F' fr' = client s P F fr - {(c, x)}"

lemma client_shrunk_objs:
  assumes "objs s' P' F' fr' c = objs s P F fr c - {x}" "\<forall>d < 7. d \<noteq> c \<longrightarrow> objs s' P' F' fr' d = objs s P F fr d"
    "slab_headers s' P' F' = slab_headers s P F" "c < 7"
  shows "client s' P' F' fr' = client s P F fr - {(c, x)}"
proof -
  have "y \<in> objs s' P' F' fr' d \<longleftrightarrow> y \<in> objs s P F fr d \<and> (d, y) \<noteq> (c, x)" if "d < 7" for d y
    using assms(1,2) that by (cases "d = c") auto
  then show ?thesis
    unfolding client_def assms(3) by auto
qed

lemma all_free:
  assumes "slab_wf C m p sl fs" "slab_allocated sl = 0"
  shows "slab_objects C sl fs = {}" "fs = [] \<Longrightarrow> unat (cache_count C) = 0"
proof -
  have "length fs = unat (cache_count C)" "distinct fs" "set fs \<subseteq> {..<unat (cache_count C)}"
    using assms by (auto simp: slab_wf_def)
  then have "set fs = {..<unat (cache_count C)}"
    by (intro card_subset_eq) (auto simp: distinct_card)
  then show "slab_objects C sl fs = {}"
    by (simp add: slab_objects_def)
  show "fs = [] \<Longrightarrow> unat (cache_count C) = 0"
    using \<open>length fs = unat (cache_count C)\<close> by simp
qed

text \<open>What \<open>kfree\<close> does before the pages of an empty slab and its header go back.\<close>

lemma kfree_put_back:
  assumes inv: "slabs_inv s P F fr" and pages: "pages_ok used s P F others" and x: "(c, x) \<in> client s P F fr"
  obtains p s1 P1 F1 fr1 where "p \<in> slabs_of P F c" "c < 7"
    "kfree fp (Suc d) x s = drop_empty fp (kfree fp d) c p (size_caches s c) s1"
    "slabs_inv s1 P1 F1 fr1" "same_slabs s P F s1 P1 F1" "client_shrunk used others s P F fr c x s1 P1 F1 fr1"
    "p \<in> slabs_of P1 F1 c" "slab_mem (slabs s1 p) = slab_mem (slabs s p)"
    "slab_allocated (slabs s1 p) = 0 \<longrightarrow> p \<in> set (P1 c) \<and> slab_objects (size_caches s1 c) (slabs s1 p) (fr1 p) = {}"
proof -
  have c: "c < 7" and xo: "x \<in> objs s P F fr c" and nh: "(c, x) \<notin> {1} \<times> slab_headers s P F"
    using x by (auto simp: client_def)
  from objs_cases [OF inv c xo] obtain p i where p: "p \<in> slabs_of P F c" "i < unat (cache_count (size_caches s c))"
    "i \<notin> set (fr p)" "x = object_at (size_caches s c) (slabs s p) i" by metis
  have cfg: "cfg_ok c (size_caches s c)" and wf: "slab_wf (size_caches s c) (free_arrays s) p (slabs s p) (fr p)"
    and L: "lists_ok s P F fr c"
    by (rule slabs_invD(1) [OF inv c], rule slabs_inv_wf [OF inv c p(1)], rule slabs_invD(2) [OF inv c])
  have pz: "p \<noteq> 0"
    using L p(1) dl_nonzero by (auto simp: lists_ok_def slabs_of_def)
  have full: "\<exists>xs ys. dl (slabs s) 0 (cache_full (size_caches s c)) (xs @ p # ys) \<and> distinct (xs @ p # ys)" if "fr p = []"
  proof -
    have "p \<in> set (F c)"
      using L p(1) that by (auto simp: lists_ok_def slabs_of_def)
    then obtain xs ys where "F c = xs @ p # ys"
      by (meson split_list)
    with L show ?thesis
      by (auto simp: lists_ok_def simp del: dl.simps)
  qed
  have run: "kfree fp (Suc d) x s = drop_empty fp (kfree fp d) c p (size_caches s c) (put_back s c p i)"
    unfolding p(4) kfree_finds [OF inv c p(1,2)] by (rule return_object_run [OF cfg wf p(2) pz full])
  define s1 P1 F1 fr1 where "s1 = put_back s c p i" and "P1 = (if fr p = [] then P(c := p # P c) else P)"
    and "F1 = (if fr p = [] then F(c := remove1 p (F c)) else F)" and "fr1 = fr(p := i # fr p)"
  note B = put_back_ok [OF inv c p(1-3) nh [unfolded p(4)], folded s1_def P1_def F1_def fr1_def p(4)]
  have hd: "slab_headers s1 P1 F1 = slab_headers s P F"
    using B(2) by (simp add: same_slabs_def slab_headers_def)
  have shrunk: "client_shrunk used others s P F fr c x s1 P1 F1 fr1"
    using B(1,2) same_slabs_pages [OF B(2) pages] client_shrunk_objs [OF B(3,4) hd c]
    by (simp add: client_shrunk_def same_slabs_def)
  have p1: "p \<in> slabs_of P1 F1 c"
    using B(2) p(1) by (simp add: same_slabs_def)
  have mem: "slab_mem (slabs s1 p) = slab_mem (slabs s p)"
    using B(5) by (simp add: core_def returned_def)
  have wf1: "slab_wf (size_caches s1 c) (free_arrays s1) p (slabs s1 p) (fr1 p)"
    by (rule slabs_inv_wf [OF B(1) c p1])
  have "p \<in> set (P1 c)"
    using slabs_invD(2) [OF B(1) c] p1 by (auto simp: lists_ok_def slabs_of_def fr1_def)
  then have "slab_allocated (slabs s1 p) = 0 \<longrightarrow> p \<in> set (P1 c) \<and> slab_objects (size_caches s1 c) (slabs s1 p) (fr1 p) = {}"
    using all_free(1) [OF wf1] by simp
  from that [OF p(1) c run [folded s1_def] B(1,2) shrunk p1 mem this] show ?thesis .
qed


lemma drop_pages:
  assumes inv: "slabs_inv s P F fr" and pages: "pages_ok used s P F others" and c: "c < 7" and p: "p \<in> set (P c)"
    and empty: "slab_objects (size_caches s c) (slabs s p) (fr p) = {}"
  obtains s1 P' where "remove_slab_from_part c p s = Inr s1" "slabs s1 p = slabs s p" "world s1 = world s"
    "\<forall>sl w. used w = used (world s) - bytes_of s c p \<longrightarrow>
      slabs_inv (s1\<lparr>slabs := (slabs s1)(p := sl), world := w\<rparr>) P' F fr \<and>
      pages_ok used (s1\<lparr>slabs := (slabs s1)(p := sl), world := w\<rparr>) P' F others \<and>
      (\<forall>d < 7. objs (s1\<lparr>slabs := (slabs s1)(p := sl), world := w\<rparr>) P' F fr d = objs s P F fr d)"
    "page_allocations s1 = page_allocations s" "page_allocation_list s1 = page_allocation_list s"
    "\<forall>d. slabs_of P' F d = (if d = c then slabs_of P F d - {p} else slabs_of P F d)"
proof -
  from drop_slab_ok [OF inv c p empty] obtain s1 P' where D: "remove_slab_from_part c p s = Inr s1" "slabs s1 p = slabs s p"
    "world s1 = world s" "page_allocations s1 = page_allocations s" "page_allocation_list s1 = page_allocation_list s"
    "\<forall>sl. let s2 = s1\<lparr>slabs := (slabs s1)(p := sl)\<rparr> in
      slabs_inv s2 P' F fr \<and> (\<forall>d < 7. objs s2 P' F fr d = objs s P F fr d) \<and>
      (\<forall>d. slabs_of P' F d = (if d = c then slabs_of P F d - {p} else slabs_of P F d)) \<and>
      (\<forall>q d. q \<noteq> p \<longrightarrow> bytes_of s2 d q = bytes_of s d q)"
    by metis
  have pS: "p \<in> slabs_of P F c"
    using p by (simp add: slabs_of_def)
  have of: "slabs_of P' F d = (if d = c then slabs_of P F d - {p} else slabs_of P F d)" for d
    using D(6) by (simp add: Let_def)
  have "slabs_inv (s1\<lparr>slabs := (slabs s1)(p := sl), world := w\<rparr>) P' F fr \<and>
      pages_ok used (s1\<lparr>slabs := (slabs s1)(p := sl), world := w\<rparr>) P' F others \<and>
      (\<forall>d < 7. objs (s1\<lparr>slabs := (slabs s1)(p := sl), world := w\<rparr>) P' F fr d = objs s P F fr d)"
    if w: "used w = used (world s) - bytes_of s c p" for sl w
  proof -
    let ?s2 = "s1\<lparr>slabs := (slabs s1)(p := sl)\<rparr>"
    have s2: "slabs_inv ?s2 P' F fr" "\<forall>d < 7. objs ?s2 P' F fr d = objs s P F fr d"
      "\<And>q d. q \<noteq> p \<Longrightarrow> bytes_of ?s2 d q = bytes_of s d q"
      using D(6) by (simp_all add: Let_def)
    have "footprint ?s2 P' F = footprint s P F - bytes_of s c p"
      by (rule footprint_drop [OF inv c pS of s2(3)])
    moreover have "bytes_of s c p \<subseteq> footprint s P F"
      by (rule bytes_of_footprint [OF c pS])
    ultimately have "pages_ok used (?s2\<lparr>world := w\<rparr>) P' F others"
      using pages w by (auto simp: pages_ok_def)
    moreover have "slabs_inv (?s2\<lparr>world := w\<rparr>) P' F fr" "\<forall>d < 7. objs (?s2\<lparr>world := w\<rparr>) P' F fr d = objs s P F fr d"
      using s2(1,2) by (simp_all add: slabs_inv_world)
    ultimately show ?thesis
      by simp
  qed
  with of show ?thesis
    by (intro that [OF D(1-3) _ D(4,5)]) auto
qed

lemma empty_slab_pages:
  assumes "slabs_inv s P F fr" "c < 7" "p \<in> slabs_of P F c" and C: "cfg C = cfg (size_caches s c)"
  shows "in_page C \<Longrightarrow> page_range p (unat (ucast (cache_pages C) :: u64)) = bytes_of s c p"
    and "\<not> in_page C \<Longrightarrow> page_range (slab_mem (slabs s p) - ucast (cache_free_arr_size C)) (unat (ucast (cache_pages C) :: u64)) = bytes_of s c p"
proof -
  have wf: "slab_wf (size_caches s c) (free_arrays s) p (slabs s p) (fr p)"
    by (rule slabs_inv_wf [OF assms(1-3)])
  have eq: "cache_pages C = cache_pages (size_caches s c)" "cache_free_arr_size C = cache_free_arr_size (size_caches s c)"
    "in_page C = in_page (size_caches s c)"
    using C cfg_cong(3) [OF C] by (simp_all add: cfg_def)
  show "in_page C \<Longrightarrow> page_range p (unat (ucast (cache_pages C) :: u64)) = bytes_of s c p"
    using wf by (simp add: eq slab_wf_def page_range_def bytes_of_def slab_bytes_def)
  assume "\<not> in_page C"
  then have "unat (slab_mem (slabs s p) - ucast (cache_free_arr_size C)) = slab_start (size_caches s c) (slabs s p)"
    using wf by (subst unat_sub_u64) (auto simp: eq slab_wf_def slab_start_def header_def word_le_nat_alt)
  then show "page_range (slab_mem (slabs s p) - ucast (cache_free_arr_size C)) (unat (ucast (cache_pages C) :: u64)) = bytes_of s c p"
    by (simp add: page_range_def bytes_of_def slab_bytes_def eq)
qed

lemma client_shrunk_trans:
  assumes "client_shrunk used others s P F fr c x s1 P1 F1 fr1"
    and "slabs_inv s2 P2 F2 fr2" "pages_ok used s2 P2 F2 others" "client s2 P2 F2 fr2 = client s1 P1 F1 fr1"
    "page_allocations s2 = page_allocations s1" "page_allocation_list s2 = page_allocation_list s1"
  shows "client_shrunk used others s P F fr c x s2 P2 F2 fr2"
  using assms by (simp add: client_shrunk_def)

lemma client_same:
  assumes "\<forall>d < 7. objs s' P' F' fr' d = objs s P F fr d" "slab_headers s' P' F' = slab_headers s P F"
  shows "client s' P' F' fr' = client s P F fr"
  unfolding client_def assms(2) using assms(1) by auto

lemma kfree_in_page:
  assumes ap: "supplies ap fp used" and inv: "slabs_inv s P F fr" and pages: "pages_ok used s P F others"
    and x: "(c, x) \<in> client s P F fr" and c: "c < 5"
  shows "\<exists>s' P' F' fr'. kfree fp (Suc d) x s = Inr s' \<and> client_shrunk used others s P F fr c x s' P' F' fr'"
proof -
  obtain p s1 P1 F1 fr1 where p: "p \<in> slabs_of P F c" "c < 7"
    and run: "kfree fp (Suc d) x s = drop_empty fp (kfree fp d) c p (size_caches s c) s1"
    and inv1: "slabs_inv s1 P1 F1 fr1" and same: "same_slabs s P F s1 P1 F1"
    and shrunk: "client_shrunk used others s P F fr c x s1 P1 F1 fr1" and p1: "p \<in> slabs_of P1 F1 c"
    and mem: "slab_mem (slabs s1 p) = slab_mem (slabs s p)"
    and e: "slab_allocated (slabs s1 p) = 0 \<longrightarrow> p \<in> set (P1 c) \<and> slab_objects (size_caches s1 c) (slabs s1 p) (fr1 p) = {}"
    by (rule kfree_put_back [OF inv pages x, where fp = fp and d = d])
  have ip: "in_page (size_caches s c)"
    using c slabs_inv_in_page [OF inv p(2)] by simp
  show ?thesis
  proof (cases "slab_allocated (slabs s1 p) = 0")
    case False
    with run shrunk show ?thesis
      by (auto simp: drop_empty_def)
  next
    case True
    have pages1: "pages_ok used s1 P1 F1 others"
      using shrunk by (simp add: client_shrunk_def)
    obtain s2 P2 where D: "remove_slab_from_part c p s1 = Inr s2" "slabs s2 p = slabs s1 p" "world s2 = world s1"
      and new: "\<forall>sl w. used w = used (world s1) - bytes_of s1 c p \<longrightarrow>
        slabs_inv (s2\<lparr>slabs := (slabs s2)(p := sl), world := w\<rparr>) P2 F1 fr1 \<and>
        pages_ok used (s2\<lparr>slabs := (slabs s2)(p := sl), world := w\<rparr>) P2 F1 others \<and>
        (\<forall>d < 7. objs (s2\<lparr>slabs := (slabs s2)(p := sl), world := w\<rparr>) P2 F1 fr1 d = objs s1 P1 F1 fr1 d)"
      and D': "page_allocations s2 = page_allocations s1" "page_allocation_list s2 = page_allocation_list s1"
      and of: "\<forall>d. slabs_of P2 F1 d = (if d = c then slabs_of P1 F1 d - {p} else slabs_of P1 F1 d)"
      by (rule drop_pages [OF inv1 pages1 p(2) conjunct1 [OF mp [OF e True]] conjunct2 [OF mp [OF e True]]])
    have "cfg (size_caches s c) = cfg (size_caches s1 c)"
      using same by (simp add: same_slabs_def)
    note pr = empty_slab_pages(1) [OF inv1 p(2) p1 this ip]
    have "page_range p (unat (ucast (cache_pages (size_caches s c)) :: u64)) \<subseteq> used (world s1)"
      unfolding pr using pages1 bytes_of_footprint [OF p(2) p1] by (auto simp: pages_ok_def)
    from supplies_free [OF ap this] obtain w where w: "fp p (ucast (cache_pages (size_caches s c))) (world s1) = Inr w"
      "used w = used (world s1) - bytes_of s1 c p"
      unfolding pr by blast
    define s3 where "s3 = s2\<lparr>slabs := (slabs s2)(p := slabs s2 p), world := w\<rparr>"
    have s3: "s3 = s2\<lparr>world := w\<rparr>"
      by (simp add: s3_def)
    note N = new [rule_format, OF w(2), of "slabs s2 p", folded s3_def]
    have "slab_headers s3 P2 F1 = slab_headers s1 P1 F1"
      using of c by (simp add: slab_headers_def)
    then have "client s3 P2 F1 fr1 = client s1 P1 F1 fr1"
      using N by (intro client_same) auto
    then have "client_shrunk used others s P F fr c x s3 P2 F1 fr1"
      using N D' by (intro client_shrunk_trans [OF shrunk]) (auto simp: s3)
    moreover have "kfree fp (Suc d) x s = Inr s3"
      unfolding run drop_empty_def using True D(1,3) ip w(1) by (simp add: s3)
    ultimately show ?thesis
      by blast
  qed
qed


lemma kfree_off_page:
  assumes ap: "supplies ap fp used" and inv: "slabs_inv s P F fr" and pages: "pages_ok used s P F others"
    and x: "(c, x) \<in> client s P F fr" and c: "5 \<le> c"
  shows "\<exists>s' P' F' fr'. kfree fp (Suc (Suc d)) x s = Inr s' \<and> client_shrunk used others s P F fr c x s' P' F' fr'"
proof -
  obtain p s1 P1 F1 fr1 where p: "p \<in> slabs_of P F c" "c < 7"
    and run: "kfree fp (Suc (Suc d)) x s = drop_empty fp (kfree fp (Suc d)) c p (size_caches s c) s1"
    and inv1: "slabs_inv s1 P1 F1 fr1" and same: "same_slabs s P F s1 P1 F1"
    and shrunk: "client_shrunk used others s P F fr c x s1 P1 F1 fr1" and p1: "p \<in> slabs_of P1 F1 c"
    and mem: "slab_mem (slabs s1 p) = slab_mem (slabs s p)"
    and e: "slab_allocated (slabs s1 p) = 0 \<longrightarrow> p \<in> set (P1 c) \<and> slab_objects (size_caches s1 c) (slabs s1 p) (fr1 p) = {}"
    by (rule kfree_put_back [OF inv pages x, where fp = fp and d = "Suc d"])
  have ip: "\<not> in_page (size_caches s c)"
    using c slabs_inv_in_page [OF inv p(2)] by simp
  show ?thesis
  proof (cases "slab_allocated (slabs s1 p) = 0")
    case False
    with run shrunk show ?thesis
      by (auto simp: drop_empty_def)
  next
    case True
    have pages1: "pages_ok used s1 P1 F1 others"
      using shrunk by (simp add: client_shrunk_def)
    obtain s2 P2 where D: "remove_slab_from_part c p s1 = Inr s2" "slabs s2 p = slabs s1 p" "world s2 = world s1"
      and new: "\<forall>sl w. used w = used (world s1) - bytes_of s1 c p \<longrightarrow>
        slabs_inv (s2\<lparr>slabs := (slabs s2)(p := sl), world := w\<rparr>) P2 F1 fr1 \<and>
        pages_ok used (s2\<lparr>slabs := (slabs s2)(p := sl), world := w\<rparr>) P2 F1 others \<and>
        (\<forall>d < 7. objs (s2\<lparr>slabs := (slabs s2)(p := sl), world := w\<rparr>) P2 F1 fr1 d = objs s1 P1 F1 fr1 d)"
      and D': "page_allocations s2 = page_allocations s1" "page_allocation_list s2 = page_allocation_list s1"
      and of: "\<forall>d. slabs_of P2 F1 d = (if d = c then slabs_of P1 F1 d - {p} else slabs_of P1 F1 d)"
      by (rule drop_pages [OF inv1 pages1 p(2) conjunct1 [OF mp [OF e True]] conjunct2 [OF mp [OF e True]]])
    let ?start = "slab_mem (slabs s2 p) - ucast (cache_free_arr_size (size_caches s c))"
    let ?n = "ucast (cache_pages (size_caches s c)) :: u64"
    have "cfg (size_caches s c) = cfg (size_caches s1 c)"
      using same by (simp add: same_slabs_def)
    note pr = empty_slab_pages(2) [OF inv1 p(2) p1 this ip, folded D(2)]
    have "page_range ?start (unat ?n) \<subseteq> used (world s1)"
      unfolding pr using pages1 bytes_of_footprint [OF p(2) p1] by (auto simp: pages_ok_def)
    from supplies_free [OF ap this] obtain w where w: "fp ?start ?n (world s1) = Inr w"
      "used w = used (world s1) - bytes_of s1 c p"
      unfolding pr by blast
    define s3 where "s3 = s2\<lparr>slabs := (slabs s2)(p := (slabs s2 p)\<lparr>slab_mem := ?start\<rparr>), world := w\<rparr>"
    note N = new [rule_format, OF w(2), of "(slabs s2 p)\<lparr>slab_mem := ?start\<rparr>", folded s3_def]
    have inv3: "slabs_inv s3 P2 F1 fr1" and pages3: "pages_ok used s3 P2 F1 others"
      and objs3: "\<forall>d < 7. objs s3 P2 F1 fr1 d = objs s1 P1 F1 fr1 d"
      using N by simp_all
    have step: "kfree fp (Suc (Suc d)) x s = kfree fp (Suc d) p s3"
      unfolding run drop_empty_def using True D(1,3) ip w(1) by (simp add: s3_def Let_def)
    have apart: "p \<notin> slabs_of P1 F1 e" if "e < 7" "e \<noteq> c" for e
      using apartD [OF slabs_invD(4) [OF inv1] p(2) that(1) p1] that(2) by blast
    have c56: "c = 5 \<or> c = 6"
      using c p(2) by auto
    then have ph: "p \<in> slab_headers s1 P1 F1"
      using p1 by (auto simp: slab_headers_def)
    have hd3: "slab_headers s3 P2 F1 = slab_headers s1 P1 F1 - {p}"
      using of c56 apart [of 5] apart [of 6] by (auto simp: slab_headers_def)
    have p_obj: "p \<in> objs s1 P1 F1 fr1 1"
      using headers_subset [OF inv1] ph by auto
    have cl3: "client s3 P2 F1 fr1 = insert (1, p) (client s1 P1 F1 fr1)" "(1, p) \<notin> client s1 P1 F1 fr1"
      using objs3 p_obj ph unfolding client_def hd3 by auto
    have "(1, p) \<in> client s3 P2 F1 fr1"
      by (simp add: cl3(1))
    from kfree_in_page [OF ap inv3 pages3 this, of d] obtain s' P' F' fr' where
      k: "kfree fp (Suc d) p s3 = Inr s'" and sh: "client_shrunk used others s3 P2 F1 fr1 1 p s' P' F' fr'"
      by auto
    have "client s' P' F' fr' = client s1 P1 F1 fr1"
      using sh cl3 by (auto simp: client_shrunk_def)
    then have "client_shrunk used others s P F fr c x s' P' F' fr'"
      using sh D' by (intro client_shrunk_trans [OF shrunk]) (auto simp: client_shrunk_def s3_def)
    with k step show ?thesis
      by auto
  qed
qed

theorem kfree_ok:
  assumes "supplies ap fp used" and "slabs_inv s P F fr" and "pages_ok used s P F others" and "(c, x) \<in> client s P F fr"
  shows "\<exists>s' P' F' fr'. kfree fp (Suc (Suc d)) x s = Inr s' \<and> client_shrunk used others s P F fr c x s' P' F' fr'"
proof (cases "c < 5")
  case True
  from kfree_in_page [OF assms True] show ?thesis .
next
  case False
  then show ?thesis
    by (intro kfree_off_page [OF assms]) simp
qed

end
