(* ===== verification/Slab_Init.thy ===== *)
theory Slab_Init
  imports Slab_Kfree
begin

text \<open>
  \<open>initialize_slab_allocator\<close>: for the orders 4 to 10 a slab is one page and holds the most
  objects that fit beside the free array (and, below 512 bytes, beside the slab itself).
\<close>

definition round16 :: "nat \<Rightarrow> nat" where
  "round16 n = (n + 15) div 16 * 16"

definition fits :: "nat \<Rightarrow> nat \<Rightarrow> nat \<Rightarrow> bool" where
  "fits sz obj k \<longleftrightarrow> round16 (4 * k) + k * obj \<le> sz"

lemma round16: "n \<le> round16 n" "16 dvd round16 n" "round16 n < n + 16"
  by (simp_all add: round16_def)

lemma fit_count_max:
  assumes "unat count * unat obj \<le> unat sz" "unat sz < 2 ^ 31" "16 \<le> unat obj" "unat count < n"
  shows "\<exists>k fa ms. fit_count n sz obj count fa0 ms0 = Inr (k, fa, ms) \<and> unat k \<le> unat count \<and>
    (\<forall>j. unat k < j \<longrightarrow> j \<le> unat count \<longrightarrow> \<not> fits (unat sz) (unat obj) j) \<and>
    (k \<noteq> 0 \<longrightarrow> fits (unat sz) (unat obj) (unat k) \<and> unat fa = round16 (4 * unat k) \<and> unat ms = unat k * unat obj)"
  using assms(1,4)
proof (induction n arbitrary: count fa0 ms0)
  case (Suc n)
  show ?case
  proof (cases "count = 0")
    case False
    let ?ms = "count * obj" and ?al = "MIN_u64 max_align (ucast obj)"
    let ?fa = "ucast (round_up_to_multiple (ucast count * 4) ?al) :: u32"
    have c: "0 < unat count"
      using False by (simp add: unat_gt_0)
    have ms: "unat ?ms = unat count * unat obj"
      using Suc.prems(1) assms(2) by (subst unat_mult_lem [THEN iffD1]) auto
    have le: "unat count * 16 \<le> unat count * unat obj"
      using assms(3) by (intro mult_left_mono) auto
    have al: "unat ?al = 16" "?al \<noteq> 0"
      using assms(3) by (auto simp: MIN_u64_def max_align_def word_less_nat_alt word_unat_eq_iff)
    have "unat (ucast count * 4 :: u64) = 4 * unat count"
      using unat_u32_lt [of count] by (subst unat_mult_u64) auto
    then have ru: "unat (round_up_to_multiple (ucast count * 4) ?al) = round16 (4 * unat count)"
      using unat_u32_lt [of count] al by (subst unat_round_up_to_multiple) (auto simp: round16_def)
    have "unat sz < 2147483648"
      using assms(2) by simp
    then have "round16 (4 * unat count) < 4294967296"
      using round16(3) [of "4 * unat count"] le Suc.prems(1) by linarith
    then have fa: "unat ?fa = round16 (4 * unat count)"
      using ru by (simp add: unsigned_ucast_eq take_bit_nat_eq_self)
    have diff: "unat (sz - ucast ?ms) = unat sz - unat count * unat obj"
      using Suc.prems(1) ms by (subst unat_sub_u64) (auto simp: word_le_nat_alt)
    have "sz - ucast ?ms \<ge> ucast ?fa \<longleftrightarrow> fits (unat sz) (unat obj) (unat count)"
      using Suc.prems(1) by (auto simp: word_le_nat_alt diff fa fits_def)
    moreover have "fit_count (Suc n) sz obj count fa0 ms0 =
        (if sz - ucast ?ms \<ge> ucast ?fa then Inr (count, ?fa, ?ms) else fit_count n sz obj (count - 1) ?fa ?ms)"
      using False by (simp add: Let_def)
    ultimately have step: "fit_count (Suc n) sz obj count fa0 ms0 =
        (if fits (unat sz) (unat obj) (unat count) then Inr (count, ?fa, ?ms) else fit_count n sz obj (count - 1) ?fa ?ms)"
      by simp
    show ?thesis
    proof (cases "fits (unat sz) (unat obj) (unat count)")
      case True
      then show ?thesis
        unfolding step using fa ms by auto
    next
      case nofit: False
      have dec: "unat (count - 1) = unat count - 1"
        using False by (intro unat_minus_one)
      have "unat (count - 1) * unat obj \<le> unat sz"
        using Suc.prems(1) unfolding dec by (meson diff_le_self le_trans mult_le_mono1)
      moreover have "unat (count - 1) < n"
        using dec c Suc.prems(2) by simp
      ultimately obtain k fa ms where IH: "fit_count n sz obj (count - 1) ?fa ?ms = Inr (k, fa, ms)"
        "unat k \<le> unat (count - 1)" "\<forall>j. unat k < j \<longrightarrow> j \<le> unat (count - 1) \<longrightarrow> \<not> fits (unat sz) (unat obj) j"
        "k \<noteq> 0 \<longrightarrow> fits (unat sz) (unat obj) (unat k) \<and> unat fa = round16 (4 * unat k) \<and> unat ms = unat k * unat obj"
        using Suc.IH by blast
      have "\<not> fits (unat sz) (unat obj) j" if "unat k < j" "j \<le> unat count" for j
        using that IH(3) nofit dec by (cases "j = unat count") auto
      then show ?thesis
        unfolding step using nofit IH dec by auto
    qed
  qed simp
qed simp

lemma initialize_cache_ok:
  assumes "4 \<le> order" "order \<le> 10"
  defines "sz \<equiv> 4096 - (if order < 9 then 32 else 0) :: nat"
  shows "\<exists>C. initialize_cache order c0 = Inr C \<and> cfg_ok (order - 4) C \<and> cache_part C = 0 \<and> cache_full C = 0 \<and>
    cache_pages C = 1 \<and> fits sz (2 ^ order) (unat (cache_count C)) \<and>
    (\<forall>k. fits sz (2 ^ order) k \<longrightarrow> k \<le> unat (cache_count C))"
proof -
  define obj where "obj = (ucast (push_bit order (1 :: u32)) :: u32)"
  have pow: "(2 :: nat) ^ order \<le> 2 ^ 10" "(2 :: nat) ^ 4 \<le> 2 ^ order"
    using assms(1,2) by (simp_all only: power_increasing)
  have "unat (push_bit order (1 :: u32)) = 2 ^ order"
  proof -
    have "(push_bit order 1 :: u32) = of_nat (2 ^ order)"
      by (simp add: push_bit_eq_mult)
    then show ?thesis
      using pow(1) by (simp only: unat_of_nat) simp
  qed
  then have obj: "unat obj = 2 ^ order"
    by (simp add: obj_def)
  have div4: "4 \<le> 4096 div (2 :: nat) ^ order"
  proof -
    have "4 * 2 ^ order \<le> (4096 :: nat)"
      using pow(1) by simp
    then show ?thesis
      by (simp add: less_eq_div_iff_mult_less_eq)
  qed
  have "\<not> (ucast (1 :: u32) * PAGE_SIZE) div ucast obj < MIN_OBJ_THRESHOLD"
    using div4 by (simp add: word_less_nat_alt unat_div obj MIN_OBJ_THRESHOLD_def)
  then have grow: "grow_pages (Suc loop_fuel) 1 obj = Inr 1"
    by simp
  have small: "ucast obj < OFF_SLAB_THRESHOLD \<longleftrightarrow> order < 9"
  proof -
    have "ucast obj < OFF_SLAB_THRESHOLD \<longleftrightarrow> (2 :: nat) ^ order < 2 ^ 9"
      by (simp add: word_less_nat_alt OFF_SLAB_THRESHOLD_def unat_div obj)
    also have "\<dots> \<longleftrightarrow> order < 9"
      by (subst power_strict_increasing_iff) auto
    finally show ?thesis .
  qed
  define wsz where "wsz = (if ucast obj < OFF_SLAB_THRESHOLD then ucast (1 :: u32) * PAGE_SIZE - sizeof_Slab else ucast (1 :: u32) * PAGE_SIZE)"
  have wsz: "unat wsz = sz"
    by (simp add: wsz_def sz_def small sizeof_Slab_def PAGE_SIZE_def)
  have szb: "sz \<le> 4096" "4064 \<le> sz"
    by (simp_all add: sz_def)
  define cnt where "cnt = (ucast (wsz div ucast obj) :: u32)"
  have cnt: "unat cnt = sz div 2 ^ order"
  proof -
    have "sz div 2 ^ order \<le> sz"
      by (rule div_le_dividend)
    then have "sz div 2 ^ order < 4294967296"
      using szb(1) by linarith
    then show ?thesis
      by (simp add: cnt_def unsigned_ucast_eq unat_div wsz obj take_bit_nat_eq_self)
  qed
  have "unat cnt * unat obj \<le> unat wsz" "unat wsz < 2 ^ 31" "16 \<le> unat obj" "unat cnt < Suc loop_fuel"
  proof -
    show "unat cnt * unat obj \<le> unat wsz"
      by (simp add: cnt obj wsz div_times_less_eq_dividend)
    show "unat cnt < Suc loop_fuel"
      using unat_u32_lt [of cnt] by (simp add: loop_fuel_def)
  qed (use szb pow(2) wsz obj in auto)
  from fit_count_max [OF this, of "cache_free_arr_size c0" "cache_mem_size c0"] obtain k fa ms where
    F: "fit_count (Suc loop_fuel) wsz obj cnt (cache_free_arr_size c0) (cache_mem_size c0) = Inr (k, fa, ms)"
      "unat k \<le> unat cnt" "\<forall>j. unat k < j \<longrightarrow> j \<le> unat cnt \<longrightarrow> \<not> fits sz (2 ^ order) j"
      "k \<noteq> 0 \<longrightarrow> fits sz (2 ^ order) (unat k) \<and> unat fa = round16 (4 * unat k) \<and> unat ms = unat k * 2 ^ order"
    unfolding wsz obj by blast
  have max: "j \<le> unat k" if "fits sz (2 ^ order) j" for j
  proof (rule ccontr)
    assume "\<not> j \<le> unat k"
    moreover have "j * 2 ^ order \<le> sz"
      using that by (simp add: fits_def)
    then have "j \<le> unat cnt"
      by (simp add: cnt less_eq_div_iff_mult_less_eq)
    ultimately show False
      using F(3) that by simp
  qed
  have "fits sz (2 ^ order) 3"
    using szb(2) pow(1) by (simp add: fits_def round16_def)
  then have k: "3 \<le> unat k" "k \<noteq> 0"
    using max [of 3] by auto
  define C where "C = \<lparr>cache_part = 0, cache_full = 0, cache_pages = 1, cache_size = obj, cache_count = k,
    cache_free_arr_size = fa, cache_mem_size = ms\<rparr>"
  have run: "initialize_cache order c0 = Inr C"
    unfolding initialize_cache_def obj_def [symmetric] Let_def grow
    using F(1) k(2) by (simp add: wsz_def [symmetric] cnt_def [symmetric] C_def del: fit_count.simps)
  have "order - 4 + 4 = order"
    using assms(1) by simp
  moreover have "header C = 4096 - sz"
    using small by (simp add: header_def in_page_def C_def sz_def)
  ultimately have "cfg_ok (order - 4) C"
    using F(4) k szb round16 [of "4 * unat k"] obj
    by (auto simp: cfg_ok_def C_def fits_def)
  with run F(4) k(2) max show ?thesis
    by (auto simp: C_def)
qed

lemma initialize_caches_ok:
  assumes "\<forall>k \<in> set os. 4 \<le> k \<and> k \<le> 10" "distinct os"
  shows "\<exists>cs. initialize_caches os s = Inr (s\<lparr>size_caches := cs\<rparr>) \<and>
    (\<forall>k \<in> set os. cfg_ok (k - 4) (cs (k - 4)) \<and> cache_part (cs (k - 4)) = 0 \<and> cache_full (cs (k - 4)) = 0 \<and>
      cache_pages (cs (k - 4)) = 1) \<and>
    (\<forall>c. c + 4 \<notin> set os \<longrightarrow> cs c = size_caches s c)"
  using assms
proof (induction os arbitrary: s)
  case (Cons k os)
  have k: "4 \<le> k" "k \<le> 10" "k \<notin> set os" "get_cache k = Inr (k - 4)"
    using Cons.prems by (auto simp: get_cache_def CACHE_START_ORDER_def NUM_CACHES_def CACHE_END_ORDER_def)
  from initialize_cache_ok [OF k(1,2)] obtain C where C: "initialize_cache k (size_caches s (k - 4)) = Inr C"
    "cfg_ok (k - 4) C" "cache_part C = 0" "cache_full C = 0" "cache_pages C = 1"
    by blast
  let ?s = "update_cache (k - 4) (\<lambda>_. C) s"
  have "\<forall>k \<in> set os. 4 \<le> k \<and> k \<le> 10" "distinct os"
    using Cons.prems by auto
  from Cons.IH [OF this, of ?s] obtain cs where cs: "initialize_caches os ?s = Inr (?s\<lparr>size_caches := cs\<rparr>)"
    "\<forall>k \<in> set os. cfg_ok (k - 4) (cs (k - 4)) \<and> cache_part (cs (k - 4)) = 0 \<and> cache_full (cs (k - 4)) = 0 \<and>
      cache_pages (cs (k - 4)) = 1"
    "\<forall>c. c + 4 \<notin> set os \<longrightarrow> cs c = size_caches ?s c"
    by blast
  have "cs (k - 4) = C"
    using cs(3) k(1,3) by (simp add: update_cache_def)
  moreover have "cs c = size_caches s c" if "c + 4 \<notin> set (k # os)" for c
    using cs(3) that k(1) by (auto simp: update_cache_def)
  ultimately show ?case
    using k(4) C cs by (intro exI [of _ cs]) (auto simp: update_cache_def)
next
  case (Nil s)
  show ?case
    by (intro exI [of _ "size_caches s"]) simp
qed

end
