(* ===== verification/Slab_Properties.thy ===== *)
theory Slab_Properties
  imports Slab_Init
begin

text \<open>
  The properties of \<open>kalloc\<close> and \<open>kfree\<close>: kernel/src/memory/slab_allocator.c. Every witness runs
  the code on an allocator set up by \<open>initialize_caches\<close> over a supply of two pages.
\<close>


section \<open>Sizes and caches\<close>

text \<open>
  \<open>get_min_cache_order\<close> returns the least order from 4 on whose objects hold the size, and
  12, one more than \<open>CACHE_END_ORDER\<close>, exactly for the sizes above 2048.
\<close>

theorem get_min_cache_order_least:
  "get_min_cache_order sz = (if 2048 < unat sz then 12 else LEAST k. 4 \<le> k \<and> unat sz \<le> 2 ^ k)"
proof -
  define k where "k = get_min_cache_order sz"
  have k: "4 \<le> k" "k \<le> 12" "k = 4 \<or> 2 ^ (k - 1) < unat sz" "k = 12 \<or> unat sz \<le> 2 ^ k"
    using get_min_cache_order_spec [of sz] by (simp_all add: k_def Let_def)
  have top: "k = 12 \<longleftrightarrow> 2048 < unat sz"
  proof (cases "k = 12")
    case False
    then have "(2 :: nat) ^ k \<le> 2 ^ 11"
      using k(2) by (intro power_increasing) auto
    with False k(4) show ?thesis
      by auto
  qed (use k(3) in auto)
  have "k = (LEAST k. 4 \<le> k \<and> unat sz \<le> 2 ^ k)" if "unat sz \<le> 2048"
  proof (rule Least_equality [symmetric])
    show "4 \<le> k \<and> unat sz \<le> 2 ^ k"
      using k top that by auto
    fix j assume j: "4 \<le> j \<and> unat sz \<le> 2 ^ j"
    show "k \<le> j"
    proof (rule ccontr)
      assume "\<not> k \<le> j"
      then have "(2 :: nat) ^ j \<le> 2 ^ (k - 1)"
        by (intro power_increasing) auto
      moreover have "2 ^ (k - 1) < unat sz" "unat sz \<le> 2 ^ j"
        using \<open>\<not> k \<le> j\<close> j k(3) by auto
      ultimately show False
        by linarith
    qed
  qed
  with top show ?thesis
    by (simp add: k_def)
qed

text \<open>
  C20. The seven caches of the orders 4 to 10 are set up so that every slab of one page holds
  the most objects that fit together with their free array, and the caches are empty; the
  eighth order of the loop of \<open>initialize_slab_allocator\<close> indexes past \<open>size_caches\<close>, which
  has \<open>NUM_CACHES = 7\<close> elements.
\<close>

theorem initialize_slab_allocator_out_of_bounds:
  "initialize_slab_allocator s = Inl Out_of_bounds \<and>
   (\<exists>s'. initialize_caches [4..<11] s = Inr s' \<and> slabs_inv s' (\<lambda>_. []) (\<lambda>_. []) fr \<and>
     client s' (\<lambda>_. []) (\<lambda>_. []) fr = {} \<and> footprint s' (\<lambda>_. []) (\<lambda>_. []) = {} \<and> world s' = world s) \<and>
   (\<forall>order \<in> {4..10}. \<exists>C. initialize_cache order c0 = Inr C \<and> cache_pages C = 1 \<and>
     (let sz = 4096 - (if order < 9 then unat sizeof_Slab else 0) in
      unat (cache_count C) = (GREATEST k. fits sz (2 ^ order) k)))"
proof (intro conjI ballI)
  obtain cs where cs: "initialize_caches [4..<11] s = Inr (s\<lparr>size_caches := cs\<rparr>)"
    "\<forall>k \<in> set [4..<11]. cfg_ok (k - 4) (cs (k - 4)) \<and> cache_part (cs (k - 4)) = 0 \<and> cache_full (cs (k - 4)) = 0 \<and>
       cache_pages (cs (k - 4)) = 1"
    using initialize_caches_ok [of "[4..<11]" s] by auto
  have at: "cfg_ok c (cs c) \<and> cache_part (cs c) = 0 \<and> cache_full (cs c) = 0 \<and> cache_pages (cs c) = 1" if "c < 7" for c
  proof -
    have "c + 4 \<in> set [4..<11]"
      using that by (subst set_upt) simp
    from bspec [OF cs(2) this] show ?thesis
      by simp
  qed
  show "\<exists>s'. initialize_caches [4..<11] s = Inr s' \<and> slabs_inv s' (\<lambda>_. []) (\<lambda>_. []) fr \<and>
     client s' (\<lambda>_. []) (\<lambda>_. []) fr = {} \<and> footprint s' (\<lambda>_. []) (\<lambda>_. []) = {} \<and> world s' = world s"
    using cs(1) at
    by (intro exI [of _ "s\<lparr>size_caches := cs\<rparr>"])
      (simp add: slabs_inv_def lists_ok_def slabs_of_def apart_def headers_ok_def client_def objs_def footprint_def)
  have split: "initialize_caches (xs @ ys) t = rbind (initialize_caches xs t) (initialize_caches ys)"
    for xs ys and t :: "'a slab_state"
    by (induction xs arbitrary: t) (simp_all add: rbind_assoc)
  have "[CACHE_START_ORDER..<CACHE_END_ORDER + 1] = [4..<11] @ [11]"
    by (simp add: CACHE_START_ORDER_def CACHE_END_ORDER_def upt_rec)
  then show "initialize_slab_allocator s = Inl Out_of_bounds"
    unfolding initialize_slab_allocator_def by (simp only: split cs(1) rbind_simps)
      (simp add: get_cache_def CACHE_START_ORDER_def CACHE_END_ORDER_def NUM_CACHES_def)
  fix order :: nat assume order: "order \<in> {4..10}"
  then obtain C where C: "initialize_cache order c0 = Inr C" "cache_pages C = 1"
    "fits (4096 - (if order < 9 then 32 else 0)) (2 ^ order) (unat (cache_count C))"
    "\<forall>k. fits (4096 - (if order < 9 then 32 else 0)) (2 ^ order) k \<longrightarrow> k \<le> unat (cache_count C)"
    using initialize_cache_ok [of order c0] by auto
  have "(GREATEST k. fits (4096 - (if order < 9 then 32 else 0)) (2 ^ order) k) = unat (cache_count C)"
    using C(3,4) by (intro Greatest_equality) auto
  with C(1,2) show "\<exists>C. initialize_cache order c0 = Inr C \<and> cache_pages C = 1 \<and>
     (let sz = 4096 - (if order < 9 then unat sizeof_Slab else 0) in
      unat (cache_count C) = (GREATEST k. fits sz (2 ^ order) k))"
    by (intro exI [of _ C], cases "order < 9") (simp_all add: sizeof_Slab_def Let_def)
qed


section \<open>kalloc and kfree\<close>

text \<open>
  A supply of two pages, given out one at a time, and the allocator that starts on it.
\<close>

definition two_pages :: "nat set page_alloc" where
  "two_pages n fl U =
     (if n = 1 \<and> U = {} then Inr (0x1000, page_range 0x1000 1)
      else if n = 1 \<and> U = page_range 0x1000 1 then Inr (0x2000, page_range 0x1000 1 \<union> page_range 0x2000 1)
      else Inr (0, U))"

definition give_back :: "nat set page_free" where
  "give_back mem n U = Inr (U - page_range mem (unat n))"

lemma page_range_nonempty: "page_range 0x1000 1 \<noteq> {}"
  by (simp add: page_range_def)

lemma supplies_two_pages: "supplies two_pages give_back (\<lambda>U. U)"
  unfolding supplies_def
proof (intro conjI allI impI)
  fix n :: u64 and w :: "nat set"
  consider "n = 1 \<and> w = {}" | "n = 1 \<and> w = page_range 0x1000 1" | "\<not> (n = 1 \<and> w = {})" "\<not> (n = 1 \<and> w = page_range 0x1000 1)"
    by blast
  then show "\<exists>mem w'. two_pages n SLAB_PAGE_FLAGS w = Inr (mem, w') \<and>
        (if mem = 0 then w' = w
         else 16 dvd unat mem \<and> unat mem + 4096 * unat n < 2 ^ 64 \<and> page_range mem (unat n) \<inter> w = {} \<and>
           w' = w \<union> page_range mem (unat n))"
  proof cases
    case 1
    then show ?thesis
      by (simp add: two_pages_def)
  next
    case 2
    have "page_range 0x2000 1 \<inter> page_range 0x1000 1 = {}"
      by (auto simp: page_range_def)
    with 2 show ?thesis
      using page_range_nonempty by (simp add: two_pages_def Un_commute)
  next
    case 3
    then have "two_pages n SLAB_PAGE_FLAGS w = Inr (0, w)"
      unfolding two_pages_def by (simp only: if_False)
    then show ?thesis
      by simp
  qed
qed (simp add: give_back_def)

definition empty_allocator :: "nat set slab_state" where
  "empty_allocator = \<lparr>size_caches = (\<lambda>_. \<lparr>cache_part = 0, cache_full = 0, cache_pages = 0, cache_size = 0, cache_count = 0,
     cache_free_arr_size = 0, cache_mem_size = 0\<rparr>), page_allocation_list = 0, slabs = (\<lambda>_. undefined),
     free_arrays = (\<lambda>_. 0), page_allocations = (\<lambda>_. undefined), world = {}\<rparr>"

theorem initialize_slab_allocator_out_of_bounds_witness:
  "initialize_slab_allocator empty_allocator = Inl Out_of_bounds \<and>
   (\<exists>C. initialize_cache 7 (size_caches empty_allocator 3) = Inr C \<and> cache_pages C = 1 \<and>
     unat (cache_count C) = (GREATEST k. fits (4096 - unat sizeof_Slab) (2 ^ 7) k))"
proof -
  have "(7 :: nat) \<in> {4..10}"
    by simp
  with initialize_slab_allocator_out_of_bounds [of empty_allocator "\<lambda>_. []" "size_caches empty_allocator 3"]
  have "\<exists>C. initialize_cache 7 (size_caches empty_allocator 3) = Inr C \<and> cache_pages C = 1 \<and>
     (let sz = 4096 - (if (7 :: nat) < 9 then unat sizeof_Slab else 0) in
      unat (cache_count C) = (GREATEST k. fits sz (2 ^ 7) k))"
    by blast
  with initialize_slab_allocator_out_of_bounds [of empty_allocator "\<lambda>_. []" "size_caches empty_allocator 3"] show ?thesis
    unfolding Let_def by simp
qed

text \<open>
  C4. \<open>kalloc\<close> of at most 1024 bytes returns an aligned object of the least cache that holds the
  size; no client held it and it shares no byte with an object a client holds. All other
  objects, the invariant of the slabs and the account of the pages (every page of the supply
  is a slab's or someone else's) are kept. NULL is returned only when the supply returned NULL,
  and then no object changes hands.
\<close>

theorem kalloc_fresh_object:
  assumes "supplies ap fp used" and "slabs_inv s P F fr" and "pages_ok used s P F others" and "unat sz \<le> 1024"
  shows "\<exists>r s' P' F' fr'. kalloc ap fp (Suc (Suc d)) sz s = Inr (r, s') \<and>
    slabs_inv s' P' F' fr' \<and> pages_ok used s' P' F' others \<and> (r = 0 \<longrightarrow> exhausted ap s) \<and>
    (let c = get_min_cache_order sz - 4 in
     if r = 0 then client s' P' F' fr' = client s P F fr
     else (c, r) \<notin> client s P F fr \<and> client s' P' F' fr' = insert (c, r) (client s P F fr) \<and>
       unat sz \<le> 2 ^ (c + 4) \<and> 16 dvd unat r \<and>
       (\<forall>(e, y) \<in> client s P F fr. object_bytes c r \<inter> object_bytes e y = {}))"
proof -
  let ?c = "get_min_cache_order sz - 4"
  have c: "?c < 7" and size: "unat sz \<le> 2 ^ (?c + 4)"
    by (rule get_min_cache_order_small [OF assms(4)])+
  from kalloc_ok [OF assms(1-4) refl] obtain r s' P' F' fr' where
    k: "kalloc ap fp (Suc (Suc d)) sz s = Inr (r, s')" and g: "client_grown used others s P F fr ?c r s' P' F' fr'"
    and ex: "r = 0 \<longrightarrow> exhausted ap s"
    by blast
  have inv': "slabs_inv s' P' F' fr'" and pages': "pages_ok used s' P' F' others"
    and cl: "client s' P' F' fr' = (if r = 0 then client s P F fr else insert (?c, r) (client s P F fr))"
    and new: "r \<noteq> 0 \<longrightarrow> (?c, r) \<notin> client s P F fr"
    using g by (simp_all add: client_grown_def)
  have "16 dvd unat r" if "r \<noteq> 0"
  proof -
    have "(?c, r) \<in> client s' P' F' fr'"
      using cl that by simp
    then have "r \<in> objs s' P' F' fr' ?c"
      by (simp add: client_def)
    from objs_cases [OF inv' c this] show ?thesis
      using object_nonzero(2) [OF inv' c] by metis
  qed
  moreover have "object_bytes ?c r \<inter> object_bytes e y = {}" if "r \<noteq> 0" "(e, y) \<in> client s P F fr" for e y
    using that cl new by (intro client_apart [OF inv']) auto
  ultimately show ?thesis
    using k inv' pages' ex cl new size by (intro exI [of _ r] exI [of _ s'] exI [of _ P'] exI [of _ F'] exI [of _ fr']) (auto simp: Let_def)
qed

lemma initialized_caches:
  obtains s where "initialize_caches [4..<11] empty_allocator = Inr s" "slabs_inv s (\<lambda>_. []) (\<lambda>_. []) (\<lambda>_. [])"
    "client s (\<lambda>_. []) (\<lambda>_. []) (\<lambda>_. []) = {}" "pages_ok (\<lambda>U. U) s (\<lambda>_. []) (\<lambda>_. []) {}" "\<not> exhausted two_pages s"
proof -
  obtain cs where cs: "initialize_caches [4..<11] empty_allocator = Inr (empty_allocator\<lparr>size_caches := cs\<rparr>)"
    "\<forall>k \<in> set [4..<11]. cfg_ok (k - 4) (cs (k - 4)) \<and> cache_part (cs (k - 4)) = 0 \<and> cache_full (cs (k - 4)) = 0 \<and>
       cache_pages (cs (k - 4)) = 1"
    using initialize_caches_ok [of "[4..<11]" empty_allocator] by auto
  have at: "cfg_ok c (cs c) \<and> cache_part (cs c) = 0 \<and> cache_full (cs c) = 0 \<and> cache_pages (cs c) = 1" if "c < 7" for c
  proof -
    have "c + 4 \<in> set [4..<11]"
      using that by (subst set_upt) simp
    from bspec [OF cs(2) this] show ?thesis
      by simp
  qed
  let ?s = "empty_allocator\<lparr>size_caches := cs\<rparr>"
  have "\<not> refuses two_pages ?s {}" "\<not> refuses two_pages ?s (page_range 0x1000 1)"
    using at page_range_nonempty by (auto simp: refuses_def two_pages_def)
  then have "\<not> exhausted two_pages ?s"
    using at by (auto simp: exhausted_def two_pages_def empty_allocator_def)
  with at show ?thesis
    by (intro that [OF cs(1)])
      (simp_all add: slabs_inv_def lists_ok_def slabs_of_def apart_def headers_ok_def client_def objs_def footprint_def
        pages_ok_def empty_allocator_def)
qed

theorem kalloc_fresh_object_witness:
  "\<exists>s r s' P' F' fr'. initialize_caches [4..<11] empty_allocator = Inr s \<and>
     kalloc two_pages give_back (Suc (Suc 0)) 100 s = Inr (r, s') \<and> r \<noteq> 0 \<and> slabs_inv s' P' F' fr' \<and>
     client s' P' F' fr' = {(3, r)} \<and> pages_ok (\<lambda>U. U) s' P' F' {}"
proof -
  obtain s where s: "initialize_caches [4..<11] empty_allocator = Inr s" "slabs_inv s (\<lambda>_. []) (\<lambda>_. []) (\<lambda>_. [])"
    "client s (\<lambda>_. []) (\<lambda>_. []) (\<lambda>_. []) = {}" "pages_ok (\<lambda>U. U) s (\<lambda>_. []) (\<lambda>_. []) {}" "\<not> exhausted two_pages s"
    by (rule initialized_caches)
  have "unat (100 :: u64) \<le> 1024"
    by simp
  from kalloc_fresh_object [OF supplies_two_pages s(2,4) this, of 0, unfolded Let_def s(3)]
  obtain r s' P' F' fr' where k: "kalloc two_pages give_back (Suc (Suc 0)) 100 s = Inr (r, s')" "slabs_inv s' P' F' fr'"
    "pages_ok (\<lambda>U. U) s' P' F' {}" "r = 0 \<longrightarrow> exhausted two_pages s"
    "if r = 0 then client s' P' F' fr' = {}
     else (get_min_cache_order 100 - 4, r) \<notin> {} \<and> client s' P' F' fr' = {(get_min_cache_order 100 - 4, r)} \<and>
       unat (100 :: u64) \<le> 2 ^ (get_min_cache_order 100 - 4 + 4) \<and> 16 dvd unat r \<and>
       (\<forall>(e, y) \<in> {}. object_bytes (get_min_cache_order 100 - 4) r \<inter> object_bytes e y = {})"
    by blast
  moreover have "get_min_cache_order 100 - 4 = 3"
    by code_simp
  ultimately show ?thesis
    using s(1,5) by (auto simp del: kalloc.simps)
qed

text \<open>
  C5. \<open>kfree\<close> of an object a client holds takes exactly this object from the client's: the slab
  that holds it is found, all other objects, the invariant and the account of the pages are
  kept, and a slab without objects gives its pages back to the supply.
\<close>

theorem kfree_releases:
  assumes "supplies ap fp used" and "slabs_inv s P F fr" and "pages_ok used s P F others" and "(c, x) \<in> client s P F fr"
  shows "\<exists>s' P' F' fr'. kfree fp (Suc (Suc d)) x s = Inr s' \<and> slabs_inv s' P' F' fr' \<and>
    pages_ok used s' P' F' others \<and> client s' P' F' fr' = client s P F fr - {(c, x)}"
  using kfree_ok [OF assms, of d] unfolding client_shrunk_def by blast

theorem kfree_releases_witness:
  "\<exists>s r s' s'' P F fr. initialize_caches [4..<11] empty_allocator = Inr s \<and>
     kalloc two_pages give_back (Suc (Suc 0)) 100 s = Inr (r, s') \<and> r \<noteq> 0 \<and> kfree give_back (Suc (Suc 0)) r s' = Inr s'' \<and>
     slabs_inv s'' P F fr \<and> client s'' P F fr = {}"
proof -
  obtain s where s: "initialize_caches [4..<11] empty_allocator = Inr s" "slabs_inv s (\<lambda>_. []) (\<lambda>_. []) (\<lambda>_. [])"
    "client s (\<lambda>_. []) (\<lambda>_. []) (\<lambda>_. []) = {}" "pages_ok (\<lambda>U. U) s (\<lambda>_. []) (\<lambda>_. []) {}" "\<not> exhausted two_pages s"
    by (rule initialized_caches)
  have "unat (100 :: u64) \<le> 1024"
    by simp
  from kalloc_ok [OF supplies_two_pages s(2,4) this refl, of 0]
  obtain r s' P' F' fr' where k: "kalloc two_pages give_back (Suc (Suc 0)) 100 s = Inr (r, s')" "slabs_inv s' P' F' fr'"
    "pages_ok (\<lambda>U. U) s' P' F' {}" "r = 0 \<longrightarrow> exhausted two_pages s"
    "client s' P' F' fr' = (if r = 0 then {} else {(get_min_cache_order 100 - 4, r)})"
    unfolding client_grown_def s(3) by blast
  from k(4,5) s(5) have r: "r \<noteq> 0" "(get_min_cache_order 100 - 4, r) \<in> client s' P' F' fr'"
    by auto
  from kfree_releases [OF supplies_two_pages k(2,3) r(2), of 0] show ?thesis
    unfolding k(5) using s(1) k(1) r(1) by (auto simp del: kfree.simps kalloc.simps)
qed

text \<open>
  A request of 1025 to 2048 bytes fails: its order is 11, the last of the caches, and the
  access to the cache is past the end of \<open>size_caches\<close>.
\<close>

theorem kalloc_order_11_out_of_bounds:
  assumes "1024 < unat sz" and "unat sz \<le> 2048"
  shows "kalloc ap fp (Suc d) sz s = Inl Out_of_bounds"
proof -
  have k: "4 \<le> get_min_cache_order sz" "get_min_cache_order sz \<le> 12"
    "get_min_cache_order sz = 4 \<or> 2 ^ (get_min_cache_order sz - 1) < unat sz" "get_min_cache_order sz = 12 \<or> unat sz \<le> 2 ^ get_min_cache_order sz"
    using get_min_cache_order_spec [of sz] by (simp_all add: Let_def)
  have "get_min_cache_order sz \<noteq> 12"
    using k(3) assms(2) by auto
  moreover have "10 < get_min_cache_order sz"
  proof (rule ccontr)
    assume "\<not> 10 < get_min_cache_order sz"
    then have "(2 :: nat) ^ get_min_cache_order sz \<le> 2 ^ 10"
      by (intro power_increasing) auto
    with k(4) \<open>get_min_cache_order sz \<noteq> 12\<close> assms(1) show False
      by auto
  qed
  ultimately have "get_min_cache_order sz = 11"
    using k(2) by linarith
  then show ?thesis
    by (simp add: CACHE_END_ORDER_def get_cache_def CACHE_START_ORDER_def NUM_CACHES_def)
qed

theorem kalloc_order_11_out_of_bounds_witness: "kalloc two_pages give_back (Suc (Suc 0)) 1025 empty_allocator = Inl Out_of_bounds"
  by (rule kalloc_order_11_out_of_bounds) simp_all

text \<open>
  \<open>kfree\<close> of a pointer that no slab holds never reaches the list of page allocations: the
  search goes through the caches up to \<open>CACHE_END_ORDER\<close>, and the cache of this order is past
  the end of \<open>size_caches\<close>.
\<close>

theorem kfree_page_allocation_out_of_bounds:
  assumes "slabs_inv s P F fr" and "\<forall>c < 7. \<forall>p \<in> slabs_of P F c. unat x \<notin> bytes_of s c p"
  shows "kfree fp (Suc d) x s = Inl Out_of_bounds"
proof -
  have other: "\<not> range_contains x (slab_mem (slabs s q)) (ucast (cache_mem_size (size_caches s e)))"
    if q: "e < 7" "q \<in> slabs_of P F e" for e q
    using assms(2) q contains_bytes [OF slabs_invD(1) [OF assms(1) q(1)] slabs_inv_wf [OF assms(1) q(1,2)]]
    by (auto simp: bytes_of_def)
  have L: "dl (slabs s) 0 (cache_part (size_caches s e)) (P e)" "dl (slabs s) 0 (cache_full (size_caches s e)) (F e)"
    "distinct (P e)" "distinct (F e)" if "e < 7" for e
    using slabs_invD(2) [OF assms(1) that] by (auto simp: lists_ok_def)
  have len: "length (P e) < Suc loop_fuel" "length (F e) < Suc loop_fuel" if "e < 7" for e
    using distinct_u64_length [OF L(3) [OF that]] distinct_u64_length [OF L(4) [OF that]] by simp_all
  let ?r = "kfree fp d"
  have skip: "free_from_slab_list fp ?r (Suc loop_fuel) x e (cache_part (size_caches s e)) s = Inr (False, s)"
    "free_from_slab_list fp ?r (Suc loop_fuel) x e (cache_full (size_caches s e)) s = Inr (False, s)" if "e < 7" for e
    using that other by (auto intro!: free_from_slab_list_skip [OF L(1) len(1)] free_from_slab_list_skip [OF L(2) len(2)]
        simp: slabs_of_def simp del: free_from_slab_list.simps)
  have "[CACHE_START_ORDER..<CACHE_END_ORDER + 1] = [4..<11] @ [11]"
    by (simp add: CACHE_START_ORDER_def CACHE_END_ORDER_def upt_rec)
  moreover have "free_from_caches fp ?r x ([4..<11] @ [11]) s = free_from_caches fp ?r x [11] s"
    by (intro free_from_caches_skip ballI conjI skip) auto
  moreover have "free_from_caches fp ?r x [11] s = Inl Out_of_bounds"
    by (simp add: get_cache_def CACHE_START_ORDER_def CACHE_END_ORDER_def NUM_CACHES_def)
  ultimately show ?thesis
    by (simp del: free_from_caches.simps)
qed

theorem kfree_page_allocation_out_of_bounds_witness:
  "\<exists>s. initialize_caches [4..<11] empty_allocator = Inr s \<and> kfree give_back (Suc 0) 0x4000 s = Inl Out_of_bounds"
proof -
  obtain s where s: "initialize_caches [4..<11] empty_allocator = Inr s" "slabs_inv s (\<lambda>_. []) (\<lambda>_. []) (\<lambda>_. [])"
    by (rule initialized_caches)
  have "kfree give_back (Suc 0) 0x4000 s = Inl Out_of_bounds"
    by (rule kfree_page_allocation_out_of_bounds [OF s(2)]) (simp add: slabs_of_def)
  with s(1) show ?thesis
    by blast
qed

end
