(* ===== verification/Syscalls_Properties.thy ===== *)
theory Syscalls_Properties
  imports Syscalls
begin

text \<open>
  Where a system call ends up: the entry of the table the dispatcher calls, and the segments and
  the entry point the processor takes from the model-specific registers.
\<close>

definition syscall_handlers :: "syscall_addresses \<Rightarrow> u64 list" where
  "syscall_handlers f = [addr_syscall_halt f, addr_syscall_alloc_pages f, addr_syscall_get_framebuffer f,
     addr_syscall_getch f, addr_syscall_get_keystate f]"

lemmas syscall_numbers = SYSCALL_HALT_def SYSCALL_ALLOC_PAGES_def SYSCALL_GET_FRAMEBUFFER_def SYSCALL_GETCH_def SYSCALL_GET_KEYSTATE_def NUM_SYSCALLS_def

lemma fill_syscall_table_entry:
  assumes "n < 5"
  shows "load64 (fill_syscall_table f t m) (t + 8 * of_nat n) = syscall_handlers f ! n"
proof -
  have "n \<in> {0, 1, 2, 3, 4}"
    using assms by auto
  then show ?thesis
    by (auto simp: fill_syscall_table_def Let_def syscall_handlers_def syscall_numbers load64_store64 load64_store64_offset)
qed

lemma fill_syscall_table_other:
  assumes "40 \<le> unat d" "unat d \<le> 2 ^ 64 - 8"
  shows "load64 (fill_syscall_table f t m) (t + d) = load64 m (t + d)"
proof -
  have d: "8 \<le> unat (d - c) \<and> 8 \<le> unat (c - d)" if "unat c \<le> 32" for c
  proof -
    have "c \<le> d"
      using that assms(1) by (simp add: word_le_nat_alt)
    then have u: "unat (d - c) = unat d - unat c"
      by (rule unat_sub_u64)
    moreover have "unat (c - d) = 2 ^ 64 - (unat d - unat c)"
    proof -
      have "d - c \<noteq> 0"
        using that assms(1) by auto
      from unat_minus_u64 [OF this] show ?thesis
        by (simp only: minus_diff_eq u)
    qed
    ultimately show ?thesis
      using that assms by linarith
  qed
  show ?thesis using d [of 8] d [of 16] d [of 24] d [of 32] d [of 0]
    by (simp add: fill_syscall_table_def Let_def syscall_numbers load64_store64_offset)
qed


lemma syscall_dispatch_table:
  assumes "0 \<notin> set (syscall_handlers f)"
  shows "syscall_dispatcher (fill_syscall_table f t m) t rax =
    (if 5 \<le> sint rax then None
     else if 0 \<le> sint rax then Some (syscall_handlers f ! unat rax)
     else if unat (8 * rax) < 40 then Some (syscall_handlers f ! (unat (8 * rax) div 8))
     else if load64 m (t + 8 * rax) = 0 then None else Some (load64 m (t + 8 * rax)))"
proof -
  let ?m = "fill_syscall_table f t m"
  have u: "unat (8 * rax) = 8 * (unat rax mod 2 ^ 61)"
    by (simp add: unat_word_ariths(2) mult_mod_right)
  have sh: "push_bit 3 rax + t = t + 8 * rax"
    by (simp add: push_bit_eq_mult mult.commute)
  have entry: "load64 ?m (t + 8 * rax) = syscall_handlers f ! (unat (8 * rax) div 8)" "syscall_handlers f ! (unat (8 * rax) div 8) \<noteq> 0"
    if "unat (8 * rax) < 40"
  proof -
    let ?n = "unat (8 * rax) div 8"
    have n: "?n < 5"
      using that by simp
    have "8 * rax = of_nat (unat (8 * rax))"
      by simp
    also have "unat (8 * rax) = 8 * ?n"
      using u by simp
    finally have "8 * rax = 8 * of_nat ?n"
      by simp
    then show "load64 ?m (t + 8 * rax) = syscall_handlers f ! ?n"
      using fill_syscall_table_entry [OF n, of f t m] by simp
    show "syscall_handlers f ! ?n \<noteq> 0"
      using n assms nth_mem [of ?n "syscall_handlers f"] by (auto simp: syscall_handlers_def)
  qed
  consider "5 \<le> sint rax" | "0 \<le> sint rax" "sint rax < 5" | "sint rax < 0" "unat (8 * rax) < 40" | "sint rax < 0" "40 \<le> unat (8 * rax)"
    by linarith
  then show ?thesis
  proof cases
    case 1
    then show ?thesis
      by (simp add: syscall_dispatcher_def NUM_SYSCALLS_def)
  next
    case 2
    then have "unat rax = nat (sint rax)"
      by (simp add: unat_of_small_sint)
    with 2 have "unat rax < 5"
      by simp
    moreover from this have "unat (8 * rax) = 8 * unat rax"
      by (subst unat_mult_u64) simp_all
    ultimately show ?thesis
      using 2 entry by (simp add: syscall_dispatcher_def NUM_SYSCALLS_def sh)
  next
    case 3
    then show ?thesis
      using entry by (simp add: syscall_dispatcher_def NUM_SYSCALLS_def sh)
  next
    case 4
    have "unat rax mod 2 ^ 61 < 2 ^ 61"
      by simp
    then have "unat (8 * rax) \<le> 2 ^ 64 - 8"
      unfolding u by simp
    then show ?thesis
      using 4 fill_syscall_table_other [of "8 * rax" f t m] by (simp add: syscall_dispatcher_def NUM_SYSCALLS_def sh)
  qed
qed

text \<open>
  C32. After \<open>prepare_syscalls\<close>, the dispatcher calls the function of the call number for the numbers
  0 to 4 and nothing for the greater ones up to the largest signed number. A number with the top
  bit set passes the signed comparison: it calls a function of the table when its low 61 bits are
  below 5, and otherwise whatever non-zero word the kernel's memory outside the table holds.
\<close>

theorem syscall_dispatch:
  assumes "0 \<notin> set (syscall_handlers f)"
  shows "syscall_dispatcher (snd (prepare_syscalls f t (r, m))) t rax =
    (if 5 \<le> sint rax then None
     else if 0 \<le> sint rax then Some (syscall_handlers f ! unat rax)
     else if unat (8 * rax) < 40 then Some (syscall_handlers f ! (unat (8 * rax) div 8))
     else if load64 m (t + 8 * rax) = 0 then None else Some (load64 m (t + 8 * rax)))"
  using syscall_dispatch_table [OF assms] by (simp add: prepare_syscalls_def)

definition example_handlers :: syscall_addresses where
  "example_handlers = \<lparr>addr_syscall_halt = 0x100, addr_syscall_alloc_pages = 0x200, addr_syscall_get_framebuffer = 0x300,
     addr_syscall_getch = 0x400, addr_syscall_get_keystate = 0x500, addr_syscall_dispatcher = 0x600\<rparr>"

theorem syscall_dispatch_witness:
  "let m = snd (prepare_syscalls example_handlers 0x1000 (\<lparr>msr_efer = 0, msr_star = 0, msr_lstar = 0\<rparr>, \<lambda>_. 0)) in
     syscall_dispatcher m 0x1000 3 = Some 0x400 \<and> syscall_dispatcher m 0x1000 0x8000000000000001 = Some 0x200"
  unfolding Let_def by (subst (1 2) syscall_dispatch) (simp_all add: example_handlers_def syscall_handlers_def)

text \<open>
  After \<open>prepare_syscalls\<close> the processor enters the dispatcher in the kernel's code segment
  with the segment after it as the stack, returns to the user's code and data segments with
  privilege 3, and only the enable bit of EFER and the upper half of STAR have changed besides
  the entry point.
\<close>

theorem prepare_syscalls_registers:
  "let r' = fst (prepare_syscalls f t (r, m)) in
     msr_lstar r' = addr_syscall_dispatcher f \<and> msr_efer r' = set_bit 0 (msr_efer r) \<and>
     take_bit 32 (msr_star r') = take_bit 32 (msr_star r) \<and>
     take_bit 16 (drop_bit 32 (msr_star r')) = ucast GDT_KERNEL_CODE_SEGMENT \<and>
     take_bit 16 (drop_bit 32 (msr_star r')) + 8 = ucast GDT_KERNEL_DATA_SEGMENT \<and>
     drop_bit 48 (msr_star r') + 8 = ucast (GDT_USER_DATA_SEGMENT OR 3) \<and>
     drop_bit 48 (msr_star r') + 16 = ucast (GDT_USER_CODE_SEGMENT OR 3)"
proof -
  have z: "\<not> bit (x :: u32) n" if "\<not> n < 32" for x n
    using that bit_imp_le_length [of x n] by auto
  have zd: "bit (x :: u32) n \<Longrightarrow> n < 32" for x n
    using z by blast
  have parts: "drop_bit 32 (wrmsr hi lo) = ucast hi" "take_bit 32 (wrmsr hi lo) = ucast lo"
    "drop_bit 48 (wrmsr hi lo) = ucast (drop_bit 16 hi)" for hi lo
    by (auto simp: wrmsr_def intro!: bit_word_eqI simp: bit_simps z not_less split: if_splits) (drule zd, simp)+
  have m: "(0xffffffff :: u32) = mask 32"
    by (simp add: mask_eq_exp_minus_1)
  have "wrmsr (ucast (drop_bit 32 a) AND 0xffffffff) (ucast a AND 0xffffffff) = a" for a
    unfolding m wrmsr_def by (rule bit_word_eqI) (auto simp: bit_simps)
  moreover have "wrmsr (ucast (drop_bit 32 e)) (ucast e OR 1) = set_bit 0 e" for e
    unfolding wrmsr_def by (rule bit_word_eqI) (auto simp: bit_simps)
  moreover have "ucast (ucast v :: u32) = take_bit 32 v" for v :: u64
    by (rule bit_word_eqI) (auto simp: bit_simps)
  ultimately show ?thesis
    by (simp add: prepare_syscalls_def write_syscall_msrs_def Let_def parts star_high_def GDT_KERNEL_CODE_SEGMENT_def GDT_USER_CODE_SEGMENT_def
        GDT_KERNEL_DATA_SEGMENT_def GDT_USER_DATA_SEGMENT_def)
qed

end
