(* ===== verification/Timer.thy ===== *)
theory Timer
  imports Apic Idt
begin

text \<open>
  \<open>initialize_process_system\<close> of kernel/src/process_system.c: the timer of the local APIC and its
  interrupt. The rest of the function is compiled out (\<open>#if 0\<close>).
\<close>

definition APIC_TIMER_IRQ_MASK :: u32 where
  "APIC_TIMER_IRQ_MASK = 0xff"

definition APIC_TIMER_MODE_MASK :: u32 where
  "APIC_TIMER_MODE_MASK = push_bit 17 0b11"

definition APIC_TIMER_PERIODIC_MODE :: u32 where
  "APIC_TIMER_PERIODIC_MODE = push_bit 17 0b1"

definition APIC_TIMER_MASKED_MASK :: u32 where
  "APIC_TIMER_MASKED_MASK = push_bit 16 1"

definition APIC_TIMER_IRQ :: u8 where
  "APIC_TIMER_IRQ = 32"

definition initialize_process_system :: "u64 \<Rightarrow> LocalAPIC \<times> IDT \<Rightarrow> LocalAPIC \<times> IDT" where
  "initialize_process_system handler_address = (\<lambda>(l, idt).
     let idt = register_interrupt APIC_TIMER_IRQ INTERRUPT_GATE False handler_address idt;
         l = l\<lparr>lvt_timer := lvt_timer l AND NOT APIC_TIMER_MODE_MASK\<rparr>;
         l = l\<lparr>lvt_timer := lvt_timer l OR APIC_TIMER_PERIODIC_MODE\<rparr>;
         l = l\<lparr>lvt_timer := lvt_timer l AND NOT APIC_TIMER_IRQ_MASK\<rparr>;
         l = l\<lparr>lvt_timer := lvt_timer l OR ucast APIC_TIMER_IRQ\<rparr>;
         l = l\<lparr>lvt_lint0 := lvt_lint0 l OR APIC_TIMER_MODE_MASK\<rparr>;
         l = l\<lparr>lvt_lint1 := lvt_lint1 l OR APIC_TIMER_MODE_MASK\<rparr>
     in (l\<lparr>divide_configuration := 0\<rparr>, idt))"

end
