(* ===== verification/Spec2Isabelle.thy ===== *)
theory Spec2Isabelle
  imports Acpi_Properties Ahci_Init_Properties Apic_Properties Boot_Properties Contiguous_Pages Exceptions Frame_Properties Kernel_Entry Libc_Stdlib Pci_Properties Process_Properties Ps2_Properties Slab_Properties Syscalls_Properties Timer
begin

text \<open>
  A verification development for plusplus-os, an x86-64 kernel with a UEFI boot loader, a small libc
  and one program. It follows the C sources function by function.

  \<^bold>\<open>The program.\<close> The boot loader (src/bootloader) asks the firmware for the screen, the kernel file,
  the ACPI root pointer and the memory map, loads the kernel and enters it. The kernel (src/kernel)
  sets up its memory in layers that need each other: the frame allocator hands out physical pages
  and keeps its lists in 16-byte nodes from the entry pool; the pool refills itself with
  \<open>alloc_pages\<close>, which takes frames and has the page mapper map them; the mapper takes nodes and,
  for a new page table, frames again; \<open>kalloc\<close> cuts pages into objects. On top of them come the
  descriptor tables, exceptions, ACPI tables, the PCI list, the interrupt controllers, the disk
  driver, system calls, the keyboard and the processes, which the timer interrupt switches.

  \<^bold>\<open>How code is modelled.\<close>
  \<^item> A function of the code is a definition of the same name. State is passed explicitly: a record
  per component, each extending the one below it (\<open>mem_state\<close>, \<open>pool_state\<close>, \<open>frame_state\<close>,
  \<open>paging_state\<close>, then the slab allocator's). A component that only calls memory services has them
  as the fields of a record of operations.
  \<^item> Integers are words of the width in the source. Packed structs and page table entries are words
  with their fields (Bit_Fields, Paging_Entries); ACPI tables, ELF images, the saved registers of
  processes and everything the string functions touch are bytes in memory (Byte_Memory).
  \<^item> A failed \<open>KERNEL_ASSERT\<close>, a NULL dereference, a page fault, an index outside an array and a loop
  that does not end are the left side of the result type \<open>res\<close> (Prelude).
  \<^item> A \<open>while\<close> loop whose end depends on data in memory has fuel: \<open>Suc loop_fuel\<close> with
  \<open>loop_fuel = 2 ^ 64\<close>. A list visits a 64-bit address at most once unless it is cyclic, and a
  counter of 64 bits takes no more values, so that a run which needs more fuel is one that does not
  end. The theorems state that enough was there. The recursion between the pool, the frame
  allocator and the mapper (Memory) has a depth as its argument; the theorems hold at every depth
  that is named in them.
  \<^item> Waiting for a device reads a list of the values its registers take; an empty list is a wait
  that never ends.

  \<^bold>\<open>The theories.\<close>
  \<^item> Prelude, Bit_Fields, Byte_Memory, Util (kernel/src/util.c), Uefi (kernel/include/uefi.h): words,
  results, fields, bytes; rounding and range checks; the firmware's memory map.
  \<^item> Node_Heap, Entry_Pool (memory/entry_pool.c): the nodes and their pool. The locale
  \<open>entry_source\<close> states what the pool's clients rely on; the pool is an interpretation of it.
  \<^item> Frame_Allocator (memory/frame_allocator.c). Buddy_Spec is the abstract allocator: sets of blocks.
  Frame_Bits, Frame_Lists, Frame_Orders and Frame_Invariant relate lists and bitmaps to it; Frame_Split,
  Frame_Alloc, Frame_Contiguos, Frame_Remove and Frame_Free prove each operation, for any node source
  that satisfies the locale \<open>frame_entry_source\<close>; Frame_Properties instantiates them with the
  kernel's pool: exactly the pages asked for are taken, freed or removed, and where the code reads
  outside its arrays.
  \<^item> Paging_Entries, Paging (memory/paging.c), Paging_Init (initialize_paging), Memory (memory.c): address
  spaces, page tables, mapping and unmapping. The processor is a four-level walk over the tables in
  physical memory. Paging_Tables has the invariant that the kernel can reach every table it uses,
  and from it that its own walk is the processor's; Paging_Mapping has the effect of mapping one
  page and a range, Paging_Unmapping that of unmapping them; Paging_Properties states these for the
  kernel's operations, and the isolation of address spaces. Contiguous_Pages joins frames, pages and
  tables: the pages of \<open>alloc_pages_contiguous\<close> are one run of physical addresses, and
  \<open>free_pages_contiguous\<close> takes back exactly these.
  \<^item> Slab_Allocator (memory/slab_allocator.c): \<open>kalloc\<close> and \<open>kfree\<close>. Slab_Lists, Slab_Invariant, Slab_Take,
  Slab_New, Slab_Return, Slab_Kalloc, Slab_Kfree and Slab_Init lead to Slab_Properties: objects handed out
  are aligned, inside their slab, and apart from all others, and are returned by \<open>kfree\<close>.
  \<^item> Libc_String, Libc_Stdlib (src/libc): copying, comparing and the conversion of numbers.
  \<^item> Font, Rendering, Rendering_Properties (kernel/src/rendering.c): what is drawn, pixel by pixel;
  Text_Screen: what calls of \<open>put_string\<close> show, cell by cell.
  \<^item> Gdt, Idt, Exceptions (gdt.c, idt.c, exceptions.c, kassert.h): the descriptors as the processor reads
  them, and the reports of faults, every pixel of the screen.
  \<^item> Acpi, Apic, Pci, Ps2, Timer, Ahci, Ahci_Init and their Properties theories (acpi.c, apic.c, pci.c,
  ps2.c and port_io.c, process_system.c, ahci.c): tables of the firmware read from bytes, and
  devices behind their registers.
  \<^item> Process_System, Process_Properties (process_system.c): the context switch refines a round-robin
  scheduler over saved register frames, and every process is reached. The memory of a process is the
  bytes its address space maps: an access elsewhere faults, and the theorems say when the switch,
  which writes below the stack pointer of the user, meets such an address (\<open>frame_ok\<close>).
  \<^item> Syscalls, Syscalls_Properties (syscalls.c): which function a call number reaches.
  \<^item> Elf_Loader, Elf_Properties (elf_loader.c): an image appears in memory as its headers say.
  \<^item> Bootloader, Boot_Main, Boot_Properties (src/bootloader): loading the kernel, and what it is entered
  with. Kernel_Main, Kernel_Entry (main.c, stage1_entry.c, the program src/apps/terminal): the
  kernel's start, the order of its initializations, and the program's loop.

  \<^bold>\<open>Bounds of the statements.\<close> The theorem on \<open>kmap_phys_range\<close> is for ranges whose page tables exist and
  an empty list of freed ranges: making tables goes through the page pool, whose refill can fill the
  same table entry twice (a defect of the code), and taking part of a freed range makes the rest
  longer instead of shorter (\<open>alloc_addr_space_grows\<close>). The theorem on the reports of faults is for a screen of at
  least 50 columns and 21 rows of text. Orders of the frame allocator are 0 to 7,
  caches of the slab allocator hold objects of 16 to 1024 bytes.

  \<^bold>\<open>Not modelled.\<close>
  \<^item> The translation lookaside buffer: invalidations are logged (\<open>tlb\<close>), translation always walks the
  tables. Before the kernel loads its own tables the firmware's are the identity.
  \<^item> The memory behind the nodes of lists: a node is keyed by the pointer the kernel has for it, so a
  store through another mapping of the same frame is not seen there, and a pointer to a node that is not
  canonical does not fault.
  \<^item> Concurrency: interrupts are disabled while the kernel runs; an interrupt is a step of its own. Where
  the code waits for the keyboard, interrupts arrive before each read of the variable it polls.
  \<^item> Drawing on the screen is not part of the states of the memory theories; \<open>kernel_entry\<close> takes the
  initializations of the other theories as the fields of a record, because each has its own state.
  \<^item> Code compiled out with \<open>#if 0\<close>, the build files and linker scripts, and src/efilib: headers of
  the vendored gnu-efi, declarations of the firmware's interfaces without code of this system. The
  calls of the firmware that the boot loader makes are parameters.
\<close>

end
